(* ===== verification/Brf_Prelude.thy ===== *)
theory Brf_Prelude
  imports Main "HOL-Library.Word" "HOL-Library.List_Lexorder" "HOL-Library.Char_ord"
    "HOL-Library.Product_Lexorder"
begin

text \<open>
  Shared vocabulary of the development: machine word widths, the carrier of
  fallible results, the state-and-error operations of the coordinator, sorting by
  an explicit comparison as \<^verbatim>\<open>std::sort\<close> does, and the generic lemmas
  the components use.

  \<^item> \<^verbatim>\<open>Result<T>\<close> and \<^verbatim>\<open>Status\<close> of \<^verbatim>\<open>include/brf/error.hpp\<close> are the
    sum \<open>error + 'a\<close>, \<open>Inl\<close> carrying the error code. The message text
    is not modelled: the source states that callers branch on the code only.
  \<^item> \<^verbatim>\<open>std::uint64_t\<close> and its kin are words, so that they wrap as in C++.
  \<^item> \<^verbatim>\<open>std::int64_t\<close> is \<open>int\<close>: signed overflow is undefined in C++, so
    the lemmas show instead that the values stay inside \<open>int64_ok\<close>.
\<close>

unbundle bit_operations_syntax

type_synonym u8 = "8 word"
type_synonym u16 = "16 word"
type_synonym u32 = "32 word"
type_synonym u64 = "64 word"
type_synonym bytes = "u8 list"

named_theorems codec_rt \<open>round-trip equations of the encoders and decoders\<close>
named_theorems codec_only \<open>inversions of the decoders\<close>
named_theorems wf_intros \<open>introduction rules for well-formedness invariants\<close>

definition int64_ok :: "int \<Rightarrow> bool" where
  "int64_ok x \<longleftrightarrow> - (2 ^ 63) \<le> x \<and> x < 2 ^ 63"

text \<open>
  Two's complement reading of a 64-bit result, for the places where the source computes a
  value that may leave the range of \<^verbatim>\<open>std::int64_t\<close>, and the truncating division of C++.
\<close>

definition wrap_int64 :: "int \<Rightarrow> int" where
  "wrap_int64 x = (x + 2 ^ 63) mod 2 ^ 64 - 2 ^ 63"

definition tdiv :: "int \<Rightarrow> int \<Rightarrow> int" where
  "tdiv a b = (if 0 \<le> a then a div b else - ((- a) div b))"

lemma wrap_int64_ok [simp]: "int64_ok x \<Longrightarrow> wrap_int64 x = x"
  by (simp add: wrap_int64_def int64_ok_def)

lemma tdiv_nonneg [simp]: "0 \<le> a \<Longrightarrow> tdiv a b = a div b"
  by (simp add: tdiv_def)

subsection \<open>Results\<close>

definition bindE :: "'e + 'a \<Rightarrow> ('a \<Rightarrow> 'e + 'b) \<Rightarrow> 'e + 'b" where
  "bindE r f = (case r of Inl e \<Rightarrow> Inl e | Inr x \<Rightarrow> f x)"

definition is_ok :: "'e + 'a \<Rightarrow> bool" where
  "is_ok r = (case r of Inl _ \<Rightarrow> False | Inr _ \<Rightarrow> True)"

lemma bindE_simps [simp]:
  "bindE (Inl e) f = Inl e"
  "bindE (Inr x) f = f x"
  by (simp_all add: bindE_def)

lemma is_ok_simps [simp]:
  "\<not> is_ok (Inl e)"
  "is_ok (Inr x)"
  by (simp_all add: is_ok_def)

lemma bindE_Inr_iff: "bindE r f = Inr y \<longleftrightarrow> (\<exists>x. r = Inr x \<and> f x = Inr y)"
  by (cases r) auto

lemma bindE_Inl_iff: "bindE r f = Inl e \<longleftrightarrow> r = Inl e \<or> (\<exists>x. r = Inr x \<and> f x = Inl e)"
  by (cases r) auto

lemma is_ok_iff: "is_ok r \<longleftrightarrow> (\<exists>x. r = Inr x)"
  by (cases r) auto

subsection \<open>Operations on a state that may fail\<close>

text \<open>
  A member function of the coordinator reads and writes the coordinator's state
  and returns a \<^verbatim>\<open>Result\<close>; the state it reached is kept also when it
  returns an error.
\<close>

type_synonym ('s, 'e, 'a) op = "'s \<Rightarrow> ('e + 'a) \<times> 's"

definition ret :: "'a \<Rightarrow> ('s, 'e, 'a) op" where
  "ret x s = (Inr x, s)"

definition fail :: "'e \<Rightarrow> ('s, 'e, 'a) op" where
  "fail e s = (Inl e, s)"

definition andThen :: "('s, 'e, 'a) op \<Rightarrow> ('a \<Rightarrow> ('s, 'e, 'b) op) \<Rightarrow> ('s, 'e, 'b) op" where
  "andThen m f s = (case m s of (Inl e, s') \<Rightarrow> (Inl e, s') | (Inr x, s') \<Rightarrow> f x s')"

definition gets :: "('s \<Rightarrow> 'a) \<Rightarrow> ('s, 'e, 'a) op" where
  "gets f s = (Inr (f s), s)"

definition modify :: "('s \<Rightarrow> 's) \<Rightarrow> ('s, 'e, unit) op" where
  "modify f s = (Inr (), f s)"

definition lift :: "'e + 'a \<Rightarrow> ('s, 'e, 'a) op" where
  "lift r s = (r, s)"

definition guard_op :: "bool \<Rightarrow> 'e \<Rightarrow> ('s, 'e, unit) op" where
  "guard_op c e s = (if c then (Inr (), s) else (Inl e, s))"

fun each :: "('a \<Rightarrow> ('s, 'e, unit) op) \<Rightarrow> 'a list \<Rightarrow> ('s, 'e, unit) op" where
  "each f [] s = (Inr (), s)"
| "each f (x # xs) s = andThen (f x) (\<lambda>_. each f xs) s"

lemmas op_defs = ret_def fail_def andThen_def gets_def modify_def lift_def guard_op_def

subsection \<open>Sorting with an explicit comparison\<close>

text \<open>
  \<^verbatim>\<open>std::sort\<close> orders a range by a strict comparison \<open>lt\<close>. On the
  comparisons of the program it is modelled by insertion sort, which is stable; two
  elements that compare equal in one of these comparisons are told apart by no later use.
\<close>

fun insert_by :: "('a \<Rightarrow> 'a \<Rightarrow> bool) \<Rightarrow> 'a \<Rightarrow> 'a list \<Rightarrow> 'a list" where
  "insert_by lt x [] = [x]"
| "insert_by lt x (y # ys) = (if lt y x then y # insert_by lt x ys else x # y # ys)"

fun sort_by :: "('a \<Rightarrow> 'a \<Rightarrow> bool) \<Rightarrow> 'a list \<Rightarrow> 'a list" where
  "sort_by lt [] = []"
| "sort_by lt (x # xs) = insert_by lt x (sort_by lt xs)"

text \<open>\<^verbatim>\<open>std::unique\<close>: one of each run of equal neighbours is kept.\<close>

fun unique_by :: "('a \<Rightarrow> 'a \<Rightarrow> bool) \<Rightarrow> 'a list \<Rightarrow> 'a list" where
  "unique_by eq [] = []"
| "unique_by eq [x] = [x]"
| "unique_by eq (x # y # zs) = (if eq x y then unique_by eq (x # zs) else x # unique_by eq (y # zs))"

text \<open>\<^verbatim>\<open>std::adjacent_find\<close> on a sorted copy, the duplicate test of the source.\<close>

fun has_adjacent_dup :: "'a list \<Rightarrow> bool" where
  "has_adjacent_dup [] = False"
| "has_adjacent_dup [x] = False"
| "has_adjacent_dup (x # y # zs) = (x = y \<or> has_adjacent_dup (y # zs))"

lemma set_insert_by [simp]: "set (insert_by lt x xs) = insert x (set xs)"
  by (induction xs) auto

lemma set_sort_by [simp]: "set (sort_by lt xs) = set xs"
  by (induction xs) auto

lemma length_insert_by [simp]: "length (insert_by lt x xs) = Suc (length xs)"
  by (induction xs) auto

lemma length_sort_by [simp]: "length (sort_by lt xs) = length xs"
  by (induction xs) auto

lemma set_unique_by: "set (unique_by eq xs) \<subseteq> set xs"
  by (induction eq xs rule: unique_by.induct) auto

lemma insert_by_less: "insert_by (<) x xs = insort x (xs :: 'a :: linorder list)"
  by (induction xs) (auto simp: not_less)

lemma sort_by_less: "sort_by (<) xs = sort (xs :: 'a :: linorder list)"
  by (induction xs) (auto simp: insert_by_less)

lemma insert_by_key: "insert_by (\<lambda>a b. k a < k b) x xs = insort_key (k :: 'a \<Rightarrow> 'b :: linorder) x xs"
  by (induction xs) (auto simp: not_less)

lemma sort_by_key: "sort_by (\<lambda>a b. k a < k b) xs = sort_key (k :: 'a \<Rightarrow> 'b :: linorder) xs"
  by (induction xs) (auto simp: insert_by_key)

lemma adjacent_dup_sorted:
  "sorted xs \<Longrightarrow> has_adjacent_dup xs \<longleftrightarrow> \<not> distinct (xs :: 'a :: linorder list)"
  by (induction xs rule: has_adjacent_dup.induct) (auto dest: antisym)

lemma adjacent_dup_sort: "has_adjacent_dup (sort_by (<) xs) \<longleftrightarrow> \<not> distinct (xs :: 'a :: linorder list)"
  by (simp add: sort_by_less adjacent_dup_sorted)

subsection \<open>Bytes of words\<close>

lemma ucast_ucast_8_16:
  "ucast (ucast (v :: u16) :: u8) OR push_bit 8 (ucast (ucast (drop_bit 8 v) :: u8)) = v"
  by (rule bit_word_eqI) (auto simp: bit_simps)

lemma ucast_ucast_16_32:
  "ucast (ucast (v :: u32) :: u16) OR push_bit 16 (ucast (ucast (drop_bit 16 v) :: u16)) = v"
  by (rule bit_word_eqI) (auto simp: bit_simps)

lemma ucast_ucast_32_64:
  "ucast (ucast (v :: u64) :: u32) OR push_bit 32 (ucast (ucast (drop_bit 32 v) :: u32)) = v"
  by (rule bit_word_eqI) (auto simp: bit_simps)

lemma u8_all:
  assumes "list_all (\<lambda>n. P (of_nat n :: u8)) [0..<256]"
  shows "P b"
proof -
  have "unat b < 2 ^ LENGTH(8)" by (rule unsigned_less)
  then have "unat b \<in> set [0..<256]" by simp
  with assms have "P (of_nat (unat b))" by (simp only: list_all_iff)
  then show ?thesis by simp
qed

lemma word_less_succ: "g \<noteq> - 1 \<Longrightarrow> g < g + (1 :: 'a :: len word)"
  by (metis inc_less_eq_triv_imp not_le)

end
