(* ===== verification/Brf_Error.thy ===== *)
theory Brf_Error
  imports Brf_Prelude
begin

text \<open>
  The closed error taxonomy of \<^verbatim>\<open>include/brf/error.hpp\<close> and
  \<^verbatim>\<open>src/error.cpp\<close>. A \<^verbatim>\<open>Result<T>\<close> is \<open>T result\<close>; \<^verbatim>\<open>Status\<close> is
  \<open>unit result\<close>.
\<close>

datatype error_code =
    EOk | EInvalidArgument | EInvalidInterval | EInvalidBandwidth | EInvalidIdentity
  | EInvalidName | EOverflow | ENotFound | EAlreadyExists | EGenerationMismatch
  | EStaleEpoch | EStaleGeneration | EFencedClaimant | EAuthorityRequired
  | EPolicyRejected | EInsufficientCapacity | ECapacityOvercommit | EIllegalTransition
  | EIdempotentReplay | EConflict | ECorrupt | ETornTail | EIo | EUnsupported
  | EResourceExhausted | ECancelled | EShuttingDown | EInternal

type_synonym 'a result = "error_code + 'a"
type_synonym status = "unit result"

fun error_code_to_string :: "error_code \<Rightarrow> string" where
  "error_code_to_string EOk = ''OK''"
| "error_code_to_string EInvalidArgument = ''INVALID_ARGUMENT''"
| "error_code_to_string EInvalidInterval = ''INVALID_INTERVAL''"
| "error_code_to_string EInvalidBandwidth = ''INVALID_BANDWIDTH''"
| "error_code_to_string EInvalidIdentity = ''INVALID_IDENTITY''"
| "error_code_to_string EInvalidName = ''INVALID_NAME''"
| "error_code_to_string EOverflow = ''OVERFLOW''"
| "error_code_to_string ENotFound = ''NOT_FOUND''"
| "error_code_to_string EAlreadyExists = ''ALREADY_EXISTS''"
| "error_code_to_string EGenerationMismatch = ''GENERATION_MISMATCH''"
| "error_code_to_string EStaleEpoch = ''STALE_EPOCH''"
| "error_code_to_string EStaleGeneration = ''STALE_GENERATION''"
| "error_code_to_string EFencedClaimant = ''CLAIMANT_FENCED''"
| "error_code_to_string EAuthorityRequired = ''AUTHORITY_REQUIRED''"
| "error_code_to_string EPolicyRejected = ''POLICY_REJECTED''"
| "error_code_to_string EInsufficientCapacity = ''INSUFFICIENT_CAPACITY''"
| "error_code_to_string ECapacityOvercommit = ''CAPACITY_OVERCOMMIT''"
| "error_code_to_string EIllegalTransition = ''ILLEGAL_TRANSITION''"
| "error_code_to_string EIdempotentReplay = ''IDEMPOTENT_REPLAY''"
| "error_code_to_string EConflict = ''CONFLICT''"
| "error_code_to_string ECorrupt = ''CORRUPT''"
| "error_code_to_string ETornTail = ''TORN_TAIL''"
| "error_code_to_string EIo = ''IO''"
| "error_code_to_string EUnsupported = ''UNSUPPORTED''"
| "error_code_to_string EResourceExhausted = ''RESOURCE_EXHAUSTED''"
| "error_code_to_string ECancelled = ''CANCELLED''"
| "error_code_to_string EShuttingDown = ''SHUTTING_DOWN''"
| "error_code_to_string EInternal = ''INTERNAL''"

fun is_authority_refusal :: "error_code \<Rightarrow> bool" where
  "is_authority_refusal EStaleEpoch = True"
| "is_authority_refusal EStaleGeneration = True"
| "is_authority_refusal EGenerationMismatch = True"
| "is_authority_refusal EFencedClaimant = True"
| "is_authority_refusal EAuthorityRequired = True"
| "is_authority_refusal _ = False"

end
