(* ===== verification/Brf_Identity.thy ===== *)
theory Brf_Identity
  imports Brf_Error
begin

text \<open>
  Identities, counters, decimal numbers and validated names of
  \<^verbatim>\<open>include/brf/identity.hpp\<close> and \<^verbatim>\<open>src/identity.cpp\<close>.

  \<^verbatim>\<open>Identity128\<close> holds sixteen bytes and is ordered byte-lexicographically;
  here it is the \<open>128 word\<close> those bytes spell, most significant byte first. The
  lemmas at the end of the theory justify that reading: the bytes of an identity determine
  it, and comparing two identities is comparing their bytes lexicographically.
  \<^verbatim>\<open>Counter<Tag>\<close> is its 64-bit value; \<^verbatim>\<open>FixedName<N>\<close> is the string it
  views.
\<close>

unbundle bit_operations_syntax

type_synonym identity = "128 word"
type_synonym counter = u64

definition nil_id :: identity where
  "nil_id = 0"

definition is_nil :: "identity \<Rightarrow> bool" where
  "is_nil v \<longleftrightarrow> v = nil_id"

fun from_bytes_acc :: "identity \<Rightarrow> bytes \<Rightarrow> identity" where
  "from_bytes_acc a [] = a"
| "from_bytes_acc a (b # bs) = from_bytes_acc (push_bit 8 a OR ucast b) bs"

definition from_bytes :: "bytes \<Rightarrow> identity" where
  "from_bytes bs = from_bytes_acc 0 bs"

definition id_byte :: "identity \<Rightarrow> nat \<Rightarrow> u8" where
  "id_byte v i = ucast (drop_bit (8 * (15 - i)) v)"

definition id_bytes :: "identity \<Rightarrow> bytes" where
  "id_bytes v = map (id_byte v) [0..<16]"

subsection \<open>Hexadecimal spelling\<close>

definition hex_digits :: string where
  "hex_digits = ''0123456789abcdef''"

text \<open>\<^verbatim>\<open>hex_value\<close>; the source's \<open>-1\<close> is \<open>None\<close>.\<close>

definition hex_value :: "char \<Rightarrow> nat option" where
  "hex_value ch =
     (if CHR ''0'' \<le> ch \<and> ch \<le> CHR ''9'' then Some (of_char ch - of_char CHR ''0'')
      else if CHR ''a'' \<le> ch \<and> ch \<le> CHR ''f'' then Some (of_char ch - of_char CHR ''a'' + 10)
      else if CHR ''A'' \<le> ch \<and> ch \<le> CHR ''F'' then Some (of_char ch - of_char CHR ''A'' + 10)
      else None)"

fun bytes_of_hex :: "string \<Rightarrow> bytes result" where
  "bytes_of_hex (a # b # cs) =
     (case (hex_value a, hex_value b) of
        (Some hi, Some lo) \<Rightarrow>
          bindE (bytes_of_hex cs) (\<lambda>bs. Inr ((push_bit 4 (of_nat hi) OR of_nat lo) # bs))
      | _ \<Rightarrow> Inl EInvalidIdentity)"
| "bytes_of_hex _ = Inr []"

definition from_hex :: "string \<Rightarrow> identity result" where
  "from_hex h = (if length h \<noteq> 32 then Inl EInvalidIdentity
                 else bindE (bytes_of_hex h) (\<lambda>bs. Inr (from_bytes bs)))"

definition hex_of_byte :: "u8 \<Rightarrow> string" where
  "hex_of_byte b = [hex_digits ! unat (drop_bit 4 b AND 15), hex_digits ! unat (b AND 15)]"

definition to_hex :: "identity \<Rightarrow> string" where
  "to_hex v = concat (map hex_of_byte (id_bytes v))"

definition format_identity :: "identity \<Rightarrow> string" where
  "format_identity v =
     (let hex = to_hex v
      in take 8 hex @ ''-'' @ take 4 (drop 8 hex) @ ''-'' @ take 4 (drop 12 hex) @ ''-'' @
         take 4 (drop 16 hex) @ ''-'' @ take 12 (drop 20 hex))"

subsection \<open>Counters and decimal numbers\<close>

definition counter_next :: "counter \<Rightarrow> counter result" where
  "counter_next v = (if v = - 1 then Inl EOverflow else Inr (v + 1))"

definition char_digit :: "char \<Rightarrow> nat option" where
  "char_digit ch = (if CHR ''0'' \<le> ch \<and> ch \<le> CHR ''9'' then Some (of_char ch - of_char CHR ''0'') else None)"

text \<open>
  The digit loop of \<^verbatim>\<open>parse_uint64_decimal\<close>, with its guard against
  overflow before every step. The accumulator is a \<open>nat\<close> below \<open>2 ^ 64\<close>.
\<close>

fun parse_digits :: "nat \<Rightarrow> string \<Rightarrow> nat result" where
  "parse_digits v [] = Inr v"
| "parse_digits v (ch # cs) =
     (case char_digit ch of
        None \<Rightarrow> Inl EInvalidArgument
      | Some d \<Rightarrow> if v > (2 ^ 64 - 1 - d) div 10 then Inl EOverflow
                  else parse_digits (v * 10 + d) cs)"

definition parse_uint64_decimal :: "string \<Rightarrow> u64 result" where
  "parse_uint64_decimal text =
     (if text = [] then Inl EInvalidArgument
      else if length text > 20 then Inl EOverflow
      else bindE (parse_digits 0 text) (\<lambda>v. Inr (of_nat v)))"

definition digit_char :: "nat \<Rightarrow> char" where
  "digit_char d = char_of (48 + d)"

text \<open>
  \<^verbatim>\<open>to_decimal\<close> collects the digits from the least significant one and then
  reverses them.
\<close>

fun rev_digits :: "nat \<Rightarrow> string" where
  "rev_digits v = (if v = 0 then [] else digit_char (v mod 10) # rev_digits (v div 10))"

declare rev_digits.simps [simp del]

definition to_decimal :: "u64 \<Rightarrow> string" where
  "to_decimal v = (if v = 0 then ''0'' else rev (rev_digits (unat v)))"

subsection \<open>Validated names\<close>

definition name_char_ok :: "char \<Rightarrow> bool" where
  "name_char_ok ch \<longleftrightarrow>
     (CHR ''A'' \<le> ch \<and> ch \<le> CHR ''Z'') \<or> (CHR ''a'' \<le> ch \<and> ch \<le> CHR ''z'') \<or>
     (CHR ''0'' \<le> ch \<and> ch \<le> CHR ''9'') \<or>
     ch = CHR ''.'' \<or> ch = CHR ''_'' \<or> ch = CHR ''-'' \<or> ch = CHR '':'' \<or> ch = CHR ''/'' \<or>
     ch = CHR ''@'' \<or> ch = CHR ''+''"

fun has_dotdot :: "string \<Rightarrow> bool" where
  "has_dotdot (a # b # cs) = ((a = CHR ''.'' \<and> b = CHR ''.'') \<or> has_dotdot (b # cs))"
| "has_dotdot _ = False"

definition fixed_name_from_string :: "nat \<Rightarrow> string \<Rightarrow> string result" where
  "fixed_name_from_string cap text =
     (if text = [] then Inl EInvalidName
      else if length text > cap then Inl EInvalidName
      else if \<not> list_all name_char_ok text then Inl EInvalidName
      else if has_dotdot text then Inl EInvalidName
      else Inr text)"

text \<open>A \<^verbatim>\<open>FixedName<N>\<close> object is empty (default constructed) or validated.\<close>

definition name_ok :: "nat \<Rightarrow> string \<Rightarrow> bool" where
  "name_ok cap n \<longleftrightarrow> n = [] \<or> fixed_name_from_string cap n = Inr n"

type_synonym name = string

definition kNameCapacity :: nat where
  "kNameCapacity = 64"

definition kActorNameCapacity :: nat where
  "kActorNameCapacity = 48"

lemma fixed_name_from_string_Inr:
  "fixed_name_from_string cap text = Inr n \<Longrightarrow>
   n = text \<and> text \<noteq> [] \<and> length text \<le> cap \<and> list_all name_char_ok text \<and> \<not> has_dotdot text"
  by (auto simp: fixed_name_from_string_def split: if_splits)

lemma name_ok_length: "name_ok cap n \<Longrightarrow> length n \<le> cap"
  by (auto simp: name_ok_def dest: fixed_name_from_string_Inr)

subsection \<open>Bytes determine an identity\<close>

lemma from_bytes_acc_append: "from_bytes_acc a (xs @ ys) = from_bytes_acc (from_bytes_acc a xs) ys"
  by (induction xs arbitrary: a) auto

lemma from_bytes_snoc: "from_bytes (bs @ [b]) = push_bit 8 (from_bytes bs) OR ucast b"
  by (simp add: from_bytes_def from_bytes_acc_append)

lemma bit_from_bytes:
  "length bs \<le> 16 \<Longrightarrow>
   bit (from_bytes bs) n \<longleftrightarrow> n < 8 * length bs \<and> bit (rev bs ! (n div 8)) (n mod 8)"
proof (induction bs arbitrary: n rule: rev_induct)
  case Nil
  then show ?case by (simp add: from_bytes_def)
next
  case (snoc b bs)
  show ?case
  proof (cases "n < 8")
    case True
    then show ?thesis by (simp add: from_bytes_snoc bit_simps)
  next
    case False
    define m where "m = n - 8"
    with False have n: "n = m + 8" by simp
    have nb: "\<not> bit b (m + 8)" by (auto dest: bit_imp_le_length)
    from snoc.prems have len: "length bs \<le> 15" by simp
    have "bit (from_bytes (bs @ [b])) n \<longleftrightarrow> m + 8 < 128 \<and> bit (from_bytes bs) m"
      using nb by (simp add: from_bytes_snoc n bit_or_iff bit_push_bit_iff bit_ucast_iff)
    also have "\<dots> \<longleftrightarrow> m + 8 < 128 \<and> m < 8 * length bs \<and> bit (rev bs ! (m div 8)) (m mod 8)"
      using snoc.IH [of m] len by simp
    finally have *: "bit (from_bytes (bs @ [b])) n \<longleftrightarrow> m + 8 < 128 \<and> m < 8 * length bs \<and> bit (rev bs ! (m div 8)) (m mod 8)" .
    have d: "(m + 8) div 8 = Suc (m div 8)" by simp
    show ?thesis
      unfolding * using len by (auto simp: n d nth_append)
  qed
qed

lemma length_id_bytes [simp]: "length (id_bytes v) = 16"
  by (simp add: id_bytes_def)

lemma id_bytes_nth: "i < 16 \<Longrightarrow> id_bytes v ! i = id_byte v i"
  by (simp add: id_bytes_def)

lemma from_bytes_id_bytes [simp]: "from_bytes (id_bytes v) = v"
proof (rule bit_word_eqI)
  fix n assume n: "n < LENGTH(128)"
  then have "n div 8 < 16" by simp
  then have "rev (id_bytes v) ! (n div 8) = ucast (drop_bit (8 * (n div 8)) v)"
    by (simp add: rev_nth id_bytes_nth id_byte_def)
  with n show "bit (from_bytes (id_bytes v)) n = bit v n"
    by (simp add: bit_from_bytes bit_simps)
qed

lemma id_bytes_from_bytes [simp]: "length bs = 16 \<Longrightarrow> id_bytes (from_bytes bs) = bs"
proof (rule nth_equalityI)
  fix i assume len: "length bs = 16" and "i < length (id_bytes (from_bytes bs))"
  then have i: "i < 16" by simp
  have "id_byte (from_bytes bs) i = bs ! i"
  proof (rule bit_word_eqI)
    fix n assume n: "n < LENGTH(8)"
    have q: "(8 * (15 - i) + n) div 8 = 15 - i" "(8 * (15 - i) + n) mod 8 = n"
      using n by simp_all
    have "rev bs ! (15 - i) = bs ! i"
      using i len by (simp add: rev_nth)
    moreover have "8 * (15 - i) + n < 128" using n i by simp
    ultimately show "bit (id_byte (from_bytes bs) i) n = bit (bs ! i) n"
      using n i len q by (simp add: id_byte_def bit_simps bit_from_bytes)
  qed
  then show "id_bytes (from_bytes bs) ! i = bs ! i" using i by (simp add: id_bytes_nth)
qed simp

primrec be_val :: "bytes \<Rightarrow> nat" where
  "be_val [] = 0"
| "be_val (b # bs) = unat b * 256 ^ length bs + be_val bs"

lemma be_val_bound: "be_val bs < 256 ^ length bs"
proof (induction bs)
  case (Cons b bs)
  have "unat b < 2 ^ LENGTH(8)" by (rule unsigned_less)
  then have "unat b \<le> 255" by simp
  then have "unat b * 256 ^ length bs \<le> 255 * 256 ^ length bs" by (rule mult_le_mono1)
  with Cons.IH have "unat b * 256 ^ length bs + be_val bs < 256 * 256 ^ length bs" by linarith
  then show ?case by simp
qed simp

lemma be_val_less_iff: "length xs = length ys \<Longrightarrow> be_val xs < be_val ys \<longleftrightarrow> xs < ys"
proof (induction xs ys rule: list_induct2)
  case (Cons x xs y ys)
  have b: "be_val xs < 256 ^ length xs" "be_val ys < 256 ^ length xs"
    using be_val_bound [of xs] be_val_bound [of ys] Cons by simp_all
  consider "x < y" | "x = y" | "y < x" by fastforce
  then show ?case
  proof cases
    case 1
    then have "Suc (unat x) \<le> unat y" by (simp add: word_less_nat_alt)
    then have "Suc (unat x) * 256 ^ length xs \<le> unat y * 256 ^ length xs" by (rule mult_le_mono1)
    with b 1 Cons show ?thesis by simp
  next
    case 2
    with Cons show ?thesis by simp
  next
    case 3
    then have "Suc (unat y) \<le> unat x" by (simp add: word_less_nat_alt)
    then have "Suc (unat y) * 256 ^ length xs \<le> unat x * 256 ^ length xs" by (rule mult_le_mono1)
    with b 3 Cons show ?thesis by auto
  qed
qed simp

lemma push_or_nat: "push_bit 8 a OR ucast (b :: u8) = (a * 256 + of_nat (unat b) :: identity)"
proof -
  have "push_bit 8 a AND ucast b = (0 :: identity)"
    by (rule bit_word_eqI) (auto simp: bit_simps dest: bit_imp_le_length)
  then have "push_bit 8 a OR ucast b = push_bit 8 a + (ucast b :: identity)"
    by (simp add: disjunctive_add_eq_or)
  then show ?thesis by (simp add: push_bit_eq_mult)
qed

lemma from_bytes_acc_val: "from_bytes_acc a bs = a * 256 ^ length bs + of_nat (be_val bs)"
  by (induction bs arbitrary: a) (simp_all add: push_or_nat algebra_simps)

lemma unat_from_bytes: "length bs \<le> 16 \<Longrightarrow> unat (from_bytes bs) = be_val bs"
proof -
  assume "length bs \<le> 16"
  then have "(256 :: nat) ^ length bs \<le> 256 ^ 16" by (rule power_increasing) simp
  with be_val_bound [of bs] have "be_val bs < 2 ^ 128" by simp
  then show ?thesis by (simp add: from_bytes_def from_bytes_acc_val unat_of_nat take_bit_eq_mod)
qed

text \<open>The order on identities is the byte-lexicographic order.\<close>

theorem identity_order: "v < w \<longleftrightarrow> id_bytes v < id_bytes w"
  using be_val_less_iff [of "id_bytes v" "id_bytes w"] unat_from_bytes [of "id_bytes v"]
    unat_from_bytes [of "id_bytes w"]
  by (simp add: word_less_nat_alt)

subsection \<open>Spelling and reading back\<close>

lemma digit_char_value: "d < 10 \<Longrightarrow> char_digit (digit_char d) = Some d"
  by (auto simp: char_digit_def digit_char_def less_eq_char_def)

lemma parse_digits_append:
  "parse_digits v (xs @ ys) = bindE (parse_digits v xs) (\<lambda>w. parse_digits w ys)"
  by (induction v xs rule: parse_digits.induct) (auto split: option.splits)

lemma parse_rev_digits:
  "v < 2 ^ 64 \<Longrightarrow> parse_digits 0 (rev (rev_digits v)) = Inr v"
proof (induction v rule: rev_digits.induct)
  case (1 v)
  show ?case
  proof (cases "v = 0")
    case True
    then show ?thesis by (simp add: rev_digits.simps)
  next
    case False
    then have "rev_digits v = digit_char (v mod 10) # rev_digits (v div 10)"
      by (simp add: rev_digits.simps [of v])
    moreover have "parse_digits 0 (rev (rev_digits (v div 10))) = Inr (v div 10)"
      using "1.IH" False "1.prems" by simp
    moreover have "\<not> v div 10 > (2 ^ 64 - 1 - v mod 10) div 10"
      using "1.prems" by (subst not_less, subst less_eq_div_iff_mult_less_eq) (simp, arith)
    ultimately show ?thesis
      by (simp add: parse_digits_append digit_char_value)
  qed
qed

lemma length_rev_digits: "v < 10 ^ n \<Longrightarrow> length (rev_digits v) \<le> n"
proof (induction n arbitrary: v)
  case 0
  then show ?case by (simp add: rev_digits.simps)
next
  case (Suc n)
  show ?case
  proof (cases "v = 0")
    case False
    from Suc.prems have "v div 10 < 10 ^ n" by (simp add: less_mult_imp_div_less)
    then have "length (rev_digits (v div 10)) \<le> n" by (rule Suc.IH)
    with False show ?thesis by (simp add: rev_digits.simps [of v])
  qed (simp add: rev_digits.simps)
qed

text \<open>Every 64-bit counter reads back from its decimal spelling.\<close>

theorem parse_to_decimal: "parse_uint64_decimal (to_decimal v) = Inr v"
proof (cases "v = 0")
  case True
  then show ?thesis
    by (simp add: parse_uint64_decimal_def to_decimal_def char_digit_def less_eq_char_def)
next
  case False
  have lt: "unat v < 2 ^ LENGTH(64)" by (rule unsigned_less)
  then have "length (rev_digits (unat v)) \<le> 20" by (intro length_rev_digits) simp
  moreover have "rev_digits (unat v) \<noteq> []"
    using False by (simp add: rev_digits.simps [of "unat v"] unat_eq_zero)
  ultimately show ?thesis
    using parse_rev_digits [of "unat v"] lt False by (simp add: parse_uint64_decimal_def to_decimal_def)
qed

lemma hex_nibble: "n < 16 \<Longrightarrow> hex_value (hex_digits ! n) = Some n"
proof -
  assume "n < 16"
  then have "n \<in> set [0..<16]" by simp
  moreover have "list_all (\<lambda>n. hex_value (hex_digits ! n) = Some n) [0..<16]"
    by code_simp
  ultimately show ?thesis by (simp only: list_all_iff)
qed

lemma nibbles: "push_bit 4 (drop_bit 4 b) AND 240 OR b AND 15 = (b :: u8)"
  by (rule u8_all) code_simp

lemma bytes_of_hex_concat: "bytes_of_hex (concat (map hex_of_byte bs)) = Inr bs"
proof (induction bs)
  case (Cons b bs)
  have "unat (b AND 15) < 16" for b :: u8
    using word_and_le1 [of b 15] by (simp add: word_le_nat_alt)
  then show ?case
    using Cons by (simp add: hex_of_byte_def hex_nibble nibbles)
qed simp

lemma length_to_hex: "length (to_hex v) = 32"
  by (simp add: to_hex_def id_bytes_def hex_of_byte_def length_concat comp_def sum_list_triv)

text \<open>The hexadecimal spelling of an identity reads back as the same identity.\<close>

theorem hex_roundtrip: "from_hex (to_hex v) = Inr v"
proof -
  have "bytes_of_hex (to_hex v) = Inr (id_bytes v)"
    by (simp add: to_hex_def bytes_of_hex_concat)
  then show ?thesis by (simp add: from_hex_def length_to_hex)
qed

end
