(* ===== verification/Brf_Hash.thy ===== *)
theory Brf_Hash
  imports Brf_Identity
begin

text \<open>
  Content fingerprints and the CRC-32C checksum of \<^verbatim>\<open>src/hash.cpp\<close>, and
  the identities derived from them in \<^verbatim>\<open>src/identity.cpp\<close> and
  \<^verbatim>\<open>src/reservation.cpp\<close>. The lemmas show that the checksum of a byte string
  differs from the checksum of every string that differs from it in one byte.
\<close>

unbundle bit_operations_syntax

definition kFnvOffset :: u64 where "kFnvOffset = 1469598103934665603"
definition kFnvPrime :: u64 where "kFnvPrime = 1099511628211"
definition kFnvOffsetLane2 :: u64 where "kFnvOffsetLane2 = 14695981039346656037"

fun fnv1a_impl :: "bytes \<Rightarrow> u64 \<Rightarrow> u64" where
  "fnv1a_impl [] st = st"
| "fnv1a_impl (b # bs) st = fnv1a_impl bs ((st XOR ucast b) * kFnvPrime)"

definition fnv1a_64 :: "bytes \<Rightarrow> u64" where
  "fnv1a_64 bs = fnv1a_impl bs kFnvOffset"

text \<open>The eight bytes of a 64-bit value, most significant first.\<close>

definition be_bytes8 :: "u64 \<Rightarrow> bytes" where
  "be_bytes8 v = map (\<lambda>i. ucast (drop_bit (8 * (7 - i)) v AND 255)) [0..<8]"

definition fingerprint128 :: "bytes \<Rightarrow> identity" where
  "fingerprint128 bs =
     from_bytes (be_bytes8 (fnv1a_impl bs kFnvOffset) @ be_bytes8 (fnv1a_impl bs kFnvOffsetLane2))"

definition derive :: "identity \<Rightarrow> u64 \<Rightarrow> identity" where
  "derive parent index = fingerprint128 (id_bytes parent @ be_bytes8 index)"

definition derive_member_id :: "identity \<Rightarrow> counter \<Rightarrow> identity" where
  "derive_member_id series index = derive series index"

definition derive_series_id :: "identity \<Rightarrow> identity \<Rightarrow> u64 \<Rightarrow> identity" where
  "derive_series_id claimant attempt ordinal =
     fingerprint128 (id_bytes claimant @ id_bytes attempt @ be_bytes8 ordinal)"

subsection \<open>CRC-32C\<close>

definition crc_poly :: u32 where "crc_poly = 0x82F63B78"

definition crc_bit :: "u32 \<Rightarrow> u32" where
  "crc_bit crc = (if crc AND 1 \<noteq> 0 then drop_bit 1 crc XOR crc_poly else drop_bit 1 crc)"

definition crc_entry :: "nat \<Rightarrow> u32" where
  "crc_entry i = (crc_bit ^^ 8) (of_nat i)"

definition crc_table :: "u32 list" where
  "crc_table = map crc_entry [0..<256]"

definition crc_step :: "u32 \<Rightarrow> u8 \<Rightarrow> u32" where
  "crc_step crc b = crc_table ! unat ((crc XOR ucast b) AND 255) XOR drop_bit 8 crc"

definition crc_update :: "u32 \<Rightarrow> bytes \<Rightarrow> u32" where
  "crc_update st bs = foldl crc_step st bs"

definition crc_finish :: "u32 \<Rightarrow> u32" where
  "crc_finish st = st XOR 0xFFFFFFFF"

definition crc32c :: "bytes \<Rightarrow> u32" where
  "crc32c bs = crc_finish (crc_update 0xFFFFFFFF bs)"

subsection \<open>The table computes the polynomial division\<close>

text \<open>
  One division step (\<open>crc_bit\<close>) is linear and injective, so eight of them are; a step with the table
  is eight division steps of the state with the byte mixed in.
\<close>

lemma crc_bit_alt: "crc_bit c = drop_bit 1 c XOR (if bit c 0 then crc_poly else 0)"
  by (simp add: crc_bit_def and_one_eq bit_0 odd_iff_mod_2_eq_one)

lemma crc_bit_xor: "crc_bit (a XOR b) = crc_bit a XOR crc_bit b"
  by (auto simp: crc_bit_alt drop_bit_xor bit_xor_iff ac_simps)

lemma crc_bits_xor: "(crc_bit ^^ n) (a XOR b) = (crc_bit ^^ n) a XOR (crc_bit ^^ n) b"
  by (induction n) (simp_all add: crc_bit_xor)

lemma bit_31_poly: "bit crc_poly 31"
  by (simp add: crc_poly_def)

lemma crc_bit_31: "bit (crc_bit c) 31 \<longleftrightarrow> bit c 0"
  using bit_31_poly by (auto simp: crc_bit_alt bit_xor_iff bit_drop_bit_eq dest: bit_imp_le_length)

lemma xor_right_cancel: "a XOR c = b XOR c \<longleftrightarrow> a = (b :: u32)"
  by (metis xor.assoc xor_self_eq xor.right_neutral)

lemma crc_bit_inject: "crc_bit a = crc_bit b \<longleftrightarrow> a = b"
proof
  assume eq: "crc_bit a = crc_bit b"
  then have low: "bit a 0 \<longleftrightarrow> bit b 0" by (metis crc_bit_31)
  with eq have "drop_bit 1 a = drop_bit 1 b" by (simp add: crc_bit_alt xor_right_cancel)
  then have "bit a (Suc n) \<longleftrightarrow> bit b (Suc n)" for n
    by (metis bit_drop_bit_eq comp_apply plus_1_eq_Suc)
  with low have "bit a n \<longleftrightarrow> bit b n" for n
    by (cases n) simp_all
  then show "a = b" by (simp add: bit_eq_iff)
qed simp

lemma crc_bits_inject: "(crc_bit ^^ n) a = (crc_bit ^^ n) b \<longleftrightarrow> a = b"
  by (induction n) (simp_all add: crc_bit_inject)

lemma crc_bits_low_zero: "(\<forall>i < n. \<not> bit x i) \<Longrightarrow> (crc_bit ^^ n) x = drop_bit n x"
proof (induction n)
  case (Suc n)
  then have "(crc_bit ^^ n) x = drop_bit n x" and "\<not> bit x n" by auto
  then show ?case by (simp add: crc_bit_alt [of "drop_bit n x"] bit_drop_bit_eq drop_bit_drop_bit)
qed simp

lemma crc_table_nth: "crc_table ! unat (x AND 255) = (crc_bit ^^ 8) (x AND 255)"
proof -
  have "x AND 255 \<le> (255 :: u32)" by (rule word_and_le1)
  then have "unat (x AND 255) < 256" by (simp add: word_le_nat_alt)
  then show ?thesis by (simp add: crc_table_def crc_entry_def)
qed

lemma bit_255: "bit (255 :: u32) n \<longleftrightarrow> n < 8"
  using bit_mask_iff [of 8 n, where 'a = u32] by (auto simp: mask_numeral dest: bit_imp_le_length)

lemma clear_low_byte:
  assumes "\<And>n. bit c n \<longleftrightarrow> n < 8"
  shows "drop_bit 8 ((st XOR ucast (b :: u8)) AND NOT c) = drop_bit 8 (st :: u32)"
  by (rule bit_word_eqI) (auto simp: bit_simps assms dest: bit_imp_le_length)

lemma cleared_bits:
  assumes "\<And>n. bit c n \<longleftrightarrow> n < 8"
  shows "\<forall>i < 8. \<not> bit (x AND NOT c) i"
  by (auto simp: bit_simps assms)

lemma crc_step_bitwise: "crc_step st b = (crc_bit ^^ 8) (st XOR ucast b)"
proof -
  let ?x = "st XOR ucast b"
  have split: "?x = (?x AND 255) XOR (?x AND NOT 255)"
    by (rule bit_word_eqI) (auto simp: bit_simps)
  have "drop_bit 8 (?x AND NOT 255) = drop_bit 8 st"
    by (rule clear_low_byte) (rule bit_255)
  moreover have "(crc_bit ^^ 8) (?x AND NOT 255) = drop_bit 8 (?x AND NOT 255)"
    by (rule crc_bits_low_zero, rule cleared_bits, rule bit_255)
  moreover have "(crc_bit ^^ 8) ?x = (crc_bit ^^ 8) (?x AND 255) XOR (crc_bit ^^ 8) (?x AND NOT 255)"
    by (subst split) (rule crc_bits_xor)
  ultimately show ?thesis by (simp only: crc_step_def crc_table_nth)
qed

lemma crc_step_inject_state: "crc_step a b = crc_step a' b \<longleftrightarrow> a = a'"
  by (simp add: crc_step_bitwise crc_bits_inject xor_right_cancel del: funpow.simps)

lemma xor_left_cancel: "c XOR a = c XOR b \<longleftrightarrow> a = (b :: u32)"
  by (metis xor_right_cancel xor.commute)

lemma ucast_u8_u32_inject: "ucast x = (ucast y :: u32) \<longleftrightarrow> x = (y :: u8)"
proof
  assume eq: "ucast x = (ucast y :: u32)"
  show "x = y"
  proof (rule bit_word_eqI)
    fix n assume "n < LENGTH(8)"
    with eq show "bit x n = bit y n" by (auto simp: bit_eq_iff [of "ucast x" "ucast y"] bit_simps)
  qed
qed simp

lemma crc_step_inject_byte: "crc_step st x = crc_step st y \<longleftrightarrow> x = y"
  by (simp add: crc_step_bitwise crc_bits_inject xor_left_cancel ucast_u8_u32_inject del: funpow.simps)

lemma crc_update_inject: "crc_update a bs = crc_update a' bs \<longleftrightarrow> a = a'"
  by (induction bs arbitrary: a a') (simp_all add: crc_update_def crc_step_inject_state)

lemma crc_update_append: "crc_update st (xs @ ys) = crc_update (crc_update st xs) ys"
  by (simp add: crc_update_def)

lemma crc_update_Cons: "crc_update st (b # bs) = crc_update (crc_step st b) bs"
  by (simp add: crc_update_def)

lemma crc32c_inject_byte: "crc32c (pre @ x # post) = crc32c (pre @ y # post) \<longleftrightarrow> x = y"
  by (simp add: crc32c_def crc_finish_def xor_right_cancel crc_update_append crc_update_Cons
      crc_update_inject crc_step_inject_byte)

text \<open>C28: a record whose bytes differ from the written ones in exactly one byte, at any place,
  never has the written checksum.\<close>

theorem crc32c_detects_byte:
  "crc32c (pre @ x # post) = crc32c (pre @ y # post) \<longleftrightarrow> x = y"
  by (rule crc32c_inject_byte)

end
