(* ===== verification/Brf_Time.thy ===== *)
theory Brf_Time
  imports Brf_Bandwidth Brf_Hash
begin

text \<open>
  The clock model of \<^verbatim>\<open>include/brf/time.hpp\<close> and \<^verbatim>\<open>src/time.cpp\<close>: instants and spans
  (their \<^verbatim>\<open>ns\<close> fields), half-open intervals, the checked arithmetic and the ISO-8601
  spelling. The lemmas show that a validated interval lies inside the timeline, that the
  civil calendar conversion is inverse to its own inverse and that every instant of the timeline
  reads back from its spelling.
\<close>

type_synonym timestamp = int
type_synonym duration = int

definition kNsPerSecond :: int where "kNsPerSecond = 1000000000"
definition kNsPerMillisecond :: int where "kNsPerMillisecond = 1000000"
definition kNsPerMinute :: int where "kNsPerMinute = 60 * kNsPerSecond"
definition kNsPerHour :: int where "kNsPerHour = 60 * kNsPerMinute"
definition kNsPerDay :: int where "kNsPerDay = 24 * kNsPerHour"
definition kMaxReservationSpanNs :: int where "kMaxReservationSpanNs = 100 * 366 * kNsPerDay"
definition kMaxTimestampNs :: int where "kMaxTimestampNs = 4102444800 * kNsPerSecond"

lemmas time_consts = kNsPerSecond_def kNsPerMillisecond_def kNsPerMinute_def kNsPerHour_def kNsPerDay_def
  kMaxReservationSpanNs_def kMaxTimestampNs_def

record interval =
  iv_start :: timestamp
  iv_end :: timestamp

definition mk_iv :: "timestamp \<Rightarrow> timestamp \<Rightarrow> interval" where
  "mk_iv s e = \<lparr>iv_start = s, iv_end = e\<rparr>"

definition iv_empty :: "interval \<Rightarrow> bool" where
  "iv_empty i \<longleftrightarrow> \<not> iv_start i < iv_end i"

definition span_ns :: "interval \<Rightarrow> int result" where
  "span_ns i =
     (if iv_end i \<le> iv_start i then Inl EInvalidInterval
      else if iv_start i < 0 then Inl EInvalidInterval
      else
        let span = iv_end i - iv_start i
        in if span > kMaxReservationSpanNs then Inl EInvalidInterval else Inr span)"

definition overlaps :: "interval \<Rightarrow> interval \<Rightarrow> bool" where
  "overlaps a b \<longleftrightarrow> iv_start a < iv_end b \<and> iv_start b < iv_end a"

definition contains_iv :: "interval \<Rightarrow> interval \<Rightarrow> bool" where
  "contains_iv a b \<longleftrightarrow> iv_start a \<le> iv_start b \<and> iv_end b \<le> iv_end a"

definition contains_ts :: "interval \<Rightarrow> timestamp \<Rightarrow> bool" where
  "contains_ts i t \<longleftrightarrow> iv_start i \<le> t \<and> t < iv_end i"

definition interval_less :: "interval \<Rightarrow> interval \<Rightarrow> bool" where
  "interval_less a b \<longleftrightarrow>
     (if iv_start a \<noteq> iv_start b then iv_start a < iv_start b else iv_end a < iv_end b)"

definition validate_interval :: "interval \<Rightarrow> status" where
  "validate_interval i =
     (if iv_start i < 0 then Inl EInvalidInterval
      else if iv_end i > kMaxTimestampNs then Inl EInvalidInterval
      else if iv_end i \<le> iv_start i then Inl EInvalidInterval
      else if iv_end i - iv_start i > kMaxReservationSpanNs then Inl EInvalidInterval
      else Inr ())"

definition interval_id_hex :: "interval \<Rightarrow> string" where
  "interval_id_hex i =
     to_hex (fingerprint128 (be_bytes8 (of_int (iv_start i)) @ be_bytes8 (of_int (iv_end i))))"

definition ts_add :: "timestamp \<Rightarrow> duration \<Rightarrow> timestamp result" where
  "ts_add ts d =
     (if d < 0 then Inl EInvalidInterval
      else if ts > kMaxTimestampNs - d then Inl EOverflow
      else Inr (ts + d))"

definition ts_sub :: "timestamp \<Rightarrow> duration \<Rightarrow> timestamp result" where
  "ts_sub ts d =
     (if d < 0 then Inl EInvalidInterval
      else if ts < d then Inl EOverflow
      else Inr (ts - d))"

definition ts_difference :: "timestamp \<Rightarrow> timestamp \<Rightarrow> duration result" where
  "ts_difference b a = (if b < a then Inl EInvalidInterval else Inr (b - a))"

subsection \<open>Civil dates\<close>

text \<open>
  The \<^verbatim>\<open>unsigned\<close> quantities of the two conversions are \<open>int\<close>; \<open>civil_fields\<close> below shows
  that no subtraction on them goes below zero.
\<close>

record civil_date =
  cd_year :: int
  cd_month :: int
  cd_day :: int

definition days_from_civil :: "int \<Rightarrow> int \<Rightarrow> int \<Rightarrow> int" where
  "days_from_civil y0 m d =
     (let y = y0 - (if m \<le> 2 then 1 else 0);
          era = tdiv (if y \<ge> 0 then y else y - 399) 400;
          yoe = y - era * 400;
          month_shift = (if m > 2 then m - 3 else m + 9);
          doy = (153 * month_shift + 2) div 5 + d - 1;
          doe = yoe * 365 + yoe div 4 - yoe div 100 + doy
      in era * 146097 + doe - 719468)"

definition civil_from_days :: "int \<Rightarrow> civil_date" where
  "civil_from_days z0 =
     (let z = z0 + 719468;
          era = tdiv (if z \<ge> 0 then z else z - 146096) 146097;
          doe = z - era * 146097;
          yoe = (doe - doe div 1460 + doe div 36524 - doe div 146096) div 365;
          y = yoe + era * 400;
          doy = doe - (365 * yoe + yoe div 4 - yoe div 100);
          mp = (5 * doy + 2) div 153;
          d = doy - (153 * mp + 2) div 5 + 1;
          m = (if mp < 10 then mp + 3 else mp - 9)
      in \<lparr>cd_year = y + (if m \<le> 2 then 1 else 0), cd_month = m, cd_day = d\<rparr>)"

definition is_leap :: "int \<Rightarrow> bool" where
  "is_leap year \<longleftrightarrow> (year mod 4 = 0 \<and> year mod 100 \<noteq> 0) \<or> year mod 400 = 0"

definition kMonthDays :: "int list" where
  "kMonthDays = [31, 28, 31, 30, 31, 30, 31, 31, 30, 31, 30, 31]"

definition days_in_month :: "int \<Rightarrow> int \<Rightarrow> int" where
  "days_in_month year month =
     (if month < 1 \<or> month > 12 then 0
      else if month = 2 \<and> is_leap year then 29
      else kMonthDays ! nat (month - 1))"

subsection \<open>ISO-8601 spelling\<close>

fun fixed_digits :: "int \<Rightarrow> string \<Rightarrow> int option" where
  "fixed_digits v [] = Some v"
| "fixed_digits v (ch # cs) =
     (case char_digit ch of None \<Rightarrow> None | Some d \<Rightarrow> fixed_digits (v * 10 + int d) cs)"

definition parse_fixed_digits :: "string \<Rightarrow> nat \<Rightarrow> nat \<Rightarrow> int option" where
  "parse_fixed_digits text offset count =
     (if offset + count > length text then None else fixed_digits 0 (take count (drop offset text)))"

definition format_timestamp :: "timestamp \<Rightarrow> string" where
  "format_timestamp ts =
     (if ts < 0 then ''<invalid>''
      else
        let seconds = ts div kNsPerSecond;
            nanos = ts mod kNsPerSecond;
            days = seconds div 86400;
            second_of_day = seconds mod 86400;
            date = civil_from_days days
        in pad_decimal 4 (nat (cd_year date)) @ ''-'' @ pad_decimal 2 (nat (cd_month date)) @ ''-'' @
           pad_decimal 2 (nat (cd_day date)) @ ''T'' @ pad_decimal 2 (nat (second_of_day div 3600)) @ '':'' @
           pad_decimal 2 (nat (second_of_day mod 3600 div 60)) @ '':'' @
           pad_decimal 2 (nat (second_of_day mod 60)) @ ''.'' @ pad_decimal 9 (nat nanos) @ ''Z'')"

text \<open>
  The fraction loop: the number of digits read, the value so far and the text left, or \<open>None\<close>
  where a tenth digit is met.
\<close>

fun fraction_digits :: "nat \<Rightarrow> int \<Rightarrow> string \<Rightarrow> (nat \<times> int \<times> string) option" where
  "fraction_digits digits nanos [] = Some (digits, nanos, [])"
| "fraction_digits digits nanos (ch # cs) =
     (case char_digit ch of
        None \<Rightarrow> Some (digits, nanos, ch # cs)
      | Some d \<Rightarrow> if digits \<ge> 9 then None else fraction_digits (Suc digits) (nanos * 10 + int d) cs)"

definition parse_fraction :: "string \<Rightarrow> (int \<times> string) result" where
  "parse_fraction rest =
     (if rest \<noteq> [] \<and> hd rest = CHR ''.''
      then case fraction_digits 0 0 (tl rest) of
             None \<Rightarrow> Inl EInvalidArgument
           | Some (digits, nanos, rest') \<Rightarrow>
               if digits = 0 then Inl EInvalidArgument else Inr (nanos * 10 ^ (9 - digits), rest')
      else Inr (0, rest))"

definition parse_date_time :: "string \<Rightarrow> (int \<times> int \<times> int \<times> int \<times> int \<times> int) option" where
  "parse_date_time text =
     (case (parse_fixed_digits text 0 4, parse_fixed_digits text 5 2, parse_fixed_digits text 8 2,
            parse_fixed_digits text 11 2, parse_fixed_digits text 14 2, parse_fixed_digits text 17 2) of
        (Some year, Some month, Some day, Some hour, Some minute, Some second) \<Rightarrow>
          Some (year, month, day, hour, minute, second)
      | _ \<Rightarrow> None)"

text \<open>
  The last multiplication of the source is done in 64 bits, before the bound is tested.
\<close>

definition timestamp_of_fields ::
  "int \<Rightarrow> int \<Rightarrow> int \<Rightarrow> int \<Rightarrow> int \<Rightarrow> int \<Rightarrow> int \<Rightarrow> timestamp result" where
  "timestamp_of_fields year month day hour minute second nanos =
     (if month < 1 \<or> month > 12 then Inl EInvalidArgument
      else if day < 1 \<or> day > days_in_month year month then Inl EInvalidArgument
      else if hour > 23 \<or> minute > 59 \<or> second > 59 then Inl EInvalidArgument
      else
        let days = days_from_civil year month day;
            seconds = days * 86400 + hour * 3600 + minute * 60 + second
        in if seconds < 0 then Inl EInvalidArgument
           else
             let total = wrap_int64 (seconds * kNsPerSecond + nanos)
             in if total > kMaxTimestampNs then Inl EOverflow else Inr total)"

definition parse_timestamp :: "string \<Rightarrow> timestamp result" where
  "parse_timestamp text =
     (if length text < 20 then Inl EInvalidArgument
      else if text ! 4 \<noteq> CHR ''-'' \<or> text ! 7 \<noteq> CHR ''-'' \<or> text ! 10 \<noteq> CHR ''T'' \<or>
              text ! 13 \<noteq> CHR '':'' \<or> text ! 16 \<noteq> CHR '':'' then Inl EInvalidArgument
      else case parse_date_time text of
        None \<Rightarrow> Inl EInvalidArgument
      | Some (year, month, day, hour, minute, second) \<Rightarrow>
          bindE (parse_fraction (drop 19 text)) (\<lambda>(nanos, rest).
            if rest \<noteq> ''Z'' then Inl EInvalidArgument
            else timestamp_of_fields year month day hour minute second nanos))"

subsection \<open>Intervals\<close>

definition interval_ok :: "interval \<Rightarrow> bool" where
  "interval_ok i \<longleftrightarrow> 0 \<le> iv_start i \<and> iv_start i < iv_end i \<and> iv_end i \<le> kMaxTimestampNs \<and>
     iv_end i - iv_start i \<le> kMaxReservationSpanNs"

lemma validate_interval_ok [simp]: "validate_interval i = Inr () \<longleftrightarrow> interval_ok i"
  by (auto simp: validate_interval_def interval_ok_def)

lemma validate_interval_is_ok: "is_ok (validate_interval i) \<longleftrightarrow> interval_ok i"
  by (auto simp: validate_interval_def interval_ok_def)

lemma validate_interval_Inl: "validate_interval i = Inl e \<Longrightarrow> e = EInvalidInterval \<and> \<not> interval_ok i"
  by (auto simp: validate_interval_def interval_ok_def split: if_splits)

lemma overlaps_iff: "overlaps a b \<longleftrightarrow> (\<exists>t. contains_ts a t \<and> contains_ts b t) \<or>
    (overlaps a b \<and> (iv_empty a \<or> iv_empty b))"
proof -
  have "\<exists>t. contains_ts a t \<and> contains_ts b t" if "overlaps a b" "\<not> iv_empty a" "\<not> iv_empty b"
    using that by (intro exI [of _ "max (iv_start a) (iv_start b)"])
      (auto simp: overlaps_def contains_ts_def iv_empty_def max_def)
  then show ?thesis by (auto simp: overlaps_def contains_ts_def iv_empty_def)
qed

text \<open>Validation accepts an interval exactly when it is a non-empty window of the timeline whose
  span is at most one hundred years; then its span is representable, two accepted windows overlap
  exactly when they share an instant, and one contains the other exactly when its instants do.\<close>

theorem validated_interval:
  assumes "validate_interval a = Inr ()" and "validate_interval b = Inr ()"
  shows "0 \<le> iv_start a \<and> iv_start a < iv_end a \<and> iv_end a \<le> kMaxTimestampNs \<and>
    span_ns a = Inr (iv_end a - iv_start a) \<and> int64_ok (iv_end a) \<and> int64_ok (iv_end a - iv_start a) \<and>
    (overlaps a b \<longleftrightarrow> (\<exists>t. contains_ts a t \<and> contains_ts b t)) \<and>
    (contains_iv a b \<longleftrightarrow> (\<forall>t. contains_ts b t \<longrightarrow> contains_ts a t))"
proof -
  from assms have ok: "interval_ok a" "interval_ok b" by simp_all
  have "contains_iv a b" if sub: "\<forall>t. contains_ts b t \<longrightarrow> contains_ts a t"
  proof -
    have "contains_ts b (iv_start b)" "contains_ts b (iv_end b - 1)"
      using ok by (simp_all add: contains_ts_def interval_ok_def)
    with sub have "contains_ts a (iv_start b)" "contains_ts a (iv_end b - 1)" by blast+
    then show ?thesis by (simp add: contains_iv_def contains_ts_def)
  qed
  moreover have "\<forall>t. contains_ts b t \<longrightarrow> contains_ts a t" if "contains_iv a b"
    using that by (auto simp: contains_iv_def contains_ts_def)
  moreover have "overlaps a b \<longleftrightarrow> (\<exists>t. contains_ts a t \<and> contains_ts b t)"
    using ok overlaps_iff [of a b] by (auto simp: iv_empty_def interval_ok_def)
  ultimately show ?thesis
    using ok by (auto simp: interval_ok_def span_ns_def int64_ok_def time_consts)
qed

theorem validated_interval_witness:
  "validate_interval (mk_iv 10 20) = Inr () \<and> overlaps (mk_iv 10 20) (mk_iv 15 30) \<and>
   \<not> overlaps (mk_iv 10 20) (mk_iv 20 30) \<and> span_ns (mk_iv 10 20) = Inr 10"
  using validated_interval [of "mk_iv 10 20" "mk_iv 15 30"]
  by (simp add: validate_interval_def mk_iv_def time_consts overlaps_def interval_ok_def)

lemma ts_add_Inr: "ts_add t d = Inr r \<longleftrightarrow> r = t + d \<and> 0 \<le> d \<and> r \<le> kMaxTimestampNs"
  by (auto simp: ts_add_def)

lemma ts_sub_Inr: "ts_sub t d = Inr r \<longleftrightarrow> r = t - d \<and> 0 \<le> d \<and> 0 \<le> r"
  by (auto simp: ts_sub_def)

subsection \<open>The calendar conversion\<close>

text \<open>
  \<open>year_start\<close>, \<open>year_of_era\<close> and \<open>month_of_day\<close> name the formulas of \<open>civil_from_days\<close>: the first day of a
  year of the 400-year era, the year of a day of the era, and the month of a day of the year.
\<close>

definition year_start :: "int \<Rightarrow> int" where
  "year_start y = 365 * y + y div 4 - y div 100"

definition year_of_era :: "int \<Rightarrow> int" where
  "year_of_era doe = (doe - doe div 1460 + doe div 36524 - doe div 146096) div 365"

lemma year_of_era_mono:
  assumes "a \<le> b" "0 \<le> a" "b \<le> 146096"
  shows "year_of_era a \<le> year_of_era b"
proof -
  consider "a = b" | "a < b" "b = 146096" | "b < 146096" using assms by linarith
  then have "a - a div 1460 + a div 36524 - a div 146096 \<le> b - b div 1460 + b div 36524 - b div 146096"
  proof cases
    case 2
    with assms have "a div 36524 \<le> 3" "a - a div 1460 \<le> 146096 - 101 + 1" "0 \<le> a div 146096" by linarith+
    then show ?thesis using 2 by simp
  next
    case 3
    then have "b div 146096 = 0" "a div 146096 = 0" using assms by simp_all
    moreover have "a div 36524 \<le> b div 36524" using assms by (simp add: zdiv_mono1)
    moreover have "a - a div 1460 \<le> b - b div 1460" using assms by linarith
    ultimately show ?thesis by linarith
  qed simp
  then show ?thesis by (simp add: year_of_era_def zdiv_mono1)
qed

lemma year_ends:
  "0 \<le> y \<Longrightarrow> y \<le> 399 \<Longrightarrow> year_of_era (year_start y) = y \<and> year_of_era (year_start (y + 1) - 1) = y"
proof -
  assume "0 \<le> y" "y \<le> 399"
  then have "y \<in> set [0..399]" by simp
  moreover have "list_all (\<lambda>y. year_of_era (year_start y) = y \<and> year_of_era (year_start (y + 1) - 1) = y) [0..399]"
    by code_simp
  ultimately show ?thesis by (simp only: list_all_iff)
qed

lemma year_start_range: "0 \<le> y \<Longrightarrow> y \<le> 400 \<Longrightarrow> 0 \<le> year_start y \<and> year_start y \<le> 146096"
  unfolding year_start_def by linarith

lemma year_of_era_bounds:
  assumes "0 \<le> doe" "doe \<le> 146096"
  defines "y \<equiv> year_of_era doe"
  shows "0 \<le> y \<and> y \<le> 399 \<and> year_start y \<le> doe \<and> (doe < year_start (y + 1) \<or> y = 399 \<and> doe = 146096)"
proof -
  have "year_of_era 0 \<le> y" "y \<le> year_of_era 146096"
    unfolding y_def using assms by (intro year_of_era_mono; simp)+
  then have y: "0 \<le> y" "y \<le> 399" by (simp_all add: year_of_era_def)
  have "year_start y \<le> doe"
  proof (rule ccontr)
    assume "\<not> year_start y \<le> doe"
    then have lt: "doe \<le> year_start (y - 1 + 1) - 1" by simp
    then have "y \<noteq> 0" using assms by (auto simp: year_start_def)
    with y have "year_of_era (year_start (y - 1 + 1) - 1) = y - 1" by (subst year_ends [THEN conjunct2]) auto
    moreover have "y \<le> year_of_era (year_start (y - 1 + 1) - 1)"
      unfolding y_def using lt assms year_start_range [of y] y by (intro year_of_era_mono) (auto simp: y_def)
    ultimately show False by simp
  qed
  moreover have "doe < year_start (y + 1) \<or> y = 399 \<and> doe = 146096"
  proof (cases "y = 399")
    case True
    then show ?thesis using assms by (auto simp: year_start_def)
  next
    case False
    show ?thesis
    proof (rule ccontr)
      assume "\<not> ?thesis"
      then have "year_of_era (year_start (y + 1)) \<le> y"
        unfolding y_def using assms year_start_range [of "y + 1"] y by (intro year_of_era_mono) (auto simp: y_def)
      moreover have "year_of_era (year_start (y + 1)) = y + 1"
        using y False by (subst year_ends [THEN conjunct1]) auto
      ultimately show False by simp
    qed
  qed
  ultimately show ?thesis using y by blast
qed

lemma div_step:
  assumes "0 < (n :: int)"
  shows "(y + 1) div n = (if (y + 1) mod n = 0 then y div n + 1 else y div n)"
proof (cases "(y + 1) mod n = 0")
  case True
  then have "y = n * ((y + 1) div n - 1) + (n - 1)"
    using div_mult_mod_eq [of "y + 1" n] by (simp add: algebra_simps)
  then have "y div n = (y + 1) div n - 1" using assms by (intro int_div_pos_eq [of _ _ _ "n - 1"]) auto
  then show ?thesis using True by simp
next
  case False
  have "y = n * ((y + 1) div n) + ((y + 1) mod n - 1)"
    using div_mult_mod_eq [of "y + 1" n] by (simp add: algebra_simps)
  moreover have "0 < (y + 1) mod n" "(y + 1) mod n < n"
    using False assms pos_mod_sign [of n "y + 1"] pos_mod_bound [of n "y + 1"] by linarith+
  ultimately have "y div n = (y + 1) div n"
    by (intro int_div_pos_eq [of _ _ _ "(y + 1) mod n - 1"]) auto
  then show ?thesis using False by simp
qed

lemma year_length_cases:
  assumes "(doe :: int) < 365 * (y + 1) + q' - c'" "q' = q \<or> q' = q + 1 \<and> L" "c' = c \<and> N \<or> c' = c + 1"
  shows "doe - (365 * y + q - c) \<le> 364 \<or> doe - (365 * y + q - c) = 365 \<and> L \<and> N"
  using assms by auto

lemma year_length:
  assumes "0 \<le> y" "y \<le> 399" "doe < year_start (y + 1) \<or> y = 399 \<and> doe = 146096"
  shows "doe - year_start y \<le> 364 \<or> doe - year_start y = 365 \<and> is_leap (y + 1 + 400 * e)"
proof (cases "y = 399")
  case True
  then have "is_leap (y + 1 + 400 * e)" by (simp add: is_leap_def)
  then show ?thesis using assms True by (auto simp: year_start_def)
next
  case False
  with assms have doe: "doe < year_start (y + 1)" by simp
  have 4: "(y + 1 + 400 * e) mod 4 = (y + 1) mod 4" and 100: "(y + 1 + 400 * e) mod 100 = (y + 1) mod 100"
    using mod_mult_self2 [of "y + 1" 4 "100 * e"] mod_mult_self2 [of "y + 1" 100 "4 * e"] by simp_all
  have "(y + 1) div 4 = y div 4 \<or> (y + 1) div 4 = y div 4 + 1 \<and> (y + 1) mod 4 = 0"
    "(y + 1) div 100 = y div 100 \<and> (y + 1) mod 100 \<noteq> 0 \<or> (y + 1) div 100 = y div 100 + 1"
    using div_step [of 4 y] div_step [of 100 y] zero_less_numeral by metis+
  from year_length_cases [OF doe [unfolded year_start_def] this] show ?thesis
    unfolding year_start_def is_leap_def 4 100 by metis
qed

definition month_of_day :: "int \<Rightarrow> int" where
  "month_of_day doy = (5 * doy + 2) div 153"

lemma month_split:
  assumes "0 \<le> doy" "doy \<le> 365"
  shows "0 \<le> month_of_day doy \<and> month_of_day doy \<le> 11 \<and> (153 * month_of_day doy + 2) div 5 \<le> doy \<and>
    (month_of_day doy \<le> 10 \<longrightarrow> doy < (153 * (month_of_day doy + 1) + 2) div 5)"
proof -
  from assms have "doy \<in> set [0..365]" by simp
  moreover have "list_all (\<lambda>doy. 0 \<le> month_of_day doy \<and> month_of_day doy \<le> 11 \<and> (153 * month_of_day doy + 2) div 5 \<le> doy \<and>
    (month_of_day doy \<le> 10 \<longrightarrow> doy < (153 * (month_of_day doy + 1) + 2) div 5)) [0..365]"
    by code_simp
  ultimately show ?thesis unfolding list_all_iff by blast
qed

lemma month_days:
  assumes "0 \<le> doy" "doy \<le> 364 \<or> doy = 365 \<and> is_leap (yr + 1)"
  defines "mp \<equiv> (5 * doy + 2) div 153"
  defines "m \<equiv> (if mp < 10 then mp + 3 else mp - 9)"
  shows "0 \<le> mp \<and> mp \<le> 11 \<and> 1 \<le> doy - (153 * mp + 2) div 5 + 1 \<and>
    doy - (153 * mp + 2) div 5 + 1 \<le> days_in_month (yr + (if m \<le> 2 then 1 else 0)) m"
proof -
  have *: "0 \<le> mp \<and> mp \<le> 11 \<and> (153 * mp + 2) div 5 \<le> doy \<and> (mp \<le> 10 \<longrightarrow> doy < (153 * (mp + 1) + 2) div 5)"
    unfolding mp_def month_of_day_def [symmetric] using assms(1,2) by (intro month_split) auto
  then have "mp \<in> set [0..11]" by simp
  then have "mp = 0 \<or> mp = 1 \<or> mp = 2 \<or> mp = 3 \<or> mp = 4 \<or> mp = 5 \<or> mp = 6 \<or> mp = 7 \<or>
    mp = 8 \<or> mp = 9 \<or> mp = 10 \<or> mp = 11" by (simp add: upto.simps)
  with * show ?thesis
    using assms(2) unfolding m_def
    by (elim disjE) (auto simp: days_in_month_def kMonthDays_def)
qed

lemma civil_fields:
  assumes "0 \<le> z"
  defines "c \<equiv> civil_from_days z"
  shows "1 \<le> cd_month c \<and> cd_month c \<le> 12 \<and> 1 \<le> cd_day c \<and>
    cd_day c \<le> days_in_month (cd_year c) (cd_month c) \<and>
    days_from_civil (cd_year c) (cd_month c) (cd_day c) = z \<and>
    400 * ((z + 719468) div 146097) \<le> cd_year c \<and> cd_year c \<le> 400 * ((z + 719468) div 146097) + 400"
proof -
  define w where "w = z + 719468"
  define era where "era = w div 146097"
  define doe where "doe = w - era * 146097"
  define yoe where "yoe = year_of_era doe"
  define doy where "doy = doe - year_start yoe"
  define mp where "mp = (5 * doy + 2) div 153"
  define d where "d = doy - (153 * mp + 2) div 5 + 1"
  define m where "m = (if mp < 10 then mp + 3 else mp - 9)"
  have w: "0 \<le> w" using assms by (simp add: w_def)
  have c: "c = \<lparr>cd_year = yoe + era * 400 + (if m \<le> 2 then 1 else 0), cd_month = m, cd_day = d\<rparr>"
    unfolding c_def civil_from_days_def Let_def w_def [symmetric] if_P [OF w] tdiv_nonneg [OF w]
      era_def [symmetric] doe_def [symmetric] year_of_era_def [symmetric]
      yoe_def [symmetric] year_start_def [symmetric] doy_def [symmetric] mp_def [symmetric] d_def [symmetric]
      m_def [symmetric] ..
  have doe_mod: "doe = w mod 146097" by (simp add: doe_def era_def minus_div_mult_eq_mod)
  then have "0 \<le> doe" "doe \<le> 146096" using pos_mod_bound [of 146097 w] by simp_all
  note yb = year_of_era_bounds [OF this, folded yoe_def]
  have "doy \<le> 364 \<or> doy = 365 \<and> is_leap (yoe + era * 400 + 1)"
    using year_length [of yoe doe era] yb by (auto simp: doy_def algebra_simps)
  moreover have "0 \<le> doy" using yb by (simp add: doy_def)
  ultimately have md: "0 \<le> mp \<and> mp \<le> 11 \<and> 1 \<le> d \<and>
      d \<le> days_in_month (yoe + era * 400 + (if m \<le> 2 then 1 else 0)) m"
    unfolding mp_def d_def m_def by (intro month_days)
  have m: "1 \<le> m" "m \<le> 12" "(if m > 2 then m - 3 else m + 9) = mp"
    using md by (auto simp: m_def)
  have "0 \<le> era" using w by (simp add: era_def pos_imp_zdiv_nonneg_iff)
  then have y0: "0 \<le> yoe + era * 400" using yb by simp
  have e: "(yoe + era * 400) div 400 = era" using yb by simp
  have "days_from_civil (cd_year c) (cd_month c) (cd_day c)
      = era * 146097 + (year_start yoe + ((153 * mp + 2) div 5 + d - 1)) - 719468"
    unfolding days_from_civil_def c Let_def civil_date.select_convs
    using y0 e m by (simp add: year_start_def)
  also have "\<dots> = z" by (simp add: d_def doy_def doe_def w_def)
  finally have "days_from_civil (cd_year c) (cd_month c) (cd_day c) = z" .
  moreover have "400 * era \<le> cd_year c" "cd_year c \<le> 400 * era + 400" using yb by (auto simp: c)
  ultimately show ?thesis
    using md m by (simp add: c era_def w_def)
qed


lemma fixed_digits_append:
  "fixed_digits v (xs @ ys) = Option.bind (fixed_digits v xs) (\<lambda>w. fixed_digits w ys)"
  by (induction v xs rule: fixed_digits.induct) (auto split: option.splits)

lemma fixed_digits_zeros: "fixed_digits 0 (replicate n (CHR ''0'') @ cs) = fixed_digits 0 cs"
  by (induction n) (simp_all add: char_digit_def less_eq_char_def)

lemma fixed_digits_rev: "fixed_digits 0 (rev (rev_digits n)) = Some (int n)"
proof (induction n rule: rev_digits.induct)
  case (1 v)
  show ?case
  proof (cases "v = 0")
    case False
    then have "fixed_digits 0 (rev (rev_digits v)) = Some (int (v div 10) * 10 + int (v mod 10))"
      using 1 by (simp add: rev_digits.simps [of v] fixed_digits_append digit_char_value)
    also have "int (v div 10) * 10 + int (v mod 10) = int v" by (simp add: zdiv_int zmod_int)
    finally show ?thesis .
  qed (simp add: rev_digits.simps)
qed

lemma fixed_digits_pad: "fixed_digits 0 (pad_decimal w n) = Some (int n)"
proof -
  have "fixed_digits 0 (nat_decimal n) = Some (int n)"
    by (simp add: nat_decimal_def fixed_digits_rev) (simp add: char_digit_def less_eq_char_def)
  then show ?thesis by (simp add: pad_decimal_def fixed_digits_zeros)
qed

lemma length_pad_decimal: "0 < w \<Longrightarrow> n < 10 ^ w \<Longrightarrow> length (pad_decimal w n) = w"
  using length_rev_digits [of n w] by (auto simp: pad_decimal_def nat_decimal_def)

lemma all_digits_fixed:
  "fixed_digits v cs = Some w \<Longrightarrow> list_all (\<lambda>ch. char_digit ch \<noteq> None) cs"
  by (induction v cs rule: fixed_digits.induct) (auto split: option.splits)

lemma fraction_digits_fixed:
  "fixed_digits v cs = Some w \<Longrightarrow> n + length cs \<le> 9 \<Longrightarrow>
   fraction_digits n v (cs @ ''Z'') = Some (n + length cs, w, ''Z'')"
proof (induction v cs arbitrary: n rule: fixed_digits.induct)
  case (1 v)
  then show ?case by (simp add: char_digit_def less_eq_char_def)
next
  case (2 v ch cs)
  then show ?case by (auto split: option.splits)
qed

lemma parse_fraction_pad:
  "n < 10 ^ 9 \<Longrightarrow> parse_fraction (''.'' @ pad_decimal 9 n @ ''Z'') = Inr (int n, ''Z'')"
  using fraction_digits_fixed [OF fixed_digits_pad, of 0 9 n] length_pad_decimal [of 9 n]
  by (simp add: parse_fraction_def)

lemma parse_timestamp_spelled:
  assumes "year < 10 ^ 4" "month < 10 ^ 2" "day < 10 ^ 2" "hour < 10 ^ 2" "minute < 10 ^ 2" "second < 10 ^ 2"
    "nanos < 10 ^ 9"
  shows "parse_timestamp (pad_decimal 4 year @ ''-'' @ pad_decimal 2 month @ ''-'' @ pad_decimal 2 day @ ''T'' @
      pad_decimal 2 hour @ '':'' @ pad_decimal 2 minute @ '':'' @ pad_decimal 2 second @ ''.'' @
      pad_decimal 9 nanos @ ''Z'')
    = timestamp_of_fields (int year) (int month) (int day) (int hour) (int minute) (int second) (int nanos)"
proof -
  note len = length_pad_decimal [OF _ assms(1), simplified] length_pad_decimal [OF _ assms(2), simplified]
    length_pad_decimal [OF _ assms(3), simplified] length_pad_decimal [OF _ assms(4), simplified]
    length_pad_decimal [OF _ assms(5), simplified] length_pad_decimal [OF _ assms(6), simplified]
    length_pad_decimal [OF _ assms(7), simplified]
  show ?thesis
    using parse_fraction_pad [OF assms(7)]
    by (simp add: parse_timestamp_def parse_date_time_def parse_fixed_digits_def len nth_append nth_Cons'
        fixed_digits_pad)
qed

lemma parse_timestamp_spelled_int:
  assumes "0 \<le> year" "year < 10000" "1 \<le> month" "month \<le> 12" "1 \<le> day" "day \<le> 31"
    "0 \<le> hour" "hour \<le> 23" "0 \<le> minute" "minute \<le> 59" "0 \<le> second" "second \<le> 59"
    "0 \<le> nanos" "nanos < 10 ^ 9"
  shows "parse_timestamp (pad_decimal 4 (nat year) @ ''-'' @ pad_decimal 2 (nat month) @ ''-'' @
      pad_decimal 2 (nat day) @ ''T'' @ pad_decimal 2 (nat hour) @ '':'' @ pad_decimal 2 (nat minute) @ '':'' @
      pad_decimal 2 (nat second) @ ''.'' @ pad_decimal 9 (nat nanos) @ ''Z'')
    = timestamp_of_fields year month day hour minute second nanos"
  using assms by (subst parse_timestamp_spelled) simp_all

lemma civil_year_range:
  assumes "0 \<le> z" "z \<le> 47482"
  shows "0 \<le> cd_year (civil_from_days z) \<and> cd_year (civil_from_days z) < 10000"
proof -
  have "0 \<le> (z + 719468) div 146097" "(z + 719468) div 146097 \<le> 5" using assms by linarith+
  then show ?thesis using civil_fields [OF assms(1)] by linarith
qed

lemma days_in_month_le: "days_in_month y m \<le> 31"
proof -
  consider "m < 1 \<or> m > 12" | "m \<in> set [1..12]" by fastforce
  then show ?thesis
  proof cases
    case 2
    then have "m = 1 \<or> m = 2 \<or> m = 3 \<or> m = 4 \<or> m = 5 \<or> m = 6 \<or> m = 7 \<or> m = 8 \<or> m = 9 \<or> m = 10 \<or> m = 11 \<or> m = 12"
      by (simp add: upto.simps)
    then show ?thesis by (elim disjE) (simp_all add: days_in_month_def kMonthDays_def)
  qed (simp add: days_in_month_def)
qed

lemma timestamp_of_fields_ok:
  assumes "1 \<le> month" "month \<le> 12" "1 \<le> day" "day \<le> days_in_month year month"
    "hour \<le> 23" "minute \<le> 59" "second \<le> 59"
    "days_from_civil year month day * 86400 + hour * 3600 + minute * 60 + second = sec" "0 \<le> sec"
    "sec * kNsPerSecond + nanos = ts" "int64_ok ts" "ts \<le> kMaxTimestampNs"
  shows "timestamp_of_fields year month day hour minute second nanos = Inr ts"
  using assms by (simp add: timestamp_of_fields_def Let_def)

text \<open>Every instant of the timeline, to the nanosecond, reads back from its ISO-8601 spelling.\<close>

theorem timestamp_roundtrip:
  assumes "0 \<le> ts" and "ts \<le> kMaxTimestampNs"
  shows "parse_timestamp (format_timestamp ts) = Inr ts"
proof -
  define sec nan day sod where "sec = ts div kNsPerSecond" and "nan = ts mod kNsPerSecond"
    and "day = sec div 86400" and "sod = sec mod 86400"
  note defs = sec_def nan_def day_def sod_def
  define c where "c = civil_from_days day"
  have sec: "0 \<le> sec" "sec \<le> 4102444800" and nan: "0 \<le> nan" "nan < 10 ^ 9"
    using assms by (simp_all add: defs time_consts)
  then have day: "0 \<le> day" "day \<le> 47482" and sod: "0 \<le> sod" "sod < 86400"
    by (simp_all add: day_def sod_def)
  note cf = civil_fields [OF day(1), folded c_def] and cy = civil_year_range [OF day, folded c_def]
  have m60: "sod mod 3600 mod 60 = sod mod 60" by (simp add: mod_mod_cancel)
  have hms: "0 \<le> sod div 3600" "sod div 3600 \<le> 23" "0 \<le> sod mod 3600 div 60" "sod mod 3600 div 60 \<le> 59"
    "0 \<le> sod mod 60" "sod mod 60 \<le> 59"
    using sod by simp_all
  have split: "sod div 3600 * 3600 + sod mod 3600 div 60 * 60 + sod mod 60 = sod"
    using div_mult_mod_eq [of sod 3600] div_mult_mod_eq [of "sod mod 3600" 60] m60 by linarith
  have dm: "cd_day c \<le> 31" using cf days_in_month_le order_trans by blast
  have total: "sec * kNsPerSecond + nan = ts" "day * 86400 + sod = sec"
    by (simp_all add: defs)
  have ok: "int64_ok ts" using assms by (simp add: int64_ok_def time_consts)
  have fmt: "format_timestamp ts = pad_decimal 4 (nat (cd_year c)) @ ''-'' @ pad_decimal 2 (nat (cd_month c)) @
      ''-'' @ pad_decimal 2 (nat (cd_day c)) @ ''T'' @ pad_decimal 2 (nat (sod div 3600)) @ '':'' @
      pad_decimal 2 (nat (sod mod 3600 div 60)) @ '':'' @ pad_decimal 2 (nat (sod mod 60)) @ ''.'' @
      pad_decimal 9 (nat nan) @ ''Z''"
    unfolding format_timestamp_def Let_def if_not_P [OF assms(1) [folded not_less]]
      sec_def [symmetric] nan_def [symmetric] day_def [symmetric] sod_def [symmetric] c_def [symmetric] ..
  have "parse_timestamp (format_timestamp ts) = timestamp_of_fields (cd_year c) (cd_month c) (cd_day c)
      (sod div 3600) (sod mod 3600 div 60) (sod mod 60) nan"
    unfolding fmt by (rule parse_timestamp_spelled_int) (use cf cy hms dm nan in blast)+
  also have "\<dots> = Inr ts"
  proof (rule timestamp_of_fields_ok)
    have "days_from_civil (cd_year c) (cd_month c) (cd_day c) = day" using cf by blast
    then show "days_from_civil (cd_year c) (cd_month c) (cd_day c) * 86400 + sod div 3600 * 3600 +
        sod mod 3600 div 60 * 60 + sod mod 60 = sec"
      using split total(2) by (simp only: add.assoc)
  qed (use cf hms sec total ok assms in blast)+
  finally show ?thesis .
qed

theorem timestamp_roundtrip_witness:
  "parse_timestamp (format_timestamp 951782399123456789) = Inr 951782399123456789"
  using timestamp_roundtrip [of 951782399123456789] by (simp add: time_consts)


end
