(* ===== verification/Brf_Segment_Tree.thy ===== *)
theory Brf_Segment_Tree
  imports Brf_Time
begin

text \<open>
  The dynamic segment tree behind \<^verbatim>\<open>IntervalCapacityIndex\<close> in \<^verbatim>\<open>src/index.cpp\<close>: range
  add and range maximum over the timeline, with lazy tags and saturating arithmetic.

  The node vector of the source is an algebraic tree: index 0, the absent child, is \<open>Leaf\<close>; nodes
  never move between parents and are never shared, so a child index is the subtree it denotes. The
  recursion is on the width of the range, as in the source, not on the tree, because \<^verbatim>\<open>add\<close>
  allocates the nodes it descends into.

  The lemmas show that, as long as no instant carries more than \<open>load_bound\<close>, no addition saturates
  and a query returns the exact maximum over its window.
\<close>

definition kIndexSaturation :: int where "kIndexSaturation = 4611686018427387904"
definition kNoValue :: int where "kNoValue = - (2 ^ 63)"

definition saturating_add :: "int \<Rightarrow> int \<Rightarrow> int" where
  "saturating_add a b =
     (if b > 0 \<and> a > kIndexSaturation - b then kIndexSaturation
      else if b < 0 \<and> a < - kIndexSaturation - b then - kIndexSaturation
      else a + b)"

datatype stree = Leaf | Node (node_max: int) (node_lazy: int) (node_left: stree) (node_right: stree)

definition make_node :: stree where
  "make_node = Node 0 0 Leaf Leaf"

definition ensure_node :: "stree \<Rightarrow> stree" where
  "ensure_node t = (if t = Leaf then make_node else t)"

fun st_max :: "stree \<Rightarrow> int" where
  "st_max Leaf = 0"
| "st_max (Node m z l r) = m"

text \<open>A pending value handed to a child: both its maximum and its tag grow.\<close>

fun st_bump :: "int \<Rightarrow> stree \<Rightarrow> stree" where
  "st_bump d Leaf = Leaf"
| "st_bump d (Node m z l r) = Node (saturating_add m d) (saturating_add z d) l r"

definition mid_of :: "int \<Rightarrow> int \<Rightarrow> int" where
  "mid_of lo hi = lo + (hi - lo) div 2"

lemma mid_of_between: "2 \<le> hi - lo \<Longrightarrow> lo < mid_of lo hi \<and> mid_of lo hi < hi"
  by (simp add: mid_of_def) linarith

lemma descend_wide:
  "\<not> (qr \<le> lo \<or> hi \<le> ql) \<Longrightarrow> \<not> (ql \<le> lo \<and> hi \<le> qr) \<Longrightarrow> 2 \<le> hi - (lo :: int)"
  by linarith

lemma descend_measure:
  assumes "\<not> (qr \<le> lo \<or> hi \<le> ql)" and "\<not> (ql \<le> lo \<and> hi \<le> qr)"
  shows "nat (mid_of lo hi - lo) < nat (hi - lo)" "nat (hi - mid_of lo hi) < nat (hi - lo)"
  using mid_of_between [OF descend_wide [OF assms]] by simp_all

function st_add :: "stree \<Rightarrow> int \<Rightarrow> int \<Rightarrow> int \<Rightarrow> int \<Rightarrow> int \<Rightarrow> stree" where
  "st_add Leaf lo hi ql qr delta = Leaf"
| "st_add (Node m z l r) lo hi ql qr delta =
     (if qr \<le> lo \<or> hi \<le> ql then Node m z l r
      else if ql \<le> lo \<and> hi \<le> qr then Node (saturating_add m delta) (saturating_add z delta) l r
      else
        let mid = mid_of lo hi;
            l0 = ensure_node l;
            r0 = ensure_node r;
            l1 = (if z \<noteq> 0 then st_bump z l0 else l0);
            r1 = (if z \<noteq> 0 then st_bump z r0 else r0);
            l2 = st_add l1 lo mid ql qr delta;
            r2 = st_add r1 mid hi ql qr delta
        in Node (max (st_max l2) (st_max r2)) 0 l2 r2)"
  by pat_completeness auto

termination
proof (relation "measure (\<lambda>(t, lo, hi, ql, qr, delta). nat (hi - lo))", goal_cases)
  case (2 m z l r lo hi ql qr delta)
  then show ?case using descend_measure(1) [of qr lo hi ql] by simp
next
  case (3 m z l r lo hi ql qr delta)
  then show ?case using descend_measure(2) [of qr lo hi ql] by simp
qed simp

fun st_query :: "stree \<Rightarrow> int \<Rightarrow> int \<Rightarrow> int \<Rightarrow> int \<Rightarrow> int \<Rightarrow> int" where
  "st_query Leaf lo hi ql qr carry = (if qr \<le> lo \<or> hi \<le> ql then kNoValue else carry)"
| "st_query (Node m z l r) lo hi ql qr carry =
     (if qr \<le> lo \<or> hi \<le> ql then kNoValue
      else if ql \<le> lo \<and> hi \<le> qr then saturating_add carry m
      else
        let mid = mid_of lo hi;
            next_carry = saturating_add carry z
        in max (st_query l lo mid ql qr next_carry) (st_query r mid hi ql qr next_carry))"

fun st_exceeds :: "stree \<Rightarrow> int \<Rightarrow> int \<Rightarrow> int \<Rightarrow> int \<Rightarrow> int \<Rightarrow> int \<Rightarrow> bool" where
  "st_exceeds Leaf lo hi ql qr carry limit \<longleftrightarrow> \<not> (qr \<le> lo \<or> hi \<le> ql) \<and> carry > limit"
| "st_exceeds (Node m z l r) lo hi ql qr carry limit \<longleftrightarrow>
     (if qr \<le> lo \<or> hi \<le> ql then False
      else if ql \<le> lo \<and> hi \<le> qr then saturating_add carry m > limit
      else
        let mid = mid_of lo hi;
            next_carry = saturating_add carry z
        in st_exceeds l lo mid ql qr next_carry limit \<or> st_exceeds r mid hi ql qr next_carry limit)"

subsection \<open>What a tree stands for\<close>

text \<open>The value of a tree at an instant: the sum of the tags on the way down to it.\<close>

fun st_val :: "stree \<Rightarrow> int \<Rightarrow> int \<Rightarrow> int \<Rightarrow> int" where
  "st_val Leaf lo hi x = 0"
| "st_val (Node m z l r) lo hi x =
     z + (if x < mid_of lo hi then st_val l lo (mid_of lo hi) x else st_val r (mid_of lo hi) hi x)"

text \<open>The least value of a tree; it is not stored, but it bounds the tags.\<close>

fun st_min :: "stree \<Rightarrow> int" where
  "st_min Leaf = 0"
| "st_min (Node m z l r) = z + min (st_min l) (st_min r)"

text \<open>
  Shape and content invariant. The maximum of a node is its tag plus the maximum below it; children
  come in pairs and only where the range has two instants; below a tag the values lie in
  \<open>0 .. P\<close>, so that the tags above an instant never exceed \<open>P\<close> in size.
\<close>

fun st_ok :: "int \<Rightarrow> stree \<Rightarrow> int \<Rightarrow> int \<Rightarrow> bool" where
  "st_ok P Leaf lo hi \<longleftrightarrow> True"
| "st_ok P (Node m z l r) lo hi \<longleftrightarrow>
     m = z + max (st_max l) (st_max r) \<and> (l = Leaf \<longleftrightarrow> r = Leaf) \<and> (l \<noteq> Leaf \<longrightarrow> 2 \<le> hi - lo) \<and>
     0 \<le> min (st_min l) (st_min r) \<and> min (st_min l) (st_min r) \<le> P \<and>
     st_ok P l lo (mid_of lo hi) \<and> st_ok P r (mid_of lo hi) hi"

definition load_bound :: int where
  "load_bound = 2 ^ 61"

lemma saturating_add_exact:
  "- kIndexSaturation \<le> a + b \<Longrightarrow> a + b \<le> kIndexSaturation \<Longrightarrow> saturating_add a b = a + b"
  by (auto simp: saturating_add_def)

lemma st_val_bounds:
  "st_ok P t lo hi \<Longrightarrow> lo < hi \<Longrightarrow> lo \<le> x \<Longrightarrow> x < hi \<Longrightarrow> st_min t \<le> st_val t lo hi x \<and> st_val t lo hi x \<le> st_max t"
proof (induction t arbitrary: lo hi)
  case (Node m z l r)
  show ?case
  proof (cases "l = Leaf")
    case True
    with Node.prems show ?thesis by auto
  next
    case False
    with Node.prems have mid: "lo < mid_of lo hi \<and> mid_of lo hi < hi" by (intro mid_of_between) auto
    then show ?thesis
      using Node.IH(1) [of lo "mid_of lo hi"] Node.IH(2) [of "mid_of lo hi" hi] Node.prems
      by (cases "x < mid_of lo hi") auto
  qed
qed auto

lemma st_max_attained:
  "st_ok P t lo hi \<Longrightarrow> lo < hi \<Longrightarrow> \<exists>x. lo \<le> x \<and> x < hi \<and> st_val t lo hi x = st_max t"
proof (induction t arbitrary: lo hi)
  case (Node m z l r)
  show ?case
  proof (cases "l = Leaf")
    case True
    with Node.prems show ?thesis by (intro exI [of _ lo]) auto
  next
    case False
    with Node.prems have mid: "lo < mid_of lo hi \<and> mid_of lo hi < hi" by (intro mid_of_between) auto
    obtain x y where x: "lo \<le> x" "x < mid_of lo hi" "st_val l lo (mid_of lo hi) x = st_max l"
      and y: "mid_of lo hi \<le> y" "y < hi" "st_val r (mid_of lo hi) hi y = st_max r"
      using Node.IH(1) [of lo "mid_of lo hi"] Node.IH(2) [of "mid_of lo hi" hi] Node.prems mid by auto
    show ?thesis
    proof (cases "st_max r \<le> st_max l")
      case True
      with x mid Node.prems show ?thesis by (intro exI [of _ x]) simp
    next
      case False
      with y mid Node.prems show ?thesis by (intro exI [of _ y]) simp
    qed
  qed
qed (auto intro: exI [of _ lo])

lemma st_min_attained:
  "st_ok P t lo hi \<Longrightarrow> lo < hi \<Longrightarrow> \<exists>x. lo \<le> x \<and> x < hi \<and> st_val t lo hi x = st_min t"
proof (induction t arbitrary: lo hi)
  case (Node m z l r)
  show ?case
  proof (cases "l = Leaf")
    case True
    with Node.prems show ?thesis by (intro exI [of _ lo]) auto
  next
    case False
    with Node.prems have mid: "lo < mid_of lo hi \<and> mid_of lo hi < hi" by (intro mid_of_between) auto
    obtain x y where x: "lo \<le> x" "x < mid_of lo hi" "st_val l lo (mid_of lo hi) x = st_min l"
      and y: "mid_of lo hi \<le> y" "y < hi" "st_val r (mid_of lo hi) hi y = st_min r"
      using Node.IH(1) [of lo "mid_of lo hi"] Node.IH(2) [of "mid_of lo hi" hi] Node.prems mid by auto
    show ?thesis
    proof (cases "st_min l \<le> st_min r")
      case True
      with x mid show ?thesis by (intro exI [of _ x]) simp
    next
      case False
      with y mid show ?thesis by (intro exI [of _ y]) simp
    qed
  qed
qed auto

subsection \<open>Range add\<close>

text \<open>
  The trees that can occur: at every instant of the range the value lies in \<open>0 .. P\<close> once the tags
  \<open>A\<close> above are added.
\<close>

definition st_within :: "int \<Rightarrow> int \<Rightarrow> stree \<Rightarrow> int \<Rightarrow> int \<Rightarrow> bool" where
  "st_within P A t lo hi \<longleftrightarrow> (\<forall>x. lo \<le> x \<and> x < hi \<longrightarrow> 0 \<le> A + st_val t lo hi x \<and> A + st_val t lo hi x \<le> P)"

lemma within_extremes:
  assumes "st_ok P t lo hi" and "lo < hi"
  shows "st_within P A t lo hi \<longleftrightarrow> 0 \<le> A + st_min t \<and> A + st_max t \<le> P"
proof
  assume "st_within P A t lo hi"
  then show "0 \<le> A + st_min t \<and> A + st_max t \<le> P"
    using st_min_attained [OF assms] st_max_attained [OF assms] by (metis st_within_def)
next
  assume "0 \<le> A + st_min t \<and> A + st_max t \<le> P"
  then show "st_within P A t lo hi"
    using st_val_bounds [OF assms] by (fastforce simp: st_within_def)
qed

lemma ensure_node_ok:
  "st_ok P t lo hi \<Longrightarrow> 0 \<le> P \<Longrightarrow> st_ok P (ensure_node t) lo hi \<and> ensure_node t \<noteq> Leaf \<and>
   st_val (ensure_node t) lo hi x = st_val t lo hi x \<and> st_min (ensure_node t) = st_min t \<and>
   st_max (ensure_node t) = st_max t"
  by (auto simp: ensure_node_def make_node_def)

lemma st_min_le_max: "st_ok P t lo hi \<Longrightarrow> lo < hi \<Longrightarrow> st_min t \<le> st_max t"
  using st_val_bounds [of P t lo hi lo] by simp

lemma bump_ok:
  assumes "st_ok P t lo hi" "lo < hi" "t \<noteq> Leaf" "0 \<le> st_min t + d" "st_max t + d \<le> P" "2 * P \<le> kIndexSaturation" "0 \<le> P"
  shows "st_ok P (st_bump d t) lo hi \<and> st_bump d t \<noteq> Leaf \<and> st_min (st_bump d t) = st_min t + d \<and>
    st_max (st_bump d t) = st_max t + d \<and> (\<forall>x. st_val (st_bump d t) lo hi x = st_val t lo hi x + d)"
proof (cases t)
  case (Node m z l r)
  have "st_min t \<le> st_max t" using assms(1,2) by (rule st_min_le_max)
  then have "saturating_add m d = m + d" "saturating_add z d = z + d"
    using assms Node by (auto intro!: saturating_add_exact)
  then show ?thesis using assms(1) Node by auto
qed (use assms in simp)

lemma push_ok:
  assumes "st_ok P t lo hi" "lo < hi" "0 \<le> st_min t + d" "st_max t + d \<le> P" "2 * P \<le> kIndexSaturation" "0 \<le> P"
  defines "t1 \<equiv> (if d \<noteq> 0 then st_bump d (ensure_node t) else ensure_node t)"
  shows "st_ok P t1 lo hi \<and> t1 \<noteq> Leaf \<and> (\<forall>x. st_val t1 lo hi x = st_val t lo hi x + d)"
  using bump_ok [of P "ensure_node t" lo hi d] ensure_node_ok [OF assms(1,6)] assms by (auto simp: t1_def)

text \<open>The two branches of \<open>st_add\<close> that change the tree.\<close>

lemma add_covered:
  assumes "2 * P \<le> kIndexSaturation" "0 \<le> P" "st_ok P t lo hi" "lo < hi" "t \<noteq> Leaf" "ql \<le> lo" "hi \<le> qr"
    and "\<forall>x. lo \<le> x \<and> x < hi \<and> ql \<le> x \<and> x < qr \<longrightarrow> 0 \<le> st_val t lo hi x + d \<and> st_val t lo hi x + d \<le> P"
  shows "st_ok P (st_bump d t) lo hi \<and> st_bump d t \<noteq> Leaf \<and>
    (\<forall>x. st_val (st_bump d t) lo hi x = st_val t lo hi x + d)"
proof -
  have "0 \<le> st_min t + d" "st_max t + d \<le> P"
    using st_min_attained [OF assms(3,4)] st_max_attained [OF assms(3,4)] assms(6-8) by force+
  then show ?thesis using bump_ok [of P t lo hi d] assms by simp
qed

definition st_updated :: "int \<Rightarrow> stree \<Rightarrow> stree \<Rightarrow> int \<Rightarrow> int \<Rightarrow> int \<Rightarrow> int \<Rightarrow> int \<Rightarrow> bool" where
  "st_updated P t t' lo hi ql qr d \<longleftrightarrow> st_ok P t' lo hi \<and> t' \<noteq> Leaf \<and>
     (\<forall>x. lo \<le> x \<and> x < hi \<longrightarrow> st_val t' lo hi x = st_val t lo hi x + (if ql \<le> x \<and> x < qr then d else 0))"

definition st_updatable :: "int \<Rightarrow> stree \<Rightarrow> int \<Rightarrow> int \<Rightarrow> int \<Rightarrow> int \<Rightarrow> int \<Rightarrow> bool" where
  "st_updatable P t lo hi ql qr d \<longleftrightarrow> st_ok P t lo hi \<and> lo < hi \<and> t \<noteq> Leaf \<and> st_within P 0 t lo hi \<and>
     (\<forall>x. lo \<le> x \<and> x < hi \<and> ql \<le> x \<and> x < qr \<longrightarrow> 0 \<le> st_val t lo hi x + d \<and> st_val t lo hi x + d \<le> P)"

lemma updated_range:
  assumes "st_updatable P t lo hi ql qr d" and "st_updated P t t' lo hi ql qr d"
  shows "0 \<le> st_min t'" and "st_min t' \<le> P"
proof -
  from assms(2) have ok: "st_ok P t' lo hi" by (simp add: st_updated_def)
  from assms(1) have "lo < hi" by (simp add: st_updatable_def)
  from st_min_attained [OF ok this] obtain x where x: "lo \<le> x" "x < hi" "st_val t' lo hi x = st_min t'" by blast
  with assms have "st_min t' = st_val t lo hi x + (if ql \<le> x \<and> x < qr then d else 0)"
    by (simp add: st_updated_def)
  with x assms(1) show "0 \<le> st_min t'" "st_min t' \<le> P"
    by (auto simp: st_updatable_def st_within_def)
qed

lemma join_updated:
  assumes l: "st_updatable P l1 lo (mid_of lo hi) ql qr d" "st_updated P l1 l2 lo (mid_of lo hi) ql qr d"
    and r: "st_updatable P r1 (mid_of lo hi) hi ql qr d" "st_updated P r1 r2 (mid_of lo hi) hi ql qr d"
    and vl: "\<forall>x. lo \<le> x \<and> x < mid_of lo hi \<longrightarrow> st_val l1 lo (mid_of lo hi) x = st_val t lo hi x"
    and vr: "\<forall>x. mid_of lo hi \<le> x \<and> x < hi \<longrightarrow> st_val r1 (mid_of lo hi) hi x = st_val t lo hi x"
    and wide: "2 \<le> hi - lo"
  shows "st_updated P t (Node (max (st_max l2) (st_max r2)) 0 l2 r2) lo hi ql qr d"
  using updated_range [OF l] updated_range [OF r] l r vl vr wide
  by (auto simp: st_updated_def)

lemma descend_updatable:
  assumes bounds: "2 * P \<le> kIndexSaturation" "0 \<le> P"
    and ok: "st_ok P c clo chi" "clo < chi" "lo \<le> clo" "chi \<le> hi"
    and val: "\<forall>x. clo \<le> x \<and> x < chi \<longrightarrow> st_val t lo hi x = z + st_val c clo chi x"
    and upd: "st_updatable P t lo hi ql qr d"
  defines "c1 \<equiv> (if z \<noteq> 0 then st_bump z (ensure_node c) else ensure_node c)"
  shows "st_updatable P c1 clo chi ql qr d \<and> (\<forall>x. clo \<le> x \<and> x < chi \<longrightarrow> st_val c1 clo chi x = st_val t lo hi x)"
proof -
  have within: "st_within P z c clo chi"
    unfolding st_within_def
  proof (intro allI impI)
    fix x assume x: "clo \<le> x \<and> x < chi"
    then have "z + st_val c clo chi x = st_val t lo hi x" using val by simp
    moreover have "0 \<le> st_val t lo hi x \<and> st_val t lo hi x \<le> P"
      using upd x ok(3,4) by (simp add: st_updatable_def st_within_def)
    ultimately show "0 \<le> z + st_val c clo chi x \<and> z + st_val c clo chi x \<le> P" by simp
  qed
  then have "0 \<le> st_min c + z" "st_max c + z \<le> P"
    using within_extremes [OF ok(1,2)] by (simp_all add: add.commute)
  then have c1: "st_ok P c1 clo chi \<and> c1 \<noteq> Leaf \<and> (\<forall>x. st_val c1 clo chi x = st_val c clo chi x + z)"
    unfolding c1_def using push_ok [OF ok(1,2)] bounds by blast
  then have v: "\<forall>x. clo \<le> x \<and> x < chi \<longrightarrow> st_val c1 clo chi x = st_val t lo hi x"
    using val by (simp add: add.commute)
  have inside: "lo \<le> x \<and> x < hi" if "clo \<le> x \<and> x < chi" for x using that ok(3,4) by simp
  show ?thesis
    unfolding st_updatable_def st_within_def
    using c1 v ok(2) upd [unfolded st_updatable_def st_within_def] inside by simp
qed

text \<open>Adding is exact on every instant of the window and on no other.\<close>

lemma st_add_updated:
  assumes bounds: "2 * P \<le> kIndexSaturation" "0 \<le> P"
  shows "st_updatable P t lo hi ql qr delta \<Longrightarrow> st_updated P t (st_add t lo hi ql qr delta) lo hi ql qr delta"
proof (induction t lo hi ql qr delta rule: st_add.induct)
  case (2 m z l r lo hi ql qr delta)
  let ?t = "Node m z l r" and ?mid = "mid_of lo hi"
  note upd = "2.prems"
  consider (out) "qr \<le> lo \<or> hi \<le> ql" | (covered) "\<not> (qr \<le> lo \<or> hi \<le> ql)" "ql \<le> lo \<and> hi \<le> qr"
    | (partly) "\<not> (qr \<le> lo \<or> hi \<le> ql)" "\<not> (ql \<le> lo \<and> hi \<le> qr)" by blast
  then show ?case
  proof cases
    case out
    then show ?thesis using upd by (auto simp: st_updatable_def st_updated_def)
  next
    case covered
    then show ?thesis
      using add_covered [OF bounds, of ?t lo hi ql qr delta] upd by (auto simp: st_updatable_def st_updated_def)
  next
    case partly
    note wide = descend_wide [OF partly] and mid = mid_of_between [OF descend_wide [OF partly]]
    define l1 where "l1 = (if z \<noteq> 0 then st_bump z (ensure_node l) else ensure_node l)"
    define r1 where "r1 = (if z \<noteq> 0 then st_bump z (ensure_node r) else ensure_node r)"
    have ok: "st_ok P l lo ?mid" "st_ok P r ?mid hi" using upd by (simp_all add: st_updatable_def)
    have l1: "st_updatable P l1 lo ?mid ql qr delta \<and>
        (\<forall>x. lo \<le> x \<and> x < ?mid \<longrightarrow> st_val l1 lo ?mid x = st_val ?t lo hi x)"
      unfolding l1_def by (rule descend_updatable [OF bounds ok(1) _ _ _ _ upd]) (use mid in auto)
    have r1: "st_updatable P r1 ?mid hi ql qr delta \<and>
        (\<forall>x. ?mid \<le> x \<and> x < hi \<longrightarrow> st_val r1 ?mid hi x = st_val ?t lo hi x)"
      unfolding r1_def by (rule descend_updatable [OF bounds ok(2) _ _ _ _ upd]) (use mid in auto)
    have "st_updated P l1 (st_add l1 lo ?mid ql qr delta) lo ?mid ql qr delta"
      using "2.IH"(1) [OF partly refl refl refl l1_def r1_def] l1 by simp
    moreover have "st_updated P r1 (st_add r1 ?mid hi ql qr delta) ?mid hi ql qr delta"
      using "2.IH"(2) [OF partly refl refl refl l1_def r1_def refl] r1 by simp
    ultimately have "st_updated P ?t (Node (max (st_max (st_add l1 lo ?mid ql qr delta))
        (st_max (st_add r1 ?mid hi ql qr delta))) 0 (st_add l1 lo ?mid ql qr delta)
        (st_add r1 ?mid hi ql qr delta)) lo hi ql qr delta"
      using join_updated l1 r1 wide by blast
    then show ?thesis
      unfolding st_add.simps(2) if_not_P [OF partly(1)] if_not_P [OF partly(2)] Let_def
        l1_def [symmetric] r1_def [symmetric] .
  qed
qed (simp add: st_updatable_def)

subsection \<open>Range maximum\<close>

definition span_set :: "int \<Rightarrow> int \<Rightarrow> int \<Rightarrow> int \<Rightarrow> int set" where
  "span_set lo hi ql qr = {x. lo \<le> x \<and> x < hi \<and> ql \<le> x \<and> x < qr}"

definition is_peak :: "(int \<Rightarrow> int) \<Rightarrow> int set \<Rightarrow> int \<Rightarrow> bool" where
  "is_peak g S v \<longleftrightarrow> (if S = {} then v = kNoValue else (\<exists>x \<in> S. v = g x) \<and> (\<forall>x \<in> S. g x \<le> v))"

lemma span_set_empty: "lo < hi \<Longrightarrow> ql < qr \<Longrightarrow> span_set lo hi ql qr = {} \<longleftrightarrow> qr \<le> lo \<or> hi \<le> ql"
proof -
  assume *: "lo < hi" "ql < qr"
  have "max lo ql \<in> span_set lo hi ql qr" if "\<not> (qr \<le> lo \<or> hi \<le> ql)"
    using * that by (simp add: span_set_def)
  moreover have "span_set lo hi ql qr = {}" if "qr \<le> lo \<or> hi \<le> ql"
    using that by (auto simp: span_set_def)
  ultimately show ?thesis by blast
qed

lemma span_set_covered: "ql \<le> lo \<Longrightarrow> hi \<le> qr \<Longrightarrow> span_set lo hi ql qr = {x. lo \<le> x \<and> x < hi}"
  by (auto simp: span_set_def)

lemma span_set_split:
  "lo < mid \<Longrightarrow> mid < hi \<Longrightarrow> span_set lo hi ql qr = span_set lo mid ql qr \<union> span_set mid hi ql qr"
  by (auto simp: span_set_def)

lemma is_peak_join:
  assumes "is_peak g S a" "is_peak g T b" "\<forall>x \<in> S \<union> T. kNoValue \<le> g x"
  shows "is_peak g (S \<union> T) (max a b)"
proof -
  consider "S = {}" | "T = {}" | "S \<noteq> {}" "T \<noteq> {}" by blast
  then show ?thesis
  proof cases
    case 1
    then have "a \<le> b" using assms by (cases "T = {}") (auto simp: is_peak_def)
    then show ?thesis using 1 assms(2) by simp
  next
    case 2
    then have "b \<le> a" using assms by (cases "S = {}") (auto simp: is_peak_def)
    then show ?thesis using 2 assms(1) by simp
  next
    case 3
    then have "\<exists>x \<in> S. a = g x" "\<forall>x \<in> S. g x \<le> a" "\<exists>x \<in> T. b = g x" "\<forall>x \<in> T. g x \<le> b"
      using assms by (auto simp: is_peak_def)
    then show ?thesis using 3 by (cases "a \<le> b") (auto simp: is_peak_def intro: order_trans)
  qed
qed

lemma is_peak_cong: "(\<And>x. x \<in> S \<Longrightarrow> g x = h x) \<Longrightarrow> is_peak g S v \<longleftrightarrow> is_peak h S v"
  by (auto simp: is_peak_def)

lemma carry_bounds:
  assumes "st_ok P (Node m z l r) lo hi" "lo < hi" "st_within P A (Node m z l r) lo hi"
  shows "- P \<le> A + z" "A + z \<le> P" "0 \<le> A + m" "A + m \<le> P"
proof -
  have e: "0 \<le> A + st_min (Node m z l r)" "A + m \<le> P"
    using within_extremes [OF assms(1,2)] assms(3) by simp_all
  have "st_min (Node m z l r) \<le> m" using st_min_le_max [OF assms(1,2)] by simp
  then show "- P \<le> A + z" "A + z \<le> P" "0 \<le> A + m" "A + m \<le> P" using e assms(1) by auto
qed

lemma within_children:
  assumes "st_within P A (Node m z l r) lo hi" "lo < mid_of lo hi" "mid_of lo hi < hi"
  shows "st_within P (A + z) l lo (mid_of lo hi)" "st_within P (A + z) r (mid_of lo hi) hi"
proof -
  have "0 \<le> A + (z + st_val l lo (mid_of lo hi) x) \<and> A + (z + st_val l lo (mid_of lo hi) x) \<le> P"
    if "lo \<le> x \<and> x < mid_of lo hi" for x
    using assms that by (auto simp: st_within_def dest: spec [of _ x])
  moreover have "0 \<le> A + (z + st_val r (mid_of lo hi) hi x) \<and> A + (z + st_val r (mid_of lo hi) hi x) \<le> P"
    if "mid_of lo hi \<le> x \<and> x < hi" for x
    using assms that by (auto simp: st_within_def dest: spec [of _ x])
  ultimately show "st_within P (A + z) l lo (mid_of lo hi)" "st_within P (A + z) r (mid_of lo hi) hi"
    by (simp_all add: st_within_def add.assoc)
qed

lemma kNoValue_below: "0 \<le> P \<Longrightarrow> st_within P A t lo hi \<Longrightarrow> lo \<le> x \<Longrightarrow> x < hi \<Longrightarrow> kNoValue \<le> A + st_val t lo hi x"
  by (force simp: st_within_def kNoValue_def)

lemma st_query_peak:
  assumes bounds: "2 * P \<le> kIndexSaturation" "0 \<le> P" and w: "ql < qr"
  shows "st_ok P t lo hi \<Longrightarrow> lo < hi \<Longrightarrow> st_within P A t lo hi \<Longrightarrow>
    is_peak (\<lambda>x. A + st_val t lo hi x) (span_set lo hi ql qr) (st_query t lo hi ql qr A)"
proof (induction t arbitrary: lo hi A)
  case Leaf
  then show ?case using span_set_empty [OF Leaf(2) w] by (auto simp: is_peak_def)
next
  case (Node m z l r)
  let ?t = "Node m z l r" and ?mid = "mid_of lo hi"
  note cb = carry_bounds [OF Node.prems]
  consider (out) "qr \<le> lo \<or> hi \<le> ql" | (covered) "\<not> (qr \<le> lo \<or> hi \<le> ql)" "ql \<le> lo \<and> hi \<le> qr"
    | (partly) "\<not> (qr \<le> lo \<or> hi \<le> ql)" "\<not> (ql \<le> lo \<and> hi \<le> qr)" by blast
  then show ?case
  proof cases
    case out
    then show ?thesis using span_set_empty [OF Node.prems(2) w] by (auto simp: is_peak_def)
  next
    case covered
    have "saturating_add A m = A + m" using cb bounds by (intro saturating_add_exact) auto
    moreover obtain x where "lo \<le> x" "x < hi" "st_val ?t lo hi x = m"
      using st_max_attained [OF Node.prems(1,2)] by auto
    moreover have "\<forall>x. lo \<le> x \<and> x < hi \<longrightarrow> st_val ?t lo hi x \<le> m"
      using st_val_bounds [OF Node.prems(1,2)] by simp
    ultimately show ?thesis using covered by (auto simp: is_peak_def span_set_covered)
  next
    case partly
    note mid = mid_of_between [OF descend_wide [OF partly]]
    note wc = within_children [OF Node.prems(3)]
    have carry: "saturating_add A z = A + z" using cb bounds by (intro saturating_add_exact) auto
    have l: "is_peak (\<lambda>x. A + st_val ?t lo hi x) (span_set lo ?mid ql qr) (st_query l lo ?mid ql qr (A + z))"
      using Node.IH(1) [of lo ?mid "A + z"] Node.prems mid wc
      by (subst is_peak_cong [of _ _ "\<lambda>x. A + z + st_val l lo ?mid x"]) (auto simp: span_set_def)
    have r: "is_peak (\<lambda>x. A + st_val ?t lo hi x) (span_set ?mid hi ql qr) (st_query r ?mid hi ql qr (A + z))"
      using Node.IH(2) [of ?mid hi "A + z"] Node.prems mid wc
      by (subst is_peak_cong [of _ _ "\<lambda>x. A + z + st_val r ?mid hi x"]) (auto simp: span_set_def)
    have "\<forall>x \<in> span_set lo ?mid ql qr \<union> span_set ?mid hi ql qr. kNoValue \<le> A + st_val ?t lo hi x"
      using kNoValue_below [OF bounds(2) Node.prems(3)] mid by (auto simp: span_set_def simp del: st_val.simps)
    from is_peak_join [OF l r this] show ?thesis
      using mid span_set_split [of lo ?mid hi ql qr] carry
      unfolding st_query.simps(2) if_not_P [OF partly(1)] if_not_P [OF partly(2)] by (simp add: Let_def)
  qed
qed

lemma st_exceeds_iff:
  assumes bounds: "2 * P \<le> kIndexSaturation" "0 \<le> P" and w: "ql < qr"
  shows "st_ok P t lo hi \<Longrightarrow> lo < hi \<Longrightarrow> st_within P A t lo hi \<Longrightarrow>
    st_exceeds t lo hi ql qr A limit \<longleftrightarrow> (\<exists>x \<in> span_set lo hi ql qr. A + st_val t lo hi x > limit)"
proof (induction t arbitrary: lo hi A)
  case Leaf
  then show ?case using span_set_empty [OF Leaf(2) w] by auto
next
  case (Node m z l r)
  let ?t = "Node m z l r" and ?mid = "mid_of lo hi"
  note cb = carry_bounds [OF Node.prems]
  consider (out) "qr \<le> lo \<or> hi \<le> ql" | (covered) "\<not> (qr \<le> lo \<or> hi \<le> ql)" "ql \<le> lo \<and> hi \<le> qr"
    | (partly) "\<not> (qr \<le> lo \<or> hi \<le> ql)" "\<not> (ql \<le> lo \<and> hi \<le> qr)" by blast
  then show ?case
  proof cases
    case out
    then show ?thesis using span_set_empty [OF Node.prems(2) w] by auto
  next
    case covered
    have "saturating_add A m = A + m" using cb bounds by (intro saturating_add_exact) auto
    moreover obtain y where "lo \<le> y" "y < hi" "st_val ?t lo hi y = m"
      using st_max_attained [OF Node.prems(1,2)] by auto
    then have "(\<exists>x. lo \<le> x \<and> x < hi \<and> A + st_val ?t lo hi x > limit) \<longleftrightarrow> A + m > limit"
      using st_val_bounds [OF Node.prems(1,2)]
      by (metis add_le_cancel_left order_less_le_trans st_max.simps(2))
    ultimately show ?thesis using covered by (simp add: span_set_covered del: st_val.simps)
  next
    case partly
    note mid = mid_of_between [OF descend_wide [OF partly]]
    note wc = within_children [OF Node.prems(3)]
    have carry: "saturating_add A z = A + z" using cb bounds by (intro saturating_add_exact) auto
    have "st_exceeds ?t lo hi ql qr A limit \<longleftrightarrow>
        (\<exists>x \<in> span_set lo ?mid ql qr. A + z + st_val l lo ?mid x > limit) \<or>
        (\<exists>x \<in> span_set ?mid hi ql qr. A + z + st_val r ?mid hi x > limit)"
      unfolding st_exceeds.simps(2) if_not_P [OF partly(1)] if_not_P [OF partly(2)] Let_def carry
      using Node.IH(1) [of lo ?mid "A + z"] Node.IH(2) [of ?mid hi "A + z"] Node.prems mid wc by simp
    also have "\<dots> \<longleftrightarrow> (\<exists>x \<in> span_set lo ?mid ql qr. A + st_val ?t lo hi x > limit) \<or>
        (\<exists>x \<in> span_set ?mid hi ql qr. A + st_val ?t lo hi x > limit)"
      by (intro arg_cong2 [where f = "(\<or>)"] bex_cong refl) (simp_all add: span_set_def add.assoc)
    finally show ?thesis using span_set_split [of lo ?mid hi ql qr] mid by (simp only: bex_Un)
  qed
qed

end
