(* ===== verification/Brf_Interval_Index.thy ===== *)
theory Brf_Interval_Index
  imports Brf_Segment_Tree "HOL-Library.Multiset"
begin

text \<open>
  \<^verbatim>\<open>IntervalCapacityIndex\<close> of \<^verbatim>\<open>src/index.cpp\<close>: the amounts in force over the timeline.

  The specification is a multiset of intervals with their amounts; \<open>load\<close> is the amount in force at
  an instant. The locale \<open>load_index\<close> is the contract the resource index and the admission decision
  rely on, \<open>ici\<close> its interpretation on the segment tree.
\<close>

record interval_index =
  ic_root :: stree
  ic_live :: nat

text \<open>An empty node vector beyond the sentinel is the root \<open>Leaf\<close>; the constructor makes the root.\<close>

definition ici_new :: interval_index where
  "ici_new = \<lparr>ic_root = make_node, ic_live = 0\<rparr>"

definition ici_add :: "interval_index \<Rightarrow> interval \<Rightarrow> bandwidth \<Rightarrow> interval_index" where
  "ici_add s i amount =
     (if iv_empty i \<or> amount = 0 then s
      else s\<lparr>ic_root := st_add (ensure_node (ic_root s)) 0 kMaxTimestampNs (iv_start i) (iv_end i) amount,
             ic_live := ic_live s + 1\<rparr>)"

definition ici_remove :: "interval_index \<Rightarrow> interval \<Rightarrow> bandwidth \<Rightarrow> interval_index" where
  "ici_remove s i amount =
     (if iv_empty i \<or> amount = 0 then s
      else if ic_root s = Leaf then s
      else
        let live = (if ic_live s > 0 then ic_live s - 1 else ic_live s)
        in if live = 0 then \<lparr>ic_root = Leaf, ic_live = 0\<rparr>
           else \<lparr>ic_root = st_add (ic_root s) 0 kMaxTimestampNs (iv_start i) (iv_end i) (- amount), ic_live = live\<rparr>)"

definition ici_query :: "interval_index \<Rightarrow> int \<Rightarrow> int \<Rightarrow> int" where
  "ici_query s lo hi =
     (if ic_root s = Leaf then 0
      else
        let value = st_query (ic_root s) 0 kMaxTimestampNs lo hi 0
        in if value = kNoValue then 0 else value)"

definition ici_peak :: "interval_index \<Rightarrow> interval \<Rightarrow> bandwidth" where
  "ici_peak s w = (if iv_empty w then 0 else ici_query s (iv_start w) (iv_end w))"

definition ici_at :: "interval_index \<Rightarrow> timestamp \<Rightarrow> bandwidth" where
  "ici_at s t = (if t < 0 \<or> t \<ge> kMaxTimestampNs then 0 else ici_query s t (t + 1))"

definition ici_exceeds :: "interval_index \<Rightarrow> interval \<Rightarrow> bandwidth \<Rightarrow> bool" where
  "ici_exceeds s w limit =
     (if iv_empty w then False
      else if ic_root s = Leaf then False
      else st_exceeds (ic_root s) 0 kMaxTimestampNs (iv_start w) (iv_end w) 0 limit)"

subsection \<open>Specification\<close>

type_synonym loads = "(interval \<times> bandwidth) multiset"

definition on_timeline :: "timestamp \<Rightarrow> bool" where
  "on_timeline x \<longleftrightarrow> 0 \<le> x \<and> x < kMaxTimestampNs"

definition load :: "loads \<Rightarrow> timestamp \<Rightarrow> bandwidth" where
  "load es x = (\<Sum>(i, a) \<in># es. if contains_ts i x then a else 0)"

definition window_points :: "interval \<Rightarrow> timestamp set" where
  "window_points w = {x. contains_ts w x \<and> on_timeline x}"

definition spec_peak :: "loads \<Rightarrow> interval \<Rightarrow> bandwidth" where
  "spec_peak es w = (if window_points w = {} then 0 else Max (load es ` window_points w))"

definition loads_ok :: "loads \<Rightarrow> bool" where
  "loads_ok es \<longleftrightarrow> (\<forall>(i, a) \<in># es. \<not> iv_empty i \<and> 0 < a) \<and> (\<forall>x. on_timeline x \<longrightarrow> load es x \<le> load_bound)"

lemma load_empty [simp]: "load {#} x = 0"
  by (simp add: load_def)

lemma load_add [simp]: "load (add_mset (i, a) es) x = (if contains_ts i x then a else 0) + load es x"
  by (simp add: load_def)

lemma load_union: "load (es + es') x = load es x + load es' x"
  by (simp add: load_def)

lemma load_minus: "(i, a) \<in># es \<Longrightarrow> load (es - {#(i, a)#}) x = load es x - (if contains_ts i x then a else 0)"
  using load_add [of i a "es - {#(i, a)#}" x] by simp

lemma load_nonneg: "\<forall>(i, a) \<in># es. 0 < a \<Longrightarrow> 0 \<le> load es x"
  by (induction es) auto

lemma finite_window_points [simp]: "finite (window_points w)"
  by (rule finite_subset [of _ "{0..<kMaxTimestampNs}"]) (auto simp: window_points_def on_timeline_def)

lemma loads_ok_add:
  "loads_ok es \<Longrightarrow> \<not> iv_empty i \<Longrightarrow> 0 < a \<Longrightarrow> \<forall>x. on_timeline x \<longrightarrow> load (add_mset (i, a) es) x \<le> load_bound \<Longrightarrow>
   loads_ok (add_mset (i, a) es)"
  by (auto simp: loads_ok_def)

lemma loads_ok_nonneg: "loads_ok es \<Longrightarrow> 0 \<le> load es x"
  by (rule load_nonneg) (auto simp: loads_ok_def)

lemma loads_ok_minus:
  assumes "loads_ok es" "(i, a) \<in># es"
  shows "loads_ok (es - {#(i, a)#})"
proof -
  have "0 < a" using assms by (auto simp: loads_ok_def)
  then show ?thesis
    using assms by (fastforce simp: loads_ok_def load_minus dest: in_diffD)
qed

lemma spec_peak_le: "0 \<le> c \<Longrightarrow> spec_peak es w \<le> c \<longleftrightarrow> (\<forall>x \<in> window_points w. load es x \<le> c)"
  by (auto simp: spec_peak_def)

lemma spec_peak_ge: "x \<in> window_points w \<Longrightarrow> load es x \<le> spec_peak es w"
  by (auto simp: spec_peak_def)

lemma spec_peak_nonneg: "loads_ok es \<Longrightarrow> 0 \<le> spec_peak es w"
proof (cases "window_points w = {}")
  case False
  assume "loads_ok es"
  from False obtain x where "x \<in> window_points w" by blast
  with spec_peak_ge loads_ok_nonneg [OF \<open>loads_ok es\<close>, of x] show ?thesis by (meson order_trans)
qed (simp add: spec_peak_def)

locale load_index =
  fixes rep :: "loads \<Rightarrow> 'i \<Rightarrow> bool"
    and new :: 'i
    and add :: "'i \<Rightarrow> interval \<Rightarrow> bandwidth \<Rightarrow> 'i"
    and remove :: "'i \<Rightarrow> interval \<Rightarrow> bandwidth \<Rightarrow> 'i"
    and peak :: "'i \<Rightarrow> interval \<Rightarrow> bandwidth"
    and at :: "'i \<Rightarrow> timestamp \<Rightarrow> bandwidth"
    and exceeds :: "'i \<Rightarrow> interval \<Rightarrow> bandwidth \<Rightarrow> bool"
  assumes rep_ok: "rep es s \<Longrightarrow> loads_ok es"
    and rep_new: "rep {#} new"
    and rep_add: "rep es s \<Longrightarrow> loads_ok (add_mset (i, a) es) \<Longrightarrow> rep (add_mset (i, a) es) (add s i a)"
    and rep_remove: "rep es s \<Longrightarrow> (i, a) \<in># es \<Longrightarrow> rep (es - {#(i, a)#}) (remove s i a)"
    and peak_exact: "rep es s \<Longrightarrow> peak s w = spec_peak es w"
    and at_exact: "rep es s \<Longrightarrow> at s x = (if on_timeline x then load es x else 0)"
    and exceeds_exact: "rep es s \<Longrightarrow> 0 \<le> limit \<Longrightarrow> exceeds s w limit \<longleftrightarrow> limit < peak s w"
begin

lemma peak_le: "rep es s \<Longrightarrow> 0 \<le> c \<Longrightarrow> peak s w \<le> c \<longleftrightarrow> (\<forall>x \<in> window_points w. load es x \<le> c)"
  by (simp add: peak_exact spec_peak_le)

lemma peak_nonneg: "rep es s \<Longrightarrow> 0 \<le> peak s w"
  using spec_peak_nonneg rep_ok by (simp add: peak_exact)

text \<open>Room measured by the peak is room at every instant once the amount is added.\<close>

lemma closure:
  assumes "rep es s" "0 \<le> a" "peak s w + a \<le> c" "x \<in> window_points w"
  shows "load (add_mset (i, a) es) x \<le> c"
proof -
  have "load es x \<le> peak s w" using spec_peak_ge [OF assms(4)] assms(1) by (simp add: peak_exact)
  with assms show ?thesis by auto
qed

lemma add_then_remove:
  assumes "rep es s" "loads_ok (add_mset (i, a) es)"
  shows "peak (remove (add s i a) i a) w = peak s w"
  using peak_exact [OF rep_remove [OF rep_add [OF assms], of i a]] peak_exact [OF assms(1)] by simp

lemma add_raises_peak:
  assumes "rep es s" "loads_ok (add_mset (i, a) es)"
  shows "peak s w \<le> peak (add s i a) w" and "peak (add s i a) w \<le> peak s w + a"
proof -
  have a: "0 < a" using assms(2) by (auto simp: loads_ok_def)
  have p: "peak (add s i a) w = spec_peak (add_mset (i, a) es) w" by (rule peak_exact [OF rep_add [OF assms]])
  have n: "0 \<le> spec_peak (add_mset (i, a) es) w" using assms(2) by (rule spec_peak_nonneg)
  have "load es x \<le> load (add_mset (i, a) es) x" for x using a by simp
  then show "peak s w \<le> peak (add s i a) w"
    using spec_peak_le [OF n, of es w] spec_peak_ge [of _ w "add_mset (i, a) es"] assms(1) p
    by (metis order_trans peak_exact)
  have "0 \<le> peak s w + a" using peak_nonneg [OF assms(1), of w] a by simp
  then show "peak (add s i a) w \<le> peak s w + a"
    using closure [OF assms(1), of a w "peak s w + a" _ i] a by (simp add: p spec_peak_le)
qed

end

subsection \<open>The segment tree provides it\<close>

definition ici_rep :: "loads \<Rightarrow> interval_index \<Rightarrow> bool" where
  "ici_rep es s \<longleftrightarrow> loads_ok es \<and> ic_live s = size es \<and> (ic_root s = Leaf \<longrightarrow> es = {#}) \<and>
     st_ok load_bound (ic_root s) 0 kMaxTimestampNs \<and>
     (\<forall>x. on_timeline x \<longrightarrow> st_val (ic_root s) 0 kMaxTimestampNs x = load es x)"

lemma domain_nonempty: "0 < kMaxTimestampNs"
  by (simp add: time_consts)

lemma load_bound_saturation: "2 * load_bound \<le> kIndexSaturation" "0 \<le> load_bound"
  by (simp_all add: load_bound_def kIndexSaturation_def)

lemma contains_ts_bounds: "contains_ts i x \<longleftrightarrow> iv_start i \<le> x \<and> x < iv_end i"
  by (simp add: contains_ts_def)

lemma rep_within: "ici_rep es s \<Longrightarrow> st_within load_bound 0 (ic_root s) 0 kMaxTimestampNs"
  using loads_ok_nonneg [of es] by (simp add: ici_rep_def st_within_def on_timeline_def loads_ok_def)

lemma st_add_rep:
  assumes rep: "ici_rep es s" and ok: "loads_ok es'"
    and delta: "\<forall>x. on_timeline x \<longrightarrow> load es' x = load es x + (if contains_ts i x then d else 0)"
  defines "t \<equiv> st_add (ensure_node (ic_root s)) 0 kMaxTimestampNs (iv_start i) (iv_end i) d"
  shows "st_ok load_bound t 0 kMaxTimestampNs \<and> t \<noteq> Leaf \<and>
    (\<forall>x. on_timeline x \<longrightarrow> st_val t 0 kMaxTimestampNs x = load es' x)"
proof -
  let ?r = "ensure_node (ic_root s)"
  have ok_root: "st_ok load_bound (ic_root s) 0 kMaxTimestampNs" using rep by (simp add: ici_rep_def)
  note en = ensure_node_ok [OF ok_root load_bound_saturation(2)]
  have val: "st_val ?r 0 kMaxTimestampNs x = load es x" if "on_timeline x" for x
    using en rep that by (simp add: ici_rep_def)
  have "st_updatable load_bound ?r 0 kMaxTimestampNs (iv_start i) (iv_end i) d"
    unfolding st_updatable_def st_within_def
  proof (intro conjI allI impI)
    fix x assume x: "0 \<le> x \<and> x < kMaxTimestampNs"
    then show "0 \<le> 0 + st_val ?r 0 kMaxTimestampNs x" "0 + st_val ?r 0 kMaxTimestampNs x \<le> load_bound"
      using rep_within [OF rep] en by (simp_all add: st_within_def)
  next
    fix x assume x: "0 \<le> x \<and> x < kMaxTimestampNs \<and> iv_start i \<le> x \<and> x < iv_end i"
    then have "st_val ?r 0 kMaxTimestampNs x + d = load es' x"
      using val [of x] delta by (simp add: on_timeline_def contains_ts_def)
    then show "0 \<le> st_val ?r 0 kMaxTimestampNs x + d" "st_val ?r 0 kMaxTimestampNs x + d \<le> load_bound"
      using ok loads_ok_nonneg [OF ok, of x] x by (simp_all add: loads_ok_def on_timeline_def)
  qed (use en domain_nonempty in auto)
  from st_add_updated [OF load_bound_saturation this] show ?thesis
    using val delta by (auto simp: t_def st_updated_def on_timeline_def contains_ts_def)
qed

lemma ici_rep_add:
  assumes "ici_rep es s" and "loads_ok (add_mset (i, a) es)"
  shows "ici_rep (add_mset (i, a) es) (ici_add s i a)"
proof -
  have "\<not> iv_empty i" "0 < a" using assms(2) by (auto simp: loads_ok_def)
  then show ?thesis
    using st_add_rep [OF assms, of i a] assms by (simp add: ici_rep_def ici_add_def)
qed

lemma ici_rep_remove:
  assumes "ici_rep es s" and "(i, a) \<in># es"
  shows "ici_rep (es - {#(i, a)#}) (ici_remove s i a)"
proof -
  have ok: "loads_ok es" using assms(1) by (simp add: ici_rep_def)
  then have ia: "\<not> iv_empty i" "0 < a" using assms(2) by (auto simp: loads_ok_def)
  have root: "ic_root s \<noteq> Leaf" using assms by (auto simp: ici_rep_def)
  then have en: "ensure_node (ic_root s) = ic_root s" by (simp add: ensure_node_def)
  have live: "ic_live s = Suc (size (es - {#(i, a)#}))"
    using assms by (simp add: ici_rep_def size_Suc_Diff1)
  note ok' = loads_ok_minus [OF ok assms(2)]
  show ?thesis
  proof (cases "es - {#(i, a)#} = {#}")
    case True
    then show ?thesis
      using ia root live ok' by (simp add: ici_rep_def ici_remove_def)
  next
    case False
    then have "size (es - {#(i, a)#}) \<noteq> 0" by simp
    then show ?thesis
      using st_add_rep [OF assms(1) ok', of i "- a"] ia root live ok'
      by (simp add: ici_rep_def ici_remove_def load_minus [OF assms(2)] en)
  qed
qed

lemma window_points_span:
  "window_points w = span_set 0 kMaxTimestampNs (iv_start w) (iv_end w)"
  by (auto simp: window_points_def span_set_def on_timeline_def contains_ts_def)

lemma is_peak_spec:
  assumes "\<forall>x \<in> window_points w. g x = load es x" and "is_peak g (window_points w) v" and "loads_ok es"
  shows "(if v = kNoValue then 0 else v) = spec_peak es w"
proof (cases "window_points w = {}")
  case True
  with assms(2) show ?thesis by (simp add: is_peak_def spec_peak_def)
next
  case False
  with assms(1,2) have v: "v \<in> load es ` window_points w" "\<forall>y \<in> load es ` window_points w. y \<le> v"
    by (auto simp: is_peak_def)
  then have "0 \<le> v" using loads_ok_nonneg [OF assms(3)] by auto
  then have "v \<noteq> kNoValue" by (auto simp: kNoValue_def)
  with v False show ?thesis by (auto simp: spec_peak_def intro!: Max_eqI [symmetric])
qed

lemma ici_query_exact:
  assumes "ici_rep es s" and "\<not> iv_empty w"
  shows "ici_query s (iv_start w) (iv_end w) = spec_peak es w"
proof (cases "ic_root s = Leaf")
  case True
  then have "es = {#}" using assms(1) by (simp add: ici_rep_def)
  then have "spec_peak es w = 0" by (auto simp: spec_peak_def image_constant_conv)
  with True show ?thesis by (simp add: ici_query_def)
next
  case False
  have w: "iv_start w < iv_end w" using assms(2) by (simp add: iv_empty_def)
  have "is_peak (\<lambda>x. 0 + st_val (ic_root s) 0 kMaxTimestampNs x) (window_points w)
      (st_query (ic_root s) 0 kMaxTimestampNs (iv_start w) (iv_end w) 0)"
    unfolding window_points_span
    using assms(1) by (intro st_query_peak [OF load_bound_saturation w _ domain_nonempty rep_within])
      (auto simp: ici_rep_def)
  from is_peak_spec [OF _ this, of es] False assms(1) show ?thesis
    by (simp add: ici_query_def Let_def ici_rep_def window_points_def)
qed

lemma ici_peak_exact: "ici_rep es s \<Longrightarrow> ici_peak s w = spec_peak es w"
proof (cases "iv_empty w")
  case True
  then have "window_points w = {}" by (auto simp: window_points_def contains_ts_def iv_empty_def)
  with True show ?thesis by (simp add: ici_peak_def spec_peak_def)
qed (simp add: ici_peak_def ici_query_exact)

lemma ici_at_exact: "ici_rep es s \<Longrightarrow> ici_at s x = (if on_timeline x then load es x else 0)"
proof (cases "on_timeline x")
  case True
  assume rep: "ici_rep es s"
  have "window_points (mk_iv x (x + 1)) = {x}"
    using True by (auto simp: window_points_def contains_ts_def mk_iv_def)
  then show ?thesis
    using ici_query_exact [OF rep, of "mk_iv x (x + 1)"] True
    by (simp add: ici_at_def on_timeline_def mk_iv_def iv_empty_def spec_peak_def)
qed (auto simp: ici_at_def on_timeline_def)

lemma ici_exceeds_exact:
  assumes "ici_rep es s" and "0 \<le> limit"
  shows "ici_exceeds s w limit \<longleftrightarrow> limit < ici_peak s w"
proof -
  have peak: "limit < ici_peak s w \<longleftrightarrow> (\<exists>x \<in> window_points w. limit < load es x)"
    using spec_peak_le [OF assms(2), of es w] by (auto simp: ici_peak_exact [OF assms(1)] not_le)
  consider "iv_empty w" | "ic_root s = Leaf" | "\<not> iv_empty w" "ic_root s \<noteq> Leaf" by blast
  then show ?thesis
  proof cases
    case 1
    then show ?thesis using assms(2) by (simp add: ici_exceeds_def ici_peak_def)
  next
    case 2
    then have "es = {#}" using assms(1) by (simp add: ici_rep_def)
    then show ?thesis using 2 assms(2) peak by (simp add: ici_exceeds_def)
  next
    case 3
    then have w: "iv_start w < iv_end w" by (simp add: iv_empty_def)
    have "st_exceeds (ic_root s) 0 kMaxTimestampNs (iv_start w) (iv_end w) 0 limit \<longleftrightarrow>
        (\<exists>x \<in> window_points w. 0 + st_val (ic_root s) 0 kMaxTimestampNs x > limit)"
      unfolding window_points_span
      using assms(1) by (intro st_exceeds_iff [OF load_bound_saturation w _ domain_nonempty rep_within])
        (auto simp: ici_rep_def)
    also have "\<dots> \<longleftrightarrow> (\<exists>x \<in> window_points w. limit < load es x)"
      using assms(1) by (intro bex_cong refl) (simp add: ici_rep_def window_points_def)
    finally show ?thesis using 3 peak by (simp add: ici_exceeds_def)
  qed
qed

interpretation ici: load_index ici_rep ici_new ici_add ici_remove ici_peak ici_at ici_exceeds
proof
  show "ici_rep {#} ici_new"
    by (simp add: ici_rep_def ici_new_def make_node_def loads_ok_def load_bound_saturation)
qed (simp_all add: ici_rep_add ici_rep_remove ici_peak_exact ici_at_exact ici_exceeds_exact, simp add: ici_rep_def)

subsection \<open>Histories of additions and removals\<close>

datatype index_event = Add interval bandwidth | Remove interval bandwidth

fun ici_step :: "index_event \<Rightarrow> interval_index \<Rightarrow> interval_index" where
  "ici_step (Add i a) s = ici_add s i a"
| "ici_step (Remove i a) s = ici_remove s i a"

fun loads_step :: "index_event \<Rightarrow> loads \<Rightarrow> loads" where
  "loads_step (Add i a) es = add_mset (i, a) es"
| "loads_step (Remove i a) es = es - {#(i, a)#}"

text \<open>A history the callers may produce: windows are not empty, amounts positive, only live intervals
  are removed, and no instant ever carries more than \<open>load_bound\<close>.\<close>

fun history_ok :: "loads \<Rightarrow> index_event list \<Rightarrow> bool" where
  "history_ok es [] \<longleftrightarrow> loads_ok es"
| "history_ok es (Add i a # evs) \<longleftrightarrow> history_ok (add_mset (i, a) es) evs \<and> loads_ok (add_mset (i, a) es)"
| "history_ok es (Remove i a # evs) \<longleftrightarrow> (i, a) \<in># es \<and> history_ok (es - {#(i, a)#}) evs"

lemma history_rep:
  "ici_rep es s \<Longrightarrow> history_ok es evs \<Longrightarrow> ici_rep (fold loads_step evs es) (fold ici_step evs s)"
  by (induction es evs arbitrary: s rule: history_ok.induct) (simp_all add: ici.rep_add ici.rep_remove)

text \<open>C1: after any history of reservations added and removed, the lazy segment tree answers every peak
  query with the exact maximum, over the instants of the window that lie on the timeline, of the total
  amount of the live intervals covering the instant, and every point query with that total. No
  addition in the tree saturates.\<close>

theorem interval_index_exact:
  assumes "history_ok {#} evs"
  shows "ici_peak (fold ici_step evs ici_new) w = spec_peak (fold loads_step evs {#}) w \<and>
    ici_at (fold ici_step evs ici_new) x = (if on_timeline x then load (fold loads_step evs {#}) x else 0) \<and>
    (0 \<le> limit \<longrightarrow> (ici_exceeds (fold ici_step evs ici_new) w limit \<longleftrightarrow>
       limit < ici_peak (fold ici_step evs ici_new) w))"
  using history_rep [OF ici.rep_new assms] by (simp add: ici.peak_exact ici.at_exact ici.exceeds_exact)

theorem interval_index_witness:
  "ici_at (fold ici_step [Add (mk_iv 10 20) 5, Add (mk_iv 15 30) 7, Remove (mk_iv 10 20) 5] ici_new) 17 = 7"
proof -
  let ?evs = "[Add (mk_iv 10 20) 5, Add (mk_iv 15 30) 7, Remove (mk_iv 10 20) 5]"
  have "history_ok {#} ?evs"
    by (auto simp: loads_ok_def iv_empty_def mk_iv_def load_bound_def contains_ts_def)
  from interval_index_exact [OF this, of w 17 limit for w limit] show ?thesis
    by (simp add: on_timeline_def time_consts contains_ts_def mk_iv_def)
qed

end
