(* ===== verification/Brf_Map.thy ===== *)
theory Brf_Map
  imports Brf_Prelude
begin

text \<open>
  \<^verbatim>\<open>std::map\<close> and \<^verbatim>\<open>std::multimap\<close>: the containers of the program. Their
  iteration order is observable (it decides which failure domain is looked at
  first, in which order records are reconciled, which query results are kept), so
  a map is the list of its elements in iteration order: strictly ascending keys for
  a map, ascending keys with equal keys in insertion order for a multimap.

  The locale \<open>key_map\<close> states what the clients rely on; \<open>om\<close> is its
  interpretation on the list model.
\<close>

type_synonym ('k, 'v) omap = "('k \<times> 'v) list"

definition om_ok :: "('k :: linorder, 'v) omap \<Rightarrow> bool" where
  "om_ok m \<longleftrightarrow> sorted_wrt (<) (map fst m)"

definition om_find :: "('k, 'v) omap \<Rightarrow> 'k \<Rightarrow> 'v option" where
  "om_find m k = map_of m k"

fun om_put :: "'k :: linorder \<Rightarrow> 'v \<Rightarrow> ('k, 'v) omap \<Rightarrow> ('k, 'v) omap" where
  "om_put k v [] = [(k, v)]"
| "om_put k v ((a, b) # m) =
     (if k < a then (k, v) # (a, b) # m
      else if k = a then (k, v) # m
      else (a, b) # om_put k v m)"

fun om_erase :: "'k \<Rightarrow> ('k, 'v) omap \<Rightarrow> ('k, 'v) omap" where
  "om_erase k [] = []"
| "om_erase k ((a, b) # m) = (if k = a then m else (a, b) # om_erase k m)"

text \<open>\<^verbatim>\<open>multimap::emplace\<close>: behind the elements with an equal key.\<close>

fun mm_put :: "'k :: linorder \<Rightarrow> 'v \<Rightarrow> ('k, 'v) omap \<Rightarrow> ('k, 'v) omap" where
  "mm_put k v [] = [(k, v)]"
| "mm_put k v ((a, b) # m) = (if k < a then (k, v) # (a, b) # m else (a, b) # mm_put k v m)"

subsection \<open>The interface\<close>

locale key_map =
  fixes empty :: "'m"
    and put :: "'k \<Rightarrow> 'v \<Rightarrow> 'm \<Rightarrow> 'm"
    and erase :: "'k \<Rightarrow> 'm \<Rightarrow> 'm"
    and find :: "'m \<Rightarrow> 'k \<Rightarrow> 'v option"
    and items :: "'m \<Rightarrow> ('k \<times> 'v) list"
    and ok :: "'m \<Rightarrow> bool"
  assumes ok_empty: "ok empty"
    and ok_put: "ok m \<Longrightarrow> ok (put k v m)"
    and ok_erase: "ok m \<Longrightarrow> ok (erase k m)"
    and find_empty: "find empty k = None"
    and find_put: "find (put k v m) k' = (if k' = k then Some v else find m k')"
    and find_erase: "ok m \<Longrightarrow> find (erase k m) k' = (if k' = k then None else find m k')"
    and items_find: "ok m \<Longrightarrow> (k, v) \<in> set (items m) \<longleftrightarrow> find m k = Some v"
    and items_distinct: "ok m \<Longrightarrow> distinct (map fst (items m))"
begin

lemma put_put_find: "find (put k v (put k w m)) = find (put k v m)"
  by (rule ext) (simp add: find_put)

lemma put_commute_find:
  "k \<noteq> k' \<Longrightarrow> find (put k v (put k' v' m)) = find (put k' v' (put k v m))"
  by (rule ext) (simp add: find_put)

lemma items_put:
  "ok m \<Longrightarrow> set (items (put k v m)) = insert (k, v) {p \<in> set (items m). fst p \<noteq> k}"
  by (auto simp: items_find ok_put find_put split: if_splits)

lemma items_erase:
  "ok m \<Longrightarrow> set (items (erase k m)) = {p \<in> set (items m). fst p \<noteq> k}"
  by (auto simp: items_find ok_erase find_erase split: if_splits)

lemma ball_put:
  "ok m \<Longrightarrow> \<forall>(i, x) \<in> set (items m). P i x \<Longrightarrow> P k v \<Longrightarrow> \<forall>(i, x) \<in> set (items (put k v m)). P i x"
  by (auto simp: items_put)

lemma find_fold_put:
  "k \<notin> key ` set xs \<Longrightarrow> find (fold (\<lambda>x. put (key x) (val x)) xs m) k = find m k"
  by (induction xs arbitrary: m) (auto simp: find_put)

end

subsection \<open>The list model provides it\<close>

lemma fst_om_put [simp]: "fst ` set (om_put k v m) = insert k (fst ` set m)"
  by (induction k v m rule: om_put.induct) auto

lemma om_ok_Nil [simp]: "om_ok []"
  by (simp add: om_ok_def)

lemma om_ok_Cons: "om_ok ((k, v) # m) \<longleftrightarrow> (\<forall>x \<in> set m. k < fst x) \<and> om_ok m"
  by (auto simp: om_ok_def)

lemma om_ok_put: "om_ok m \<Longrightarrow> om_ok (om_put k v m)"
proof (induction k v m rule: om_put.induct)
  case (2 k v a b m)
  have "fst x \<in> insert k (fst ` set m)" if "x \<in> set (om_put k v m)" for x
    using that by (metis fst_om_put imageI)
  with 2 show ?case
    by (fastforce simp: om_ok_Cons)
qed (simp add: om_ok_def)

lemma set_om_erase: "set (om_erase k m) \<subseteq> set m"
  by (induction k m rule: om_erase.induct) auto

lemma om_ok_erase: "om_ok m \<Longrightarrow> om_ok (om_erase k m)"
proof (induction k m rule: om_erase.induct)
  case (2 k a b m)
  then show ?case
    using set_om_erase [of k m] by (auto simp: om_ok_Cons)
qed simp

lemma om_find_put: "om_find (om_put k v m) k' = (if k' = k then Some v else om_find m k')"
  by (induction k v m rule: om_put.induct) (auto simp: om_find_def)

lemma om_ok_Cons_fresh: "om_ok ((k, v) # m) \<Longrightarrow> map_of m k = None"
  by (auto simp: om_ok_Cons map_of_eq_None_iff)

lemma om_find_erase: "om_ok m \<Longrightarrow> om_find (om_erase k m) k' = (if k' = k then None else om_find m k')"
proof (induction k m rule: om_erase.induct)
  case (2 k a b m)
  from "2.prems" have "om_ok m" and "map_of m a = None"
    by (simp_all add: om_ok_Cons om_ok_Cons_fresh)
  with 2 show ?case
    by (auto simp: om_find_def)
qed (simp add: om_find_def)

lemma om_distinct: "om_ok m \<Longrightarrow> distinct (map fst m)"
  by (simp add: om_ok_def strict_sorted_iff)

lemma om_find_iff: "om_ok m \<Longrightarrow> (k, v) \<in> set m \<longleftrightarrow> om_find m k = Some v"
  by (simp add: om_find_def om_distinct)

interpretation om: key_map "[]" om_put om_erase om_find "\<lambda>m. m" om_ok
  by unfold_locales
    (simp_all add: om_ok_put om_ok_erase om_find_put om_find_erase om_find_iff om_distinct,
      simp_all add: om_find_def)

lemma om_find_Nil [simp]: "om_find [] k = None"
  by (simp add: om_find_def)

lemma om_find_Some_in: "om_find m k = Some v \<Longrightarrow> (k, v) \<in> set m"
  by (simp add: om_find_def map_of_SomeD)

lemma om_find_None_iff: "om_find m k = None \<longleftrightarrow> k \<notin> fst ` set m"
  by (simp add: om_find_def map_of_eq_None_iff)

declare om_find_put [simp] om_ok_put [simp, wf_intros] om_ok_erase [simp, wf_intros]

subsection \<open>Multimaps\<close>

definition mm_ok :: "('k :: linorder, 'v) omap \<Rightarrow> bool" where
  "mm_ok m \<longleftrightarrow> sorted (map fst m)"

lemma set_mm_put [simp]: "set (mm_put k v m) = insert (k, v) (set m)"
  by (induction k v m rule: mm_put.induct) auto

lemma mm_ok_put: "mm_ok m \<Longrightarrow> mm_ok (mm_put k v m)"
  by (induction k v m rule: mm_put.induct) (fastforce simp: mm_ok_def)+

lemma mm_ok_filter: "mm_ok m \<Longrightarrow> mm_ok (filter P m)"
  by (simp add: mm_ok_def sorted_filter)

lemma length_mm_put [simp]: "length (mm_put k v m) = Suc (length m)"
  by (induction k v m rule: mm_put.induct) auto

end
