(* ===== verification/Brf_Registry.thy ===== *)
theory Brf_Registry
  imports Brf_Map Brf_Identity
begin

text \<open>
  The contract shared by the three authoritative tables of the program: the capacity ledger, the
  path authority table and the policy registry. Each takes generation-stamped statements; the header
  files promise that reusing a generation with other content is a conflict, that a lower generation
  is stale, that repeating a statement changes nothing, and that earlier generations are remembered.

  \<open>apply\<close> is the operation of the table, with the environment it is called with; \<open>same\<close> is the
  equality test the source uses on statements. The lemmas of the locale are proved once for the three
  tables and hold of any sequence of statements, accepted or refused.
\<close>

locale generation_registry =
  fixes apply_to :: "'env \<Rightarrow> 'rec \<Rightarrow> (('k :: linorder, 'entry) omap, error_code, bool) op"
    and key :: "'rec \<Rightarrow> 'k"
    and gen :: "'rec \<Rightarrow> counter"
    and valid :: "'rec \<Rightarrow> bool"
    and same :: "'rec \<Rightarrow> 'rec \<Rightarrow> bool"
    and statement :: "'entry \<Rightarrow> 'rec"
    and prior :: "'entry \<Rightarrow> counter list"
  assumes apply_invalid: "\<not> valid r \<Longrightarrow> \<exists>e. apply_to x r m = (Inl e, m)"
    and apply_fresh: "valid r \<Longrightarrow> om_find m (key r) = None \<Longrightarrow>
      \<exists>e. apply_to x r m = (Inr True, om_put (key r) e m) \<and> statement e = r \<and> prior e = []"
    and apply_conflict: "valid r \<Longrightarrow> om_find m (key r) = Some e \<Longrightarrow> gen r = gen (statement e) \<Longrightarrow>
      \<not> same r (statement e) \<Longrightarrow> apply_to x r m = (Inl EConflict, m)"
    and apply_repeat: "valid r \<Longrightarrow> om_find m (key r) = Some e \<Longrightarrow> gen r = gen (statement e) \<Longrightarrow>
      same r (statement e) \<Longrightarrow>
      apply_to x r m = (Inr False, m) \<or>
      (\<exists>e'. apply_to x r m = (Inr True, om_put (key r) e' m) \<and> statement e' = statement e \<and> prior e' = prior e)"
    and apply_stale: "valid r \<Longrightarrow> om_find m (key r) = Some e \<Longrightarrow> gen r < gen (statement e) \<Longrightarrow>
      apply_to x r m = (Inl EStaleGeneration, m)"
    and apply_advance: "valid r \<Longrightarrow> om_find m (key r) = Some e \<Longrightarrow> gen (statement e) < gen r \<Longrightarrow>
      \<exists>e'. apply_to x r m = (Inr True, om_put (key r) e' m) \<and> statement e' = r \<and>
        prior e' = prior e @ [gen (statement e)]"
begin

definition history :: "'entry \<Rightarrow> counter list" where
  "history e = prior e @ [gen (statement e)]"

definition table_ok :: "('k, 'entry) omap \<Rightarrow> bool" where
  "table_ok m \<longleftrightarrow> om_ok m \<and>
     (\<forall>(k, e) \<in> set m. key (statement e) = k \<and> valid (statement e) \<and> sorted_wrt (<) (history e))"

lemma apply_cases:
  obtains (refused) err where "apply_to x r m = (Inl err, m)"
  | (unchanged) "apply_to x r m = (Inr False, m)"
  | (stored) e' where "apply_to x r m = (Inr True, om_put (key r) e' m)" "valid r"
      "om_find m (key r) = None \<and> statement e' = r \<and> prior e' = [] \<or>
       (\<exists>e. om_find m (key r) = Some e \<and> statement e' = statement e \<and> prior e' = prior e) \<or>
       (\<exists>e. om_find m (key r) = Some e \<and> gen (statement e) < gen r \<and> statement e' = r \<and>
          prior e' = prior e @ [gen (statement e)])"
proof (cases "valid r")
  case False
  then show ?thesis using apply_invalid refused by blast
next
  case True
  show ?thesis
  proof (cases "om_find m (key r)")
    case None
    then show ?thesis using apply_fresh [OF True] stored True by metis
  next
    case (Some e)
    consider "gen r < gen (statement e)" | "gen (statement e) < gen r" | "gen r = gen (statement e)"
      by fastforce
    then show ?thesis
    proof cases
      case 1
      then show ?thesis using apply_stale [OF True Some] refused by blast
    next
      case 2
      then show ?thesis using apply_advance [OF True Some] stored True Some by metis
    next
      case 3
      then show ?thesis
        using apply_conflict [OF True Some] apply_repeat [OF True Some] refused unchanged stored True Some
        by metis
    qed
  qed
qed

lemma error_keeps_table: "fst (apply_to x r m) = Inl err \<Longrightarrow> snd (apply_to x r m) = m"
  by (cases rule: apply_cases [of x r m]) auto

lemma no_change_keeps_table: "fst (apply_to x r m) = Inr False \<Longrightarrow> snd (apply_to x r m) = m"
  by (cases rule: apply_cases [of x r m]) auto

lemma other_key: "k \<noteq> key r \<Longrightarrow> om_find (snd (apply_to x r m)) k = om_find m k"
  by (cases rule: apply_cases [of x r m]) auto

lemma ok_put:
  "table_ok m \<Longrightarrow> key (statement e) = k \<Longrightarrow> valid (statement e) \<Longrightarrow> sorted_wrt (<) (history e) \<Longrightarrow>
   table_ok (om_put k e m)"
  by (auto simp: table_ok_def om.items_put)

lemma table_ok_apply: "table_ok m \<Longrightarrow> table_ok (snd (apply_to x r m))"
proof (cases rule: apply_cases [of x r m])
  case (stored e')
  assume ok: "table_ok m"
  have old: "key (statement e) = key r \<and> valid (statement e) \<and> sorted_wrt (<) (history e)"
    if "om_find m (key r) = Some e" for e
    using ok om_find_Some_in [OF that] by (fastforce simp: table_ok_def)
  have "key (statement e') = key r \<and> valid (statement e') \<and> sorted_wrt (<) (history e')"
    using stored(2,3) by (auto dest!: old simp: history_def sorted_wrt_append) force+
  with ok stored(1) show ?thesis by (simp add: ok_put)
qed auto

text \<open>\<open>e'\<close> continues \<open>e\<close>: the generations of \<open>e\<close> are the first ones of \<open>e'\<close>, and at the same
  generation the statement is the same.\<close>

definition continues :: "'entry \<Rightarrow> 'entry \<Rightarrow> bool" where
  "continues e e' \<longleftrightarrow> (statement e' = statement e \<and> prior e' = prior e) \<or>
     (\<exists>gs. prior e' = history e @ gs)"

lemma continues_refl: "continues e e"
  by (simp add: continues_def)

lemma continues_trans: "continues a b \<Longrightarrow> continues b c \<Longrightarrow> continues a c"
  by (auto simp: continues_def history_def)

lemma continues_apply:
  assumes "om_find m k = Some e"
  shows "\<exists>e'. om_find (snd (apply_to x r m)) k = Some e' \<and> continues e e'"
  using assms
  by (cases rule: apply_cases [of x r m]) (auto simp: continues_def history_def)

text \<open>A sequence of statements, each applied whatever happened to the ones before.\<close>

definition run :: "('env \<times> 'rec) list \<Rightarrow> ('k, 'entry) omap \<Rightarrow> ('k, 'entry) omap" where
  "run rs m = foldl (\<lambda>m (x, r). snd (apply_to x r m)) m rs"

lemma run_ok: "table_ok m \<Longrightarrow> table_ok (run rs m)"
  by (induction rs arbitrary: m) (auto simp: run_def table_ok_apply)

lemma run_continues: "om_find m k = Some e \<Longrightarrow> \<exists>e'. om_find (run rs m) k = Some e' \<and> continues e e'"
proof (induction rs arbitrary: m e)
  case Nil
  then show ?case by (simp add: run_def continues_refl)
next
  case (Cons xr rs)
  obtain x r where xr: "xr = (x, r)" by fastforce
  obtain e1 where "om_find (snd (apply_to x r m)) k = Some e1" "continues e e1"
    using continues_apply [OF Cons.prems] by blast
  then show ?case
    using Cons.IH [of "snd (apply_to x r m)" e1] continues_trans xr by (fastforce simp: run_def)
qed

text \<open>The generation never falls, and the content of a generation never changes.\<close>

lemma run_history:
  assumes "table_ok m" and "om_find m k = Some e"
  shows "\<exists>e'. om_find (run rs m) k = Some e' \<and> gen (statement e) \<le> gen (statement e') \<and>
    (gen (statement e') = gen (statement e) \<longrightarrow> statement e' = statement e) \<and>
    (gen (statement e') \<noteq> gen (statement e) \<longrightarrow> gen (statement e) \<in> set (prior e'))"
proof -
  obtain e' where e': "om_find (run rs m) k = Some e'" "continues e e'"
    using run_continues [OF assms(2)] by blast
  have "sorted_wrt (<) (history e')"
    using run_ok [OF assms(1), of rs] om_find_Some_in [OF e'(1)] by (fastforce simp: table_ok_def)
  with e' show ?thesis
    by (auto simp: continues_def history_def sorted_wrt_append)
qed

lemma run_other: "\<forall>(x, r) \<in> set rs. key r \<noteq> k \<Longrightarrow> om_find (run rs m) k = om_find m k"
  by (induction rs arbitrary: m) (auto simp: run_def other_key)

end

end
