(* ===== verification/Brf_Policy.thy ===== *)
theory Brf_Policy
  imports Brf_Time Brf_Registry
begin

text \<open>
  Guarantee classes, policy records and the policy registry of \<^verbatim>\<open>include/brf/policy.hpp\<close> and
  \<^verbatim>\<open>src/policy.cpp\<close>. The registry is shown to keep the contract of \<open>generation_registry\<close>.
\<close>

datatype guarantee_class = GcScavenger | GcPreemptible | GcProtected | GcGuaranteed

fun gc_rank :: "guarantee_class \<Rightarrow> nat" where
  "gc_rank GcScavenger = 0"
| "gc_rank GcPreemptible = 1"
| "gc_rank GcProtected = 2"
| "gc_rank GcGuaranteed = 3"

lemma gc_rank_inject [simp]: "gc_rank a = gc_rank b \<longleftrightarrow> a = b"
  by (cases a; cases b) simp_all

text \<open>The enumerators are ordered by their value, from the weakest to the strongest class.\<close>

instantiation guarantee_class :: linorder
begin
definition less_eq_guarantee_class :: "guarantee_class \<Rightarrow> guarantee_class \<Rightarrow> bool" where
  "a \<le> b \<longleftrightarrow> gc_rank a \<le> gc_rank b"
definition less_guarantee_class :: "guarantee_class \<Rightarrow> guarantee_class \<Rightarrow> bool" where
  "a < b \<longleftrightarrow> gc_rank a < gc_rank b"
instance
  by standard (auto simp: less_eq_guarantee_class_def less_guarantee_class_def)
end

fun guarantee_class_to_string :: "guarantee_class \<Rightarrow> string" where
  "guarantee_class_to_string GcScavenger = ''SCAVENGER''"
| "guarantee_class_to_string GcPreemptible = ''PREEMPTIBLE''"
| "guarantee_class_to_string GcProtected = ''PROTECTED''"
| "guarantee_class_to_string GcGuaranteed = ''GUARANTEED''"

definition parse_guarantee_class :: "string \<Rightarrow> guarantee_class result" where
  "parse_guarantee_class t =
     (if t = ''SCAVENGER'' then Inr GcScavenger
      else if t = ''PREEMPTIBLE'' then Inr GcPreemptible
      else if t = ''PROTECTED'' then Inr GcProtected
      else if t = ''GUARANTEED'' then Inr GcGuaranteed
      else Inl EInvalidArgument)"

definition kMaxPriority :: u32 where "kMaxPriority = 1000"
definition kMaxPolicyLabels :: nat where "kMaxPolicyLabels = 16"
definition kMaxLabelBytes :: nat where "kMaxLabelBytes = 64"

record policy_record =
  pl_name :: name
  pl_generation :: counter
  pl_ingested_at :: timestamp
  pl_allow_recall_guaranteed :: bool
  pl_allow_recall_protected :: bool
  pl_allow_preemption_on_commit :: bool
  pl_max_preemption_victims :: u32
  pl_default_recall_grace :: duration
  pl_allow_overcommit :: bool
  pl_overcommit_allowance :: bandwidth
  pl_minimum_reservation_amount :: bandwidth
  pl_allow_past_start :: bool
  pl_max_future_horizon :: duration
  pl_max_extra_headroom :: bandwidth
  pl_auto_revalidate_on_generation_change :: bool
  pl_policy_headroom :: bandwidth
  pl_max_conflict_set :: u32
  pl_max_explanation_bytes :: u32
  pl_max_series_members :: u32
  pl_max_hold_ttl :: duration
  pl_max_holds_per_session :: u32
  pl_max_hold_bandwidth :: bandwidth

definition materially_differs :: "policy_record \<Rightarrow> policy_record \<Rightarrow> bool" where
  "materially_differs a b \<longleftrightarrow>
     pl_allow_recall_guaranteed a \<noteq> pl_allow_recall_guaranteed b \<or>
     pl_allow_recall_protected a \<noteq> pl_allow_recall_protected b \<or>
     pl_allow_preemption_on_commit a \<noteq> pl_allow_preemption_on_commit b \<or>
     pl_max_preemption_victims a \<noteq> pl_max_preemption_victims b \<or>
     pl_allow_overcommit a \<noteq> pl_allow_overcommit b \<or>
     pl_overcommit_allowance a \<noteq> pl_overcommit_allowance b \<or>
     pl_auto_revalidate_on_generation_change a \<noteq> pl_auto_revalidate_on_generation_change b \<or>
     pl_policy_headroom a \<noteq> pl_policy_headroom b \<or>
     pl_minimum_reservation_amount a \<noteq> pl_minimum_reservation_amount b"

text \<open>\<^verbatim>\<open>operator==\<close> on policy records leaves \<^verbatim>\<open>ingested_at\<close> out.\<close>

definition policy_same :: "policy_record \<Rightarrow> policy_record \<Rightarrow> bool" where
  "policy_same a b \<longleftrightarrow> a\<lparr>pl_ingested_at := 0\<rparr> = b\<lparr>pl_ingested_at := 0\<rparr>"

definition validate_policy :: "policy_record \<Rightarrow> status" where
  "validate_policy p =
     (if pl_name p = [] then Inl EInvalidName
      else if pl_max_conflict_set p = 0 \<or> pl_max_conflict_set p > 4096 then Inl EInvalidArgument
      else if pl_max_explanation_bytes p < 128 \<or> pl_max_explanation_bytes p > 65536 then Inl EInvalidArgument
      else if pl_max_series_members p = 0 \<or> pl_max_series_members p > 4096 then Inl EInvalidArgument
      else if pl_max_holds_per_session p > 4096 then Inl EInvalidArgument
      else if pl_max_preemption_victims p > 1024 then Inl EInvalidArgument
      else if pl_overcommit_allowance p < 0 \<or> pl_overcommit_allowance p > kMaxBandwidthBps then Inl EInvalidBandwidth
      else if pl_policy_headroom p < 0 \<or> pl_policy_headroom p > kMaxBandwidthBps then Inl EInvalidBandwidth
      else if pl_max_extra_headroom p < 0 \<or> pl_max_extra_headroom p > kMaxBandwidthBps then Inl EInvalidBandwidth
      else if pl_minimum_reservation_amount p < 0 \<or> pl_minimum_reservation_amount p > kMaxBandwidthBps
        then Inl EInvalidBandwidth
      else if pl_max_hold_bandwidth p < 0 \<or> pl_max_hold_bandwidth p > kMaxBandwidthBps then Inl EInvalidBandwidth
      else if pl_max_future_horizon p < 0 \<or> pl_max_future_horizon p > kMaxReservationSpanNs
        then Inl EInvalidInterval
      else if pl_default_recall_grace p < 0 \<or> pl_default_recall_grace p > kMaxReservationSpanNs
        then Inl EInvalidInterval
      else if pl_max_hold_ttl p < 0 \<or> pl_max_hold_ttl p > kMaxReservationSpanNs then Inl EInvalidInterval
      else Inr ())"

record policy_entry =
  pe_record :: policy_record
  pe_prior_generations :: "counter list"
  pe_ingested_at :: timestamp

type_synonym policy_registry = "(name, policy_entry) omap"

definition policy_apply :: "policy_record \<Rightarrow> (policy_registry, error_code, bool) op" where
  "policy_apply r m =
     (case validate_policy r of
        Inl e \<Rightarrow> (Inl e, m)
      | Inr _ \<Rightarrow>
        (case om_find m (pl_name r) of
           None \<Rightarrow>
             (Inr True, om_put (pl_name r)
                \<lparr>pe_record = r, pe_prior_generations = [], pe_ingested_at = pl_ingested_at r\<rparr> m)
         | Some e \<Rightarrow>
             if pl_generation r = pl_generation (pe_record e)
             then if \<not> policy_same r (pe_record e) then (Inl EConflict, m) else (Inr False, m)
             else if pl_generation r < pl_generation (pe_record e) then (Inl EStaleGeneration, m)
             else
               (Inr True, om_put (pl_name r)
                  \<lparr>pe_record = r,
                   pe_prior_generations = pe_prior_generations e @ [pl_generation (pe_record e)],
                   pe_ingested_at = pl_ingested_at r\<rparr> m)))"

definition policy_inject :: "policy_entry \<Rightarrow> policy_registry \<Rightarrow> policy_registry" where
  "policy_inject e m = om_put (pl_name (pe_record e)) e m"

definition policy_find :: "policy_registry \<Rightarrow> name \<Rightarrow> policy_entry option" where
  "policy_find m n = om_find m n"

definition policy_current :: "policy_registry \<Rightarrow> name \<Rightarrow> policy_record option" where
  "policy_current m n = map_option pe_record (policy_find m n)"

definition policy_names :: "policy_registry \<Rightarrow> name list" where
  "policy_names m = map fst m"

definition strict_default :: "name \<Rightarrow> policy_record" where
  "strict_default n =
     \<lparr>pl_name = n, pl_generation = 1, pl_ingested_at = 0, pl_allow_recall_guaranteed = False,
      pl_allow_recall_protected = True, pl_allow_preemption_on_commit = False, pl_max_preemption_victims = 0,
      pl_default_recall_grace = 0, pl_allow_overcommit = False, pl_overcommit_allowance = 0,
      pl_minimum_reservation_amount = 0, pl_allow_past_start = False, pl_max_future_horizon = 0,
      pl_max_extra_headroom = 0, pl_auto_revalidate_on_generation_change = False, pl_policy_headroom = 0,
      pl_max_conflict_set = 64, pl_max_explanation_bytes = 4096, pl_max_series_members = 64,
      pl_max_hold_ttl = 5 * kNsPerSecond, pl_max_holds_per_session = 16,
      pl_max_hold_bandwidth = 1000000000\<rparr>"

lemma parse_guarantee_class_iff: "parse_guarantee_class t = Inr g \<longleftrightarrow> t = guarantee_class_to_string g"
  by (cases g) (auto simp: parse_guarantee_class_def)

lemma validate_policy_unit: "is_ok (validate_policy r) \<longleftrightarrow> validate_policy r = Inr ()"
  by (cases "validate_policy r") auto

text \<open>The fallback policy is one the registry would itself accept.\<close>

lemma strict_default_valid: "n \<noteq> [] \<Longrightarrow> validate_policy (strict_default n) = Inr ()"
  by (simp add: validate_policy_def strict_default_def time_consts kMaxBandwidthBps_def word_less_nat_alt)

interpretation pol: generation_registry "\<lambda>_ :: unit. policy_apply" pl_name pl_generation
  "\<lambda>r. validate_policy r = Inr ()" policy_same pe_record pe_prior_generations
proof unfold_locales
  show "\<exists>e. policy_apply r m = (Inl e, m)" if "validate_policy r \<noteq> Inr ()" for r m
    using that by (cases "validate_policy r") (auto simp: policy_apply_def)
qed (auto simp: policy_apply_def)

text \<open>C13: the policy registry, under any sequence of statements, accepted or not: a policy once known
  stays known, its generation never falls, a generation always names the same content, and every
  generation left behind is remembered.\<close>

theorem policy_history:
  assumes "om_find (foldl (\<lambda>m r. snd (policy_apply r m)) [] rs) n = Some e"
  shows "\<exists>e'. om_find (foldl (\<lambda>m r. snd (policy_apply r m)) [] (rs @ rs')) n = Some e' \<and>
    pl_generation (pe_record e) \<le> pl_generation (pe_record e') \<and>
    (pl_generation (pe_record e') = pl_generation (pe_record e) \<longrightarrow> pe_record e' = pe_record e) \<and>
    (pl_generation (pe_record e') \<noteq> pl_generation (pe_record e) \<longrightarrow>
       pl_generation (pe_record e) \<in> set (pe_prior_generations e'))"
proof -
  have run: "pol.run (map (Pair ()) rs) m = foldl (\<lambda>m r. snd (policy_apply r m)) m rs" for rs m
    by (induction rs arbitrary: m) (simp_all add: pol.run_def)
  have "pol.table_ok []" by (simp add: pol.table_ok_def)
  then have "pol.table_ok (foldl (\<lambda>m r. snd (policy_apply r m)) [] rs)"
    using pol.run_ok [of "[]" "map (Pair ()) rs"] by (simp add: run)
  from pol.run_history [OF this assms, of "map (Pair ()) rs'"] show ?thesis
    by (simp add: run)
qed

theorem policy_history_witness:
  "\<exists>e'. om_find (foldl (\<lambda>m r. snd (policy_apply r m)) []
       ([strict_default ''p''] @ [(strict_default ''p'')\<lparr>pl_generation := 2\<rparr>])) ''p'' = Some e' \<and>
     1 \<le> pl_generation (pe_record e')"
proof -
  let ?e = "\<lparr>pe_record = strict_default ''p'', pe_prior_generations = [], pe_ingested_at = 0\<rparr>"
  have "om_find (foldl (\<lambda>m r. snd (policy_apply r m)) [] [strict_default ''p'']) ''p'' = Some ?e"
    by (simp add: policy_apply_def strict_default_valid) (simp add: strict_default_def om_find_def)
  from policy_history [OF this, of "[(strict_default ''p'')\<lparr>pl_generation := 2\<rparr>]"]
  show ?thesis by (auto simp: strict_default_def)
qed

end
