(* ===== verification/Brf_Wire.thy ===== *)
theory Brf_Wire
  imports Brf_Hash
begin

text \<open>
  The bounded binary encoding of \<^verbatim>\<open>include/brf/wire.hpp\<close> and \<^verbatim>\<open>src/wire.cpp\<close>. A
  \<^verbatim>\<open>Writer\<close> appends to a buffer, so an encoder is the bytes it appends; a \<^verbatim>\<open>Reader\<close>
  consumes a prefix of the bytes that remain, so a decoder maps the remaining bytes to an error or
  to a value and the bytes left.

  The locale \<open>codec\<close> is the contract between an encoder, its decoder and the values it
  can carry: decoding undoes encoding, with any bytes behind, and the decoder accepts no other
  spelling of a value. Its client lemmas lift both laws to counted collections.
\<close>

unbundle bit_operations_syntax

type_synonym 'a reader = "bytes \<Rightarrow> error_code + ('a \<times> bytes)"

definition dret :: "'a \<Rightarrow> 'a reader" where
  "dret x bs = Inr (x, bs)"

definition dfail :: "error_code \<Rightarrow> 'a reader" where
  "dfail e bs = Inl e"

definition dbind :: "'a reader \<Rightarrow> ('a \<Rightarrow> 'b reader) \<Rightarrow> 'b reader" where
  "dbind d f bs = bindE (d bs) (\<lambda>(x, rest). f x rest)"

definition kMaxTextBytes :: nat where "kMaxTextBytes = 64 * 1024"
definition kMaxCollectionItems :: nat where "kMaxCollectionItems = 65536"

subsection \<open>Writer\<close>

text \<open>The masks of the source keep the bits that the narrowing cast keeps.\<close>

definition w_u8 :: "u8 \<Rightarrow> bytes" where
  "w_u8 v = [v]"

definition w_u16 :: "u16 \<Rightarrow> bytes" where
  "w_u16 v = w_u8 (ucast v) @ w_u8 (ucast (drop_bit 8 v))"

definition w_u32 :: "u32 \<Rightarrow> bytes" where
  "w_u32 v = w_u16 (ucast v) @ w_u16 (ucast (drop_bit 16 v))"

definition w_u64 :: "u64 \<Rightarrow> bytes" where
  "w_u64 v = w_u32 (ucast v) @ w_u32 (ucast (drop_bit 32 v))"

definition w_i64 :: "int \<Rightarrow> bytes" where
  "w_i64 v = w_u64 (of_int v)"

definition w_boolean :: "bool \<Rightarrow> bytes" where
  "w_boolean v = w_u8 (if v then 1 else 0)"

definition w_fixed128 :: "identity \<Rightarrow> bytes" where
  "w_fixed128 v = id_bytes v"

definition text_bytes :: "string \<Rightarrow> bytes" where
  "text_bytes s = map (\<lambda>c. of_nat (of_char c)) s"

definition bytes_text :: "bytes \<Rightarrow> string" where
  "bytes_text bs = map (\<lambda>b. char_of (unat b)) bs"

definition w_bytes :: "bytes \<Rightarrow> bytes" where
  "w_bytes data = w_u32 (of_nat (length data)) @ data"

definition w_text :: "string \<Rightarrow> bytes" where
  "w_text s = w_bytes (text_bytes s)"

definition w_count :: "nat \<Rightarrow> bytes" where
  "w_count n = w_u32 (of_nat n)"

subsection \<open>Reader\<close>

definition r_u8 :: "u8 reader" where
  "r_u8 bs = (case bs of [] \<Rightarrow> Inl ECorrupt | b # rest \<Rightarrow> Inr (b, rest))"

definition r_u16 :: "u16 reader" where
  "r_u16 = dbind r_u8 (\<lambda>lo. dbind r_u8 (\<lambda>hi. dret (ucast lo OR push_bit 8 (ucast hi))))"

definition r_u32 :: "u32 reader" where
  "r_u32 = dbind r_u16 (\<lambda>lo. dbind r_u16 (\<lambda>hi. dret (ucast lo OR push_bit 16 (ucast hi))))"

definition r_u64 :: "u64 reader" where
  "r_u64 = dbind r_u32 (\<lambda>lo. dbind r_u32 (\<lambda>hi. dret (ucast lo OR push_bit 32 (ucast hi))))"

definition r_i64 :: "int reader" where
  "r_i64 = dbind r_u64 (\<lambda>raw. dret (sint raw))"

definition r_boolean :: "bool reader" where
  "r_boolean = dbind r_u8 (\<lambda>raw. if raw > 1 then dfail ECorrupt else dret (raw = 1))"

definition r_raw :: "nat \<Rightarrow> bytes reader" where
  "r_raw n bs = (if length bs < n then Inl ECorrupt else Inr (take n bs, drop n bs))"

definition r_fixed128 :: "identity reader" where
  "r_fixed128 = dbind (r_raw 16) (\<lambda>bs. dret (from_bytes bs))"

definition r_bytes :: "nat \<Rightarrow> bytes reader" where
  "r_bytes max_size =
     dbind r_u32 (\<lambda>len. if unat len > max_size then dfail EResourceExhausted else r_raw (unat len))"

definition r_text :: "nat \<Rightarrow> string reader" where
  "r_text max_size = dbind (r_bytes max_size) (\<lambda>bs. dret (bytes_text bs))"

definition r_peek_count :: "nat \<Rightarrow> nat reader" where
  "r_peek_count max_size =
     dbind r_u32 (\<lambda>len. if unat len > max_size then dfail EResourceExhausted else dret (unat len))"

text \<open>The element loops of the codecs, after the count is read.\<close>

fun r_times :: "nat \<Rightarrow> 'a reader \<Rightarrow> 'a list reader" where
  "r_times 0 d bs = Inr ([], bs)"
| "r_times (Suc n) d bs = dbind d (\<lambda>x. dbind (r_times n d) (\<lambda>xs. dret (x # xs))) bs"

definition w_list :: "('a \<Rightarrow> bytes) \<Rightarrow> 'a list \<Rightarrow> bytes" where
  "w_list enc xs = w_count (length xs) @ concat (map enc xs)"

definition r_list :: "nat \<Rightarrow> 'a reader \<Rightarrow> 'a list reader" where
  "r_list max_size d = dbind (r_peek_count max_size) (\<lambda>n. r_times n d)"

text \<open>A decoder whose caller insists that the buffer is used up.\<close>

definition r_exact :: "'a reader \<Rightarrow> bytes \<Rightarrow> 'a result" where
  "r_exact d bs = bindE (d bs) (\<lambda>(x, rest). if rest = [] then Inr x else Inl ECorrupt)"

subsection \<open>The contract\<close>

lemma dbind_Inr_iff: "dbind d f bs = Inr r \<longleftrightarrow> (\<exists>x rest. d bs = Inr (x, rest) \<and> f x rest = Inr r)"
  by (auto simp: dbind_def bindE_Inr_iff)

lemma dbind_step: "d bs = Inr (x, rest) \<Longrightarrow> dbind d f bs = f x rest"
  by (simp add: dbind_def)

lemma dret_apply [simp]: "dret x bs = Inr (x, bs)"
  by (simp add: dret_def)

lemma dfail_apply [simp]: "dfail e bs = Inl e"
  by (simp add: dfail_def)

text \<open>Encodings of which none is a proper prefix of another, so that fields can be laid one after the other.\<close>

locale prefix_code =
  fixes enc :: "'a \<Rightarrow> bytes"
    and carries :: "'a \<Rightarrow> bool"
  assumes prefix_free: "carries x \<Longrightarrow> carries y \<Longrightarrow> enc x @ r = enc y @ s \<Longrightarrow> x = y \<and> r = s"
begin

lemma append_eq: "carries x \<Longrightarrow> carries y \<Longrightarrow> enc x @ r = enc y @ s \<longleftrightarrow> x = y \<and> r = s"
  using prefix_free by blast

lemma enc_inject: "carries x \<Longrightarrow> carries y \<Longrightarrow> enc x = enc y \<longleftrightarrow> x = y"
  using append_eq [of x y "[]" "[]"] by simp

lemma concat_eq:
  "list_all carries xs \<Longrightarrow> list_all carries ys \<Longrightarrow> length xs = length ys \<Longrightarrow>
   concat (map enc xs) @ r = concat (map enc ys) @ s \<longleftrightarrow> xs = ys \<and> r = s"
  by (induction xs ys rule: list_induct2') (auto simp: append_eq)

end

locale codec =
  fixes enc :: "'a \<Rightarrow> bytes"
    and dec :: "'a reader"
    and carries :: "'a \<Rightarrow> bool"
  assumes dec_enc: "carries x \<Longrightarrow> dec (enc x @ rest) = Inr (x, rest)"
    and dec_only: "dec bs = Inr (x, rest) \<Longrightarrow> carries x \<and> bs = enc x @ rest"
begin

lemma dec_enc_bind [codec_rt]: "carries x \<Longrightarrow> dbind dec f (enc x @ rest) = f x rest"
  by (simp add: dbind_def dec_enc)

lemma dec_bind_Inr [codec_only]:
  "dbind dec f bs = Inr r \<longleftrightarrow> (\<exists>x rest. carries x \<and> bs = enc x @ rest \<and> f x rest = Inr r)"
proof
  assume "dbind dec f bs = Inr r"
  then obtain x rest where "dec bs = Inr (x, rest)" "f x rest = Inr r" by (auto simp: dbind_Inr_iff)
  then show "\<exists>x rest. carries x \<and> bs = enc x @ rest \<and> f x rest = Inr r" by (blast dest: dec_only)
qed (auto simp: dec_enc_bind)

lemma enc_prefix: "carries x \<Longrightarrow> carries y \<Longrightarrow> enc x @ r = enc y @ s \<Longrightarrow> x = y \<and> r = s"
  by (metis dec_enc Inr_inject prod.inject)

lemma exact_iff: "r_exact dec bs = Inr x \<longleftrightarrow> carries x \<and> bs = enc x"
proof
  assume "r_exact dec bs = Inr x"
  then have "dec bs = Inr (x, [])" by (auto simp: r_exact_def bindE_Inr_iff split: if_splits)
  then show "carries x \<and> bs = enc x" by (auto dest: dec_only)
next
  assume "carries x \<and> bs = enc x"
  then show "r_exact dec bs = Inr x" using dec_enc [of x "[]"] by (simp add: r_exact_def)
qed

lemma times_enc:
  "list_all carries xs \<Longrightarrow> r_times (length xs) dec (concat (map enc xs) @ rest) = Inr (xs, rest)"
  by (induction xs) (simp_all add: dbind_def dec_enc)

lemma times_only:
  "r_times n dec bs = Inr (xs, rest) \<Longrightarrow>
   list_all carries xs \<and> length xs = n \<and> bs = concat (map enc xs) @ rest"
proof (induction n arbitrary: bs xs)
  case (Suc n)
  then obtain x mid ys where "carries x" "bs = enc x @ mid" "r_times n dec mid = Inr (ys, rest)" "xs = x # ys"
    by (auto simp: dbind_Inr_iff dest: dec_only)
  with Suc.IH [of mid ys] show ?case by auto
qed simp

end

sublocale codec \<subseteq> prefix_code enc carries
  by unfold_locales (rule enc_prefix)

subsection \<open>The primitives keep it\<close>

interpretation cu8: codec w_u8 r_u8 "\<lambda>_. True"
  by unfold_locales (auto simp: w_u8_def r_u8_def split: list.splits)

lemma u16_halves: "ucast (ucast (lo :: u8) OR push_bit 8 (ucast hi) :: u16) = lo"
  "ucast (drop_bit 8 (ucast lo OR push_bit 8 (ucast hi) :: u16)) = (hi :: u8)"
  by (rule bit_word_eqI, auto simp: bit_simps dest: bit_imp_le_length)+

lemma u32_halves: "ucast (ucast (lo :: u16) OR push_bit 16 (ucast hi) :: u32) = lo"
  "ucast (drop_bit 16 (ucast lo OR push_bit 16 (ucast hi) :: u32)) = (hi :: u16)"
  by (rule bit_word_eqI, auto simp: bit_simps dest: bit_imp_le_length)+

lemma u64_halves: "ucast (ucast (lo :: u32) OR push_bit 32 (ucast hi) :: u64) = lo"
  "ucast (drop_bit 32 (ucast lo OR push_bit 32 (ucast hi) :: u64)) = (hi :: u32)"
  by (rule bit_word_eqI, auto simp: bit_simps dest: bit_imp_le_length)+

interpretation cu16: codec w_u16 r_u16 "\<lambda>_. True"
  by unfold_locales
    (auto simp: w_u16_def r_u16_def cu8.dec_enc_bind cu8.dec_bind_Inr ucast_ucast_8_16 u16_halves simp del: drop_bit_or)

interpretation cu32: codec w_u32 r_u32 "\<lambda>_. True"
  by unfold_locales
    (auto simp: w_u32_def r_u32_def cu16.dec_enc_bind cu16.dec_bind_Inr ucast_ucast_16_32 u32_halves simp del: drop_bit_or)

interpretation cu64: codec w_u64 r_u64 "\<lambda>_. True"
  by unfold_locales
    (auto simp: w_u64_def r_u64_def cu32.dec_enc_bind cu32.dec_bind_Inr ucast_ucast_32_64 u64_halves simp del: drop_bit_or)

lemma sint_of_int_u64: "int64_ok v \<Longrightarrow> sint (of_int v :: u64) = v"
  by (simp add: int64_ok_def signed_take_bit_int_eq_self signed_of_int)

lemma int64_ok_sint: "int64_ok (sint (w :: u64))"
  using sint_range_size [of w] by (simp add: int64_ok_def word_size)

interpretation ci64: codec w_i64 r_i64 int64_ok
  by unfold_locales
    (auto simp: w_i64_def r_i64_def cu64.dec_enc_bind cu64.dec_bind_Inr sint_of_int_u64 int64_ok_sint)

lemma u8_not_above_one: "\<not> (b :: u8) > 1 \<Longrightarrow> b \<noteq> 1 \<Longrightarrow> b = 0"
  by (simp add: not_less word_le_nat_alt word_unat_eq_iff)

interpretation cbool: codec w_boolean r_boolean "\<lambda>_. True"
  by unfold_locales
    (auto simp: w_boolean_def r_boolean_def cu8.dec_enc_bind cu8.dec_bind_Inr dest: u8_not_above_one split: if_splits)

interpretation cid: codec w_fixed128 r_fixed128 "\<lambda>_. True"
  by unfold_locales
    (auto simp: w_fixed128_def r_fixed128_def dbind_def bindE_Inr_iff r_raw_def split: if_splits)

lemma of_nat_unat_mod [simp]: "of_nat (unat b mod 256) = (b :: u8)"
proof -
  have "unat b < 2 ^ LENGTH(8)" by (rule unsigned_less)
  then show ?thesis by simp
qed

lemma char_of_byte_of [simp]: "char_of (unat (of_nat (of_char c) :: u8)) = c"
proof -
  have "of_char c < (256 :: nat)" by simp
  then show ?thesis by (simp add: unat_of_nat take_bit_eq_mod)
qed

lemma text_bytes_bytes_text [simp]: "text_bytes (bytes_text bs) = bs"
  by (induction bs) (simp_all add: text_bytes_def bytes_text_def)

lemma bytes_text_text_bytes [simp]: "bytes_text (text_bytes s) = s"
  by (induction s) (simp_all add: text_bytes_def bytes_text_def)

lemma length_text_bytes [simp]: "length (text_bytes s) = length s"
  by (simp add: text_bytes_def)

lemma length_bytes_text [simp]: "length (bytes_text s) = length s"
  by (simp add: bytes_text_def)

lemma unat_u32_of_nat: "n \<le> m \<Longrightarrow> m < 2 ^ 32 \<Longrightarrow> unat (of_nat n :: u32) = n"
  by (simp add: unat_of_nat take_bit_eq_mod)

lemma of_nat_unat_u32: "of_nat (unat (w :: u32)) = w"
  by simp

lemma bytes_codec: "m < 2 ^ 32 \<Longrightarrow> codec w_bytes (r_bytes m) (\<lambda>d. length d \<le> m)"
proof unfold_locales
  fix x rest :: bytes assume "m < 2 ^ 32" "length x \<le> m"
  then show "r_bytes m (w_bytes x @ rest) = Inr (x, rest)"
    by (simp add: r_bytes_def w_bytes_def cu32.dec_enc_bind unat_u32_of_nat r_raw_def)
next
  fix bs x rest assume "r_bytes m bs = Inr (x, rest)"
  then show "length x \<le> m \<and> bs = w_bytes x @ rest"
    by (auto simp: r_bytes_def w_bytes_def cu32.dec_bind_Inr r_raw_def split: if_splits)
qed

lemma text_codec:
  assumes "m < 2 ^ 32"
  shows "codec w_text (r_text m) (\<lambda>s. length s \<le> m)"
proof unfold_locales
  fix x :: string and rest :: bytes assume "length x \<le> m"
  then show "r_text m (w_text x @ rest) = Inr (x, rest)"
    by (simp add: r_text_def w_text_def codec.dec_enc_bind [OF bytes_codec [OF assms]])
next
  fix bs x rest assume "r_text m bs = Inr (x, rest)"
  then show "length x \<le> m \<and> bs = w_text x @ rest"
    by (auto simp: r_text_def w_text_def codec.dec_bind_Inr [OF bytes_codec [OF assms]])
qed

text \<open>A counted collection of encodable items is a codec of its own.\<close>

lemma list_codec:
  assumes "codec enc dec carries" and "m < 2 ^ 32"
  shows "codec (w_list enc) (r_list m dec) (\<lambda>xs. length xs \<le> m \<and> list_all carries xs)"
proof unfold_locales
  fix xs rest assume "length xs \<le> m \<and> list_all carries xs"
  then show "r_list m dec (w_list enc xs @ rest) = Inr (xs, rest)"
    using codec.times_enc [OF assms(1)] unat_u32_of_nat [OF _ assms(2)]
    by (simp add: r_list_def w_list_def w_count_def r_peek_count_def dbind_def cu32.dec_enc)
next
  fix bs xs rest assume "r_list m dec bs = Inr (xs, rest)"
  then obtain n mid where "bs = w_u32 n @ mid" "unat n \<le> m" "r_times (unat n) dec mid = Inr (xs, rest)"
    by (auto simp: r_list_def r_peek_count_def dbind_Inr_iff cu32.dec_bind_Inr split: if_splits dest!: cu32.dec_only)
  then show "(length xs \<le> m \<and> list_all carries xs) \<and> bs = w_list enc xs @ rest"
    using codec.times_only [OF assms(1)] by (fastforce simp: w_list_def w_count_def)
qed

lemma list_prefix_code:
  assumes "prefix_code enc carries" and "m < 2 ^ 32"
  shows "prefix_code (w_list enc) (\<lambda>xs. length xs \<le> m \<and> list_all carries xs)"
proof
  fix xs ys r s
  assume xs: "length xs \<le> m \<and> list_all carries xs" and ys: "length ys \<le> m \<and> list_all carries ys"
    and eq: "w_list enc xs @ r = w_list enc ys @ s"
  then have "of_nat (length xs) = (of_nat (length ys) :: u32)"
    and rest: "concat (map enc xs) @ r = concat (map enc ys) @ s"
    by (simp_all add: w_list_def w_count_def cu32.append_eq)
  then have "unat (of_nat (length xs) :: u32) = unat (of_nat (length ys) :: u32)" by simp
  with xs ys assms have "length xs = length ys" by (simp add: unat_u32_of_nat [OF _ assms(2)])
  with rest xs ys show "xs = ys \<and> r = s"
    using prefix_code.concat_eq [OF assms(1), of xs ys r s] by simp
qed

lemma text_prefix_code: "m < 2 ^ 32 \<Longrightarrow> prefix_code w_text (\<lambda>s. length s \<le> m)"
  by (rule prefix_code.intro) (rule codec.enc_prefix [OF text_codec])

text \<open>Every primitive of the wire format reads back exactly what was written, whatever follows it
  in the buffer, and a reader accepts no bytes but those the writer produces: encodings are
  canonical.\<close>

theorem wire_canonical:
  "(r_u16 bs = Inr (a, rest) \<longleftrightarrow> bs = w_u16 a @ rest) \<and>
   (r_u32 bs = Inr (b, rest) \<longleftrightarrow> bs = w_u32 b @ rest) \<and>
   (r_u64 bs = Inr (c, rest) \<longleftrightarrow> bs = w_u64 c @ rest) \<and>
   (r_i64 bs = Inr (d, rest) \<longleftrightarrow> int64_ok d \<and> bs = w_i64 d @ rest) \<and>
   (r_boolean bs = Inr (e, rest) \<longleftrightarrow> bs = w_boolean e @ rest) \<and>
   (r_fixed128 bs = Inr (f, rest) \<longleftrightarrow> bs = w_fixed128 f @ rest) \<and>
   (r_text kMaxTextBytes bs = Inr (g, rest) \<longleftrightarrow> length g \<le> kMaxTextBytes \<and> bs = w_text g @ rest)"
proof -
  have "codec w_text (r_text kMaxTextBytes) (\<lambda>s. length s \<le> kMaxTextBytes)"
    by (rule text_codec) (simp add: kMaxTextBytes_def)
  then show ?thesis
    by (auto simp: cu16.dec_enc cu32.dec_enc cu64.dec_enc ci64.dec_enc cbool.dec_enc cid.dec_enc codec.dec_enc
        dest: cu16.dec_only cu32.dec_only cu64.dec_only ci64.dec_only cbool.dec_only cid.dec_only codec.dec_only)
qed

end
