(* ===== verification/Brf_Authority.thy ===== *)
theory Brf_Authority
  imports Brf_Time Brf_Wire
begin

text \<open>
  Provenance, exact references and the authority vector of \<^verbatim>\<open>include/brf/authority.hpp\<close> and
  \<^verbatim>\<open>src/authority.cpp\<close>. The lemmas show that the canonical form of a reference set is
  sorted, unique and has the same members, that sanitized reasons are bounded, printable and stable
  under a second pass, and that the fingerprint bytes determine the vector.
\<close>

definition kMaxBindingResources :: nat where "kMaxBindingResources = 64"
definition kMaxProvenanceReasonBytes :: nat where "kMaxProvenanceReasonBytes = 512"

definition is_printable :: "char \<Rightarrow> bool" where
  "is_printable ch \<longleftrightarrow> CHR '' '' \<le> ch \<and> ch \<le> CHR ''~''"

text \<open>The loop of \<^verbatim>\<open>sanitize_reason\<close>: \<open>n\<close> is the size of the output so far.\<close>

fun sanitize_scan :: "nat \<Rightarrow> nat \<Rightarrow> bool \<Rightarrow> string \<Rightarrow> string" where
  "sanitize_scan max_bytes n last_was_dot [] = []"
| "sanitize_scan max_bytes n last_was_dot (ch # cs) =
     (if n \<ge> max_bytes then []
      else
        let normalized = (if is_printable ch then ch else CHR ''.'')
        in if normalized = CHR ''.''
           then if last_was_dot then sanitize_scan max_bytes n True cs
                else normalized # sanitize_scan max_bytes (Suc n) True cs
           else normalized # sanitize_scan max_bytes (Suc n) False cs)"

definition strip_dots :: "string \<Rightarrow> string" where
  "strip_dots s = rev (dropWhile (\<lambda>c. c = CHR ''.'') (rev s))"

definition sanitize_reason_max :: "nat \<Rightarrow> string \<Rightarrow> string" where
  "sanitize_reason_max max_bytes text = strip_dots (sanitize_scan max_bytes 0 False text)"

definition sanitize_reason :: "string \<Rightarrow> string" where
  "sanitize_reason text = sanitize_reason_max kMaxProvenanceReasonBytes text"

record resource_ref =
  rr_resource :: name
  rr_generation :: counter

record failure_domain_ref =
  fr_domain :: name
  fr_generation :: counter

definition rr_key :: "resource_ref \<Rightarrow> name \<times> counter" where
  "rr_key r = (rr_resource r, rr_generation r)"

definition fr_key :: "failure_domain_ref \<Rightarrow> name \<times> counter" where
  "fr_key r = (fr_domain r, fr_generation r)"

datatype binding_kind = BkResources | BkPath

fun binding_kind_to_string :: "binding_kind \<Rightarrow> string" where
  "binding_kind_to_string BkResources = ''RESOURCES''"
| "binding_kind_to_string BkPath = ''PATH''"

record provenance =
  pv_actor :: name
  pv_publisher :: identity
  pv_publisher_boot :: identity
  pv_session :: identity
  pv_attempt :: identity
  pv_fabric_epoch :: counter
  pv_coordinator_boot :: identity
  pv_recorded_at :: timestamp
  pv_sequence :: counter
  pv_reason :: string

record authority_vector =
  av_fabric_epoch :: counter
  av_reservation_generation :: counter
  av_claimant :: identity
  av_claimant_generation :: counter
  av_capacity_snapshot :: identity
  av_capacity_generation :: counter
  av_policy :: name
  av_policy_generation :: counter
  av_path_generation :: counter
  av_resources :: "resource_ref list"
  av_failure_domains :: "failure_domain_ref list"

text \<open>
  The duplicate loop that follows the sort: an exact duplicate of the reference before it is erased,
  the same name at another generation is a conflict. It is the same loop for resources and for
  failure domains.
\<close>

fun canon_scan :: "('a \<Rightarrow> name) \<Rightarrow> ('a \<Rightarrow> counter) \<Rightarrow> 'a list \<Rightarrow> 'a list result" where
  "canon_scan nm gen (x # y # zs) =
     (if nm y = nm x
      then if gen y = gen x then canon_scan nm gen (x # zs) else Inl EConflict
      else bindE (canon_scan nm gen (y # zs)) (\<lambda>rs. Inr (x # rs)))"
| "canon_scan nm gen xs = Inr xs"

definition canonicalize_resources :: "resource_ref list \<Rightarrow> resource_ref list result" where
  "canonicalize_resources refs =
     (if length refs > kMaxBindingResources then Inl EResourceExhausted
      else canon_scan rr_resource rr_generation (sort_by (\<lambda>a b. rr_key a < rr_key b) refs))"

definition canonicalize_failure_domains :: "failure_domain_ref list \<Rightarrow> failure_domain_ref list result" where
  "canonicalize_failure_domains refs =
     (if length refs > kMaxBindingResources then Inl EResourceExhausted
      else canon_scan fr_domain fr_generation (sort_by (\<lambda>a b. fr_key a < fr_key b) refs))"

definition w_resource_ref :: "resource_ref \<Rightarrow> bytes" where
  "w_resource_ref r = w_text (rr_resource r) @ w_u64 (rr_generation r)"

definition w_failure_domain_ref :: "failure_domain_ref \<Rightarrow> bytes" where
  "w_failure_domain_ref r = w_text (fr_domain r) @ w_u64 (fr_generation r)"

definition authority_fingerprint_bytes :: "authority_vector \<Rightarrow> bytes" where
  "authority_fingerprint_bytes a =
     w_u64 (av_fabric_epoch a) @ w_u64 (av_reservation_generation a) @ w_fixed128 (av_claimant a) @
     w_u64 (av_claimant_generation a) @ w_fixed128 (av_capacity_snapshot a) @
     w_u64 (av_capacity_generation a) @ w_text (av_policy a) @ w_u64 (av_policy_generation a) @
     w_u64 (av_path_generation a) @ w_list w_resource_ref (av_resources a) @
     w_list w_failure_domain_ref (av_failure_domains a)"

subsection \<open>Reasons\<close>

definition reason_ok :: "nat \<Rightarrow> string \<Rightarrow> bool" where
  "reason_ok m s \<longleftrightarrow> length s \<le> m \<and> list_all is_printable s \<and> \<not> has_dotdot s \<and> (s = [] \<or> last s \<noteq> CHR ''.'')"

lemma printable_dot [simp]: "is_printable (CHR ''.'')"
  by (simp add: is_printable_def less_eq_char_def)

lemma sanitize_scan_length: "n \<le> m \<Longrightarrow> n + length (sanitize_scan m n d cs) \<le> m"
  by (induction m n d cs rule: sanitize_scan.induct) (auto simp: Let_def)

lemma sanitize_scan_printable: "list_all is_printable (sanitize_scan m n d cs)"
  by (induction m n d cs rule: sanitize_scan.induct) (auto simp: Let_def)

lemma has_dotdot_Cons: "has_dotdot (c # cs) \<longleftrightarrow> (c = CHR ''.'' \<and> cs \<noteq> [] \<and> hd cs = CHR ''.'') \<or> has_dotdot cs"
  by (cases cs) auto

lemma sanitize_scan_dots:
  "\<not> has_dotdot (sanitize_scan m n d cs) \<and>
   (d \<longrightarrow> sanitize_scan m n d cs = [] \<or> hd (sanitize_scan m n d cs) \<noteq> CHR ''.'')"
  by (induction m n d cs rule: sanitize_scan.induct) (auto simp: Let_def has_dotdot_Cons)

lemma sanitize_scan_id:
  "list_all is_printable s \<Longrightarrow> \<not> has_dotdot s \<Longrightarrow> n + length s \<le> m \<Longrightarrow>
   (d \<longrightarrow> s = [] \<or> hd s \<noteq> CHR ''.'') \<Longrightarrow> sanitize_scan m n d s = s"
  by (induction m n d s rule: sanitize_scan.induct) (auto simp: Let_def has_dotdot_Cons)

lemma has_dotdot_append: "has_dotdot xs \<Longrightarrow> has_dotdot (xs @ ys)"
  by (induction xs rule: has_dotdot.induct) auto

lemma strip_dots_prefix: "\<exists>ys. s = strip_dots s @ ys"
proof -
  have "rev s = takeWhile (\<lambda>c. c = CHR ''.'') (rev s) @ dropWhile (\<lambda>c. c = CHR ''.'') (rev s)" by simp
  then have "s = strip_dots s @ rev (takeWhile (\<lambda>c. c = CHR ''.'') (rev s))"
    unfolding strip_dots_def by (metis rev_append rev_rev_ident)
  then show ?thesis by blast
qed

lemma strip_dots_last: "strip_dots s = [] \<or> last (strip_dots s) \<noteq> CHR ''.''"
  using hd_dropWhile [of "\<lambda>c. c = CHR ''.''" "rev s"] by (auto simp: strip_dots_def last_rev)

lemma strip_dots_id: "s = [] \<or> last s \<noteq> CHR ''.'' \<Longrightarrow> strip_dots s = s"
  by (cases s rule: rev_cases) (auto simp: strip_dots_def)

lemma reason_ok_sanitize: "reason_ok m (sanitize_reason_max m text)"
proof -
  define s where "s = sanitize_scan m 0 False text"
  obtain ys where ys: "s = strip_dots s @ ys" using strip_dots_prefix by blast
  have "length s \<le> m" "list_all is_printable s" "\<not> has_dotdot s"
    using sanitize_scan_length [of 0 m False "text"] sanitize_scan_printable sanitize_scan_dots
    by (auto simp: s_def)
  moreover have "length (strip_dots s) \<le> length s"
    using arg_cong [OF ys, of length] by simp
  moreover have "list_all is_printable (strip_dots s)" if "list_all is_printable s"
    using that by (subst (asm) ys) simp
  moreover have "\<not> has_dotdot (strip_dots s)" if "\<not> has_dotdot s"
    using that has_dotdot_append [of "strip_dots s" ys] ys by auto
  ultimately show ?thesis
    using strip_dots_last [of s] by (simp add: reason_ok_def sanitize_reason_max_def s_def)
qed

lemma sanitize_reason_id: "reason_ok m s \<Longrightarrow> sanitize_reason_max m s = s"
  by (simp add: reason_ok_def sanitize_reason_max_def sanitize_scan_id strip_dots_id)

text \<open>Whatever text a caller supplies, the stored reason is at most 512 printable characters with no
  repeated and no trailing dot, and sanitizing a stored reason again leaves it unchanged, so that a
  reason survives a journal replay byte for byte.\<close>

theorem sanitize_reason_stable:
  "reason_ok kMaxProvenanceReasonBytes (sanitize_reason text) \<and>
   sanitize_reason (sanitize_reason text) = sanitize_reason text"
  using reason_ok_sanitize by (simp add: sanitize_reason_def sanitize_reason_id)

subsection \<open>Canonical reference sets\<close>

lemma canon_scan_Inl:
  "canon_scan nm gen xs = Inl e \<Longrightarrow>
   e = EConflict \<and> (\<exists>a \<in> set xs. \<exists>b \<in> set xs. nm a = nm b \<and> gen a \<noteq> gen b)"
proof (induction nm gen xs rule: canon_scan.induct)
  case (1 nm gen x y zs)
  show ?case
  proof (cases "nm y = nm x")
    case True
    then show ?thesis using 1 by (cases "gen y = gen x") auto
  next
    case False
    then have "canon_scan nm gen (y # zs) = Inl e" using "1.prems" by (simp add: bindE_Inl_iff)
    then show ?thesis using "1.IH"(2) [OF False] by auto
  qed
qed auto

lemma canon_scan_Inr:
  "\<forall>a b. nm a = nm b \<and> gen a = gen b \<longrightarrow> a = b \<Longrightarrow> canon_scan nm gen xs = Inr ys \<Longrightarrow> sorted (map nm xs) \<Longrightarrow>
   sorted_wrt (<) (map nm ys) \<and> set ys = set xs"
proof (induction nm gen xs arbitrary: ys rule: canon_scan.induct)
  case (1 nm gen x y zs)
  show ?case
  proof (cases "nm y = nm x")
    case True
    with "1.prems" have "gen y = gen x" "canon_scan nm gen (x # zs) = Inr ys" by (auto split: if_splits)
    then show ?thesis
      using "1.IH"(1) [of ys] "1.prems" True by auto
  next
    case False
    with "1.prems" obtain rs where rs: "canon_scan nm gen (y # zs) = Inr rs" "ys = x # rs"
      by (auto simp: bindE_Inr_iff)
    then have ih: "sorted_wrt (<) (map nm rs)" "set rs = set (y # zs)"
      using "1.IH"(2) [of rs] "1.prems" False by auto
    have "nm x < nm z" if "z \<in> set (y # zs)" for z
      using "1.prems"(3) False that by (auto simp: less_le)
    then show ?thesis using ih rs by simp
  qed
qed auto

definition contradictory :: "('a \<Rightarrow> name) \<Rightarrow> ('a \<Rightarrow> counter) \<Rightarrow> 'a list \<Rightarrow> bool" where
  "contradictory nm gen xs \<longleftrightarrow> (\<exists>a \<in> set xs. \<exists>b \<in> set xs. nm a = nm b \<and> gen a \<noteq> gen b)"

lemma contradictory_cong: "set xs = set ys \<Longrightarrow> contradictory nm gen xs \<longleftrightarrow> contradictory nm gen ys"
  by (simp add: contradictory_def)

lemma strict_names_inject:
  "sorted_wrt (<) (map nm ys) \<Longrightarrow> a \<in> set ys \<Longrightarrow> b \<in> set ys \<Longrightarrow> nm a = nm b \<Longrightarrow> a = b" for nm :: "'a \<Rightarrow> name"
  by (auto simp: strict_sorted_iff distinct_map dest: inj_onD)

lemma strict_names_unique:
  "sorted_wrt (<) (map nm xs) \<Longrightarrow> sorted_wrt (<) (map nm ys) \<Longrightarrow> set xs = set ys \<Longrightarrow> xs = ys"
  for nm :: "'a \<Rightarrow> name"
proof (rule map_inj_on [of nm])
  assume *: "sorted_wrt (<) (map nm xs)" "sorted_wrt (<) (map nm ys)" "set xs = set ys"
  then show "map nm xs = map nm ys"
    by (intro sorted_distinct_set_unique) (auto simp: strict_sorted_iff)
  show "inj_on nm (set xs \<union> set ys)"
    using * strict_names_inject [OF *(1)] by (auto intro!: inj_onI)
qed

lemma sorted_names_of_keys:
  "sorted (map k xs) \<Longrightarrow> \<forall>x. fst (k x) = nm x \<Longrightarrow> sorted (map nm xs)" for nm :: "'a \<Rightarrow> name"
  by (induction xs) (auto simp: less_eq_prod_def order.strict_implies_order)

lemma canon_sorted_spec:
  fixes nm :: "'a \<Rightarrow> name" and refs :: "'a list"
  assumes inj: "\<forall>a b. nm a = nm b \<and> gen a = gen b \<longrightarrow> a = b"
    and k: "k = (\<lambda>a. (nm a, gen a))"
  defines "r \<equiv> canon_scan nm gen (sort_by (\<lambda>a b. k a < k b) refs)"
  shows "(r = Inl e \<longleftrightarrow> e = EConflict \<and> contradictory nm gen refs) \<and>
    (\<forall>rs. r = Inr rs \<longleftrightarrow> \<not> contradictory nm gen refs \<and> sorted_wrt (<) (map nm rs) \<and> set rs = set refs)"
proof (cases r)
  case (Inl e')
  then have "e' = EConflict \<and> contradictory nm gen refs"
    using canon_scan_Inl [of nm gen] by (fastforce simp: r_def contradictory_def)
  then show ?thesis using Inl by auto
next
  case (Inr ys)
  have "sorted (map k (sort_by (\<lambda>a b. k a < k b) refs))" by (simp add: sort_by_key)
  then have "sorted (map nm (sort_by (\<lambda>a b. k a < k b) refs))"
    by (rule sorted_names_of_keys) (simp add: k)
  then have ys: "sorted_wrt (<) (map nm ys) \<and> set ys = set refs"
    using canon_scan_Inr [OF inj Inr [unfolded r_def]] by simp
  then have "\<not> contradictory nm gen refs"
    using strict_names_inject [of nm ys] by (auto simp: contradictory_def)
  with ys Inr show ?thesis by (auto intro: strict_names_unique)
qed

lemma canonicalize_resources_cases:
  "(canonicalize_resources refs = Inl e \<longleftrightarrow>
      (if length refs > kMaxBindingResources then e = EResourceExhausted
       else e = EConflict \<and> contradictory rr_resource rr_generation refs)) \<and>
   (canonicalize_resources refs = Inr rs \<longleftrightarrow>
      length refs \<le> kMaxBindingResources \<and> \<not> contradictory rr_resource rr_generation refs \<and>
      sorted_wrt (<) (map rr_resource rs) \<and> set rs = set refs)"
proof -
  have "\<forall>a b. rr_resource a = rr_resource b \<and> rr_generation a = rr_generation b \<longrightarrow> (a :: resource_ref) = b"
    by auto
  moreover have "rr_key = (\<lambda>a. (rr_resource a, rr_generation a))"
    by (simp add: rr_key_def fun_eq_iff)
  ultimately have "(canon_scan rr_resource rr_generation (sort_by (\<lambda>a b. rr_key a < rr_key b) refs) = Inl e \<longleftrightarrow>
      e = EConflict \<and> contradictory rr_resource rr_generation refs) \<and>
    (\<forall>rs. canon_scan rr_resource rr_generation (sort_by (\<lambda>a b. rr_key a < rr_key b) refs) = Inr rs \<longleftrightarrow>
      \<not> contradictory rr_resource rr_generation refs \<and> sorted_wrt (<) (map rr_resource rs) \<and> set rs = set refs)"
    by (rule canon_sorted_spec)
  then show ?thesis
    by (simp add: canonicalize_resources_def eq_commute)
qed

text \<open>C23: the canonical form of a resource set is refused exactly when the set is too wide or binds a
  name to two generations, and is otherwise the one list of the same references in strictly ascending
  name order, whatever order and multiplicity the caller used.\<close>

theorem canonicalize_resources_spec:
  "(canonicalize_resources refs = Inl e \<longleftrightarrow>
      (if length refs > kMaxBindingResources then e = EResourceExhausted
       else e = EConflict \<and> contradictory rr_resource rr_generation refs)) \<and>
   (canonicalize_resources refs = Inr rs \<longleftrightarrow>
      length refs \<le> kMaxBindingResources \<and> \<not> contradictory rr_resource rr_generation refs \<and>
      sorted_wrt (<) (map rr_resource rs) \<and> set rs = set refs) \<and>
   (\<forall>refs'. set refs' = set refs \<and> length refs \<le> kMaxBindingResources \<and> length refs' \<le> kMaxBindingResources \<longrightarrow>
      canonicalize_resources refs' = canonicalize_resources refs)"
proof -
  have "canonicalize_resources refs' = canonicalize_resources refs"
    if "set refs' = set refs" "length refs \<le> kMaxBindingResources" "length refs' \<le> kMaxBindingResources" for refs'
  proof (cases "canonicalize_resources refs")
    case (Inl e)
    with that have "canonicalize_resources refs' = Inl e"
      using canonicalize_resources_cases [of refs e "[]"] canonicalize_resources_cases [of refs' e "[]"]
        contradictory_cong [OF that(1)] by simp
    with Inl show ?thesis by simp
  next
    case (Inr rs)
    with that have "canonicalize_resources refs' = Inr rs"
      using canonicalize_resources_cases [of refs EConflict rs] canonicalize_resources_cases [of refs' EConflict rs]
        contradictory_cong [OF that(1)] by simp
    with Inr show ?thesis by simp
  qed
  then show ?thesis using canonicalize_resources_cases by blast
qed

theorem canonicalize_resources_witness:
  "canonicalize_resources [\<lparr>rr_resource = ''b'', rr_generation = 1\<rparr>, \<lparr>rr_resource = ''a'', rr_generation = 2\<rparr>,
      \<lparr>rr_resource = ''b'', rr_generation = 1\<rparr>]
   = canonicalize_resources [\<lparr>rr_resource = ''a'', rr_generation = 2\<rparr>, \<lparr>rr_resource = ''b'', rr_generation = 1\<rparr>]"
  by (rule canonicalize_resources_spec [THEN conjunct2, THEN conjunct2, rule_format])
    (auto simp: kMaxBindingResources_def)

subsection \<open>Fingerprints\<close>

definition name64 :: "name \<Rightarrow> bool" where
  "name64 n \<longleftrightarrow> length n \<le> kNameCapacity"

lemma name_prefix_code: "prefix_code w_text name64"
  unfolding name64_def by (rule text_prefix_code) (simp add: kNameCapacity_def)

interpretation rr_code: prefix_code w_resource_ref "\<lambda>r. name64 (rr_resource r)"
  by unfold_locales
    (simp add: w_resource_ref_def prefix_code.append_eq [OF name_prefix_code] cu64.append_eq)

interpretation fr_code: prefix_code w_failure_domain_ref "\<lambda>r. name64 (fr_domain r)"
  by unfold_locales
    (simp add: w_failure_domain_ref_def prefix_code.append_eq [OF name_prefix_code] cu64.append_eq)

definition authority_ok :: "authority_vector \<Rightarrow> bool" where
  "authority_ok a \<longleftrightarrow> name64 (av_policy a) \<and>
     length (av_resources a) \<le> kMaxBindingResources \<and> list_all (\<lambda>r. name64 (rr_resource r)) (av_resources a) \<and>
     length (av_failure_domains a) \<le> kMaxBindingResources \<and>
     list_all (\<lambda>r. name64 (fr_domain r)) (av_failure_domains a)"

lemma binding_width_u32: "kMaxBindingResources < 2 ^ 32"
  by (simp add: kMaxBindingResources_def)

lemmas rr_list_code = list_prefix_code [OF rr_code.prefix_code_axioms binding_width_u32]
lemmas fr_list_code = list_prefix_code [OF fr_code.prefix_code_axioms binding_width_u32]

text \<open>C24: two authority vectors have the same canonical fingerprint bytes exactly when they are equal
  in every generation, identity and reference: comparing the bytes is comparing the authority.\<close>

theorem authority_fingerprint_inject:
  assumes "authority_ok a" and "authority_ok b"
  shows "authority_fingerprint_bytes a = authority_fingerprint_bytes b \<longleftrightarrow> a = b"
proof -
  have "authority_fingerprint_bytes a = authority_fingerprint_bytes b \<Longrightarrow> a = b"
    using assms
    by (simp add: authority_fingerprint_bytes_def authority_ok_def cu64.append_eq cid.append_eq
        prefix_code.append_eq [OF name_prefix_code] prefix_code.append_eq [OF rr_list_code]
        prefix_code.enc_inject [OF fr_list_code])
  then show ?thesis by auto
qed

definition sample_authority :: authority_vector where
  "sample_authority = \<lparr>av_fabric_epoch = 1, av_reservation_generation = 1, av_claimant = 7,
     av_claimant_generation = 2, av_capacity_snapshot = 9, av_capacity_generation = 3, av_policy = ''p'',
     av_policy_generation = 4, av_path_generation = 0, av_resources = [\<lparr>rr_resource = ''r'', rr_generation = 5\<rparr>],
     av_failure_domains = [\<lparr>fr_domain = ''d'', fr_generation = 6\<rparr>]\<rparr>"

theorem authority_fingerprint_witness:
  "authority_fingerprint_bytes sample_authority
     \<noteq> authority_fingerprint_bytes (sample_authority\<lparr>av_policy_generation := 5\<rparr>)"
  using authority_fingerprint_inject [of sample_authority "sample_authority\<lparr>av_policy_generation := 5\<rparr>"]
  by (simp add: sample_authority_def authority_ok_def name64_def kNameCapacity_def kMaxBindingResources_def)

end
