(* ===== verification/Brf_Reservation.thy ===== *)
theory Brf_Reservation
  imports Brf_Policy Brf_Authority
begin

text \<open>
  Reservation terms, records and their lifecycle vocabulary, from \<^verbatim>\<open>include/brf/reservation.hpp\<close>
  and \<^verbatim>\<open>src/reservation.cpp\<close>. The lemmas give the exact meaning of structural validation, the
  interval a record consumes capacity in, and the expansion of a recurrence series.
\<close>

datatype reservation_state =
    RsDeclared | RsValidated | RsPending | RsCommitted | RsActive | RsAmendmentPending | RsRecallPending
  | RsReleased | RsExpired | RsRevoked | RsFenced | RsStale | RsSuperseded | RsRejected | RsRetired

fun reservation_state_to_string :: "reservation_state \<Rightarrow> string" where
  "reservation_state_to_string RsDeclared = ''DECLARED''"
| "reservation_state_to_string RsValidated = ''VALIDATED''"
| "reservation_state_to_string RsPending = ''PENDING''"
| "reservation_state_to_string RsCommitted = ''COMMITTED''"
| "reservation_state_to_string RsActive = ''ACTIVE''"
| "reservation_state_to_string RsAmendmentPending = ''AMENDMENT_PENDING''"
| "reservation_state_to_string RsRecallPending = ''RECALL_PENDING''"
| "reservation_state_to_string RsReleased = ''RELEASED''"
| "reservation_state_to_string RsExpired = ''EXPIRED''"
| "reservation_state_to_string RsRevoked = ''REVOKED''"
| "reservation_state_to_string RsFenced = ''FENCED''"
| "reservation_state_to_string RsStale = ''STALE''"
| "reservation_state_to_string RsSuperseded = ''SUPERSEDED''"
| "reservation_state_to_string RsRejected = ''REJECTED''"
| "reservation_state_to_string RsRetired = ''RETIRED''"

definition kStates :: "(string \<times> reservation_state) list" where
  "kStates =
     [(''DECLARED'', RsDeclared), (''VALIDATED'', RsValidated), (''PENDING'', RsPending),
      (''COMMITTED'', RsCommitted), (''ACTIVE'', RsActive), (''AMENDMENT_PENDING'', RsAmendmentPending),
      (''RECALL_PENDING'', RsRecallPending), (''RELEASED'', RsReleased), (''EXPIRED'', RsExpired),
      (''REVOKED'', RsRevoked), (''FENCED'', RsFenced), (''STALE'', RsStale),
      (''SUPERSEDED'', RsSuperseded), (''REJECTED'', RsRejected), (''RETIRED'', RsRetired)]"

definition parse_reservation_state :: "string \<Rightarrow> reservation_state result" where
  "parse_reservation_state t =
     (case find (\<lambda>entry. fst entry = t) kStates of
        Some entry \<Rightarrow> Inr (snd entry)
      | None \<Rightarrow> Inl EInvalidArgument)"

fun consumes_capacity :: "reservation_state \<Rightarrow> bool" where
  "consumes_capacity RsCommitted = True"
| "consumes_capacity RsActive = True"
| "consumes_capacity RsRecallPending = True"
| "consumes_capacity _ = False"

fun is_terminal :: "reservation_state \<Rightarrow> bool" where
  "is_terminal RsReleased = True"
| "is_terminal RsExpired = True"
| "is_terminal RsRevoked = True"
| "is_terminal RsFenced = True"
| "is_terminal RsStale = True"
| "is_terminal RsSuperseded = True"
| "is_terminal RsRejected = True"
| "is_terminal RsRetired = True"
| "is_terminal _ = False"

datatype applicability = ApCurrent | ApRevalidationRequired | ApStale

datatype applicability_reason =
    ArCurrent | ArResourceGenerationChanged | ArResourceWithdrawn | ArPathGenerationChanged | ArPathRetired
  | ArMaintenanceWindowAdded | ArPolicyMaterialChange | ArFailureDomainGenerationChanged
  | ArCapacityReducedBelowCommitments

fun applicability_to_string :: "applicability \<Rightarrow> string" where
  "applicability_to_string ApCurrent = ''CURRENT''"
| "applicability_to_string ApRevalidationRequired = ''REVALIDATION_REQUIRED''"
| "applicability_to_string ApStale = ''STALE''"

fun applicability_reason_to_string :: "applicability_reason \<Rightarrow> string" where
  "applicability_reason_to_string ArCurrent = ''CURRENT''"
| "applicability_reason_to_string ArResourceGenerationChanged = ''RESOURCE_GENERATION_CHANGED''"
| "applicability_reason_to_string ArResourceWithdrawn = ''RESOURCE_WITHDRAWN''"
| "applicability_reason_to_string ArPathGenerationChanged = ''PATH_GENERATION_CHANGED''"
| "applicability_reason_to_string ArPathRetired = ''PATH_RETIRED''"
| "applicability_reason_to_string ArMaintenanceWindowAdded = ''MAINTENANCE_WINDOW_ADDED''"
| "applicability_reason_to_string ArPolicyMaterialChange = ''POLICY_MATERIAL_CHANGE''"
| "applicability_reason_to_string ArFailureDomainGenerationChanged = ''FAILURE_DOMAIN_GENERATION_CHANGED''"
| "applicability_reason_to_string ArCapacityReducedBelowCommitments = ''CAPACITY_REDUCED_BELOW_COMMITMENTS''"

record recurrence_spec =
  rs_enabled :: bool
  rs_period :: duration
  rs_count :: u32

record reservation_terms =
  tm_claimant :: identity
  tm_claimant_generation :: counter
  tm_binding_kind :: binding_kind
  tm_resources :: "name list"
  tm_path :: name
  tm_required_path_generation :: counter
  tm_interval :: interval
  tm_amount :: bandwidth
  tm_minimum_amount :: "bandwidth option"
  tm_maximum_amount :: "bandwidth option"
  tm_guarantee :: guarantee_class
  tm_priority :: u32
  tm_preemptible :: bool
  tm_recall_permitted :: bool
  tm_grace :: duration
  tm_headroom_requirement :: bandwidth
  tm_policy :: name
  tm_policy_labels :: "string list"
  tm_recurrence :: recurrence_spec

definition label_is_safe :: "string \<Rightarrow> bool" where
  "label_is_safe l \<longleftrightarrow> l \<noteq> [] \<and> length l \<le> kMaxLabelBytes \<and> list_all is_printable l"

definition validate_amounts :: "reservation_terms \<Rightarrow> status" where
  "validate_amounts t =
     (if tm_amount t \<le> 0 then Inl EInvalidBandwidth
      else if tm_amount t > kMaxBandwidthBps then Inl EInvalidBandwidth
      else if (case tm_minimum_amount t of None \<Rightarrow> False
               | Some m \<Rightarrow> m \<le> 0 \<or> m > kMaxBandwidthBps \<or> m > tm_amount t) then Inl EInvalidBandwidth
      else if (case tm_maximum_amount t of None \<Rightarrow> False
               | Some m \<Rightarrow> m \<le> 0 \<or> m > kMaxBandwidthBps \<or> m < tm_amount t) then Inl EInvalidBandwidth
      else if tm_headroom_requirement t < 0 \<or> tm_headroom_requirement t > kMaxBandwidthBps
        then Inl EInvalidBandwidth
      else Inr ())"

definition validate_binding :: "reservation_terms \<Rightarrow> status" where
  "validate_binding t =
     (case tm_binding_kind t of
        BkResources \<Rightarrow>
          if tm_resources t = [] then Inl EInvalidArgument
          else if length (tm_resources t) > kMaxBindingResources then Inl EResourceExhausted
          else if tm_path t \<noteq> [] then Inl EInvalidArgument
          else if has_adjacent_dup (sort_by (<) (tm_resources t)) then Inl EConflict
          else if list_ex (\<lambda>n. n = []) (tm_resources t) then Inl EInvalidName
          else Inr ()
      | BkPath \<Rightarrow>
          if tm_path t = [] then Inl EInvalidName
          else if tm_resources t \<noteq> [] then Inl EInvalidArgument
          else Inr ())"

definition validate_recurrence :: "recurrence_spec \<Rightarrow> status" where
  "validate_recurrence r =
     (if rs_enabled r
      then if rs_count r < 1 then Inl EInvalidArgument
           else if rs_count r > 1 \<and> rs_period r \<le> 0 then Inl EInvalidArgument
           else if rs_period r < 0 then Inl EInvalidArgument
           else Inr ()
      else Inr ())"

definition validate_terms :: "reservation_terms \<Rightarrow> status" where
  "validate_terms t =
     (if is_nil (tm_claimant t) then Inl EInvalidIdentity
      else if tm_claimant_generation t = 0 then Inl EInvalidIdentity
      else
        bindE (validate_interval (tm_interval t)) (\<lambda>_.
        bindE (validate_amounts t) (\<lambda>_.
        bindE (validate_binding t) (\<lambda>_.
          if tm_policy t = [] then Inl EInvalidName
          else if tm_priority t > kMaxPriority then Inl EInvalidArgument
          else if tm_guarantee t = GcGuaranteed \<and> tm_preemptible t then Inl EConflict
          else if tm_grace t < 0 \<or> tm_grace t > kMaxReservationSpanNs then Inl EInvalidInterval
          else if length (tm_policy_labels t) > kMaxPolicyLabels then Inl EResourceExhausted
          else if \<not> list_all label_is_safe (tm_policy_labels t) then Inl EInvalidArgument
          else validate_recurrence (tm_recurrence t)))))"

record reservation_record =
  rv_id :: identity
  rv_generation :: counter
  rv_series_member :: bool
  rv_series :: identity
  rv_series_index :: counter
  rv_terms :: reservation_terms
  rv_authority :: authority_vector
  rv_state :: reservation_state
  rv_applicability :: applicability
  rv_applicability_reason :: applicability_reason
  rv_declared_at :: timestamp
  rv_committed_at :: timestamp
  rv_activated_at :: timestamp
  rv_state_changed_at :: timestamp
  rv_recall_effective_at :: timestamp
  rv_recall_grace :: duration
  rv_terminated_at :: timestamp
  rv_predecessor :: identity
  rv_predecessor_generation :: counter
  rv_state_reason :: string
  rv_last_provenance :: provenance
  rv_sequence :: counter

definition consumes :: "reservation_record \<Rightarrow> bool" where
  "consumes r \<longleftrightarrow> consumes_capacity (rv_state r) \<and> rv_applicability r \<noteq> ApStale"

definition consuming_interval :: "reservation_record \<Rightarrow> interval" where
  "consuming_interval r =
     (let window = tm_interval (rv_terms r)
      in if rv_recall_effective_at r > 0 \<and> rv_recall_effective_at r < iv_end window
         then
           let released_at = rv_recall_effective_at r + rv_recall_grace r;
               effective_end = (if released_at > iv_end window then iv_end window else released_at)
           in window\<lparr>iv_end := (if effective_end < iv_start window then iv_start window else effective_end)\<rparr>
         else window)"

record supersession_edge =
  se_predecessor :: identity
  se_predecessor_generation :: counter
  se_successor :: identity
  se_successor_generation :: counter
  se_recorded_at :: timestamp
  se_sequence :: counter
  se_reason :: string

record reservation_series =
  sr_id :: identity
  sr_generation :: counter
  sr_claimant :: identity
  sr_claimant_generation :: counter
  sr_spec :: recurrence_spec
  sr_first_interval :: interval
  sr_amount :: bandwidth
  sr_state :: reservation_state
  sr_created_at :: timestamp
  sr_state_changed_at :: timestamp
  sr_predecessor_series_generation :: identity
  sr_predecessor_generation :: counter
  sr_members :: "identity list"
  sr_last_provenance :: provenance
  sr_sequence :: counter

text \<open>The member loop of \<^verbatim>\<open>expand_series\<close> from member \<open>i\<close> on, with \<open>n\<close> members to go.\<close>

fun expand_members :: "interval \<Rightarrow> duration \<Rightarrow> int \<Rightarrow> nat \<Rightarrow> interval list result" where
  "expand_members first period i 0 = Inr []"
| "expand_members first period i (Suc n) =
     (let span = iv_end first - iv_start first;
          start = iv_start first + i * period
      in if start > kMaxTimestampNs \<or> span > kMaxTimestampNs - start then Inl EOverflow
         else
           bindE (validate_interval (mk_iv start (start + span))) (\<lambda>_.
           bindE (expand_members first period (i + 1) n) (\<lambda>ms. Inr (mk_iv start (start + span) # ms))))"

definition expand_series :: "interval \<Rightarrow> recurrence_spec \<Rightarrow> u32 \<Rightarrow> interval list result" where
  "expand_series first spec max_members =
     (if \<not> rs_enabled spec then Inr [first]
      else if rs_count spec = 0 then Inl EInvalidArgument
      else if rs_count spec > max_members then Inl EResourceExhausted
      else
        bindE (validate_interval first) (\<lambda>_.
          if rs_count spec > 1 \<and> rs_period spec \<le> 0 then Inl EInvalidArgument
          else
            let span = iv_end first - iv_start first
            in if rs_count spec > 1 \<and> rs_period spec < span then Inl EInvalidArgument
               else if rs_period spec > 0 \<and>
                       uint (rs_count spec) - 1 > (kMaxTimestampNs - iv_start first) div rs_period spec
               then Inl EOverflow
               else expand_members first (rs_period spec) 0 (unat (rs_count spec))))"

subsection \<open>States\<close>

lemma parse_reservation_state_iff:
  "parse_reservation_state t = Inr s \<longleftrightarrow> t = reservation_state_to_string s"
proof
  assume "parse_reservation_state t = Inr s"
  then obtain n where "find (\<lambda>entry. fst entry = t) kStates = Some (n, s)"
    by (auto simp: parse_reservation_state_def split: option.splits)
  then have "(t, s) \<in> set kStates" by (auto simp: find_Some_iff) (metis nth_mem fst_conv)
  moreover have "list_all (\<lambda>(n, s). n = reservation_state_to_string s) kStates"
    by (simp add: kStates_def)
  ultimately show "t = reservation_state_to_string s" by (auto simp: list_all_iff)
next
  assume "t = reservation_state_to_string s"
  then show "parse_reservation_state t = Inr s"
    by (cases s) (simp_all add: parse_reservation_state_def kStates_def)
qed

lemma consumes_not_terminal: "consumes_capacity s \<Longrightarrow> \<not> is_terminal s"
  by (cases s) simp_all

subsection \<open>Validated terms\<close>

definition terms_ok :: "reservation_terms \<Rightarrow> bool" where
  "terms_ok t \<longleftrightarrow>
     tm_claimant t \<noteq> nil_id \<and> tm_claimant_generation t \<noteq> 0 \<and> interval_ok (tm_interval t) \<and>
     0 < tm_amount t \<and> tm_amount t \<le> kMaxBandwidthBps \<and>
     (\<forall>m. tm_minimum_amount t = Some m \<longrightarrow> 0 < m \<and> m \<le> tm_amount t) \<and>
     (\<forall>m. tm_maximum_amount t = Some m \<longrightarrow> tm_amount t \<le> m \<and> m \<le> kMaxBandwidthBps) \<and>
     bandwidth_ok (tm_headroom_requirement t) \<and>
     (tm_binding_kind t = BkResources \<longrightarrow>
        tm_resources t \<noteq> [] \<and> length (tm_resources t) \<le> kMaxBindingResources \<and> tm_path t = [] \<and>
        distinct (tm_resources t) \<and> [] \<notin> set (tm_resources t)) \<and>
     (tm_binding_kind t = BkPath \<longrightarrow> tm_path t \<noteq> [] \<and> tm_resources t = []) \<and>
     tm_policy t \<noteq> [] \<and> \<not> tm_priority t > kMaxPriority \<and>
     \<not> (tm_guarantee t = GcGuaranteed \<and> tm_preemptible t) \<and>
     0 \<le> tm_grace t \<and> tm_grace t \<le> kMaxReservationSpanNs \<and>
     length (tm_policy_labels t) \<le> kMaxPolicyLabels \<and> list_all label_is_safe (tm_policy_labels t) \<and>
     (rs_enabled (tm_recurrence t) \<longrightarrow>
        rs_count (tm_recurrence t) \<noteq> 0 \<and> 0 \<le> rs_period (tm_recurrence t) \<and>
        (rs_count (tm_recurrence t) > 1 \<longrightarrow> 0 < rs_period (tm_recurrence t)))"

lemma validate_amounts_ok:
  "validate_amounts t = Inr () \<longleftrightarrow>
     0 < tm_amount t \<and> tm_amount t \<le> kMaxBandwidthBps \<and>
     (\<forall>m. tm_minimum_amount t = Some m \<longrightarrow> 0 < m \<and> m \<le> tm_amount t) \<and>
     (\<forall>m. tm_maximum_amount t = Some m \<longrightarrow> tm_amount t \<le> m \<and> m \<le> kMaxBandwidthBps) \<and>
     bandwidth_ok (tm_headroom_requirement t)"
  by (auto simp: validate_amounts_def bandwidth_ok_def not_less not_le split: option.splits)

lemma validate_binding_ok:
  "validate_binding t = Inr () \<longleftrightarrow>
     (tm_binding_kind t = BkResources \<longrightarrow>
        tm_resources t \<noteq> [] \<and> length (tm_resources t) \<le> kMaxBindingResources \<and> tm_path t = [] \<and>
        distinct (tm_resources t) \<and> [] \<notin> set (tm_resources t)) \<and>
     (tm_binding_kind t = BkPath \<longrightarrow> tm_path t \<noteq> [] \<and> tm_resources t = [])"
  by (cases "tm_binding_kind t") (auto simp: validate_binding_def adjacent_dup_sort list_ex_iff)

lemma u32_below_one: "(w :: u32) < 1 \<longleftrightarrow> w = 0"
  by (simp add: word_less_nat_alt word_unat_eq_iff)

lemma validate_recurrence_ok:
  "validate_recurrence r = Inr () \<longleftrightarrow>
     (rs_enabled r \<longrightarrow> rs_count r \<noteq> 0 \<and> 0 \<le> rs_period r \<and> (rs_count r > 1 \<longrightarrow> 0 < rs_period r))"
  by (auto simp: validate_recurrence_def u32_below_one)

lemma validate_terms_ok: "validate_terms t = Inr () \<longleftrightarrow> terms_ok t"
  by (simp add: validate_terms_def terms_ok_def bindE_Inr_iff validate_amounts_ok validate_binding_ok
      validate_recurrence_ok is_nil_def)


subsection \<open>Consuming interval\<close>

text \<open>A record occupies an instant exactly when the instant lies in its window and, once a recall is
  set inside the window, before the recall takes effect plus its grace; the consuming interval never
  leaves the reserved window and never ends before it starts.\<close>

theorem consuming_interval_spec:
  assumes "interval_ok (tm_interval (rv_terms r))"
  shows "(contains_ts (consuming_interval r) t \<longleftrightarrow>
      contains_ts (tm_interval (rv_terms r)) t \<and>
      (0 < rv_recall_effective_at r \<and> rv_recall_effective_at r < iv_end (tm_interval (rv_terms r)) \<longrightarrow>
        t < rv_recall_effective_at r + rv_recall_grace r)) \<and>
    contains_iv (tm_interval (rv_terms r)) (consuming_interval r) \<and>
    iv_start (consuming_interval r) = iv_start (tm_interval (rv_terms r)) \<and>
    iv_start (consuming_interval r) \<le> iv_end (consuming_interval r)"
  using assms by (auto simp: consuming_interval_def Let_def contains_ts_def contains_iv_def interval_ok_def)

definition sample_terms :: "interval \<Rightarrow> bandwidth \<Rightarrow> reservation_terms" where
  "sample_terms i a =
     \<lparr>tm_claimant = 7, tm_claimant_generation = 1, tm_binding_kind = BkResources, tm_resources = [''link''],
      tm_path = [], tm_required_path_generation = 0, tm_interval = i, tm_amount = a, tm_minimum_amount = None,
      tm_maximum_amount = None, tm_guarantee = GcProtected, tm_priority = 0, tm_preemptible = False,
      tm_recall_permitted = True, tm_grace = 0, tm_headroom_requirement = 0, tm_policy = ''p'',
      tm_policy_labels = [], tm_recurrence = \<lparr>rs_enabled = False, rs_period = 0, rs_count = 1\<rparr>\<rparr>"

definition sample_provenance :: provenance where
  "sample_provenance = \<lparr>pv_actor = ''a'', pv_publisher = 1, pv_publisher_boot = 2, pv_session = 3, pv_attempt = 4,
     pv_fabric_epoch = 1, pv_coordinator_boot = 5, pv_recorded_at = 0, pv_sequence = 0, pv_reason = []\<rparr>"

definition sample_record :: "interval \<Rightarrow> bandwidth \<Rightarrow> reservation_record" where
  "sample_record i a =
     \<lparr>rv_id = 1, rv_generation = 1, rv_series_member = False, rv_series = 0, rv_series_index = 0,
      rv_terms = sample_terms i a, rv_authority = sample_authority, rv_state = RsCommitted,
      rv_applicability = ApCurrent, rv_applicability_reason = ArCurrent, rv_declared_at = 0,
      rv_committed_at = 0, rv_activated_at = 0, rv_state_changed_at = 0, rv_recall_effective_at = 0,
      rv_recall_grace = 0, rv_terminated_at = 0, rv_predecessor = 0, rv_predecessor_generation = 0,
      rv_state_reason = [], rv_last_provenance = sample_provenance, rv_sequence = 0\<rparr>"

theorem consuming_interval_witness:
  "contains_ts (consuming_interval ((sample_record (mk_iv 10 100) 5)\<lparr>rv_recall_effective_at := 40, rv_recall_grace := 10\<rparr>)) 45 \<and>
   \<not> contains_ts (consuming_interval ((sample_record (mk_iv 10 100) 5)\<lparr>rv_recall_effective_at := 40, rv_recall_grace := 10\<rparr>)) 50"
  using consuming_interval_spec [of "(sample_record (mk_iv 10 100) 5)\<lparr>rv_recall_effective_at := 40, rv_recall_grace := 10\<rparr>" 45]
    consuming_interval_spec [of "(sample_record (mk_iv 10 100) 5)\<lparr>rv_recall_effective_at := 40, rv_recall_grace := 10\<rparr>" 50]
  by (simp add: sample_record_def sample_terms_def interval_ok_def mk_iv_def contains_ts_def time_consts)

subsection \<open>Series\<close>

lemma expand_members_Inr:
  "expand_members first period i n = Inr ms \<Longrightarrow>
   ms = map (\<lambda>k. mk_iv (iv_start first + (i + int k) * period)
                       (iv_start first + (i + int k) * period + (iv_end first - iv_start first))) [0..<n] \<and>
   list_all interval_ok ms"
proof (induction n arbitrary: i ms)
  case (Suc n)
  then obtain ms' where ms': "expand_members first period (i + 1) n = Inr ms'"
    and ms: "ms = mk_iv (iv_start first + i * period) (iv_start first + i * period + (iv_end first - iv_start first)) # ms'"
    and ok: "interval_ok (mk_iv (iv_start first + i * period) (iv_start first + i * period + (iv_end first - iv_start first)))"
    by (auto simp: Let_def bindE_Inr_iff split: if_splits)
  have up: "[0..<Suc n] = 0 # map Suc [0..<n]" by (simp add: upt_conv_Cons map_Suc_upt)
  show ?case unfolding up using Suc.IH [OF ms'] ms ok by (auto simp: comp_def add.assoc)
qed simp

lemma expand_members_ok:
  "(\<And>k. k < n \<Longrightarrow> interval_ok (mk_iv (iv_start first + (i + int k) * period)
       (iv_start first + (i + int k) * period + (iv_end first - iv_start first)))) \<Longrightarrow>
   is_ok (expand_members first period i n)"
proof (induction n arbitrary: i)
  case (Suc n)
  have "is_ok (expand_members first period (i + 1) n)"
    by (rule Suc.IH) (use Suc.prems [of "Suc _"] in \<open>simp add: add.assoc\<close>)
  moreover have "interval_ok (mk_iv (iv_start first + i * period)
      (iv_start first + i * period + (iv_end first - iv_start first)))"
    using Suc.prems [of 0] by simp
  ultimately show ?case
    by (auto simp: Let_def is_ok_iff interval_ok_def mk_iv_def validate_interval_def)
qed simp

lemma member_interval_ok:
  assumes "interval_ok first" "0 \<le> off" "off + iv_end first \<le> kMaxTimestampNs"
  shows "interval_ok (mk_iv (iv_start first + off) (iv_start first + off + (iv_end first - iv_start first)))"
  using assms by (simp add: interval_ok_def mk_iv_def)

lemma u32_count: "(c :: u32) > 1 \<longleftrightarrow> unat c > 1" "(c :: u32) = 0 \<longleftrightarrow> unat c = 0"
  by (simp_all add: word_less_nat_alt unat_eq_zero)

lemma expand_series_run:
  assumes "rs_enabled spec" and "interval_ok first"
  shows "expand_series first spec max_members = Inr ms \<longleftrightarrow>
    rs_count spec \<noteq> 0 \<and> \<not> rs_count spec > max_members \<and>
    (rs_count spec > 1 \<longrightarrow> 0 < rs_period spec \<and> iv_end first - iv_start first \<le> rs_period spec) \<and>
    (0 < rs_period spec \<longrightarrow> uint (rs_count spec) - 1 \<le> (kMaxTimestampNs - iv_start first) div rs_period spec) \<and>
    expand_members first (rs_period spec) 0 (unat (rs_count spec)) = Inr ms"
proof -
  have "validate_interval first = Inr ()" using assms(2) by simp
  then show ?thesis
    using assms(1) by (auto simp: expand_series_def Let_def simp del: validate_interval_ok split: if_splits)
qed

text \<open>The members fit the timeline when the last one does.\<close>

lemma member_offsets:
  assumes "interval_ok first" and "k < n"
    and "n > 1 \<longrightarrow> 0 < p \<and> (int n - 1) * p + iv_end first \<le> kMaxTimestampNs"
  shows "0 \<le> int k * p \<and> int k * p + iv_end first \<le> kMaxTimestampNs"
proof (cases "n = 1")
  case True
  with assms show ?thesis by (simp add: interval_ok_def)
next
  case False
  with assms have p: "0 < p" and l: "(int n - 1) * p + iv_end first \<le> kMaxTimestampNs" by auto
  from assms(2) have "int k \<le> int n - 1" by simp
  then have "int k * p \<le> (int n - 1) * p" using p by (intro mult_right_mono) auto
  moreover have "0 \<le> int k * p" using p by simp
  ultimately show ?thesis using l by linarith
qed

lemma expand_series_fits:
  assumes en: "rs_enabled spec" and ok: "interval_ok first" and c0: "rs_count spec \<noteq> 0"
  defines "n \<equiv> unat (rs_count spec)"
  shows "is_ok (expand_series first spec max_members) \<longleftrightarrow>
      \<not> rs_count spec > max_members \<and>
      (n > 1 \<longrightarrow> 0 < rs_period spec \<and> iv_end first - iv_start first \<le> rs_period spec \<and>
         (int n - 1) * rs_period spec + iv_end first \<le> kMaxTimestampNs)" (is "?ok \<longleftrightarrow> ?fits")
proof
  have n0: "0 < n" using c0 by (simp add: n_def u32_count)
  let ?last = "(int n - 1) * rs_period spec"
  assume ?ok
  then obtain ms where "expand_series first spec max_members = Inr ms" by (auto simp: is_ok_iff)
  note run = this [unfolded expand_series_run [OF en ok], folded n_def]
  then have "list_all interval_ok (map (\<lambda>k. mk_iv (iv_start first + int k * rs_period spec)
      (iv_start first + int k * rs_period spec + (iv_end first - iv_start first))) [0..<n])"
    using expand_members_Inr [of first "rs_period spec" 0 n ms] by auto
  then have "interval_ok (mk_iv (iv_start first + int k * rs_period spec)
      (iv_start first + int k * rs_period spec + (iv_end first - iv_start first)))" if "k < n" for k
    using that by (simp add: list_all_iff)
  from this [of "n - 1"] n0 have "?last + iv_end first \<le> kMaxTimestampNs" by (simp add: interval_ok_def mk_iv_def of_nat_diff)
  with run show ?fits by (simp add: u32_count n_def)
next
  have n0: "0 < n" using c0 by (simp add: n_def u32_count)
  assume fits: ?fits
  have off: "0 \<le> int k * rs_period spec \<and> int k * rs_period spec + iv_end first \<le> kMaxTimestampNs" if "k < n" for k
    using member_offsets [OF ok that] fits by simp
  have "is_ok (expand_members first (rs_period spec) 0 n)"
    by (rule expand_members_ok) (use member_interval_ok [OF ok] off in simp)
  moreover have "uint (rs_count spec) - 1 \<le> (kMaxTimestampNs - iv_start first) div rs_period spec" if "0 < rs_period spec"
  proof -
    have "(uint (rs_count spec) - 1) * rs_period spec \<le> kMaxTimestampNs - iv_start first"
      using off [of "n - 1"] n0 ok by (simp add: of_nat_diff interval_ok_def n_def)
    from zdiv_mono1 [OF this that] that show ?thesis by simp
  qed
  ultimately show ?ok
    using fits c0 by (auto simp: is_ok_iff expand_series_run [OF en ok] u32_count n_def)
qed

lemma series_disjoint:
  assumes "j < (k :: nat)" and "0 < p" and "iv_end first - iv_start first \<le> p"
  shows "iv_start first + int j * p + (iv_end first - iv_start first) \<le> iv_start first + int k * p"
proof -
  have "(int j + 1) * p \<le> int k * p" using assms by (intro mult_right_mono) auto
  then have "int j * p + p \<le> int k * p" by (simp add: algebra_simps)
  with assms show ?thesis by simp
qed

lemma expand_series_members:
  assumes ok: "interval_ok first" and run: "expand_series first spec max_members = Inr ms"
  shows "length ms = (if rs_enabled spec then unat (rs_count spec) else 1) \<and> 0 < length ms \<and> list_all interval_ok ms \<and>
    (\<forall>k < length ms. iv_start (ms ! k) = iv_start first + int k * rs_period spec \<and>
       iv_end (ms ! k) = iv_start (ms ! k) + (iv_end first - iv_start first)) \<and>
    (\<forall>j k. j < k \<and> k < length ms \<longrightarrow> \<not> overlaps (ms ! j) (ms ! k))"
proof (cases "rs_enabled spec")
  case False
  with run ok show ?thesis by (auto simp: expand_series_def)
next
  case True
  note run = run [unfolded expand_series_run [OF True ok]]
  define n where "n = unat (rs_count spec)"
  have ms: "ms = map (\<lambda>k. mk_iv (iv_start first + int k * rs_period spec)
      (iv_start first + int k * rs_period spec + (iv_end first - iv_start first))) [0..<n]" "list_all interval_ok ms"
    using expand_members_Inr [of first "rs_period spec" 0 n ms] run by (auto simp: n_def)
  have "\<not> overlaps (ms ! j) (ms ! k)" if "j < k" "k < n" for j k
  proof -
    from that have "1 < n" by simp
    with run have "0 < rs_period spec \<and> iv_end first - iv_start first \<le> rs_period spec"
      by (simp add: u32_count n_def)
    with series_disjoint [of j k "rs_period spec" first] that ms(1) show ?thesis
      by (simp add: overlaps_def mk_iv_def)
  qed
  then show ?thesis using ms run True by (simp add: mk_iv_def n_def u32_count)
qed

text \<open>C22: a series expands exactly when its members fit: then it has the requested number of members,
  member \<open>k\<close> starts \<open>k\<close> periods after the first and lasts as long, every member is a valid interval and
  no two of them overlap.\<close>

theorem expand_series_spec:
  assumes en: "rs_enabled spec" and c0: "rs_count spec \<noteq> 0" and ok: "interval_ok first"
  shows "(is_ok (expand_series first spec max_members) \<longleftrightarrow>
      \<not> rs_count spec > max_members \<and>
      (unat (rs_count spec) > 1 \<longrightarrow> 0 < rs_period spec \<and> iv_end first - iv_start first \<le> rs_period spec \<and>
         (int (unat (rs_count spec)) - 1) * rs_period spec + iv_end first \<le> kMaxTimestampNs)) \<and>
    (\<forall>ms. expand_series first spec max_members = Inr ms \<longrightarrow>
      length ms = unat (rs_count spec) \<and> list_all interval_ok ms \<and>
      (\<forall>k < length ms. iv_start (ms ! k) = iv_start first + int k * rs_period spec \<and>
         iv_end (ms ! k) = iv_start (ms ! k) + (iv_end first - iv_start first)) \<and>
      (\<forall>j k. j < k \<and> k < length ms \<longrightarrow> \<not> overlaps (ms ! j) (ms ! k)))"
  using expand_series_fits [OF en ok c0, of max_members] expand_series_members [OF ok, of spec max_members] en by simp

theorem expand_series_witness:
  "is_ok (expand_series (mk_iv 100 200) \<lparr>rs_enabled = True, rs_period = 150, rs_count = 3\<rparr> 64)"
  using expand_series_spec [of "\<lparr>rs_enabled = True, rs_period = 150, rs_count = 3\<rparr>" "mk_iv 100 200" 64]
  by (simp add: interval_ok_def mk_iv_def time_consts)

end
