(* ===== verification/Brf_Capacity.thy ===== *)
theory Brf_Capacity
  imports Brf_Authority Brf_Registry
begin

text \<open>
  Capacity statements, the capacity ledger and the path authority table of
  \<^verbatim>\<open>include/brf/capacity.hpp\<close> and \<^verbatim>\<open>src/capacity.cpp\<close>. Both tables keep the contract of
  \<open>generation_registry\<close>.
\<close>

definition kMaxMaintenanceWindowsPerResource :: nat where "kMaxMaintenanceWindowsPerResource = 64"
definition kMaxPathComponents :: nat where "kMaxPathComponents = 64"
definition kMaxResourcesPerSnapshot :: nat where "kMaxResourcesPerSnapshot = 4096"

record maintenance_window =
  mw_interval :: interval
  mw_reason :: string

record resource_capacity =
  rc_resource :: name
  rc_generation :: counter
  rc_reservable_capacity :: bandwidth
  rc_protected_headroom :: bandwidth
  rc_failure_domain :: name
  rc_failure_domain_generation :: counter
  rc_maintenance :: "maintenance_window list"

definition committable_ceiling :: "resource_capacity \<Rightarrow> bandwidth" where
  "committable_ceiling c =
     (if rc_reservable_capacity c \<le> rc_protected_headroom c then 0
      else rc_reservable_capacity c - rc_protected_headroom c)"

record capacity_snapshot =
  cs_id :: identity
  cs_generation :: counter
  cs_fabric_epoch :: counter
  cs_ingested_at :: timestamp
  cs_complete :: bool
  cs_resources :: "resource_capacity list"

record path_authority =
  pa_path :: name
  pa_generation :: counter
  pa_components :: "name list"
  pa_issued_at :: timestamp
  pa_retired :: bool

record path_authority_snapshot =
  ps_id :: identity
  ps_generation :: counter
  ps_fabric_epoch :: counter
  ps_ingested_at :: timestamp
  ps_complete :: bool
  ps_paths :: "path_authority list"

text \<open>\<^verbatim>\<open>operator==\<close> of path statements leaves \<^verbatim>\<open>issued_at\<close> out, that of the snapshots
  leaves \<^verbatim>\<open>ingested_at\<close> out.\<close>

definition path_same :: "path_authority \<Rightarrow> path_authority \<Rightarrow> bool" where
  "path_same a b \<longleftrightarrow> pa_path a = pa_path b \<and> pa_generation a = pa_generation b \<and>
     pa_components a = pa_components b \<and> pa_retired a = pa_retired b"

definition capacity_snapshot_same :: "capacity_snapshot \<Rightarrow> capacity_snapshot \<Rightarrow> bool" where
  "capacity_snapshot_same a b \<longleftrightarrow> cs_id a = cs_id b \<and> cs_generation a = cs_generation b \<and>
     cs_fabric_epoch a = cs_fabric_epoch b \<and> cs_complete a = cs_complete b \<and> cs_resources a = cs_resources b"

definition path_snapshot_same :: "path_authority_snapshot \<Rightarrow> path_authority_snapshot \<Rightarrow> bool" where
  "path_snapshot_same a b \<longleftrightarrow> ps_id a = ps_id b \<and> ps_generation a = ps_generation b \<and>
     ps_fabric_epoch a = ps_fabric_epoch b \<and> ps_complete a = ps_complete b \<and>
     list_all2 path_same (ps_paths a) (ps_paths b)"

subsection \<open>Capacity ledger\<close>

record ledger_entry =
  le_capacity :: resource_capacity
  le_snapshot :: identity
  le_ingested_at :: timestamp
  le_withdrawn :: bool
  le_withdrawn_at :: timestamp
  le_prior_generations :: "counter list"

type_synonym ledger = "(name, ledger_entry) omap"

fun validate_windows :: "maintenance_window list \<Rightarrow> status" where
  "validate_windows [] = Inr ()"
| "validate_windows (w # ws) = bindE (validate_interval (mw_interval w)) (\<lambda>_. validate_windows ws)"

definition validate_capacity :: "resource_capacity \<Rightarrow> status" where
  "validate_capacity c =
     (if rc_resource c = [] then Inl EInvalidName
      else if rc_reservable_capacity c \<le> 0 then Inl EInvalidBandwidth
      else if rc_reservable_capacity c > kMaxBandwidthBps then Inl EInvalidBandwidth
      else if rc_protected_headroom c < 0 \<or> rc_protected_headroom c > kMaxBandwidthBps then Inl EInvalidBandwidth
      else if length (rc_maintenance c) > kMaxMaintenanceWindowsPerResource then Inl EResourceExhausted
      else validate_windows (rc_maintenance c))"

definition ledger_apply ::
  "identity \<Rightarrow> timestamp \<Rightarrow> resource_capacity \<Rightarrow> (ledger, error_code, bool) op" where
  "ledger_apply snapshot now c m =
     (case validate_capacity c of
        Inl e \<Rightarrow> (Inl e, m)
      | Inr _ \<Rightarrow>
        (case om_find m (rc_resource c) of
           None \<Rightarrow>
             (Inr True, om_put (rc_resource c)
                \<lparr>le_capacity = c, le_snapshot = snapshot, le_ingested_at = now, le_withdrawn = False,
                 le_withdrawn_at = 0, le_prior_generations = []\<rparr> m)
         | Some e \<Rightarrow>
             if rc_generation c = rc_generation (le_capacity e)
             then if c \<noteq> le_capacity e then (Inl EConflict, m)
                  else if le_withdrawn e
                  then (Inr True, om_put (rc_resource c)
                          (e\<lparr>le_withdrawn := False, le_snapshot := snapshot, le_ingested_at := now\<rparr>) m)
                  else (Inr False, m)
             else if rc_generation c < rc_generation (le_capacity e) then (Inl EStaleGeneration, m)
             else
               (Inr True, om_put (rc_resource c)
                  \<lparr>le_capacity = c, le_snapshot = snapshot, le_ingested_at = now, le_withdrawn = False,
                   le_withdrawn_at = 0,
                   le_prior_generations = le_prior_generations e @ [rc_generation (le_capacity e)]\<rparr> m)))"

definition ledger_withdraw :: "name \<Rightarrow> timestamp \<Rightarrow> (ledger, error_code, unit) op" where
  "ledger_withdraw r now m =
     (case om_find m r of
        None \<Rightarrow> (Inl ENotFound, m)
      | Some e \<Rightarrow>
          if le_withdrawn e then (Inr (), m)
          else (Inr (), om_put r (e\<lparr>le_withdrawn := True, le_withdrawn_at := now\<rparr>) m))"

definition ledger_inject :: "ledger_entry \<Rightarrow> ledger \<Rightarrow> ledger" where
  "ledger_inject e m = om_put (rc_resource (le_capacity e)) e m"

definition ledger_find :: "ledger \<Rightarrow> name \<Rightarrow> ledger_entry option" where
  "ledger_find m r = om_find m r"

definition ledger_is_current :: "ledger \<Rightarrow> resource_ref \<Rightarrow> bool" where
  "ledger_is_current m ref =
     (case ledger_find m (rr_resource ref) of
        None \<Rightarrow> False
      | Some e \<Rightarrow> \<not> le_withdrawn e \<and> rc_generation (le_capacity e) = rr_generation ref)"

definition is_current_failure_domain :: "ledger \<Rightarrow> failure_domain_ref \<Rightarrow> bool" where
  "is_current_failure_domain m ref =
     (case find (\<lambda>(_, e). \<not> le_withdrawn e \<and> rc_failure_domain (le_capacity e) = fr_domain ref) m of
        None \<Rightarrow> False
      | Some (_, e) \<Rightarrow> rc_failure_domain_generation (le_capacity e) = fr_generation ref)"

definition resource_names :: "ledger \<Rightarrow> name list" where
  "resource_names m = map fst m"

definition maintenance_covers :: "resource_capacity \<Rightarrow> interval \<Rightarrow> interval option" where
  "maintenance_covers c i = map_option mw_interval (find (\<lambda>w. overlaps (mw_interval w) i) (rc_maintenance c))"

subsection \<open>Path authority table\<close>

record path_entry =
  pt_path :: path_authority
  pt_snapshot :: identity
  pt_ingested_at :: timestamp
  pt_retired :: bool
  pt_prior_generations :: "counter list"

type_synonym path_table = "(name, path_entry) omap"

definition validate_path :: "path_authority \<Rightarrow> status" where
  "validate_path p =
     (if pa_path p = [] then Inl EInvalidName
      else if pa_components p = [] then Inl EInvalidArgument
      else if length (pa_components p) > kMaxPathComponents then Inl EResourceExhausted
      else if has_adjacent_dup (sort_by (<) (pa_components p)) then Inl EConflict
      else Inr ())"

definition path_apply :: "identity \<Rightarrow> timestamp \<Rightarrow> path_authority \<Rightarrow> (path_table, error_code, bool) op" where
  "path_apply snapshot now p m =
     (case validate_path p of
        Inl e \<Rightarrow> (Inl e, m)
      | Inr _ \<Rightarrow>
        (case om_find m (pa_path p) of
           None \<Rightarrow>
             (Inr True, om_put (pa_path p)
                \<lparr>pt_path = p, pt_snapshot = snapshot, pt_ingested_at = now, pt_retired = pa_retired p,
                 pt_prior_generations = []\<rparr> m)
         | Some e \<Rightarrow>
             if pa_generation p = pa_generation (pt_path e)
             then if \<not> path_same p (pt_path e) then (Inl EConflict, m)
                  else if pt_retired e \<noteq> pa_retired p
                  then (Inr True, om_put (pa_path p) (e\<lparr>pt_retired := pa_retired p\<rparr>) m)
                  else (Inr False, m)
             else if pa_generation p < pa_generation (pt_path e) then (Inl EStaleGeneration, m)
             else
               (Inr True, om_put (pa_path p)
                  \<lparr>pt_path = p, pt_snapshot = snapshot, pt_ingested_at = now, pt_retired = pa_retired p,
                   pt_prior_generations = pt_prior_generations e @ [pa_generation (pt_path e)]\<rparr> m)))"

definition path_retire :: "name \<Rightarrow> timestamp \<Rightarrow> (path_table, error_code, unit) op" where
  "path_retire p now m =
     (case om_find m p of
        None \<Rightarrow> (Inl ENotFound, m)
      | Some e \<Rightarrow>
          if pt_retired e then (Inr (), m)
          else (Inr (), om_put p (e\<lparr>pt_retired := True, pt_ingested_at := now\<rparr>) m))"

definition path_inject :: "path_entry \<Rightarrow> path_table \<Rightarrow> path_table" where
  "path_inject e m = om_put (pa_path (pt_path e)) e m"

definition path_find :: "path_table \<Rightarrow> name \<Rightarrow> path_entry option" where
  "path_find m p = om_find m p"

definition path_is_current :: "path_table \<Rightarrow> name \<Rightarrow> counter \<Rightarrow> bool" where
  "path_is_current m p g =
     (case path_find m p of
        None \<Rightarrow> False
      | Some e \<Rightarrow> \<not> pt_retired e \<and> pa_generation (pt_path e) = g)"

definition path_names :: "path_table \<Rightarrow> name list" where
  "path_names m = map fst m"

subsection \<open>Both tables keep the registry contract\<close>

lemma status_not_ok: "(s :: status) \<noteq> Inr () \<Longrightarrow> \<exists>e. s = Inl e"
  by (cases s) auto

interpretation cap: generation_registry "\<lambda>(snapshot, now). ledger_apply snapshot now" rc_resource rc_generation
  "\<lambda>c. validate_capacity c = Inr ()" "(=)" le_capacity le_prior_generations
proof unfold_locales
  show "\<exists>e. (case x of (snapshot, now) \<Rightarrow> ledger_apply snapshot now) r m = (Inl e, m)"
    if "validate_capacity r \<noteq> Inr ()" for r x m
    using status_not_ok [OF that] by (auto simp: ledger_apply_def split: prod.splits)
qed (auto simp: ledger_apply_def split: prod.splits)

interpretation pth: generation_registry "\<lambda>(snapshot, now). path_apply snapshot now" pa_path pa_generation
  "\<lambda>p. validate_path p = Inr ()" path_same pt_path pt_prior_generations
proof unfold_locales
  show "\<exists>e. (case x of (snapshot, now) \<Rightarrow> path_apply snapshot now) r m = (Inl e, m)"
    if "validate_path r \<noteq> Inr ()" for r x m
    using status_not_ok [OF that] by (auto simp: path_apply_def split: prod.splits)
qed (auto simp: path_apply_def split: prod.splits)

lemma validate_windows_ok: "validate_windows ws = Inr () \<longleftrightarrow> (\<forall>w \<in> set ws. interval_ok (mw_interval w))"
proof (induction ws)
  case (Cons w ws)
  then show ?case by (auto simp: bindE_Inr_iff)
qed simp

lemma validate_capacity_ok:
  "validate_capacity c = Inr () \<longleftrightarrow>
     rc_resource c \<noteq> [] \<and> 0 < rc_reservable_capacity c \<and> rc_reservable_capacity c \<le> kMaxBandwidthBps \<and>
     bandwidth_ok (rc_protected_headroom c) \<and> length (rc_maintenance c) \<le> kMaxMaintenanceWindowsPerResource \<and>
     (\<forall>w \<in> set (rc_maintenance c). interval_ok (mw_interval w))"
  by (auto simp: validate_capacity_def validate_windows_ok bandwidth_ok_def)

lemma validate_path_ok:
  "validate_path p = Inr () \<longleftrightarrow>
     pa_path p \<noteq> [] \<and> pa_components p \<noteq> [] \<and> length (pa_components p) \<le> kMaxPathComponents \<and>
     distinct (pa_components p)"
  by (auto simp: validate_path_def adjacent_dup_sort)

lemma maintenance_covers_None:
  "maintenance_covers c i = None \<longleftrightarrow> (\<forall>w \<in> set (rc_maintenance c). \<not> overlaps (mw_interval w) i)"
  by (auto simp: maintenance_covers_def find_None_iff)

subsection \<open>The ledger over time\<close>

text \<open>The operations that change a live ledger.\<close>

datatype ledger_event = LApply identity timestamp resource_capacity | LWithdraw name timestamp

fun ledger_step :: "ledger_event \<Rightarrow> ledger \<Rightarrow> ledger" where
  "ledger_step (LApply snapshot now c) m = snd (ledger_apply snapshot now c m)"
| "ledger_step (LWithdraw r now) m = snd (ledger_withdraw r now m)"

definition ledger_run :: "ledger_event list \<Rightarrow> ledger \<Rightarrow> ledger" where
  "ledger_run evs m = fold ledger_step evs m"

lemma withdraw_continues:
  assumes "om_find m k = Some e"
  shows "\<exists>e'. om_find (snd (ledger_withdraw r now m)) k = Some e' \<and> cap.continues e e'"
  using assms by (auto simp: ledger_withdraw_def cap.continues_def split: option.splits)

lemma withdraw_table_ok: "cap.table_ok m \<Longrightarrow> cap.table_ok (snd (ledger_withdraw r now m))"
proof (cases "om_find m r")
  case (Some e)
  assume ok: "cap.table_ok m"
  then have "rc_resource (le_capacity e) = r \<and> validate_capacity (le_capacity e) = Inr () \<and>
      sorted_wrt (<) (cap.history e)"
    using om_find_Some_in [OF Some] by (fastforce simp: cap.table_ok_def)
  with ok Some show ?thesis by (simp add: ledger_withdraw_def cap.ok_put cap.history_def)
qed (simp add: ledger_withdraw_def)

lemma step_table_ok: "cap.table_ok m \<Longrightarrow> cap.table_ok (ledger_step ev m)"
  using cap.table_ok_apply [of m "(_, _)"] by (cases ev) (simp_all add: withdraw_table_ok)

lemma step_continues:
  "om_find m k = Some e \<Longrightarrow> \<exists>e'. om_find (ledger_step ev m) k = Some e' \<and> cap.continues e e'"
  using cap.continues_apply [of m k e "(_, _)"] by (cases ev) (simp_all add: withdraw_continues)

lemma ledger_run_ok: "cap.table_ok m \<Longrightarrow> cap.table_ok (ledger_run evs m)"
  by (induction evs arbitrary: m) (simp_all add: ledger_run_def step_table_ok)

lemma ledger_run_continues:
  "om_find m k = Some e \<Longrightarrow> \<exists>e'. om_find (ledger_run evs m) k = Some e' \<and> cap.continues e e'"
proof (induction evs arbitrary: m e)
  case (Cons ev evs)
  then obtain e1 where "om_find (ledger_step ev m) k = Some e1" "cap.continues e e1"
    using step_continues by blast
  then show ?case using Cons.IH cap.continues_trans by (fastforce simp: ledger_run_def)
qed (simp add: ledger_run_def cap.continues_refl)

lemma ledger_run_append: "ledger_run (evs @ evs') m = ledger_run evs' (ledger_run evs m)"
  by (simp add: ledger_run_def)

lemma table_ok_Nil: "cap.table_ok []"
  by (simp add: cap.table_ok_def)

lemma ledger_entry_ok:
  "om_find (ledger_run evs []) r = Some e \<Longrightarrow>
   rc_resource (le_capacity e) = r \<and> validate_capacity (le_capacity e) = Inr () \<and>
   sorted_wrt (<) (le_prior_generations e @ [rc_generation (le_capacity e)])"
  using ledger_run_ok [OF table_ok_Nil, of evs] om_find_Some_in [of "ledger_run evs []" r e]
  by (fastforce simp: cap.table_ok_def cap.history_def)

text \<open>C12: whatever statements and withdrawals the ledger is offered, a resource once known stays
  known, its generation never falls, one generation always names the same capacity statement, and the
  generations left behind are remembered in ascending order.\<close>

theorem ledger_history:
  assumes "om_find (ledger_run evs []) r = Some e"
  shows "\<exists>e'. om_find (ledger_run (evs @ evs') []) r = Some e' \<and>
    rc_generation (le_capacity e) \<le> rc_generation (le_capacity e') \<and>
    (rc_generation (le_capacity e') = rc_generation (le_capacity e) \<longrightarrow> le_capacity e' = le_capacity e) \<and>
    (rc_generation (le_capacity e') \<noteq> rc_generation (le_capacity e) \<longrightarrow>
       rc_generation (le_capacity e) \<in> set (le_prior_generations e')) \<and>
    sorted_wrt (<) (le_prior_generations e' @ [rc_generation (le_capacity e')])"
proof -
  obtain e' where e': "om_find (ledger_run (evs @ evs') []) r = Some e'" "cap.continues e e'"
    using ledger_run_continues [OF assms, of evs'] by (auto simp: ledger_run_append)
  moreover from ledger_entry_ok [OF e'(1)]
  have "sorted_wrt (<) (le_prior_generations e' @ [rc_generation (le_capacity e')])" by blast
  ultimately show ?thesis
    by (auto simp: cap.continues_def cap.history_def sorted_wrt_append)
qed

definition sample_capacity :: "counter \<Rightarrow> bandwidth \<Rightarrow> resource_capacity" where
  "sample_capacity g bw = \<lparr>rc_resource = ''link'', rc_generation = g, rc_reservable_capacity = bw,
     rc_protected_headroom = 0, rc_failure_domain = [], rc_failure_domain_generation = 0, rc_maintenance = []\<rparr>"

lemmas capacity_eval = ledger_run_def ledger_apply_def ledger_withdraw_def validate_capacity_def om_find_def
  sample_capacity_def kMaxBandwidthBps_def kMaxMaintenanceWindowsPerResource_def

theorem ledger_history_witness:
  "\<exists>e'. om_find (ledger_run ([LApply 1 5 (sample_capacity 1 10)] @
        [LApply 2 6 (sample_capacity 2 20), LWithdraw ''link'' 7, LApply 3 8 (sample_capacity 1 10)]) []) ''link'' = Some e' \<and>
     1 \<le> rc_generation (le_capacity e')"
proof -
  let ?e = "\<lparr>le_capacity = sample_capacity 1 10, le_snapshot = 1, le_ingested_at = 5, le_withdrawn = False,
    le_withdrawn_at = 0, le_prior_generations = []\<rparr>"
  have "om_find (ledger_run [LApply 1 5 (sample_capacity 1 10)] []) ''link'' = Some ?e"
    by (simp add: capacity_eval)
  from ledger_history [OF this, of "[LApply 2 6 (sample_capacity 2 20), LWithdraw ''link'' 7,
      LApply 3 8 (sample_capacity 1 10)]"]
  show ?thesis by (auto simp: sample_capacity_def)
qed

text \<open>The path authority table under any sequence of statements: the generation of a path never
  falls, one generation always names the same components, and no path is ever forgotten.\<close>

theorem path_history:
  assumes "om_find (foldl (\<lambda>m ((snapshot, now), p). snd (path_apply snapshot now p m)) [] ps) k = Some e"
  shows "\<exists>e'. om_find (foldl (\<lambda>m ((snapshot, now), p). snd (path_apply snapshot now p m)) [] (ps @ ps')) k = Some e' \<and>
    pa_generation (pt_path e) \<le> pa_generation (pt_path e') \<and>
    (pa_generation (pt_path e') = pa_generation (pt_path e) \<longrightarrow> pt_path e' = pt_path e) \<and>
    (pa_generation (pt_path e') \<noteq> pa_generation (pt_path e) \<longrightarrow>
       pa_generation (pt_path e) \<in> set (pt_prior_generations e'))"
proof -
  have run: "pth.run ps m = foldl (\<lambda>m ((snapshot, now), p). snd (path_apply snapshot now p m)) m ps" for ps m
    unfolding pth.run_def by (simp add: split_def)
  have "pth.table_ok []" by (simp add: pth.table_ok_def)
  then have "pth.table_ok (pth.run ps [])" by (rule pth.run_ok)
  from pth.run_history [OF this assms [folded run], of ps'] show ?thesis
    by (simp add: run)
qed

definition sample_path :: "counter \<Rightarrow> path_authority" where
  "sample_path g = \<lparr>pa_path = ''p'', pa_generation = g, pa_components = [''a'', ''b''], pa_issued_at = 0,
     pa_retired = False\<rparr>"

theorem path_history_witness:
  "\<exists>e'. om_find (foldl (\<lambda>m ((snapshot, now), p). snd (path_apply snapshot now p m)) []
       ([((1, 5), sample_path 1)] @ [((2, 6), sample_path 2)])) ''p'' = Some e' \<and>
     1 \<le> pa_generation (pt_path e')"
proof -
  let ?e = "\<lparr>pt_path = sample_path 1, pt_snapshot = 1, pt_ingested_at = 5, pt_retired = False,
    pt_prior_generations = []\<rparr>"
  have "validate_path (sample_path 1) = Inr ()"
    by (simp add: validate_path_ok sample_path_def kMaxPathComponents_def)
  then have "om_find (foldl (\<lambda>m ((snapshot, now), p). snd (path_apply snapshot now p m)) []
      [((1, 5), sample_path 1)]) ''p'' = Some ?e"
    by (simp add: path_apply_def) (simp add: om_find_def sample_path_def)
  from path_history [OF this, of "[((2, 6), sample_path 2)]"]
  show ?thesis by (auto simp: sample_path_def)
qed

end
