(* ===== verification/Brf_Outcome.thy ===== *)
theory Brf_Outcome
  imports Brf_Reservation Brf_Capacity
begin

text \<open>
  Admission outcomes and the bounded reports of \<^verbatim>\<open>include/brf/outcome.hpp\<close> and
  \<^verbatim>\<open>src/outcome.cpp\<close>. The explanation text of a report is left out: it is built for people and no
  code reads it.
\<close>

datatype admission_outcome =
    AoCommittable | AoInsufficientCapacity | AoPolicyRejected | AoStaleResource | AoStalePathAuthority
  | AoConflictingReservation | AoInvalidInterval | AoClaimantFenced | AoUnsupported | AoEmergencyOvercommit
  | AoIdempotentReplay | AoStaleEpoch | AoInvalidRequest | AoGenerationMismatch | AoResourceExhausted | AoConflict

definition kOutcomes :: "(string \<times> admission_outcome) list" where
  "kOutcomes =
     [(''COMMITTABLE'', AoCommittable), (''INSUFFICIENT_CAPACITY'', AoInsufficientCapacity),
      (''POLICY_REJECTED'', AoPolicyRejected), (''STALE_RESOURCE'', AoStaleResource),
      (''STALE_PATH_AUTHORITY'', AoStalePathAuthority), (''CONFLICTING_RESERVATION'', AoConflictingReservation),
      (''INVALID_INTERVAL'', AoInvalidInterval), (''CLAIMANT_FENCED'', AoClaimantFenced),
      (''UNSUPPORTED'', AoUnsupported), (''EMERGENCY_OVERCOMMIT'', AoEmergencyOvercommit),
      (''IDEMPOTENT_REPLAY'', AoIdempotentReplay), (''STALE_EPOCH'', AoStaleEpoch),
      (''INVALID_REQUEST'', AoInvalidRequest), (''GENERATION_MISMATCH'', AoGenerationMismatch),
      (''RESOURCE_EXHAUSTED'', AoResourceExhausted), (''CONFLICT'', AoConflict)]"

definition outcome_to_string :: "admission_outcome \<Rightarrow> string" where
  "outcome_to_string o' =
     (case find (\<lambda>entry. snd entry = o') kOutcomes of Some entry \<Rightarrow> fst entry | None \<Rightarrow> ''UNKNOWN'')"

definition parse_admission_outcome :: "string \<Rightarrow> admission_outcome result" where
  "parse_admission_outcome t =
     (case find (\<lambda>entry. fst entry = t) kOutcomes of Some entry \<Rightarrow> Inr (snd entry) | None \<Rightarrow> Inl EInvalidArgument)"

fun outcome_to_error_code :: "admission_outcome \<Rightarrow> error_code" where
  "outcome_to_error_code AoCommittable = EOk"
| "outcome_to_error_code AoInsufficientCapacity = EInsufficientCapacity"
| "outcome_to_error_code AoPolicyRejected = EPolicyRejected"
| "outcome_to_error_code AoStaleResource = EStaleGeneration"
| "outcome_to_error_code AoStalePathAuthority = EStaleGeneration"
| "outcome_to_error_code AoConflictingReservation = EConflict"
| "outcome_to_error_code AoInvalidInterval = EInvalidInterval"
| "outcome_to_error_code AoClaimantFenced = EFencedClaimant"
| "outcome_to_error_code AoUnsupported = EUnsupported"
| "outcome_to_error_code AoEmergencyOvercommit = ECapacityOvercommit"
| "outcome_to_error_code AoIdempotentReplay = EIdempotentReplay"
| "outcome_to_error_code AoStaleEpoch = EStaleEpoch"
| "outcome_to_error_code AoInvalidRequest = EInvalidArgument"
| "outcome_to_error_code AoGenerationMismatch = EGenerationMismatch"
| "outcome_to_error_code AoResourceExhausted = EResourceExhausted"
| "outcome_to_error_code AoConflict = EConflict"

definition outcome_is_acceptance :: "admission_outcome \<Rightarrow> bool" where
  "outcome_is_acceptance o' \<longleftrightarrow> o' = AoCommittable \<or> o' = AoIdempotentReplay"

record capability_delta =
  cd_resource :: name
  cd_generation :: counter
  cd_reservable_capacity :: bandwidth
  cd_protected_headroom :: bandwidth
  cd_committable_ceiling :: bandwidth
  cd_committed_peak_before :: bandwidth
  cd_committed_peak_after :: bandwidth
  cd_holds_peak :: bandwidth
  cd_remaining_after :: bandwidth
  cd_window :: interval
  cd_maintenance_covers :: bool
  cd_overcommit_emergency :: bool

record conflict_entry =
  ce_id :: identity
  ce_generation :: counter
  ce_resource :: name
  ce_interval :: interval
  ce_amount :: bandwidth
  ce_guarantee :: guarantee_class
  ce_state :: reservation_state
  ce_is_hold :: bool

record conflict_set =
  cf_entries :: "conflict_entry list"
  cf_total_considered :: nat
  cf_scan_limit_hit :: nat
  cf_truncated :: bool

record admission_report =
  ar_outcome :: admission_outcome
  ar_resources :: "capability_delta list"
  ar_conflicts :: conflict_set
  ar_preemption_plan :: "identity list"
  ar_preemption_plan_generations :: "counter list"
  ar_preemption_planned :: bool
  ar_applicability_reason :: applicability_reason

record remaining_capacity =
  rm_resource :: name
  rm_generation :: counter
  rm_window :: interval
  rm_committable_ceiling :: bandwidth
  rm_committed_peak :: bandwidth
  rm_holds_peak :: bandwidth
  rm_remaining :: bandwidth
  rm_maintenance_covers :: bool
  rm_overcommit_emergency :: bool

record change_point =
  cp_at :: timestamp
  cp_committed :: bandwidth
  cp_holds :: bandwidth

subsection \<open>Spelling\<close>

lemma outcome_listed: "o' \<in> set (map snd kOutcomes)"
  by (cases o') (simp_all add: kOutcomes_def)

lemma outcome_names_distinct: "distinct (map fst kOutcomes)" "distinct (map snd kOutcomes)"
  by (simp_all add: kOutcomes_def)

lemma find_fst_map_of: "find (\<lambda>e. fst e = k) xs = map_option (Pair k) (map_of xs k)"
  by (induction xs) auto

lemma find_snd_Some:
  "distinct (map snd xs) \<Longrightarrow> find (\<lambda>e. snd e = v) xs = Some (k, w) \<longleftrightarrow> w = v \<and> (k, v) \<in> set xs"
  by (induction xs) (auto simp: image_iff)

lemma parse_outcome_iff: "parse_admission_outcome t = Inr o' \<longleftrightarrow> (t, o') \<in> set kOutcomes"
proof -
  have "map_of kOutcomes t = Some o' \<longleftrightarrow> (t, o') \<in> set kOutcomes"
    using outcome_names_distinct(1) by simp
  then show ?thesis
    by (auto simp: parse_admission_outcome_def find_fst_map_of split: option.splits)
qed

lemma outcome_to_string_in: "(outcome_to_string o', o') \<in> set kOutcomes"
proof -
  obtain k where "(k, o') \<in> set kOutcomes" using outcome_listed [of o'] by auto
  then have "find (\<lambda>e. snd e = o') kOutcomes = Some (k, o')"
    using find_snd_Some [OF outcome_names_distinct(2)] by blast
  with \<open>(k, o') \<in> set kOutcomes\<close> show ?thesis by (simp add: outcome_to_string_def)
qed

lemma parse_outcome_to_string: "parse_admission_outcome t = Inr o' \<longleftrightarrow> t = outcome_to_string o'"
  using outcome_to_string_in [of o'] outcome_names_distinct(2)
  by (auto simp: parse_outcome_iff distinct_map dest: inj_onD [of snd _ "(t, o')" "(outcome_to_string o', o')"])

text \<open>The spellings of guarantee classes, reservation states and admission outcomes parse back to
  the value spelled, and no other text parses to it.\<close>

theorem spellings_roundtrip:
  "(parse_guarantee_class t = Inr g \<longleftrightarrow> t = guarantee_class_to_string g) \<and>
   (parse_reservation_state t = Inr s \<longleftrightarrow> t = reservation_state_to_string s) \<and>
   (parse_admission_outcome t = Inr o' \<longleftrightarrow> t = outcome_to_string o')"
  by (simp add: parse_guarantee_class_iff parse_reservation_state_iff parse_outcome_to_string)

end
