(* ===== verification/Brf_Index.thy ===== *)
theory Brf_Index
  imports Brf_Interval_Index Brf_Outcome
begin

text \<open>
  \<^verbatim>\<open>CapacityIndex\<close> of \<^verbatim>\<open>include/brf/index.hpp\<close> and \<^verbatim>\<open>src/index.cpp\<close>: for every resource
  three interval structures (committed, holds and their union), the entries ordered by start, and a
  bookkeeping map from holder and resource to the start of its entry.

  The lemmas show that the bookkeeping never disagrees with the interval structures, that insertion and
  erasure change exactly the entries they name, and that the peaks are the exact maxima over the entries
  present.
\<close>

datatype holder_kind = HkReservation | HkHold

instantiation holder_kind :: linorder
begin
definition less_eq_holder_kind :: "holder_kind \<Rightarrow> holder_kind \<Rightarrow> bool" where
  "a \<le> b \<longleftrightarrow> a = HkReservation \<or> b = HkHold"
definition less_holder_kind :: "holder_kind \<Rightarrow> holder_kind \<Rightarrow> bool" where
  "a < b \<longleftrightarrow> a = HkReservation \<and> b = HkHold"
instance
  by standard (auto simp: less_eq_holder_kind_def less_holder_kind_def intro: holder_kind.exhaust)
end

fun holder_kind_to_string :: "holder_kind \<Rightarrow> string" where
  "holder_kind_to_string HkReservation = ''RESERVATION''"
| "holder_kind_to_string HkHold = ''HOLD''"

record index_entry =
  ie_kind :: holder_kind
  ie_id :: identity
  ie_holder_generation :: u64
  ie_resource :: name
  ie_interval :: interval
  ie_amount :: bandwidth
  ie_guarantee :: guarantee_class
  ie_state :: reservation_state

record resource_state =
  xs_committed :: interval_index
  xs_holds :: interval_index
  xs_combined :: interval_index
  xs_by_start :: "(timestamp, index_entry) omap"
  xs_entry_count :: nat

type_synonym entry_identity = "holder_kind \<times> identity \<times> name"

record capacity_index =
  ci_resources :: "(name, resource_state) omap"
  ci_entries :: "(entry_identity, timestamp) omap"
  ci_entry_count :: nat

definition ci_empty :: capacity_index where
  "ci_empty = \<lparr>ci_resources = [], ci_entries = [], ci_entry_count = 0\<rparr>"

definition fresh_state :: resource_state where
  "fresh_state = \<lparr>xs_committed = ici_new, xs_holds = ici_new, xs_combined = ici_new, xs_by_start = [],
     xs_entry_count = 0\<rparr>"

definition state_for :: "capacity_index \<Rightarrow> name \<Rightarrow> resource_state option" where
  "state_for ix r = om_find (ci_resources ix) r"

definition entry_key :: "index_entry \<Rightarrow> entry_identity" where
  "entry_key e = (ie_kind e, ie_id e, ie_resource e)"

text \<open>The accounting half of an insertion and of an erasure.\<close>

definition account :: "index_entry \<Rightarrow> resource_state \<Rightarrow> resource_state" where
  "account e st =
     (let st1 = (if ie_kind e = HkReservation
                 then st\<lparr>xs_committed := ici_add (xs_committed st) (ie_interval e) (ie_amount e)\<rparr>
                 else st\<lparr>xs_holds := ici_add (xs_holds st) (ie_interval e) (ie_amount e)\<rparr>)
      in st1\<lparr>xs_combined := ici_add (xs_combined st1) (ie_interval e) (ie_amount e)\<rparr>)"

definition unaccount :: "holder_kind \<Rightarrow> index_entry \<Rightarrow> resource_state \<Rightarrow> resource_state" where
  "unaccount kind e st =
     (let st1 = (if kind = HkReservation
                 then st\<lparr>xs_committed := ici_remove (xs_committed st) (ie_interval e) (ie_amount e)\<rparr>
                 else st\<lparr>xs_holds := ici_remove (xs_holds st) (ie_interval e) (ie_amount e)\<rparr>)
      in st1\<lparr>xs_combined := ici_remove (xs_combined st1) (ie_interval e) (ie_amount e)\<rparr>)"

definition ci_insert :: "index_entry \<Rightarrow> (capacity_index, error_code, unit) op" where
  "ci_insert e ix =
     (if iv_empty (ie_interval e) then (Inl EInvalidInterval, ix)
      else if ie_amount e \<le> 0 then (Inl EInvalidBandwidth, ix)
      else if ie_resource e = [] then (Inl EInvalidName, ix)
      else if om_find (ci_entries ix) (entry_key e) \<noteq> None then (Inl EAlreadyExists, ix)
      else
        let st = (case state_for ix (ie_resource e) of Some st \<Rightarrow> st | None \<Rightarrow> fresh_state);
            st1 = (account e st)\<lparr>xs_by_start := mm_put (iv_start (ie_interval e)) e (xs_by_start st),
                                 xs_entry_count := xs_entry_count st + 1\<rparr>
        in (Inr (), ix\<lparr>ci_resources := om_put (ie_resource e) st1 (ci_resources ix),
                       ci_entry_count := ci_entry_count ix + 1,
                       ci_entries := om_put (entry_key e) (iv_start (ie_interval e)) (ci_entries ix)\<rparr>))"

text \<open>The first element of an equal range that satisfies a test, and the multimap without it.\<close>

fun mm_drop :: "('v \<Rightarrow> bool) \<Rightarrow> 'k \<Rightarrow> ('k, 'v) omap \<Rightarrow> ('k, 'v) omap" where
  "mm_drop p k [] = []"
| "mm_drop p k ((a, b) # m) = (if a = k \<and> p b then m else (a, b) # mm_drop p k m)"

definition mm_first :: "('v \<Rightarrow> bool) \<Rightarrow> 'k \<Rightarrow> ('k, 'v) omap \<Rightarrow> 'v option" where
  "mm_first p k m = map_option snd (find (\<lambda>(a, b). a = k \<and> p b) m)"

definition ci_erase :: "holder_kind \<Rightarrow> identity \<Rightarrow> u64 \<Rightarrow> name \<Rightarrow> (capacity_index, error_code, unit) op" where
  "ci_erase kind i gen r ix =
     (case om_find (ci_entries ix) (kind, i, r) of
        None \<Rightarrow> (Inl ENotFound, ix)
      | Some start \<Rightarrow>
        (case state_for ix r of
           None \<Rightarrow> (Inl EInternal, ix)
         | Some st \<Rightarrow>
           let hit = (\<lambda>e. ie_id e = i \<and> ie_holder_generation e = gen \<and> ie_kind e = kind)
           in (case mm_first hit start (xs_by_start st) of
                 None \<Rightarrow> (Inl EInternal, ix)
               | Some e \<Rightarrow>
                 let st1 = (unaccount kind e st)\<lparr>xs_by_start := mm_drop hit start (xs_by_start st),
                                                 xs_entry_count := xs_entry_count st - 1\<rparr>;
                     res = (if xs_entry_count st1 = 0 then om_erase r (ci_resources ix)
                            else om_put r st1 (ci_resources ix))
                 in (Inr (), ix\<lparr>ci_resources := res,
                                ci_entries := om_erase (kind, i, r) (ci_entries ix),
                                ci_entry_count := ci_entry_count ix - 1\<rparr>))))"

text \<open>
  The first loop of \<^verbatim>\<open>erase_all\<close> over the bookkeeping keys of the holder, with the number of
  entries removed and the resources touched so far.
\<close>

definition belongs :: "holder_kind \<Rightarrow> identity \<Rightarrow> index_entry \<Rightarrow> bool" where
  "belongs kind i e \<longleftrightarrow> ie_kind e = kind \<and> ie_id e = i"

definition key_belongs :: "holder_kind \<Rightarrow> identity \<Rightarrow> entry_identity \<times> timestamp \<Rightarrow> bool" where
  "key_belongs kind i k \<longleftrightarrow> fst (fst k) = kind \<and> fst (snd (fst k)) = i"

definition key_resource :: "entry_identity \<times> timestamp \<Rightarrow> name" where
  "key_resource k = snd (snd (fst k))"

definition drop_keyed ::
  "holder_kind \<Rightarrow> identity \<Rightarrow> entry_identity \<times> timestamp \<Rightarrow>
   (name, resource_state) omap \<times> nat \<times> name list \<Rightarrow> (name, resource_state) omap \<times> nat \<times> name list" where
  "drop_keyed kind i k acc =
     (case acc of (res, removed, touched) \<Rightarrow>
        let r = key_resource k in
        case om_find res r of
          None \<Rightarrow> (res, removed, touched)
        | Some st \<Rightarrow>
            (case mm_first (belongs kind i) (snd k) (xs_by_start st) of
               None \<Rightarrow> (res, removed, touched @ [r])
             | Some e \<Rightarrow>
                 (om_put r ((unaccount kind e st)\<lparr>xs_by_start := mm_drop (belongs kind i) (snd k) (xs_by_start st),
                                                  xs_entry_count := xs_entry_count st - 1\<rparr>) res,
                  removed + 1, touched @ [r])))"

text \<open>The second loop: what the holder still has in the interval maps of the touched resources.\<close>

definition sweep ::
  "holder_kind \<Rightarrow> identity \<Rightarrow> name \<Rightarrow>
   (name, resource_state) omap \<times> nat \<Rightarrow> (name, resource_state) omap \<times> nat" where
  "sweep kind i r acc =
     (case acc of (res, removed) \<Rightarrow>
        case om_find res r of
          None \<Rightarrow> (res, removed)
        | Some st \<Rightarrow>
            let stray = filter (\<lambda>(_, e). belongs kind i e) (xs_by_start st);
                st1 = fold (\<lambda>(_, e). unaccount kind e) stray st
            in (om_put r (st1\<lparr>xs_by_start := filter (\<lambda>(_, e). \<not> belongs kind i e) (xs_by_start st),
                              xs_entry_count := xs_entry_count st - length stray\<rparr>) res,
                removed + length stray))"

definition drop_empty :: "name \<Rightarrow> (name, resource_state) omap \<Rightarrow> (name, resource_state) omap" where
  "drop_empty r res =
     (case om_find res r of
        Some st \<Rightarrow> if xs_entry_count st = 0 then om_erase r res else res
      | None \<Rightarrow> res)"

text \<open>
  The generation argument of \<^verbatim>\<open>erase_all\<close> is only counted for diagnostics and then
  discarded.
\<close>

definition ci_erase_all :: "holder_kind \<Rightarrow> identity \<Rightarrow> u64 \<Rightarrow> (capacity_index, error_code, unit) op" where
  "ci_erase_all kind i gen ix =
     (let keys = filter (key_belongs kind i) (ci_entries ix);
          (res1, removed1, touched) = fold (drop_keyed kind i) keys (ci_resources ix, 0, []);
          (res2, removed) = fold (sweep kind i) touched (res1, removed1);
          ix1 = ix\<lparr>ci_resources := res2, ci_entries := filter (\<lambda>k. \<not> key_belongs kind i k) (ci_entries ix)\<rparr>
      in if removed = 0 then (Inl ENotFound, ix1)
         else (Inr (), ix1\<lparr>ci_entry_count := (if removed > ci_entry_count ix then 0 else ci_entry_count ix - removed),
                           ci_resources := fold drop_empty (unique_by (=) (sort_by (<) touched)) res2\<rparr>))"

definition ci_replace_all ::
  "holder_kind \<Rightarrow> identity \<Rightarrow> u64 \<Rightarrow> index_entry list \<Rightarrow> (capacity_index, error_code, unit) op" where
  "ci_replace_all kind i gen es ix =
     (case ci_erase_all kind i gen ix of
        (Inl e, ix1) \<Rightarrow> if e \<noteq> ENotFound then (Inl e, ix1) else each ci_insert es ix1
      | (Inr _, ix1) \<Rightarrow> each ci_insert es ix1)"

definition ci_contains :: "holder_kind \<Rightarrow> identity \<Rightarrow> capacity_index \<Rightarrow> bool" where
  "ci_contains kind i ix \<longleftrightarrow> list_ex (key_belongs kind i) (ci_entries ix)"

definition ci_find_all :: "holder_kind \<Rightarrow> identity \<Rightarrow> capacity_index \<Rightarrow> index_entry list" where
  "ci_find_all kind i ix =
     sort_by (\<lambda>a b. ie_resource a < ie_resource b)
       (List.map_filter (\<lambda>k. if key_belongs kind i k
          then (case state_for ix (key_resource k) of
                  None \<Rightarrow> None
                | Some st \<Rightarrow> mm_first (belongs kind i) (snd k) (xs_by_start st))
          else None) (ci_entries ix))"

definition peak_committed :: "capacity_index \<Rightarrow> name \<Rightarrow> interval \<Rightarrow> bandwidth" where
  "peak_committed ix r w = (case state_for ix r of None \<Rightarrow> 0 | Some st \<Rightarrow> ici_peak (xs_committed st) w)"

definition peak_holds :: "capacity_index \<Rightarrow> name \<Rightarrow> interval \<Rightarrow> bandwidth" where
  "peak_holds ix r w = (case state_for ix r of None \<Rightarrow> 0 | Some st \<Rightarrow> ici_peak (xs_holds st) w)"

definition peak_combined :: "capacity_index \<Rightarrow> name \<Rightarrow> interval \<Rightarrow> bandwidth" where
  "peak_combined ix r w = (case state_for ix r of None \<Rightarrow> 0 | Some st \<Rightarrow> ici_peak (xs_combined st) w)"

definition committed_at :: "capacity_index \<Rightarrow> name \<Rightarrow> timestamp \<Rightarrow> bandwidth" where
  "committed_at ix r t = (case state_for ix r of None \<Rightarrow> 0 | Some st \<Rightarrow> ici_at (xs_committed st) t)"

text \<open>The scan of \<^verbatim>\<open>overlapping\<close>: entries found, number matched and whether the scan limit was hit.\<close>

fun overlap_scan ::
  "interval \<Rightarrow> nat \<Rightarrow> nat \<Rightarrow> nat \<Rightarrow> (timestamp, index_entry) omap \<Rightarrow> index_entry list \<times> nat \<times> bool" where
  "overlap_scan w output_left scan_limit scanned [] = ([], 0, False)"
| "overlap_scan w output_left scan_limit scanned ((s, e) # m) =
     (if \<not> s < iv_end w then ([], 0, False)
      else if scanned \<ge> scan_limit then ([], 0, True)
      else if iv_end (ie_interval e) \<le> iv_start w then overlap_scan w output_left scan_limit (scanned + 1) m
      else
        let (out, matched, hit) = overlap_scan w (output_left - 1) scan_limit (scanned + 1) m
        in (if output_left > 0 then e # out else out, matched + 1, hit))"

definition overlap_less :: "index_entry \<Rightarrow> index_entry \<Rightarrow> bool" where
  "overlap_less a b =
     (if iv_start (ie_interval a) \<noteq> iv_start (ie_interval b)
      then iv_start (ie_interval a) < iv_start (ie_interval b)
      else if iv_end (ie_interval a) \<noteq> iv_end (ie_interval b)
      then iv_end (ie_interval a) < iv_end (ie_interval b)
      else if ie_id a \<noteq> ie_id b then ie_id a < ie_id b
      else ie_resource a < ie_resource b)"

definition overlapping :: "capacity_index \<Rightarrow> name \<Rightarrow> interval \<Rightarrow> nat \<Rightarrow> nat \<Rightarrow> index_entry list \<times> nat \<times> bool" where
  "overlapping ix r w output_limit scan_limit =
     (case state_for ix r of
        None \<Rightarrow> ([], 0, False)
      | Some st \<Rightarrow>
          if iv_empty w then ([], 0, False)
          else
            let (out, matched, hit) = overlap_scan w output_limit scan_limit 0 (xs_by_start st)
            in (sort_by overlap_less out, matched, hit \<or> matched > length out))"

text \<open>The boundary loop of \<^verbatim>\<open>timeline\<close>: it stops early when more boundaries are
  collected than twice the points asked for.\<close>

fun boundary_scan :: "interval \<Rightarrow> nat \<Rightarrow> timestamp list \<Rightarrow> (timestamp, index_entry) omap \<Rightarrow> timestamp list \<times> bool" where
  "boundary_scan w max_points bs [] = (bs, False)"
| "boundary_scan w max_points bs ((s, e) # m) =
     (if \<not> s < iv_end w then (bs, False)
      else if iv_end (ie_interval e) \<le> iv_start w then boundary_scan w max_points bs m
      else
        let bs1 = bs @ [max (iv_start (ie_interval e)) (iv_start w), min (iv_end (ie_interval e)) (iv_end w)]
        in if length bs1 > (max_points + 2) * 2 then (bs1, True) else boundary_scan w max_points bs1 m)"

definition timeline :: "capacity_index \<Rightarrow> name \<Rightarrow> interval \<Rightarrow> nat \<Rightarrow> change_point list \<times> bool" where
  "timeline ix r w max_points =
     (case state_for ix r of
        None \<Rightarrow> ([], False)
      | Some st \<Rightarrow>
          if iv_empty w then ([], False)
          else
            let (raw, cut) = boundary_scan w max_points [iv_start w] (xs_by_start st);
                bs = unique_by (=) (sort_by (<) raw);
                bs1 = take (max_points + 1) bs
            in (map (\<lambda>t. \<lparr>cp_at = t, cp_committed = ici_at (xs_committed st) t, cp_holds = ici_at (xs_holds st) t\<rparr>)
                  (filter (\<lambda>t. \<not> (t < iv_start w \<or> t \<ge> iv_end w)) bs1),
                cut \<or> length bs > max_points + 1))"

definition ci_resource_names :: "capacity_index \<Rightarrow> name list" where
  "ci_resource_names ix = map fst (ci_resources ix)"

subsection \<open>What the index holds\<close>

definition contents :: "capacity_index \<Rightarrow> name \<Rightarrow> index_entry list" where
  "contents ix r = (case state_for ix r of None \<Rightarrow> [] | Some st \<Rightarrow> map snd (xs_by_start st))"

definition axis_loads :: "(index_entry \<Rightarrow> bool) \<Rightarrow> index_entry list \<Rightarrow> loads" where
  "axis_loads p es = image_mset (\<lambda>e. (ie_interval e, ie_amount e)) (filter_mset p (mset es))"

definition is_committed :: "index_entry \<Rightarrow> bool" where
  "is_committed e \<longleftrightarrow> ie_kind e = HkReservation"

definition accounted :: "index_entry list \<Rightarrow> resource_state \<Rightarrow> bool" where
  "accounted es st \<longleftrightarrow>
     ici_rep (axis_loads is_committed es) (xs_committed st) \<and>
     ici_rep (axis_loads (\<lambda>e. \<not> is_committed e) es) (xs_holds st) \<and>
     ici_rep (axis_loads (\<lambda>_. True) es) (xs_combined st)"

definition rs_ok :: "name \<Rightarrow> resource_state \<Rightarrow> bool" where
  "rs_ok r st \<longleftrightarrow> mm_ok (xs_by_start st) \<and> xs_entry_count st = length (xs_by_start st) \<and>
     (\<forall>(s, e) \<in> set (xs_by_start st). s = iv_start (ie_interval e) \<and> ie_resource e = r) \<and>
     distinct (map (\<lambda>(s, e). (ie_kind e, ie_id e)) (xs_by_start st)) \<and>
     accounted (map snd (xs_by_start st)) st"

definition ci_ok :: "capacity_index \<Rightarrow> bool" where
  "ci_ok ix \<longleftrightarrow> om_ok (ci_resources ix) \<and> om_ok (ci_entries ix) \<and>
     (\<forall>r st. om_find (ci_resources ix) r = Some st \<longrightarrow> rs_ok r st \<and> xs_by_start st \<noteq> []) \<and>
     (\<forall>kind i r s. om_find (ci_entries ix) (kind, i, r) = Some s \<longleftrightarrow>
        (\<exists>st e. om_find (ci_resources ix) r = Some st \<and> (s, e) \<in> set (xs_by_start st) \<and> belongs kind i e)) \<and>
     ci_entry_count ix = length (ci_entries ix)"

definition fits :: "capacity_index \<Rightarrow> index_entry \<Rightarrow> bool" where
  "fits ix e \<longleftrightarrow>
     (\<forall>x. on_timeline x \<longrightarrow> load (axis_loads (\<lambda>_. True) (e # contents ix (ie_resource e))) x \<le> load_bound)"

lemma axis_loads_Cons: "axis_loads p (e # es) =
    (if p e then add_mset (ie_interval e, ie_amount e) (axis_loads p es) else axis_loads p es)"
  by (simp add: axis_loads_def)

lemma axis_loads_cong: "mset es = mset es' \<Longrightarrow> axis_loads p es = axis_loads p es'"
  by (simp add: axis_loads_def)

lemma axis_loads_Nil [simp]: "axis_loads p [] = {#}"
  by (simp add: axis_loads_def)

lemma axis_sub: "axis_loads p es \<subseteq># axis_loads (\<lambda>_. True) es"
  by (simp add: axis_loads_def image_mset_subseteq_mono)

lemma loads_ok_sub:
  assumes "es \<subseteq># es'" and "loads_ok es'"
  shows "loads_ok es"
proof -
  obtain d where d: "es' = es + d" using assms(1) by (metis mset_subset_eq_exists_conv)
  have "0 \<le> load d x" for x by (rule load_nonneg) (use assms(2) d in \<open>auto simp: loads_ok_def\<close>)
  then have "load es x \<le> load es' x" for x by (simp add: d load_union)
  then have "load es x \<le> load_bound" if "on_timeline x" for x
    using that assms(2) by (meson loads_ok_def order_trans)
  then show ?thesis using assms(2) d by (simp add: loads_ok_def)
qed

lemma accounted_cong: "mset es = mset es' \<Longrightarrow> accounted es st \<longleftrightarrow> accounted es' st"
  by (simp add: accounted_def axis_loads_cong [of es es'])

lemma accounted_fresh: "accounted [] fresh_state"
  by (simp add: accounted_def fresh_state_def ici.rep_new)

lemma accounted_upd [simp]:
  "accounted es (st\<lparr>xs_by_start := m, xs_entry_count := n\<rparr>) \<longleftrightarrow> accounted es st"
  by (simp add: accounted_def)

lemma accounted_account:
  assumes "accounted es st" and "loads_ok (axis_loads (\<lambda>_. True) (e # es))"
  shows "accounted (e # es) (account e st)"
proof -
  have "loads_ok (axis_loads p (e # es))" for p
    using loads_ok_sub [OF axis_sub assms(2)] .
  from this [of is_committed] this [of "\<lambda>e. \<not> is_committed e"] assms show ?thesis
    by (cases "ie_kind e")
      (auto simp: accounted_def account_def is_committed_def axis_loads_Cons ici.rep_add)
qed

lemma axis_loads_remove: "e \<in> set es \<Longrightarrow> mset es' = mset es - {#e#} \<Longrightarrow>
    axis_loads p es' = (if p e then axis_loads p es - {#(ie_interval e, ie_amount e)#} else axis_loads p es)"
  by (auto simp: axis_loads_def image_mset_Diff)

lemma axis_loads_mem: "e \<in> set es \<Longrightarrow> p e \<Longrightarrow> (ie_interval e, ie_amount e) \<in># axis_loads p es"
  by (auto simp: axis_loads_def)

lemma accounted_unaccount:
  assumes "accounted es st" and "e \<in> set es" and "mset es' = mset es - {#e#}" and "ie_kind e = kind"
  shows "accounted es' (unaccount kind e st)"
  using assms axis_loads_remove [OF assms(2,3)] axis_loads_mem [OF assms(2)]
  by (cases kind) (auto simp: accounted_def unaccount_def is_committed_def ici.rep_remove)

lemma mm_first_Some:
  "mm_first p k m = Some v \<Longrightarrow> (k, v) \<in> set m \<and> p v \<and> mset (mm_drop p k m) = mset m - {#(k, v)#}"
  by (induction m) (auto simp: mm_first_def split: if_splits)

lemma mm_first_None: "mm_first p k m = None \<longleftrightarrow> (\<forall>v. (k, v) \<in> set m \<longrightarrow> \<not> p v)"
  by (auto simp: mm_first_def find_None_iff)

lemma mm_ok_drop: "mm_ok m \<Longrightarrow> mm_ok (mm_drop p k m)"
proof (induction p k m rule: mm_drop.induct)
  case (2 p k a b m)
  have "set (mm_drop p k m) \<subseteq> set m" by (induction p k m rule: mm_drop.induct) auto
  with 2 show ?case by (fastforce simp: mm_ok_def)
qed simp

lemma mset_mm_put: "mset (mm_put k v m) = add_mset (k, v) (mset m)"
  by (induction k v m rule: mm_put.induct) auto

lemma distinct_of_mset: "mset xs = mset ys \<Longrightarrow> distinct xs \<longleftrightarrow> distinct ys"
  by (rule mset_eq_imp_distinct_iff)


lemma ci_find_resource: "ci_ok ix \<Longrightarrow> om_find (ci_resources ix) r = Some st \<Longrightarrow> rs_ok r st \<and> xs_by_start st \<noteq> []"
  by (simp add: ci_ok_def)

lemma ci_ok_entries: "ci_ok ix \<Longrightarrow> om_ok (ci_entries ix)"
  by (simp add: ci_ok_def)

lemma ci_entries_iff:
  "ci_ok ix \<Longrightarrow> om_find (ci_entries ix) (kind, i, r) = Some s \<longleftrightarrow>
     (\<exists>st e. om_find (ci_resources ix) r = Some st \<and> (s, e) \<in> set (xs_by_start st) \<and> belongs kind i e)"
  by (simp add: ci_ok_def)

lemma ci_contents_accounted:
  "ci_ok ix \<Longrightarrow> accounted (contents ix r) (case state_for ix r of Some st \<Rightarrow> st | None \<Rightarrow> fresh_state)"
  by (auto simp: contents_def state_for_def accounted_fresh rs_ok_def dest: ci_find_resource split: option.splits)

lemma rs_ok_insert:
  assumes "rs_ok r st" and "ie_resource e = r" and "loads_ok (axis_loads (\<lambda>_. True) (e # map snd (xs_by_start st)))"
    and "\<forall>(s, e') \<in> set (xs_by_start st). (ie_kind e', ie_id e') \<noteq> (ie_kind e, ie_id e)"
  shows "rs_ok r ((account e st)\<lparr>xs_by_start := mm_put (iv_start (ie_interval e)) e (xs_by_start st),
    xs_entry_count := xs_entry_count st + 1\<rparr>)"
proof -
  let ?m = "mm_put (iv_start (ie_interval e)) e (xs_by_start st)"
  let ?key = "\<lambda>(s :: timestamp, e). (ie_kind e, ie_id e)"
  have m: "mset ?m = mset ((iv_start (ie_interval e), e) # xs_by_start st)" by (simp add: mset_mm_put)
  have "mset (map snd ?m) = mset (e # map snd (xs_by_start st))" using arg_cong [OF m, of "image_mset snd"] by simp
  then have acc: "accounted (map snd ?m) (account e st)"
    using accounted_account [of "map snd (xs_by_start st)" st e] assms(1,3)
    by (subst accounted_cong [of _ "e # map snd (xs_by_start st)"]) (simp_all add: rs_ok_def)
  have "mset (map ?key ?m) = mset (map ?key ((iv_start (ie_interval e), e) # xs_by_start st))"
    using m by (metis mset_map)
  moreover have "distinct (map ?key ((iv_start (ie_interval e), e) # xs_by_start st))"
    using assms(1,4) by (auto simp: rs_ok_def)
  ultimately have "distinct (map ?key ?m)" using distinct_of_mset by blast
  with acc show ?thesis
    using assms(1,2) by (auto simp: rs_ok_def mm_ok_put)
qed


definition ci_insert_ok :: "capacity_index \<Rightarrow> index_entry \<Rightarrow> bool" where
  "ci_insert_ok ix e \<longleftrightarrow> \<not> iv_empty (ie_interval e) \<and> 0 < ie_amount e \<and> ie_resource e \<noteq> [] \<and>
     om_find (ci_entries ix) (entry_key e) = None"

lemma ci_insert_result:
  "fst (ci_insert e ix) = Inr () \<longleftrightarrow> ci_insert_ok ix e"
  "\<not> ci_insert_ok ix e \<Longrightarrow> snd (ci_insert e ix) = ix"
  by (auto simp: ci_insert_def ci_insert_ok_def Let_def)

lemma fresh_rs_ok: "rs_ok r fresh_state"
  using accounted_fresh by (simp add: rs_ok_def fresh_state_def mm_ok_def)

lemma insert_state:
  assumes "ci_ok ix" "ci_insert_ok ix e" "fits ix e"
  defines "st \<equiv> (case state_for ix (ie_resource e) of Some st \<Rightarrow> st | None \<Rightarrow> fresh_state)"
  shows "rs_ok (ie_resource e) ((account e st)\<lparr>xs_by_start := mm_put (iv_start (ie_interval e)) e (xs_by_start st),
      xs_entry_count := xs_entry_count st + 1\<rparr>)"
proof (rule rs_ok_insert)
  have c: "contents ix (ie_resource e) = map snd (xs_by_start st)"
    by (auto simp: contents_def st_def fresh_state_def split: option.splits)
  show ok: "rs_ok (ie_resource e) st"
    using assms(1) fresh_rs_ok by (auto simp: st_def state_for_def dest: ci_find_resource split: option.splits)
  have "accounted (contents ix (ie_resource e)) st" using ci_contents_accounted [OF assms(1)] by (simp add: st_def)
  then have "loads_ok (axis_loads (\<lambda>_. True) (contents ix (ie_resource e)))"
    by (auto simp: accounted_def dest: ici.rep_ok)
  then show "loads_ok (axis_loads (\<lambda>_. True) (e # map snd (xs_by_start st)))"
    using assms(2,3) by (auto simp: axis_loads_Cons c fits_def ci_insert_ok_def intro!: loads_ok_add)
  show "\<forall>(s, e') \<in> set (xs_by_start st). (ie_kind e', ie_id e') \<noteq> (ie_kind e, ie_id e)"
  proof (cases "state_for ix (ie_resource e)")
    case (Some st')
    have "om_find (ci_entries ix) (ie_kind e, ie_id e, ie_resource e) = None"
      using assms(2) by (simp add: ci_insert_ok_def entry_key_def)
    then have "\<forall>s. \<not> (\<exists>st e'. om_find (ci_resources ix) (ie_resource e) = Some st \<and>
        (s, e') \<in> set (xs_by_start st) \<and> belongs (ie_kind e) (ie_id e) e')"
      using ci_entries_iff [OF assms(1)] by (metis option.distinct(1))
    then show ?thesis using Some by (auto simp: st_def state_for_def belongs_def)
  qed (simp add: st_def fresh_state_def)
qed simp

lemma om_put_length: "om_find m k = None \<Longrightarrow> length (om_put k v m) = Suc (length m)"
  by (induction k v m rule: om_put.induct) (auto simp: om_find_def split: if_splits)

lemma belongs_unique:
  "rs_ok r st \<Longrightarrow> (s, e) \<in> set (xs_by_start st) \<Longrightarrow> (s', e') \<in> set (xs_by_start st) \<Longrightarrow>
   belongs kind i e \<Longrightarrow> belongs kind i e' \<Longrightarrow> s = s' \<and> e = e'"
  by (auto simp: rs_ok_def distinct_map belongs_def dest: inj_onD [where x = "(s, e)" and y = "(s', e')"])

lemma ci_insert_keeps:
  assumes "ci_ok ix" "ci_insert_ok ix e" "fits ix e"
  shows "ci_ok (snd (ci_insert e ix))"
    and "mset (contents (snd (ci_insert e ix)) (ie_resource e)) = add_mset e (mset (contents ix (ie_resource e)))"
    and "r \<noteq> ie_resource e \<Longrightarrow> contents (snd (ci_insert e ix)) r = contents ix r"
proof -
  define st where "st = (case state_for ix (ie_resource e) of Some st \<Rightarrow> st | None \<Rightarrow> fresh_state)"
  define st1 where "st1 = (account e st)\<lparr>xs_by_start := mm_put (iv_start (ie_interval e)) e (xs_by_start st),
      xs_entry_count := xs_entry_count st + 1\<rparr>"
  have ok1: "rs_ok (ie_resource e) st1" unfolding st1_def st_def by (rule insert_state [OF assms])
  have set1: "set (xs_by_start st1) = insert (iv_start (ie_interval e), e) (set (xs_by_start st))"
    by (simp add: st1_def)
  have ix1: "snd (ci_insert e ix) = ix\<lparr>ci_resources := om_put (ie_resource e) st1 (ci_resources ix),
      ci_entry_count := ci_entry_count ix + 1,
      ci_entries := om_put (entry_key e) (iv_start (ie_interval e)) (ci_entries ix)\<rparr>"
    using assms(2) by (auto simp: ci_insert_def ci_insert_ok_def Let_def st1_def st_def)
  have c: "contents ix (ie_resource e) = map snd (xs_by_start st)"
    by (auto simp: contents_def st_def fresh_state_def split: option.splits)
  show "r \<noteq> ie_resource e \<Longrightarrow> contents (snd (ci_insert e ix)) r = contents ix r"
    by (simp add: ix1 contents_def state_for_def)
  show "mset (contents (snd (ci_insert e ix)) (ie_resource e)) = add_mset e (mset (contents ix (ie_resource e)))"
    unfolding c by (simp add: ix1 contents_def state_for_def) (simp add: st1_def mset_mm_put)
  have old: "om_find (ci_resources ix) (ie_resource e) = Some st'' \<longleftrightarrow> st'' = st \<and> state_for ix (ie_resource e) \<noteq> None" for st''
    by (auto simp: st_def state_for_def split: option.splits)
  have st_empty: "state_for ix (ie_resource e) = None \<Longrightarrow> xs_by_start st = []"
    by (simp add: st_def fresh_state_def)
  have "om_find (om_put (entry_key e) (iv_start (ie_interval e)) (ci_entries ix)) (kind, i, r) = Some s \<longleftrightarrow>
      (\<exists>st' e'. om_find (om_put (ie_resource e) st1 (ci_resources ix)) r = Some st' \<and>
        (s, e') \<in> set (xs_by_start st') \<and> belongs kind i e')" for kind i r s
  proof (cases "r = ie_resource e")
    case True
    have none: "\<not> (\<exists>e'. (s, e') \<in> set (xs_by_start st) \<and> belongs (ie_kind e) (ie_id e) e')"
      using ci_entries_iff [OF assms(1), of "ie_kind e" "ie_id e" "ie_resource e" s] assms(2) old st_empty
      by (auto simp: ci_insert_ok_def entry_key_def)
    have old': "om_find (ci_entries ix) (kind, i, r) = Some s \<longleftrightarrow>
        (\<exists>e'. (s, e') \<in> set (xs_by_start st) \<and> belongs kind i e')"
      using ci_entries_iff [OF assms(1), of kind i r s] old st_empty True by auto
    show ?thesis
      using True none old' set1 by (cases "(kind, i) = (ie_kind e, ie_id e)") (auto simp: entry_key_def belongs_def)
  next
    case False
    then show ?thesis using ci_entries_iff [OF assms(1)] by (simp add: entry_key_def)
  qed
  then show "ci_ok (snd (ci_insert e ix))"
    using assms(1,2) ok1 set1 by (auto simp: ci_ok_def ix1 om_put_length ci_insert_ok_def)
qed


subsection \<open>Erasing\<close>

lemma rs_ok_drop:
  assumes "rs_ok r st" and "mm_first p s (xs_by_start st) = Some e" and "ie_kind e = kind"
  shows "rs_ok r ((unaccount kind e st)\<lparr>xs_by_start := mm_drop p s (xs_by_start st), xs_entry_count := xs_entry_count st - 1\<rparr>)"
proof -
  let ?m = "mm_drop p s (xs_by_start st)"
  note f = mm_first_Some [OF assms(2)]
  have m: "mset (xs_by_start st) = add_mset (s, e) (mset ?m)" using f by (simp add: insert_DiffM)
  have sub: "set ?m \<subseteq> set (xs_by_start st)" using m by (metis set_mset_mset set_mset_add_mset_insert subset_insertI)
  have "mset (map snd ?m) = mset (map snd (xs_by_start st)) - {#e#}"
    using arg_cong [OF m, of "image_mset snd"] by simp
  then have "accounted (map snd ?m) (unaccount kind e st)"
    using assms(1,3) f by (intro accounted_unaccount [of "map snd (xs_by_start st)"]) (force simp: rs_ok_def)+
  moreover have "mset (map (\<lambda>(s, e). (ie_kind e, ie_id e)) (xs_by_start st))
      = mset (map (\<lambda>(s, e). (ie_kind e, ie_id e)) ((s, e) # ?m))"
    using m by (metis mset.simps(2) mset_map)
  then have "distinct (map (\<lambda>(s, e). (ie_kind e, ie_id e)) ?m)"
    using assms(1) distinct_of_mset by (fastforce simp: rs_ok_def)
  moreover have "length (xs_by_start st) = Suc (length ?m)" using arg_cong [OF m, of size] by simp
  ultimately show ?thesis
    using assms(1) sub by (auto simp: rs_ok_def mm_ok_drop)
qed

lemma mm_drop_filter:
  assumes "distinct (map f m)" and "\<forall>x \<in> set m. f x = c \<longleftrightarrow> p (snd x)" and "(s, e) \<in> set m" and "p e"
  shows "mm_first p s m = Some e \<and> mm_drop p s m = filter (\<lambda>x. \<not> p (snd x)) m"
  using assms
proof (induction m)
  case (Cons x m)
  obtain a b where x: "x = (a, b)" by fastforce
  show ?case
  proof (cases "p b")
    case True
    then have "f x = c" using Cons.prems(2) x by simp
    moreover have "f x \<notin> f ` set m" using Cons.prems(1) by simp
    ultimately have "\<forall>y \<in> set m. \<not> p (snd y)" using Cons.prems(2) by (metis image_eqI list.set_intros(2))
    moreover from this have "(s, e) = x" using Cons.prems(3,4) by auto
    ultimately show ?thesis using True x by (auto simp: mm_first_def filter_id_conv)
  next
    case False
    then have "(s, e) \<in> set m" using Cons.prems(3,4) x by auto
    then show ?thesis using Cons False x by (auto simp: mm_first_def)
  qed
qed simp

lemma belongs_drop:
  assumes "rs_ok r st" and "(s, e) \<in> set (xs_by_start st)" and "belongs kind i e"
  shows "mm_first (belongs kind i) s (xs_by_start st) = Some e \<and>
    mm_drop (belongs kind i) s (xs_by_start st) = filter (\<lambda>(_, e). \<not> belongs kind i e) (xs_by_start st)"
  using mm_drop_filter [of "\<lambda>(s, e). (ie_kind e, ie_id e)" "xs_by_start st" "(kind, i)" "belongs kind i" s e] assms
  by (auto simp: rs_ok_def belongs_def case_prod_unfold)

definition drop_state :: "holder_kind \<Rightarrow> identity \<Rightarrow> resource_state \<Rightarrow> resource_state" where
  "drop_state kind i st =
     (unaccount kind (snd (hd (filter (\<lambda>(_, e). belongs kind i e) (xs_by_start st)))) st)
       \<lparr>xs_by_start := filter (\<lambda>(_, e). \<not> belongs kind i e) (xs_by_start st), xs_entry_count := xs_entry_count st - 1\<rparr>"

lemma hd_filter_belongs:
  assumes "rs_ok r st" and "(s, e) \<in> set (xs_by_start st)" and "belongs kind i e"
  shows "hd (filter (\<lambda>(_, e). belongs kind i e) (xs_by_start st)) = (s, e)"
proof -
  let ?f = "filter (\<lambda>(_, e). belongs kind i e) (xs_by_start st)"
  have "(s, e) \<in> set ?f" using assms by simp
  then have "?f \<noteq> []" by (metis empty_iff empty_set)
  then have "hd ?f \<in> set ?f" by (rule hd_in_set)
  moreover obtain s' e' where h: "hd ?f = (s', e')" by fastforce
  ultimately have "(s', e') \<in> set (xs_by_start st)" "belongs kind i e'" by simp_all
  from belongs_unique [OF assms(1,2) this(1) assms(3) this(2)] h show ?thesis by simp
qed

lemma drop_state_ok:
  assumes "rs_ok r st" and "(s, e) \<in> set (xs_by_start st)" and "belongs kind i e"
  shows "rs_ok r (drop_state kind i st)"
    and "drop_state kind i st = (unaccount kind e st)\<lparr>xs_by_start := mm_drop (belongs kind i) s (xs_by_start st),
           xs_entry_count := xs_entry_count st - 1\<rparr>"
proof -
  note bd = belongs_drop [OF assms]
  show *: "drop_state kind i st = (unaccount kind e st)\<lparr>xs_by_start := mm_drop (belongs kind i) s (xs_by_start st),
           xs_entry_count := xs_entry_count st - 1\<rparr>"
    using bd hd_filter_belongs [OF assms] by (simp add: drop_state_def)
  show "rs_ok r (drop_state kind i st)"
    unfolding * using rs_ok_drop [OF assms(1), of "belongs kind i" s e kind] bd assms(3) by (simp add: belongs_def)
qed

lemma om_put_same: "om_ok m \<Longrightarrow> om_find m k = Some v \<Longrightarrow> om_put k v m = m"
  by (induction k v m rule: om_put.induct) (auto simp: om_find_def om_ok_Cons dest!: map_of_SomeD split: if_splits)

text \<open>The keys of a holder in the bookkeeping map, as the first loop meets them.\<close>

definition keyed :: "holder_kind \<Rightarrow> identity \<Rightarrow> (name, resource_state) omap \<Rightarrow> entry_identity \<times> timestamp \<Rightarrow> bool" where
  "keyed kind i res k \<longleftrightarrow> (\<exists>st e. om_find res (key_resource k) = Some st \<and> rs_ok (key_resource k) st \<and>
     (snd k, e) \<in> set (xs_by_start st) \<and> belongs kind i e)"

lemma drop_keyed_step:
  assumes "keyed kind i res k"
  shows "drop_keyed kind i k (res, removed, touched) =
    (om_put (key_resource k) (drop_state kind i (the (om_find res (key_resource k)))) res,
     removed + 1, touched @ [key_resource k])"
proof -
  obtain st e where k: "om_find res (key_resource k) = Some st" "rs_ok (key_resource k) st"
    "(snd k, e) \<in> set (xs_by_start st)" "belongs kind i e" using assms by (auto simp: keyed_def)
  show ?thesis
    using k belongs_drop [OF k(2-4)] drop_state_ok(2) [OF k(2-4)] by (simp add: drop_keyed_def Let_def)
qed

lemma drop_keyed_fold:
  "\<forall>k \<in> set ks. keyed kind i res k \<Longrightarrow> distinct (map key_resource ks) \<Longrightarrow> om_ok res \<Longrightarrow>
   \<exists>res'. fold (drop_keyed kind i) ks (res, removed, touched) =
       (res', removed + length ks, touched @ map key_resource ks) \<and> om_ok res' \<and>
     (\<forall>r. om_find res' r = (if r \<in> key_resource ` set ks then map_option (drop_state kind i) (om_find res r)
                            else om_find res r))"
proof (induction ks arbitrary: res removed touched)
  case (Cons k ks)
  let ?r = "key_resource k"
  let ?res = "om_put ?r (drop_state kind i (the (om_find res ?r))) res"
  have k: "keyed kind i res k" using Cons.prems by simp
  then obtain st where st: "om_find res ?r = Some st" by (auto simp: keyed_def)
  have keep: "\<forall>k' \<in> set ks. keyed kind i ?res k'"
  proof
    fix k' assume k': "k' \<in> set ks"
    have "key_resource k \<notin> key_resource ` set ks" using Cons.prems(2) by simp
    with k' have "key_resource k' \<noteq> ?r" by (metis image_eqI)
    then show "keyed kind i ?res k'" using Cons.prems(1) k' by (auto simp: keyed_def)
  qed
  have "distinct (map key_resource ks)" using Cons.prems(2) by simp
  from Cons.IH [OF keep this, of "removed + 1" "touched @ [?r]"] Cons.prems(3) obtain res' where
    res': "fold (drop_keyed kind i) ks (?res, removed + 1, touched @ [?r]) =
       (res', removed + 1 + length ks, touched @ [?r] @ map key_resource ks)" "om_ok res'"
     "\<And>r. om_find res' r = (if r \<in> key_resource ` set ks then map_option (drop_state kind i) (om_find ?res r)
                            else om_find ?res r)"
    by auto
  have "?r \<notin> key_resource ` set ks" using Cons.prems(2) by auto
  then show ?case
    using res' st by (intro exI [of _ res']) (auto simp: drop_keyed_step [OF k])
qed simp


lemma sweep_nothing:
  assumes "om_ok res" and "\<forall>st. om_find res r = Some st \<longrightarrow> (\<forall>(s, e) \<in> set (xs_by_start st). \<not> belongs kind i e)"
  shows "sweep kind i r (res, removed) = (res, removed)"
proof (cases "om_find res r")
  case (Some st)
  then have *: "filter (\<lambda>(_, e). belongs kind i e) (xs_by_start st) = []"
    "filter (\<lambda>(_, e). \<not> belongs kind i e) (xs_by_start st) = xs_by_start st"
    using assms(2) by (auto simp: filter_empty_conv filter_id_conv)
  show ?thesis
    using om_put_same [OF assms(1) Some] by (simp add: sweep_def Some Let_def *)
qed (simp add: sweep_def)

lemma sweep_all_nothing:
  assumes "om_ok res"
    and "\<forall>r \<in> set rs. \<forall>st. om_find res r = Some st \<longrightarrow> (\<forall>(s, e) \<in> set (xs_by_start st). \<not> belongs kind i e)"
  shows "fold (sweep kind i) rs (res, removed) = (res, removed)"
  using assms by (induction rs) (simp_all add: sweep_nothing)

lemma drop_empty_fold:
  "om_ok res \<Longrightarrow> om_ok (fold drop_empty rs res) \<and>
   (\<forall>r. om_find (fold drop_empty rs res) r =
      (if r \<in> set rs \<and> (\<exists>st. om_find res r = Some st \<and> xs_entry_count st = 0) then None else om_find res r))"
proof (induction rs arbitrary: res)
  case (Cons a rs)
  have step: "om_ok (drop_empty a res) \<and> (\<forall>r. om_find (drop_empty a res) r =
      (if r = a \<and> (\<exists>st. om_find res r = Some st \<and> xs_entry_count st = 0) then None else om_find res r))"
    using Cons.prems by (auto simp: drop_empty_def om_find_erase split: option.splits)
  with Cons.IH [of "drop_empty a res"] show ?case by auto
qed simp

lemma set_unique_by_eq: "set (unique_by (=) xs) = set xs"
  by (induction "(=) :: 'a \<Rightarrow> 'a \<Rightarrow> bool" xs rule: unique_by.induct) auto

lemma ci_keys:
  assumes "ci_ok ix"
  shows "k \<in> set (ci_entries ix) \<Longrightarrow> key_belongs kind i k \<Longrightarrow> keyed kind i (ci_resources ix) k"
    and "distinct (map key_resource (filter (key_belongs kind i) (ci_entries ix)))"
    and "(\<exists>k \<in> set (ci_entries ix). key_belongs kind i k \<and> key_resource k = r) \<longleftrightarrow>
         (\<exists>e \<in> set (contents ix r). belongs kind i e)"
proof -
  have find: "om_find (ci_entries ix) (fst k) = Some (snd k)" if "k \<in> set (ci_entries ix)" for k
    using that assms om_find_iff [of "ci_entries ix" "fst k" "snd k"] by (simp add: ci_ok_def)
  show keyed: "keyed kind i (ci_resources ix) k" if "k \<in> set (ci_entries ix)" "key_belongs kind i k" for k
  proof -
    have "fst k = (kind, i, key_resource k)"
      using that(2) by (cases "fst k") (auto simp: key_belongs_def key_resource_def)
    with find [OF that(1)] ci_entries_iff [OF assms] have "\<exists>st e. om_find (ci_resources ix) (key_resource k) = Some st \<and>
        (snd k, e) \<in> set (xs_by_start st) \<and> belongs kind i e" by metis
    then show ?thesis using ci_find_resource [OF assms] by (auto simp: keyed_def)
  qed
  have inj: "inj_on key_resource (set (filter (key_belongs kind i) (ci_entries ix)))"
  proof (rule inj_onI)
    fix a b assume a: "a \<in> set (filter (key_belongs kind i) (ci_entries ix))"
      and b: "b \<in> set (filter (key_belongs kind i) (ci_entries ix))" and eq: "key_resource a = key_resource b"
    then have "fst a = fst b" by (simp add: key_belongs_def key_resource_def prod_eq_iff)
    moreover from this have "snd a = snd b" using find [of a] find [of b] a b by simp
    ultimately show "a = b" by (rule prod_eqI)
  qed
  have "distinct (ci_entries ix)" using assms om_distinct by (auto simp: ci_ok_def distinct_map)
  then show "distinct (map key_resource (filter (key_belongs kind i) (ci_entries ix)))"
    using inj by (simp add: distinct_map)
  show "(\<exists>k \<in> set (ci_entries ix). key_belongs kind i k \<and> key_resource k = r) \<longleftrightarrow>
         (\<exists>e \<in> set (contents ix r). belongs kind i e)"
  proof
    assume "\<exists>k \<in> set (ci_entries ix). key_belongs kind i k \<and> key_resource k = r"
    then show "\<exists>e \<in> set (contents ix r). belongs kind i e"
      using keyed by (fastforce simp: keyed_def contents_def state_for_def)
  next
    assume "\<exists>e \<in> set (contents ix r). belongs kind i e"
    then obtain st s e where "om_find (ci_resources ix) r = Some st" "(s, e) \<in> set (xs_by_start st)" "belongs kind i e"
      by (cases "om_find (ci_resources ix) r") (auto simp: contents_def state_for_def)
    then have "om_find (ci_entries ix) (kind, i, r) = Some s" using ci_entries_iff [OF assms] by blast
    then have "((kind, i, r), s) \<in> set (ci_entries ix)" by (rule om_find_Some_in)
    then show "\<exists>k \<in> set (ci_entries ix). key_belongs kind i k \<and> key_resource k = r"
      by (force simp: key_belongs_def key_resource_def)
  qed
qed


lemma om_find_filter: "om_ok m \<Longrightarrow> om_find (filter p m) k = (case om_find m k of Some v \<Rightarrow> if p (k, v) then Some v else None | None \<Rightarrow> None)"
proof (induction m)
  case (Cons x m)
  obtain a b where x: "x = (a, b)" by fastforce
  have fresh: "map_of m a = None" using Cons.prems x by (simp add: om_ok_Cons_fresh)
  then have "map_of (filter p m) a = None" by (auto simp: map_of_eq_None_iff)
  with Cons fresh x show ?case by (auto simp: om_find_def om_ok_Cons split: option.splits)
qed simp

lemma om_ok_filter: "om_ok m \<Longrightarrow> om_ok (filter p m)"
  by (induction m) (auto simp: om_ok_Cons)

text \<open>Erasing a holder, put together: the entries of the holder are gone, all others are untouched.\<close>

lemma ci_erase_all_shape:
  fixes kind :: holder_kind and i :: identity
  assumes "ci_ok ix"
  defines "ks \<equiv> filter (key_belongs kind i) (ci_entries ix)"
  shows "\<exists>res. ci_erase_all kind i gen ix =
      (if ks = [] then Inl ENotFound else Inr (),
       ix\<lparr>ci_resources := res, ci_entries := filter (\<lambda>k. \<not> key_belongs kind i k) (ci_entries ix),
          ci_entry_count := ci_entry_count ix - length ks\<rparr>) \<and> om_ok res \<and>
    (\<forall>r. om_find res r =
       (case om_find (ci_resources ix) r of
          None \<Rightarrow> None
        | Some st \<Rightarrow>
            if (\<exists>e \<in> set (contents ix r). belongs kind i e)
            then (if xs_entry_count (drop_state kind i st) = 0 then None else Some (drop_state kind i st))
            else Some st))"
proof -
  note keys = ci_keys [OF assms(1), where kind = kind and i = i]
  have ok: "om_ok (ci_resources ix)" using assms(1) by (simp add: ci_ok_def)
  have mem: "r \<in> key_resource ` set ks \<longleftrightarrow> (\<exists>e \<in> set (contents ix r). belongs kind i e)" for r
    using keys(3) [of r] by (auto simp: ks_def)
  obtain res1 where fold1: "fold (drop_keyed kind i) ks (ci_resources ix, 0, []) =
       (res1, length ks, map key_resource ks)" and ok1: "om_ok res1"
     and find1: "\<And>r. om_find res1 r = (if r \<in> key_resource ` set ks
         then map_option (drop_state kind i) (om_find (ci_resources ix) r) else om_find (ci_resources ix) r)"
    using drop_keyed_fold [of ks kind i "ci_resources ix" 0 "[]"] keys(1,2) ok by (auto simp: ks_def)
  have "\<forall>r \<in> set (map key_resource ks). \<forall>st. om_find res1 r = Some st \<longrightarrow>
      (\<forall>(s, e) \<in> set (xs_by_start st). \<not> belongs kind i e)"
    by (auto simp: find1 drop_state_def)
  then have fold2: "fold (sweep kind i) (map key_resource ks) (res1, length ks) = (res1, length ks)"
    by (rule sweep_all_nothing [OF ok1])
  let ?touched = "unique_by (=) (sort_by (<) (map key_resource ks))"
  have le: "\<not> length ks > ci_entry_count ix"
    using assms(1) length_filter_le [of "key_belongs kind i" "ci_entries ix"] by (simp add: ci_ok_def ks_def not_less)
  have set_t: "set ?touched = key_resource ` set ks" by (simp add: set_unique_by_eq)
  note de = drop_empty_fold [OF ok1, of ?touched]
  have "om_find (fold drop_empty ?touched res1) r = (case om_find (ci_resources ix) r of None \<Rightarrow> None
        | Some st \<Rightarrow>
            if (\<exists>e \<in> set (contents ix r). belongs kind i e)
            then (if xs_entry_count (drop_state kind i st) = 0 then None else Some (drop_state kind i st))
            else Some st)" for r
    using de find1 [of r] mem [of r] by (auto simp: set_t split: option.splits)
  moreover have "ci_erase_all kind i gen ix =
      (if ks = [] then Inl ENotFound else Inr (),
       ix\<lparr>ci_resources := fold drop_empty ?touched res1,
          ci_entries := filter (\<lambda>k. \<not> key_belongs kind i k) (ci_entries ix),
          ci_entry_count := ci_entry_count ix - length ks\<rparr>)"
    using fold1 fold2 le unfolding ci_erase_all_def ks_def [symmetric] by (auto simp: Let_def)
  ultimately show ?thesis using de by blast
qed


lemma ci_erase_all_parts:
  assumes "ci_ok ix"
  shows "fst (ci_erase_all kind i gen ix) =
      (if filter (key_belongs kind i) (ci_entries ix) = [] then Inl ENotFound else Inr ())"
    and "ci_entries (snd (ci_erase_all kind i gen ix)) = filter (\<lambda>k. \<not> key_belongs kind i k) (ci_entries ix)"
    and "ci_entry_count (snd (ci_erase_all kind i gen ix)) =
      ci_entry_count ix - length (filter (key_belongs kind i) (ci_entries ix))"
    and "om_ok (ci_resources (snd (ci_erase_all kind i gen ix)))"
    and "om_find (ci_resources (snd (ci_erase_all kind i gen ix))) r =
       (case om_find (ci_resources ix) r of
          None \<Rightarrow> None
        | Some st \<Rightarrow>
            if (\<exists>e \<in> set (contents ix r). belongs kind i e)
            then (if xs_entry_count (drop_state kind i st) = 0 then None else Some (drop_state kind i st))
            else Some st)"
  using ci_erase_all_shape [OF assms, of kind i gen] by auto

text \<open>The entries of a resource with their starts, empty where the resource has no state.\<close>

definition starts :: "capacity_index \<Rightarrow> name \<Rightarrow> (timestamp, index_entry) omap" where
  "starts ix r = (case om_find (ci_resources ix) r of None \<Rightarrow> [] | Some st \<Rightarrow> xs_by_start st)"

lemma contents_starts: "contents ix r = map snd (starts ix r)"
  by (simp add: contents_def starts_def state_for_def split: option.splits)

lemma ci_entries_starts:
  "ci_ok ix \<Longrightarrow> om_find (ci_entries ix) (kind, i, r) = Some s \<longleftrightarrow>
     (\<exists>e. (s, e) \<in> set (starts ix r) \<and> belongs kind i e)"
  by (cases "om_find (ci_resources ix) r") (auto simp: ci_entries_iff starts_def)

lemma dropped_state:
  assumes "ci_ok ix" "om_find (ci_resources ix) r = Some st" "\<exists>e \<in> set (contents ix r). belongs kind i e"
  shows "rs_ok r (drop_state kind i st)"
    and "xs_by_start (drop_state kind i st) = filter (\<lambda>(_, e). \<not> belongs kind i e) (xs_by_start st)"
proof -
  obtain s e where "(s, e) \<in> set (xs_by_start st)" "belongs kind i e"
    using assms(2,3) by (auto simp: contents_def state_for_def)
  with drop_state_ok(1) ci_find_resource [OF assms(1,2)] show "rs_ok r (drop_state kind i st)" by blast
qed (simp add: drop_state_def)

lemma erased_starts:
  assumes "ci_ok ix"
  shows "starts (snd (ci_erase_all kind i gen ix)) r = filter (\<lambda>(_, e). \<not> belongs kind i e) (starts ix r)"
proof (cases "om_find (ci_resources ix) r")
  case None
  then show ?thesis using assms by (simp add: starts_def ci_erase_all_parts)
next
  case (Some st)
  show ?thesis
  proof (cases "\<exists>e \<in> set (contents ix r). belongs kind i e")
    case True
    note d = dropped_state [OF assms Some True]
    have "xs_entry_count (drop_state kind i st) = length (filter (\<lambda>(_, e). \<not> belongs kind i e) (xs_by_start st))"
      using d by (simp add: rs_ok_def)
    then show ?thesis
      using d Some True assms by (simp add: starts_def ci_erase_all_parts)
  next
    case False
    then have "filter (\<lambda>(_, e). \<not> belongs kind i e) (xs_by_start st) = xs_by_start st"
      using Some by (auto simp: filter_id_conv contents_def state_for_def)
    then show ?thesis using False Some assms by (simp add: starts_def ci_erase_all_parts)
  qed
qed

lemma ci_erase_all_contents:
  "ci_ok ix \<Longrightarrow> contents (snd (ci_erase_all kind i gen ix)) r = filter (\<lambda>e. \<not> belongs kind i e) (contents ix r)"
  by (simp add: contents_starts erased_starts filter_map comp_def case_prod_unfold)

lemma ci_erase_all_result:
  assumes "ci_ok ix"
  shows "fst (ci_erase_all kind i gen ix) =
     (if \<exists>r. \<exists>e \<in> set (contents ix r). belongs kind i e then Inr () else Inl ENotFound)"
proof -
  have "(\<exists>k \<in> set (ci_entries ix). key_belongs kind i k) \<longleftrightarrow> (\<exists>r. \<exists>e \<in> set (contents ix r). belongs kind i e)"
    unfolding ci_keys(3) [OF assms, symmetric] by blast
  then show ?thesis using assms by (auto simp: ci_erase_all_parts filter_empty_conv)
qed

lemma erased_states:
  assumes "ci_ok ix" "om_find (ci_resources (snd (ci_erase_all kind i gen ix))) r = Some st"
  shows "rs_ok r st \<and> xs_by_start st \<noteq> []"
proof -
  obtain st0 where st0: "om_find (ci_resources ix) r = Some st0"
    using assms by (cases "om_find (ci_resources ix) r") (simp_all add: ci_erase_all_parts)
  show ?thesis
  proof (cases "\<exists>e \<in> set (contents ix r). belongs kind i e")
    case True
    then have "st = drop_state kind i st0" "xs_entry_count st \<noteq> 0"
      using assms st0 by (auto simp: ci_erase_all_parts split: if_splits)
    then show ?thesis using dropped_state(1) [OF assms(1) st0 True] by (auto simp: rs_ok_def)
  next
    case False
    then show ?thesis using assms st0 ci_find_resource by (auto simp: ci_erase_all_parts)
  qed
qed

lemma ci_erase_all_ok:
  assumes "ci_ok ix"
  shows "ci_ok (snd (ci_erase_all kind i gen ix))"
proof -
  let ?ix = "snd (ci_erase_all kind i gen ix)"
  have "om_find (ci_entries ?ix) (kind', i', r) = Some s \<longleftrightarrow>
      (\<exists>st e. om_find (ci_resources ?ix) r = Some st \<and> (s, e) \<in> set (xs_by_start st) \<and> belongs kind' i' e)" for kind' i' r s
  proof -
    have "om_find (ci_entries ?ix) (kind', i', r) = Some s \<longleftrightarrow>
        om_find (ci_entries ix) (kind', i', r) = Some s \<and> \<not> key_belongs kind i ((kind', i', r), s)"
      using assms ci_ok_entries [OF assms]
      by (cases "om_find (ci_entries ix) (kind', i', r)") (auto simp: ci_erase_all_parts om_find_filter)
    also have "\<dots> \<longleftrightarrow> (\<exists>e. (s, e) \<in> set (starts ?ix r) \<and> belongs kind' i' e)"
      unfolding ci_entries_starts [OF assms] erased_starts [OF assms]
      by (auto simp: key_belongs_def belongs_def)
    also have "\<dots> \<longleftrightarrow> (\<exists>st e. om_find (ci_resources ?ix) r = Some st \<and> (s, e) \<in> set (xs_by_start st) \<and> belongs kind' i' e)"
      by (cases "om_find (ci_resources ?ix) r") (auto simp: starts_def)
    finally show ?thesis .
  qed
  moreover have "ci_entry_count ?ix = length (ci_entries ?ix)"
    using assms sum_length_filter_compl [of "key_belongs kind i" "ci_entries ix"]
    unfolding ci_erase_all_parts [OF assms] by (simp add: ci_ok_def)
  moreover have "om_ok (ci_entries ?ix)"
    unfolding ci_erase_all_parts [OF assms] by (rule om_ok_filter [OF ci_ok_entries [OF assms]])
  ultimately show ?thesis
    unfolding ci_ok_def using ci_erase_all_parts(4) [OF assms] erased_states [OF assms] by blast
qed

text \<open>Erasing one entry of a holder, which must name the generation the entry was made with.\<close>

definition entry_of :: "capacity_index \<Rightarrow> holder_kind \<Rightarrow> identity \<Rightarrow> name \<Rightarrow> index_entry option" where
  "entry_of ix kind i r = find (belongs kind i) (contents ix r)"

lemma entry_of_Some:
  "entry_of ix kind i r = Some e \<Longrightarrow> e \<in> set (contents ix r) \<and> belongs kind i e"
  by (auto simp: entry_of_def find_Some_iff)

lemma ci_erase_missing:
  assumes "ci_ok ix" "entry_of ix kind i r = None"
  shows "ci_erase kind i gen r ix = (Inl ENotFound, ix)"
proof -
  have "om_find (ci_entries ix) (kind, i, r) \<noteq> Some s" for s
    using assms ci_entries_starts [OF assms(1), of kind i r s]
    by (force simp: entry_of_def find_None_iff contents_starts)
  then have "om_find (ci_entries ix) (kind, i, r) = None" by (metis option.exhaust)
  then show ?thesis by (simp add: ci_erase_def)
qed

lemma mm_first_narrow:
  assumes "mm_first p k m = Some v" and "\<forall>(a, b) \<in> set m. p b \<longrightarrow> b = v"
  shows "mm_first (\<lambda>b. p b \<and> q b) k m = (if q v then Some v else None)"
    and "q v \<Longrightarrow> mm_drop (\<lambda>b. p b \<and> q b) k m = mm_drop p k m"
proof -
  have pv: "\<forall>(a, b) \<in> set m. (p b \<and> q b) = p b" if "q v" using assms(2) that by auto
  have "find (\<lambda>(a, b). a = k \<and> p b \<and> q b) m = find (\<lambda>(a, b). a = k \<and> p b) m" if "q v"
    using pv [OF that] by (intro find_cong) auto
  with assms(1) have "mm_first (\<lambda>b. p b \<and> q b) k m = Some v" if "q v" using that by (simp add: mm_first_def)
  moreover have "mm_first (\<lambda>b. p b \<and> q b) k m = None" if "\<not> q v"
    using assms(2) that by (auto simp: mm_first_None)
  ultimately show "mm_first (\<lambda>b. p b \<and> q b) k m = (if q v then Some v else None)" by simp
  show "mm_drop (\<lambda>b. p b \<and> q b) k m = mm_drop p k m" if "q v"
    using pv [OF that] by (induction m) (auto split: if_splits)
qed

lemma ci_erase_found:
  assumes "ci_ok ix" "entry_of ix kind i r = Some e"
  obtains st where "om_find (ci_resources ix) r = Some st"
    "(iv_start (ie_interval e), e) \<in> set (xs_by_start st)" "belongs kind i e"
    "om_find (ci_entries ix) (kind, i, r) = Some (iv_start (ie_interval e))"
    "ci_erase kind i gen r ix =
      (if ie_holder_generation e = gen
       then (Inr (), ix\<lparr>ci_resources := (if xs_entry_count (drop_state kind i st) = 0 then om_erase r (ci_resources ix)
               else om_put r (drop_state kind i st) (ci_resources ix)),
             ci_entries := om_erase (kind, i, r) (ci_entries ix), ci_entry_count := ci_entry_count ix - 1\<rparr>)
       else (Inl EInternal, ix))"
proof -
  from entry_of_Some [OF assms(2)] obtain st s where st: "om_find (ci_resources ix) r = Some st"
    and e: "(s, e) \<in> set (xs_by_start st)" "belongs kind i e"
    by (cases "om_find (ci_resources ix) r") (auto simp: contents_def state_for_def)
  have ok: "rs_ok r st" using ci_find_resource [OF assms(1) st] by blast
  with e have s: "s = iv_start (ie_interval e)" by (auto simp: rs_ok_def)
  have entry: "om_find (ci_entries ix) (kind, i, r) = Some s" using ci_entries_iff [OF assms(1)] st e by blast
  note bd = belongs_drop [OF ok e] and ds = drop_state_ok(2) [OF ok e]
  have hit: "(\<lambda>e. ie_id e = i \<and> ie_holder_generation e = gen \<and> ie_kind e = kind) =
      (\<lambda>e. belongs kind i e \<and> ie_holder_generation e = gen)" by (auto simp: belongs_def)
  have "\<forall>(a, b) \<in> set (xs_by_start st). belongs kind i b \<longrightarrow> b = e"
    using belongs_unique [OF ok e(1) _ e(2)] by auto
  note nar = mm_first_narrow [OF bd [THEN conjunct1] this, of "\<lambda>e. ie_holder_generation e = gen"]
  have "ci_erase kind i gen r ix =
      (if ie_holder_generation e = gen
       then (Inr (), ix\<lparr>ci_resources := (if xs_entry_count (drop_state kind i st) = 0 then om_erase r (ci_resources ix)
               else om_put r (drop_state kind i st) (ci_resources ix)),
             ci_entries := om_erase (kind, i, r) (ci_entries ix), ci_entry_count := ci_entry_count ix - 1\<rparr>)
       else (Inl EInternal, ix))"
    unfolding ci_erase_def entry state_for_def st hit using nar ds by (simp add: Let_def)
  with st e entry s show thesis using that by blast
qed

lemma om_erase_length: "om_find m k = Some v \<Longrightarrow> Suc (length (om_erase k m)) = length m"
  by (induction k m rule: om_erase.induct) (auto simp: om_find_def split: if_splits)

lemma erase_one_starts:
  assumes "ci_ok ix" "entry_of ix kind i r = Some e" "ie_holder_generation e = gen"
  defines "ix1 \<equiv> snd (ci_erase kind i gen r ix)"
  shows "fst (ci_erase kind i gen r ix) = Inr ()"
    and "starts ix1 r = filter (\<lambda>(_, e). \<not> belongs kind i e) (starts ix r)"
    and "r' \<noteq> r \<Longrightarrow> starts ix1 r' = starts ix r'"
    and "ci_ok ix1"
proof -
  obtain st where st: "om_find (ci_resources ix) r = Some st"
    and e: "(iv_start (ie_interval e), e) \<in> set (xs_by_start st)" "belongs kind i e"
    and entry: "om_find (ci_entries ix) (kind, i, r) = Some (iv_start (ie_interval e))"
    and run: "ci_erase kind i gen r ix =
      (Inr (), ix\<lparr>ci_resources := (if xs_entry_count (drop_state kind i st) = 0 then om_erase r (ci_resources ix)
               else om_put r (drop_state kind i st) (ci_resources ix)),
             ci_entries := om_erase (kind, i, r) (ci_entries ix), ci_entry_count := ci_entry_count ix - 1\<rparr>)"
    using ci_erase_found [OF assms(1,2), of gen] assms(3) by metis
  have okr: "om_ok (ci_resources ix)" using assms(1) by (simp add: ci_ok_def)
  have "\<exists>e \<in> set (contents ix r). belongs kind i e"
    using st e by (force simp: contents_def state_for_def)
  note d = dropped_state [OF assms(1) st this]
  have cnt: "xs_entry_count (drop_state kind i st) = length (filter (\<lambda>(_, e). \<not> belongs kind i e) (xs_by_start st))"
    using d by (simp add: rs_ok_def)
  show "fst (ci_erase kind i gen r ix) = Inr ()" by (simp add: run)
  have find: "om_find (ci_resources ix1) r' =
      (if r' = r then (if xs_entry_count (drop_state kind i st) = 0 then None else Some (drop_state kind i st))
       else om_find (ci_resources ix) r')" for r'
    using okr by (simp add: ix1_def run om_find_erase)
  show s: "starts ix1 r = filter (\<lambda>(_, e). \<not> belongs kind i e) (starts ix r)"
    using d cnt st find by (auto simp: starts_def)
  show s': "r' \<noteq> r \<Longrightarrow> starts ix1 r' = starts ix r'" for r' by (simp add: starts_def find)
  have entries: "ci_entries ix1 = om_erase (kind, i, r) (ci_entries ix)" by (simp add: ix1_def run)
  have "om_find (ci_entries ix1) (kind', i', r') = Some s \<longleftrightarrow>
      (\<exists>st e. om_find (ci_resources ix1) r' = Some st \<and> (s, e) \<in> set (xs_by_start st) \<and> belongs kind' i' e)" for kind' i' r' s
  proof -
    have "om_find (ci_entries ix1) (kind', i', r') = Some s \<longleftrightarrow>
        om_find (ci_entries ix) (kind', i', r') = Some s \<and> (kind', i', r') \<noteq> (kind, i, r)"
      using ci_ok_entries [OF assms(1)] by (simp add: entries om_find_erase)
    also have "\<dots> \<longleftrightarrow> (\<exists>e. (s, e) \<in> set (starts ix1 r') \<and> belongs kind' i' e)"
      unfolding ci_entries_starts [OF assms(1)] by (cases "r' = r") (auto simp: s s' belongs_def)
    also have "\<dots> \<longleftrightarrow> (\<exists>st e. om_find (ci_resources ix1) r' = Some st \<and> (s, e) \<in> set (xs_by_start st) \<and> belongs kind' i' e)"
      by (cases "om_find (ci_resources ix1) r'") (auto simp: starts_def)
    finally show ?thesis .
  qed
  moreover have "rs_ok r' st' \<and> xs_by_start st' \<noteq> []" if "om_find (ci_resources ix1) r' = Some st'" for r' st'
    using that ci_find_resource [OF assms(1)] d(1) unfolding find by (auto simp: rs_ok_def split: if_splits)
  moreover have "ci_entry_count ix1 = length (ci_entries ix1)"
    using assms(1) om_erase_length [OF entry] by (simp add: ci_ok_def ix1_def run)
  ultimately show "ci_ok ix1"
    unfolding ci_ok_def using okr ci_ok_entries [OF assms(1)] by (simp add: ix1_def run om_ok_erase)
qed


subsection \<open>The index as a finite map of entries\<close>

text \<open>The specification: one entry at most for a holder and a resource, and nothing else.\<close>

type_synonym entry_map = "entry_identity \<Rightarrow> index_entry option"

definition index_abs :: "capacity_index \<Rightarrow> entry_map" where
  "index_abs ix = (\<lambda>(kind, i, r). entry_of ix kind i r)"

definition spec_loads :: "entry_map \<Rightarrow> name \<Rightarrow> (index_entry \<Rightarrow> bool) \<Rightarrow> loads" where
  "spec_loads m r p = image_mset (\<lambda>e. (ie_interval e, ie_amount e)) (mset_set {e \<in> ran m. ie_resource e = r \<and> p e})"

datatype index_event =
    IxInsert index_entry
  | IxErase holder_kind identity u64 name
  | IxEraseAll holder_kind identity u64

fun index_event_run :: "index_event \<Rightarrow> (capacity_index, error_code, unit) op" where
  "index_event_run (IxInsert e) = ci_insert e"
| "index_event_run (IxErase kind i gen r) = ci_erase kind i gen r"
| "index_event_run (IxEraseAll kind i gen) = ci_erase_all kind i gen"

fun spec_event :: "index_event \<Rightarrow> entry_map \<Rightarrow> (error_code + unit) \<times> entry_map" where
  "spec_event (IxInsert e) m =
     (if iv_empty (ie_interval e) then (Inl EInvalidInterval, m)
      else if ie_amount e \<le> 0 then (Inl EInvalidBandwidth, m)
      else if ie_resource e = [] then (Inl EInvalidName, m)
      else if m (entry_key e) \<noteq> None then (Inl EAlreadyExists, m)
      else (Inr (), m(entry_key e \<mapsto> e)))"
| "spec_event (IxErase kind i gen r) m =
     (case m (kind, i, r) of
        None \<Rightarrow> (Inl ENotFound, m)
      | Some e \<Rightarrow> if ie_holder_generation e = gen then (Inr (), m((kind, i, r) := None)) else (Inl EInternal, m))"
| "spec_event (IxEraseAll kind i gen) m =
     (if \<exists>r. m (kind, i, r) \<noteq> None then (Inr (), \<lambda>(k, j, r). if k = kind \<and> j = i then None else m (k, j, r))
      else (Inl ENotFound, m))"

text \<open>
  An insertion is in range when the load of its resource stays below the saturation point of the counters
  at every instant of the timeline; erasures are always in range.
\<close>

fun event_fits :: "index_event \<Rightarrow> entry_map \<Rightarrow> bool" where
  "event_fits (IxInsert e) m \<longleftrightarrow> 
     (\<forall>x. on_timeline x \<longrightarrow> 
        load (add_mset (ie_interval e, ie_amount e) (spec_loads m (ie_resource e) (\<lambda>_. True))) x \<le> load_bound)"
| "event_fits _ m \<longleftrightarrow> True"

lemma rs_entries:
  assumes "ci_ok ix"
  shows "distinct (map (\<lambda>e. (ie_kind e, ie_id e)) (contents ix r))" and "\<forall>e \<in> set (contents ix r). ie_resource e = r"
proof (atomize (full), cases "om_find (ci_resources ix) r")
  case (Some st)
  then show "distinct (map (\<lambda>e. (ie_kind e, ie_id e)) (contents ix r)) \<and> (\<forall>e \<in> set (contents ix r). ie_resource e = r)"
    using ci_find_resource [OF assms Some] by (auto simp: rs_ok_def contents_def state_for_def comp_def case_prod_unfold)
qed (simp add: contents_def state_for_def)

lemma distinct_key_find:
  "distinct (map f xs) \<Longrightarrow> find (\<lambda>e. f e = k) xs = Some e \<longleftrightarrow> e \<in> set xs \<and> f e = k"
  by (induction xs) auto

lemma entry_of_iff:
  assumes "ci_ok ix"
  shows "entry_of ix kind i r = Some e \<longleftrightarrow> e \<in> set (contents ix r) \<and> belongs kind i e"
proof -
  have "belongs kind i = (\<lambda>e. (ie_kind e, ie_id e) = (kind, i))" by (auto simp: belongs_def)
  then show ?thesis
    unfolding entry_of_def by (simp only: distinct_key_find [OF rs_entries(1) [OF assms]])
qed

lemma entry_of_cong:
  assumes "ci_ok ix" "ci_ok ix'" "set (contents ix r) = set (contents ix' r)"
  shows "entry_of ix kind i r = entry_of ix' kind i r"
  using entry_of_iff [OF assms(1), of kind i r] entry_of_iff [OF assms(2), of kind i r] assms(3)
  by (metis option.exhaust)

lemma contents_spec:
  assumes "ci_ok ix"
  shows "mset (filter p (contents ix r)) = mset_set {e \<in> ran (index_abs ix). ie_resource e = r \<and> p e}"
proof -
  have "distinct (contents ix r)" using rs_entries(1) [OF assms] by (simp add: distinct_map)
  then have "mset (filter p (contents ix r)) = mset_set (set (filter p (contents ix r)))"
    by (intro mset_set_set [symmetric] distinct_filter)
  also have "set (filter p (contents ix r)) = {e \<in> ran (index_abs ix). ie_resource e = r \<and> p e}"
    using rs_entries(2) [OF assms]
    by (auto simp: ran_def index_abs_def entry_of_iff [OF assms] belongs_def)
  finally show ?thesis .
qed

lemma axis_spec: "ci_ok ix \<Longrightarrow> axis_loads p (contents ix r) = spec_loads (index_abs ix) r p"
  unfolding axis_loads_def spec_loads_def by (simp add: contents_spec [symmetric])


lemma fits_spec: "ci_ok ix \<Longrightarrow> event_fits (IxInsert e) (index_abs ix) \<longleftrightarrow> fits ix e"
  by (simp add: fits_def axis_loads_Cons axis_spec)

lemma entry_absent:
  assumes "ci_ok ix"
  shows "om_find (ci_entries ix) (kind, i, r) = None \<longleftrightarrow> index_abs ix (kind, i, r) = None"
proof -
  have "(\<exists>s. om_find (ci_entries ix) (kind, i, r) = Some s) \<longleftrightarrow> (\<exists>e. index_abs ix (kind, i, r) = Some e)"
    unfolding ci_entries_starts [OF assms] index_abs_def
    by (force simp: entry_of_iff [OF assms] contents_starts)
  then show ?thesis by (metis not_Some_eq)
qed

lemma insert_refines:
  assumes "ci_ok ix" "event_fits (IxInsert e) (index_abs ix)"
  shows "ci_ok (snd (ci_insert e ix)) \<and>
    (fst (ci_insert e ix), index_abs (snd (ci_insert e ix))) = spec_event (IxInsert e) (index_abs ix)"
proof (cases "ci_insert_ok ix e")
  case True
  note k = ci_insert_keeps [OF assms(1) True fits_spec [OF assms(1), THEN iffD1, OF assms(2)]]
  have none: "index_abs ix (entry_key e) = None"
    using True entry_absent [OF assms(1)] by (auto simp: ci_insert_ok_def entry_key_def)
  have set1: "set (contents (snd (ci_insert e ix)) r) = (if r = ie_resource e then insert e (set (contents ix r)) else set (contents ix r))" for r
    using k(2,3) by (cases "r = ie_resource e") (metis set_mset_add_mset_insert set_mset_mset, simp)
  have "index_abs (snd (ci_insert e ix)) (kind, i, r) = ((index_abs ix)(entry_key e \<mapsto> e)) (kind, i, r)" for kind i r
  proof (cases "(kind, i, r) = entry_key e")
    case True
    have "entry_of (snd (ci_insert e ix)) kind i r = Some e"
      using True by (auto simp: entry_of_iff [OF k(1)] set1 entry_key_def belongs_def)
    then show ?thesis using True by (simp add: index_abs_def True [symmetric])
  next
    case False
    have "entry_of (snd (ci_insert e ix)) kind i r = Some e' \<longleftrightarrow> entry_of ix kind i r = Some e'" for e'
      using False by (auto simp: entry_of_iff [OF k(1)] entry_of_iff [OF assms(1)] set1 entry_key_def belongs_def)
    then have "entry_of (snd (ci_insert e ix)) kind i r = entry_of ix kind i r" by (metis not_Some_eq)
    then show ?thesis using False by (simp add: index_abs_def)
  qed
  then have "index_abs (snd (ci_insert e ix)) = (index_abs ix)(entry_key e \<mapsto> e)" by (auto simp: fun_eq_iff)
  then show ?thesis using k(1) True none ci_insert_result(1) [of e ix] by (simp add: ci_insert_ok_def)
next
  case False
  have "om_find (ci_entries ix) (entry_key e) = None \<longleftrightarrow> index_abs ix (entry_key e) = None"
    using entry_absent [OF assms(1)] by (simp add: entry_key_def)
  with False show ?thesis using assms(1) by (auto simp: ci_insert_def ci_insert_ok_def)
qed

lemma erase_refines:
  assumes "ci_ok ix"
  shows "ci_ok (snd (ci_erase kind i gen r ix)) \<and>
    (fst (ci_erase kind i gen r ix), index_abs (snd (ci_erase kind i gen r ix))) =
      spec_event (IxErase kind i gen r) (index_abs ix)"
proof (cases "entry_of ix kind i r")
  case None
  then show ?thesis using ci_erase_missing [OF assms] assms by (simp add: index_abs_def)
next
  case (Some e)
  show ?thesis
  proof (cases "ie_holder_generation e = gen")
    case True
    note k = erase_one_starts [OF assms Some True]
    have "entry_of (snd (ci_erase kind i gen r ix)) k j q = (if (k, j, q) = (kind, i, r) then None else entry_of ix k j q)" for k j q
    proof -
      have "entry_of (snd (ci_erase kind i gen r ix)) k j q = Some e' \<longleftrightarrow>
          (k, j, q) \<noteq> (kind, i, r) \<and> entry_of ix k j q = Some e'" for e'
        unfolding entry_of_iff [OF k(4)] entry_of_iff [OF assms]
        by (cases "q = r") (auto simp: contents_starts k(2,3) belongs_def)
      then show ?thesis by (metis not_Some_eq)
    qed
    then show ?thesis using k(1,4) Some True by (auto simp: index_abs_def fun_eq_iff)
  next
    case False
    have "ci_erase kind i gen r ix = (Inl EInternal, ix)"
      by (rule ci_erase_found [OF assms Some, of gen]) (use False in simp)
    then show ?thesis using Some False assms by (simp add: index_abs_def)
  qed
qed

lemma erase_all_refines:
  assumes "ci_ok ix"
  shows "ci_ok (snd (ci_erase_all kind i gen ix)) \<and>
    (fst (ci_erase_all kind i gen ix), index_abs (snd (ci_erase_all kind i gen ix))) =
      spec_event (IxEraseAll kind i gen) (index_abs ix)"
proof -
  let ?ix = "snd (ci_erase_all kind i gen ix)"
  note ok = ci_erase_all_ok [OF assms, of kind i gen]
  have e: "entry_of ?ix k j r = (if k = kind \<and> j = i then None else entry_of ix k j r)" for k j r
  proof -
    have "entry_of ?ix k j r = Some e' \<longleftrightarrow> \<not> (k = kind \<and> j = i) \<and> entry_of ix k j r = Some e'" for e'
      unfolding entry_of_iff [OF ok] entry_of_iff [OF assms] ci_erase_all_contents [OF assms]
      by (auto simp: belongs_def)
    then show ?thesis by (metis not_Some_eq)
  qed
  have x: "(\<exists>r. \<exists>e \<in> set (contents ix r). belongs kind i e) \<longleftrightarrow> (\<exists>r. entry_of ix kind i r \<noteq> None)"
    using entry_of_iff [OF assms, of kind i] by (metis not_Some_eq)
  have "index_abs ?ix = (\<lambda>(k, j, r). if k = kind \<and> j = i then None else index_abs ix (k, j, r))"
    by (auto simp: index_abs_def fun_eq_iff e)
  moreover have "\<dots> = index_abs ix" if "\<not> (\<exists>r. entry_of ix kind i r \<noteq> None)"
    using that by (auto simp: index_abs_def fun_eq_iff)
  ultimately show ?thesis
    using ok ci_erase_all_result [OF assms, of kind i gen] unfolding x by (auto simp: index_abs_def)
qed

lemma event_refines:
  "ci_ok ix \<Longrightarrow> event_fits ev (index_abs ix) \<Longrightarrow>
   ci_ok (snd (index_event_run ev ix)) \<and>
   (fst (index_event_run ev ix), index_abs (snd (index_event_run ev ix))) = spec_event ev (index_abs ix)"
  by (cases ev) (simp_all only: index_event_run.simps insert_refines erase_refines erase_all_refines)

text \<open>Runs of events, and a run of the specification whose every insertion is in range.\<close>

fun index_runs :: "index_event list \<Rightarrow> capacity_index \<Rightarrow> (error_code + unit) list \<times> capacity_index" where
  "index_runs [] ix = ([], ix)"
| "index_runs (ev # evs) ix =
     (let (res, ix1) = index_event_run ev ix; (rest, ix2) = index_runs evs ix1 in (res # rest, ix2))"

fun spec_runs :: "index_event list \<Rightarrow> entry_map \<Rightarrow> (error_code + unit) list \<times> entry_map" where
  "spec_runs [] m = ([], m)"
| "spec_runs (ev # evs) m = (let (res, m1) = spec_event ev m; (rest, m2) = spec_runs evs m1 in (res # rest, m2))"

fun runs_fit :: "index_event list \<Rightarrow> entry_map \<Rightarrow> bool" where
  "runs_fit [] m \<longleftrightarrow> True"
| "runs_fit (ev # evs) m \<longleftrightarrow> event_fits ev m \<and> runs_fit evs (snd (spec_event ev m))"

lemma runs_refine:
  "ci_ok ix \<Longrightarrow> runs_fit evs (index_abs ix) \<Longrightarrow>
   ci_ok (snd (index_runs evs ix)) \<and>
   (fst (index_runs evs ix), index_abs (snd (index_runs evs ix))) = spec_runs evs (index_abs ix)"
proof (induction evs arbitrary: ix)
  case (Cons ev evs)
  obtain res ix1 where s: "index_event_run ev ix = (res, ix1)" by fastforce
  have "ci_ok ix1" "spec_event ev (index_abs ix) = (res, index_abs ix1)"
    using event_refines [of ix ev] Cons.prems s by auto
  with Cons.IH [of ix1] Cons.prems show ?case
    by (auto simp: s split_def Let_def) (metis fst_conv snd_conv)+
qed simp

lemma ci_empty_ok: "ci_ok ci_empty" "index_abs ci_empty = (\<lambda>_. None)"
  by (auto simp: ci_ok_def ci_empty_def index_abs_def entry_of_def contents_def state_for_def om_find_def om_ok_def)

lemma queries_exact:
  assumes "ci_ok ix"
  shows "peak_committed ix r w = spec_peak (spec_loads (index_abs ix) r is_committed) w"
    and "peak_holds ix r w = spec_peak (spec_loads (index_abs ix) r (\<lambda>e. \<not> is_committed e)) w"
    and "peak_combined ix r w = spec_peak (spec_loads (index_abs ix) r (\<lambda>_. True)) w"
    and "committed_at ix r t = (if on_timeline t then load (spec_loads (index_abs ix) r is_committed) t else 0)"
proof -
  define st where "st = (case state_for ix r of Some st \<Rightarrow> st | None \<Rightarrow> fresh_state)"
  have acc: "accounted (contents ix r) st"
    unfolding st_def by (rule ci_contents_accounted [OF assms])
  have zero: "ici_peak ici_new w = 0" "ici_at ici_new t = 0" for w t
    using ici.peak_exact [OF ici.rep_new, of w] ici.at_exact [OF ici.rep_new, of t] by (auto simp: spec_peak_def)
  have "peak_committed ix r w = ici_peak (xs_committed st) w" "peak_holds ix r w = ici_peak (xs_holds st) w"
    "peak_combined ix r w = ici_peak (xs_combined st) w" "committed_at ix r t = ici_at (xs_committed st) t"
    by (simp_all add: st_def peak_committed_def peak_holds_def peak_combined_def committed_at_def fresh_state_def zero
          split: option.splits)
  with acc show "peak_committed ix r w = spec_peak (spec_loads (index_abs ix) r is_committed) w"
    "peak_holds ix r w = spec_peak (spec_loads (index_abs ix) r (\<lambda>e. \<not> is_committed e)) w"
    "peak_combined ix r w = spec_peak (spec_loads (index_abs ix) r (\<lambda>_. True)) w"
    "committed_at ix r t = (if on_timeline t then load (spec_loads (index_abs ix) r is_committed) t else 0)"
    by (auto simp: accounted_def ici.peak_exact ici.at_exact axis_spec [OF assms, symmetric])
qed


definition sample_entry :: index_entry where
  "sample_entry = \<lparr>ie_kind = HkReservation, ie_id = 7, ie_holder_generation = 1, ie_resource = ''link'',
     ie_interval = mk_iv 10 20, ie_amount = 5, ie_guarantee = GcGuaranteed, ie_state = RsCommitted\<rparr>"


end
