(* ===== verification/Brf_Codec.thy ===== *)
theory Brf_Codec
  imports Brf_Outcome
begin

text \<open>
  The canonical codecs of \<^verbatim>\<open>include/brf/codec.hpp\<close> and \<^verbatim>\<open>src/codec.cpp\<close> for the
  domain types: enumerations, names, optional amounts, references, authority vectors, provenance,
  capacity and path statements, policies, terms, records, edges and series.

  Every encoder and decoder is written field by field as in the source, with the bounds the decoders
  insist on, and every pair is an interpretation of the locale \<open>codec\<close>: decoding undoes encoding
  on the values that fit, and nothing else decodes. Which values fit is read off the decoder, not off the
  domain validation.
\<close>

subsection \<open>Shared shapes\<close>

text \<open>An enumeration is written as the position of its enumerator, which is the value it has in C++.\<close>

definition enum_index :: "'a list \<Rightarrow> 'a \<Rightarrow> nat" where
  "enum_index xs v = length (takeWhile (\<lambda>x. x \<noteq> v) xs)"

definition enc_enum :: "'a list \<Rightarrow> 'a \<Rightarrow> bytes" where
  "enc_enum xs v = w_u8 (of_nat (enum_index xs v))"

definition dec_enum :: "'a list \<Rightarrow> 'a reader" where
  "dec_enum xs = dbind r_u8 (\<lambda>raw. if unat raw \<ge> length xs then dfail ECorrupt else dret (xs ! unat raw))"

text \<open>A field read and then refused with an error when it is out of its bound.\<close>

definition dec_checked :: "'a reader \<Rightarrow> ('a \<Rightarrow> bool) \<Rightarrow> error_code \<Rightarrow> 'a reader" where
  "dec_checked d p e = dbind d (\<lambda>x. if p x then dret x else dfail e)"

definition decode_list :: "'a reader \<Rightarrow> 'a list reader" where
  "decode_list d = r_list kMaxCollectionItems d"

definition list_fits :: "('a \<Rightarrow> bool) \<Rightarrow> 'a list \<Rightarrow> bool" where
  "list_fits p xs \<longleftrightarrow> length xs \<le> kMaxCollectionItems \<and> list_all p xs"

text \<open>A member guarded by a \<^verbatim>\<open>has_\<close> flag: absent, it is neither written nor read.\<close>

definition enc_flagged :: "('a \<Rightarrow> bytes) \<Rightarrow> 'a option \<Rightarrow> bytes" where
  "enc_flagged enc v = (case v of None \<Rightarrow> w_boolean False | Some x \<Rightarrow> w_boolean True @ enc x)"

definition dec_flagged :: "'a reader \<Rightarrow> 'a option reader" where
  "dec_flagged d = dbind r_boolean (\<lambda>present. if present then dbind d (\<lambda>x. dret (Some x)) else dret None)"

definition flagged_fits :: "('a \<Rightarrow> bool) \<Rightarrow> 'a option \<Rightarrow> bool" where
  "flagged_fits p v \<longleftrightarrow> (case v of None \<Rightarrow> True | Some x \<Rightarrow> p x)"

definition dec_name :: "nat \<Rightarrow> name reader" where
  "dec_name cap = dbind (r_text cap) (\<lambda>raw.
     if raw = [] then dret []
     else case fixed_name_from_string cap raw of Inl e \<Rightarrow> dfail e | Inr n \<Rightarrow> dret n)"

definition reason_fits :: "string \<Rightarrow> bool" where
  "reason_fits s \<longleftrightarrow> length s \<le> kMaxProvenanceReasonBytes"

definition text_fits :: "string \<Rightarrow> bool" where
  "text_fits s \<longleftrightarrow> length s \<le> kMaxTextBytes"

definition mw_reason_fits :: "string \<Rightarrow> bool" where
  "mw_reason_fits s \<longleftrightarrow> length s \<le> 256"

lemma enum_index_nth: "distinct xs \<Longrightarrow> i < length xs \<Longrightarrow> enum_index xs (xs ! i) = i"
proof (induction xs arbitrary: i)
  case (Cons x xs)
  show ?case
  proof (cases i)
    case (Suc j)
    then have "xs ! j \<noteq> x" using Cons.prems by (auto simp: in_set_conv_nth)
    with Suc Cons show ?thesis by (auto simp: enum_index_def)
  qed (simp add: enum_index_def)
qed simp

lemma enum_index_less: "v \<in> set xs \<Longrightarrow> enum_index xs v < length xs \<and> xs ! enum_index xs v = v"
  by (induction xs) (auto simp: enum_index_def)

lemma enum_codec:
  assumes "distinct xs" "set xs = UNIV" "length xs < 256"
  shows "codec (enc_enum xs) (dec_enum xs) (\<lambda>_. True)"
proof unfold_locales
  fix v rest
  have "enum_index xs v < length xs" "xs ! enum_index xs v = v"
    using enum_index_less [of v xs] assms(2) by auto
  with assms(3) show "dec_enum xs (enc_enum xs v @ rest) = Inr (v, rest)"
    by (simp add: dec_enum_def enc_enum_def codec_rt unat_of_nat take_bit_eq_mod)
next
  fix bs v rest
  assume "dec_enum xs bs = Inr (v, rest)"
  then obtain raw where raw: "bs = w_u8 raw @ rest" "unat raw < length xs" "v = xs ! unat raw"
    by (auto simp: dec_enum_def codec_only split: if_splits)
  then have "of_nat (enum_index xs v) = raw" by (simp add: enum_index_nth [OF assms(1)])
  with raw show "True \<and> bs = enc_enum xs v @ rest" by (simp add: enc_enum_def)
qed

lemma dbind_checked [codec_rt, codec_only]:
  "dbind (dec_checked d p e) f = dbind d (\<lambda>x. if p x then f x else dfail e)"
  by (rule ext) (auto simp: dec_checked_def dbind_def bindE_def split: sum.splits)

lemma dfail_Inr [codec_only]: "(dfail e :: 'a reader) bs = Inr r \<longleftrightarrow> False"
  by simp

lemma list_codec_item:
  "codec enc dec carries \<Longrightarrow> codec (w_list enc) (decode_list dec) (list_fits carries)"
  unfolding decode_list_def list_fits_def by (rule list_codec) (simp_all add: kMaxCollectionItems_def)

lemma flagged_codec:
  assumes "codec enc dec carries"
  shows "codec (enc_flagged enc) (dec_flagged dec) (flagged_fits carries)"
proof -
  from assms have rules: "carries x \<Longrightarrow> dbind dec f (enc x @ rest) = f x rest"
    "dbind dec f bs = Inr r \<longleftrightarrow> (\<exists>x rest. carries x \<and> bs = enc x @ rest \<and> f x rest = Inr r)" for x f rest bs r
    by (simp_all add: codec.dec_enc_bind codec.dec_bind_Inr)
  show ?thesis
  proof unfold_locales
    fix v rest assume "flagged_fits carries v"
    then show "dec_flagged dec (enc_flagged enc v @ rest) = Inr (v, rest)"
      by (cases v) (simp_all add: enc_flagged_def dec_flagged_def flagged_fits_def codec_rt rules)
  next
    fix bs v rest assume "dec_flagged dec bs = Inr (v, rest)"
    then show "flagged_fits carries v \<and> bs = enc_flagged enc v @ rest"
      by (auto simp: enc_flagged_def dec_flagged_def flagged_fits_def codec_only rules split: if_splits)
  qed
qed

lemma name_codec:
  assumes "cap < 2 ^ 32"
  shows "codec w_text (dec_name cap) (name_ok cap)"
proof unfold_locales
  note t = codec.dec_enc_bind [OF text_codec [OF assms]] codec.dec_bind_Inr [OF text_codec [OF assms]]
  fix x rest assume "name_ok cap x"
  moreover from this have "length x \<le> cap" by (rule name_ok_length)
  ultimately show "dec_name cap (w_text x @ rest) = Inr (x, rest)"
    by (auto simp: dec_name_def t name_ok_def)
next
  note t = codec.dec_enc_bind [OF text_codec [OF assms]] codec.dec_bind_Inr [OF text_codec [OF assms]]
  fix bs x rest assume "dec_name cap bs = Inr (x, rest)"
  then show "name_ok cap x \<and> bs = w_text x @ rest"
    by (auto simp: dec_name_def t name_ok_def fixed_name_from_string_def split: if_splits)
qed

interpretation c_name: codec w_text "dec_name kNameCapacity" "name_ok kNameCapacity"
  by (rule name_codec) (simp add: kNameCapacity_def)

interpretation c_actor: codec w_text "dec_name kActorNameCapacity" "name_ok kActorNameCapacity"
  by (rule name_codec) (simp add: kActorNameCapacity_def)

interpretation c_reason: codec w_text "r_text kMaxProvenanceReasonBytes" reason_fits
  unfolding reason_fits_def by (rule text_codec) (simp add: kMaxProvenanceReasonBytes_def)

interpretation c_text: codec w_text "r_text kMaxTextBytes" text_fits
  unfolding text_fits_def by (rule text_codec) (simp add: kMaxTextBytes_def)

interpretation c_mw_reason: codec w_text "r_text 256" mw_reason_fits
  unfolding mw_reason_fits_def by (rule text_codec) simp

subsection \<open>Enumerations\<close>

definition binding_kind_values :: "binding_kind list" where
  "binding_kind_values =
     [BkResources, BkPath]"

definition enc_binding_kind :: "binding_kind \<Rightarrow> bytes" where
  "enc_binding_kind v = enc_enum binding_kind_values v"

definition dec_binding_kind :: "binding_kind reader" where
  "dec_binding_kind bs = dec_enum binding_kind_values bs"

lemma binding_kind_values: "distinct binding_kind_values" "set binding_kind_values = UNIV" "length binding_kind_values < 256"
  by (auto simp: binding_kind_values_def intro: binding_kind.exhaust)

interpretation c_binding_kind: codec enc_binding_kind dec_binding_kind "\<lambda>_. True"
  unfolding enc_binding_kind_def [abs_def] dec_binding_kind_def [abs_def] by (rule enum_codec [OF binding_kind_values])

definition guarantee_class_values :: "guarantee_class list" where
  "guarantee_class_values =
     [GcScavenger, GcPreemptible, GcProtected, GcGuaranteed]"

definition enc_guarantee_class :: "guarantee_class \<Rightarrow> bytes" where
  "enc_guarantee_class v = enc_enum guarantee_class_values v"

definition dec_guarantee_class :: "guarantee_class reader" where
  "dec_guarantee_class bs = dec_enum guarantee_class_values bs"

lemma guarantee_class_values: "distinct guarantee_class_values" "set guarantee_class_values = UNIV" "length guarantee_class_values < 256"
  by (auto simp: guarantee_class_values_def intro: guarantee_class.exhaust)

interpretation c_guarantee_class: codec enc_guarantee_class dec_guarantee_class "\<lambda>_. True"
  unfolding enc_guarantee_class_def [abs_def] dec_guarantee_class_def [abs_def] by (rule enum_codec [OF guarantee_class_values])

definition reservation_state_values :: "reservation_state list" where
  "reservation_state_values =
     [RsDeclared, RsValidated, RsPending, RsCommitted, RsActive, RsAmendmentPending, RsRecallPending,
      RsReleased, RsExpired, RsRevoked, RsFenced, RsStale, RsSuperseded, RsRejected, RsRetired]"

definition enc_reservation_state :: "reservation_state \<Rightarrow> bytes" where
  "enc_reservation_state v = enc_enum reservation_state_values v"

definition dec_reservation_state :: "reservation_state reader" where
  "dec_reservation_state bs = dec_enum reservation_state_values bs"

lemma reservation_state_values: "distinct reservation_state_values" "set reservation_state_values = UNIV" "length reservation_state_values < 256"
  by (auto simp: reservation_state_values_def intro: reservation_state.exhaust)

interpretation c_reservation_state: codec enc_reservation_state dec_reservation_state "\<lambda>_. True"
  unfolding enc_reservation_state_def [abs_def] dec_reservation_state_def [abs_def] by (rule enum_codec [OF reservation_state_values])

definition applicability_values :: "applicability list" where
  "applicability_values =
     [ApCurrent, ApRevalidationRequired, ApStale]"

definition enc_applicability :: "applicability \<Rightarrow> bytes" where
  "enc_applicability v = enc_enum applicability_values v"

definition dec_applicability :: "applicability reader" where
  "dec_applicability bs = dec_enum applicability_values bs"

lemma applicability_values: "distinct applicability_values" "set applicability_values = UNIV" "length applicability_values < 256"
  by (auto simp: applicability_values_def intro: applicability.exhaust)

interpretation c_applicability: codec enc_applicability dec_applicability "\<lambda>_. True"
  unfolding enc_applicability_def [abs_def] dec_applicability_def [abs_def] by (rule enum_codec [OF applicability_values])

definition applicability_reason_values :: "applicability_reason list" where
  "applicability_reason_values =
     [ArCurrent, ArResourceGenerationChanged, ArResourceWithdrawn, ArPathGenerationChanged,
      ArPathRetired, ArMaintenanceWindowAdded, ArPolicyMaterialChange,
      ArFailureDomainGenerationChanged, ArCapacityReducedBelowCommitments]"

definition enc_applicability_reason :: "applicability_reason \<Rightarrow> bytes" where
  "enc_applicability_reason v = enc_enum applicability_reason_values v"

definition dec_applicability_reason :: "applicability_reason reader" where
  "dec_applicability_reason bs = dec_enum applicability_reason_values bs"

lemma applicability_reason_values: "distinct applicability_reason_values" "set applicability_reason_values = UNIV" "length applicability_reason_values < 256"
  by (auto simp: applicability_reason_values_def intro: applicability_reason.exhaust)

interpretation c_applicability_reason: codec enc_applicability_reason dec_applicability_reason "\<lambda>_. True"
  unfolding enc_applicability_reason_def [abs_def] dec_applicability_reason_def [abs_def] by (rule enum_codec [OF applicability_reason_values])

definition admission_outcome_values :: "admission_outcome list" where
  "admission_outcome_values =
     [AoCommittable, AoInsufficientCapacity, AoPolicyRejected, AoStaleResource, AoStalePathAuthority,
      AoConflictingReservation, AoInvalidInterval, AoClaimantFenced, AoUnsupported,
      AoEmergencyOvercommit, AoIdempotentReplay, AoStaleEpoch, AoInvalidRequest,
      AoGenerationMismatch, AoResourceExhausted, AoConflict]"

definition enc_admission_outcome :: "admission_outcome \<Rightarrow> bytes" where
  "enc_admission_outcome v = enc_enum admission_outcome_values v"

definition dec_admission_outcome :: "admission_outcome reader" where
  "dec_admission_outcome bs = dec_enum admission_outcome_values bs"

lemma admission_outcome_values: "distinct admission_outcome_values" "set admission_outcome_values = UNIV" "length admission_outcome_values < 256"
  by (auto simp: admission_outcome_values_def intro: admission_outcome.exhaust)

interpretation c_admission_outcome: codec enc_admission_outcome dec_admission_outcome "\<lambda>_. True"
  unfolding enc_admission_outcome_def [abs_def] dec_admission_outcome_def [abs_def] by (rule enum_codec [OF admission_outcome_values])

subsection \<open>Optional amounts and intervals\<close>

definition enc_opt_bandwidth :: "bandwidth option \<Rightarrow> bytes" where
  "enc_opt_bandwidth v = enc_flagged w_i64 v"

definition dec_opt_bandwidth :: "bandwidth option reader" where
  "dec_opt_bandwidth bs = dec_flagged r_i64 bs"

definition opt_bandwidth_fits :: "bandwidth option \<Rightarrow> bool" where
  "opt_bandwidth_fits v = flagged_fits int64_ok v"

interpretation c_opt_bandwidth: codec enc_opt_bandwidth dec_opt_bandwidth opt_bandwidth_fits
  unfolding enc_opt_bandwidth_def [abs_def] dec_opt_bandwidth_def [abs_def] opt_bandwidth_fits_def [abs_def]
  by (rule flagged_codec) unfold_locales

definition enc_interval :: "interval \<Rightarrow> bytes" where
  "enc_interval v =
     w_i64 (iv_start v) @ w_i64 (iv_end v)"

definition dec_interval :: "interval reader" where
  "dec_interval =
     dbind r_i64 (\<lambda>start.
     dbind r_i64 (\<lambda>end.
     dret \<lparr>iv_start = start, iv_end = end\<rparr>))"

definition interval_fits :: "interval \<Rightarrow> bool" where
  "interval_fits v \<longleftrightarrow> int64_ok (iv_start v) \<and> int64_ok (iv_end v)"

interpretation c_interval: codec enc_interval dec_interval "interval_fits"
proof unfold_locales
  fix v rest assume "interval_fits v"
  then show "dec_interval (enc_interval v @ rest) = Inr (v, rest)"
    by (cases v) (simp add: enc_interval_def dec_interval_def interval_fits_def codec_rt)
next
  fix bs v rest assume "dec_interval bs = Inr (v, rest)"
  then show "interval_fits v \<and> bs = enc_interval v @ rest"
    by (auto simp: enc_interval_def dec_interval_def interval_fits_def codec_only split: if_splits)
qed

subsection \<open>References, authority and provenance\<close>

definition enc_resource_ref :: "resource_ref \<Rightarrow> bytes" where
  "enc_resource_ref v =
     w_text (rr_resource v) @ w_u64 (rr_generation v)"

definition dec_resource_ref :: "resource_ref reader" where
  "dec_resource_ref =
     dbind (dec_name kNameCapacity) (\<lambda>resource.
     dbind r_u64 (\<lambda>generation.
     dret \<lparr>rr_resource = resource, rr_generation = generation\<rparr>))"

definition resource_ref_fits :: "resource_ref \<Rightarrow> bool" where
  "resource_ref_fits v \<longleftrightarrow> name_ok kNameCapacity (rr_resource v)"

interpretation c_resource_ref: codec enc_resource_ref dec_resource_ref "resource_ref_fits"
proof unfold_locales
  fix v rest assume "resource_ref_fits v"
  then show "dec_resource_ref (enc_resource_ref v @ rest) = Inr (v, rest)"
    by (cases v) (simp add: enc_resource_ref_def dec_resource_ref_def resource_ref_fits_def codec_rt)
next
  fix bs v rest assume "dec_resource_ref bs = Inr (v, rest)"
  then show "resource_ref_fits v \<and> bs = enc_resource_ref v @ rest"
    by (auto simp: enc_resource_ref_def dec_resource_ref_def resource_ref_fits_def codec_only split: if_splits)
qed

definition enc_failure_domain_ref :: "failure_domain_ref \<Rightarrow> bytes" where
  "enc_failure_domain_ref v =
     w_text (fr_domain v) @ w_u64 (fr_generation v)"

definition dec_failure_domain_ref :: "failure_domain_ref reader" where
  "dec_failure_domain_ref =
     dbind (dec_name kNameCapacity) (\<lambda>domain.
     dbind r_u64 (\<lambda>generation.
     dret \<lparr>fr_domain = domain, fr_generation = generation\<rparr>))"

definition failure_domain_ref_fits :: "failure_domain_ref \<Rightarrow> bool" where
  "failure_domain_ref_fits v \<longleftrightarrow> name_ok kNameCapacity (fr_domain v)"

interpretation c_failure_domain_ref: codec enc_failure_domain_ref dec_failure_domain_ref "failure_domain_ref_fits"
proof unfold_locales
  fix v rest assume "failure_domain_ref_fits v"
  then show "dec_failure_domain_ref (enc_failure_domain_ref v @ rest) = Inr (v, rest)"
    by (cases v) (simp add: enc_failure_domain_ref_def dec_failure_domain_ref_def failure_domain_ref_fits_def codec_rt)
next
  fix bs v rest assume "dec_failure_domain_ref bs = Inr (v, rest)"
  then show "failure_domain_ref_fits v \<and> bs = enc_failure_domain_ref v @ rest"
    by (auto simp: enc_failure_domain_ref_def dec_failure_domain_ref_def failure_domain_ref_fits_def codec_only split: if_splits)
qed

interpretation cl_resource_ref: codec "w_list enc_resource_ref" "decode_list dec_resource_ref" "list_fits resource_ref_fits"
  by (rule list_codec_item) unfold_locales

interpretation cl_failure_domain_ref: codec "w_list enc_failure_domain_ref" "decode_list dec_failure_domain_ref" "list_fits failure_domain_ref_fits"
  by (rule list_codec_item) unfold_locales

definition enc_authority :: "authority_vector \<Rightarrow> bytes" where
  "enc_authority v =
     w_u64 (av_fabric_epoch v) @ w_u64 (av_reservation_generation v) @ w_fixed128 (av_claimant v) @
     w_u64 (av_claimant_generation v) @ w_fixed128 (av_capacity_snapshot v) @
     w_u64 (av_capacity_generation v) @ w_text (av_policy v) @ w_u64 (av_policy_generation v) @
     w_u64 (av_path_generation v) @ w_list enc_resource_ref (av_resources v) @
     w_list enc_failure_domain_ref (av_failure_domains v)"

definition dec_authority :: "authority_vector reader" where
  "dec_authority =
     dbind r_u64 (\<lambda>fabric_epoch.
     dbind r_u64 (\<lambda>reservation_generation.
     dbind r_fixed128 (\<lambda>claimant.
     dbind r_u64 (\<lambda>claimant_generation.
     dbind r_fixed128 (\<lambda>capacity_snapshot.
     dbind r_u64 (\<lambda>capacity_generation.
     dbind (dec_name kNameCapacity) (\<lambda>policy.
     dbind r_u64 (\<lambda>policy_generation.
     dbind r_u64 (\<lambda>path_generation.
     dbind (decode_list dec_resource_ref) (\<lambda>resources.
     dbind (decode_list dec_failure_domain_ref) (\<lambda>failure_domains.
     dret \<lparr>av_fabric_epoch = fabric_epoch, av_reservation_generation = reservation_generation,
       av_claimant = claimant, av_claimant_generation = claimant_generation,
       av_capacity_snapshot = capacity_snapshot, av_capacity_generation = capacity_generation,
       av_policy = policy, av_policy_generation = policy_generation, av_path_generation = path_generation,
       av_resources = resources, av_failure_domains = failure_domains\<rparr>)))))))))))"

definition authority_fits :: "authority_vector \<Rightarrow> bool" where
  "authority_fits v \<longleftrightarrow> name_ok kNameCapacity (av_policy v) \<and> list_fits resource_ref_fits (av_resources v) \<and>
     list_fits failure_domain_ref_fits (av_failure_domains v)"

interpretation c_authority: codec enc_authority dec_authority "authority_fits"
proof unfold_locales
  fix v rest assume "authority_fits v"
  then show "dec_authority (enc_authority v @ rest) = Inr (v, rest)"
    by (cases v) (simp add: enc_authority_def dec_authority_def authority_fits_def codec_rt)
next
  fix bs v rest assume "dec_authority bs = Inr (v, rest)"
  then show "authority_fits v \<and> bs = enc_authority v @ rest"
    by (auto simp: enc_authority_def dec_authority_def authority_fits_def codec_only split: if_splits)
qed

definition enc_provenance :: "provenance \<Rightarrow> bytes" where
  "enc_provenance v =
     w_text (pv_actor v) @ w_fixed128 (pv_publisher v) @ w_fixed128 (pv_publisher_boot v) @
     w_fixed128 (pv_session v) @ w_fixed128 (pv_attempt v) @ w_u64 (pv_fabric_epoch v) @
     w_fixed128 (pv_coordinator_boot v) @ w_i64 (pv_recorded_at v) @ w_u64 (pv_sequence v) @
     w_text (pv_reason v)"

definition dec_provenance :: "provenance reader" where
  "dec_provenance =
     dbind (dec_name kActorNameCapacity) (\<lambda>actor.
     dbind r_fixed128 (\<lambda>publisher.
     dbind r_fixed128 (\<lambda>publisher_boot.
     dbind r_fixed128 (\<lambda>session.
     dbind r_fixed128 (\<lambda>attempt.
     dbind r_u64 (\<lambda>fabric_epoch.
     dbind r_fixed128 (\<lambda>coordinator_boot.
     dbind r_i64 (\<lambda>recorded_at.
     dbind r_u64 (\<lambda>sequence.
     dbind (r_text kMaxProvenanceReasonBytes) (\<lambda>reason.
     dret \<lparr>pv_actor = actor, pv_publisher = publisher, pv_publisher_boot = publisher_boot,
       pv_session = session, pv_attempt = attempt, pv_fabric_epoch = fabric_epoch,
       pv_coordinator_boot = coordinator_boot, pv_recorded_at = recorded_at, pv_sequence = sequence,
       pv_reason = reason\<rparr>))))))))))"

definition provenance_fits :: "provenance \<Rightarrow> bool" where
  "provenance_fits v \<longleftrightarrow> name_ok kActorNameCapacity (pv_actor v) \<and> int64_ok (pv_recorded_at v) \<and>
     reason_fits (pv_reason v)"

interpretation c_provenance: codec enc_provenance dec_provenance "provenance_fits"
proof unfold_locales
  fix v rest assume "provenance_fits v"
  then show "dec_provenance (enc_provenance v @ rest) = Inr (v, rest)"
    by (cases v) (simp add: enc_provenance_def dec_provenance_def provenance_fits_def codec_rt)
next
  fix bs v rest assume "dec_provenance bs = Inr (v, rest)"
  then show "provenance_fits v \<and> bs = enc_provenance v @ rest"
    by (auto simp: enc_provenance_def dec_provenance_def provenance_fits_def codec_only split: if_splits)
qed

subsection \<open>Capacity, paths and policies\<close>

definition enc_maintenance_window :: "maintenance_window \<Rightarrow> bytes" where
  "enc_maintenance_window v =
     enc_interval (mw_interval v) @ w_text (mw_reason v)"

definition dec_maintenance_window :: "maintenance_window reader" where
  "dec_maintenance_window =
     dbind dec_interval (\<lambda>interval.
     dbind (r_text 256) (\<lambda>reason.
     dret \<lparr>mw_interval = interval, mw_reason = reason\<rparr>))"

definition maintenance_window_fits :: "maintenance_window \<Rightarrow> bool" where
  "maintenance_window_fits v \<longleftrightarrow> interval_fits (mw_interval v) \<and> mw_reason_fits (mw_reason v)"

interpretation c_maintenance_window: codec enc_maintenance_window dec_maintenance_window "maintenance_window_fits"
proof unfold_locales
  fix v rest assume "maintenance_window_fits v"
  then show "dec_maintenance_window (enc_maintenance_window v @ rest) = Inr (v, rest)"
    by (cases v) (simp add: enc_maintenance_window_def dec_maintenance_window_def maintenance_window_fits_def codec_rt)
next
  fix bs v rest assume "dec_maintenance_window bs = Inr (v, rest)"
  then show "maintenance_window_fits v \<and> bs = enc_maintenance_window v @ rest"
    by (auto simp: enc_maintenance_window_def dec_maintenance_window_def maintenance_window_fits_def codec_only split: if_splits)
qed

interpretation cl_maintenance_window: codec "w_list enc_maintenance_window" "decode_list dec_maintenance_window" "list_fits maintenance_window_fits"
  by (rule list_codec_item) unfold_locales

definition enc_resource_capacity :: "resource_capacity \<Rightarrow> bytes" where
  "enc_resource_capacity v =
     w_text (rc_resource v) @ w_u64 (rc_generation v) @ w_i64 (rc_reservable_capacity v) @
     w_i64 (rc_protected_headroom v) @ w_text (rc_failure_domain v) @
     w_u64 (rc_failure_domain_generation v) @ w_list enc_maintenance_window (rc_maintenance v)"

definition dec_resource_capacity :: "resource_capacity reader" where
  "dec_resource_capacity =
     dbind (dec_name kNameCapacity) (\<lambda>resource.
     dbind r_u64 (\<lambda>generation.
     dbind r_i64 (\<lambda>reservable_capacity.
     dbind r_i64 (\<lambda>protected_headroom.
     dbind (dec_name kNameCapacity) (\<lambda>failure_domain.
     dbind r_u64 (\<lambda>failure_domain_generation.
     dbind (decode_list dec_maintenance_window) (\<lambda>maintenance.
     dret \<lparr>rc_resource = resource, rc_generation = generation, rc_reservable_capacity = reservable_capacity,
       rc_protected_headroom = protected_headroom, rc_failure_domain = failure_domain,
       rc_failure_domain_generation = failure_domain_generation, rc_maintenance = maintenance\<rparr>)))))))"

definition resource_capacity_fits :: "resource_capacity \<Rightarrow> bool" where
  "resource_capacity_fits v \<longleftrightarrow> name_ok kNameCapacity (rc_resource v) \<and> int64_ok (rc_reservable_capacity v) \<and>
     int64_ok (rc_protected_headroom v) \<and> name_ok kNameCapacity (rc_failure_domain v) \<and>
     list_fits maintenance_window_fits (rc_maintenance v)"

interpretation c_resource_capacity: codec enc_resource_capacity dec_resource_capacity "resource_capacity_fits"
proof unfold_locales
  fix v rest assume "resource_capacity_fits v"
  then show "dec_resource_capacity (enc_resource_capacity v @ rest) = Inr (v, rest)"
    by (cases v) (simp add: enc_resource_capacity_def dec_resource_capacity_def resource_capacity_fits_def codec_rt)
next
  fix bs v rest assume "dec_resource_capacity bs = Inr (v, rest)"
  then show "resource_capacity_fits v \<and> bs = enc_resource_capacity v @ rest"
    by (auto simp: enc_resource_capacity_def dec_resource_capacity_def resource_capacity_fits_def codec_only split: if_splits)
qed

interpretation cl_resource_capacity: codec "w_list enc_resource_capacity" "decode_list dec_resource_capacity" "list_fits resource_capacity_fits"
  by (rule list_codec_item) unfold_locales

definition enc_capacity_snapshot :: "capacity_snapshot \<Rightarrow> bytes" where
  "enc_capacity_snapshot v =
     w_fixed128 (cs_id v) @ w_u64 (cs_generation v) @ w_u64 (cs_fabric_epoch v) @
     w_i64 (cs_ingested_at v) @ w_boolean (cs_complete v) @ w_list enc_resource_capacity (cs_resources v)"

definition dec_capacity_snapshot :: "capacity_snapshot reader" where
  "dec_capacity_snapshot =
     dbind r_fixed128 (\<lambda>id.
     dbind r_u64 (\<lambda>generation.
     dbind r_u64 (\<lambda>fabric_epoch.
     dbind r_i64 (\<lambda>ingested_at.
     dbind r_boolean (\<lambda>complete.
     dbind (decode_list dec_resource_capacity) (\<lambda>resources.
     dret \<lparr>cs_id = id, cs_generation = generation, cs_fabric_epoch = fabric_epoch,
       cs_ingested_at = ingested_at, cs_complete = complete, cs_resources = resources\<rparr>))))))"

definition capacity_snapshot_fits :: "capacity_snapshot \<Rightarrow> bool" where
  "capacity_snapshot_fits v \<longleftrightarrow> int64_ok (cs_ingested_at v) \<and> list_fits resource_capacity_fits (cs_resources v)"

interpretation c_capacity_snapshot: codec enc_capacity_snapshot dec_capacity_snapshot "capacity_snapshot_fits"
proof unfold_locales
  fix v rest assume "capacity_snapshot_fits v"
  then show "dec_capacity_snapshot (enc_capacity_snapshot v @ rest) = Inr (v, rest)"
    by (cases v) (simp add: enc_capacity_snapshot_def dec_capacity_snapshot_def capacity_snapshot_fits_def codec_rt)
next
  fix bs v rest assume "dec_capacity_snapshot bs = Inr (v, rest)"
  then show "capacity_snapshot_fits v \<and> bs = enc_capacity_snapshot v @ rest"
    by (auto simp: enc_capacity_snapshot_def dec_capacity_snapshot_def capacity_snapshot_fits_def codec_only split: if_splits)
qed

interpretation cl_name: codec "w_list w_text" "decode_list (dec_name kNameCapacity)" "list_fits (name_ok kNameCapacity)"
  by (rule list_codec_item) unfold_locales

definition enc_path_authority :: "path_authority \<Rightarrow> bytes" where
  "enc_path_authority v =
     w_text (pa_path v) @ w_u64 (pa_generation v) @ w_list w_text (pa_components v) @
     w_i64 (pa_issued_at v) @ w_boolean (pa_retired v)"

definition dec_path_authority :: "path_authority reader" where
  "dec_path_authority =
     dbind (dec_name kNameCapacity) (\<lambda>path.
     dbind r_u64 (\<lambda>generation.
     dbind (decode_list (dec_name kNameCapacity)) (\<lambda>components.
     dbind r_i64 (\<lambda>issued_at.
     dbind r_boolean (\<lambda>retired.
     dret \<lparr>pa_path = path, pa_generation = generation, pa_components = components, pa_issued_at = issued_at,
       pa_retired = retired\<rparr>)))))"

definition path_authority_fits :: "path_authority \<Rightarrow> bool" where
  "path_authority_fits v \<longleftrightarrow> name_ok kNameCapacity (pa_path v) \<and> list_fits (name_ok kNameCapacity) (pa_components v) \<and>
     int64_ok (pa_issued_at v)"

interpretation c_path_authority: codec enc_path_authority dec_path_authority "path_authority_fits"
proof unfold_locales
  fix v rest assume "path_authority_fits v"
  then show "dec_path_authority (enc_path_authority v @ rest) = Inr (v, rest)"
    by (cases v) (simp add: enc_path_authority_def dec_path_authority_def path_authority_fits_def codec_rt)
next
  fix bs v rest assume "dec_path_authority bs = Inr (v, rest)"
  then show "path_authority_fits v \<and> bs = enc_path_authority v @ rest"
    by (auto simp: enc_path_authority_def dec_path_authority_def path_authority_fits_def codec_only split: if_splits)
qed

interpretation cl_path_authority: codec "w_list enc_path_authority" "decode_list dec_path_authority" "list_fits path_authority_fits"
  by (rule list_codec_item) unfold_locales

definition enc_path_snapshot :: "path_authority_snapshot \<Rightarrow> bytes" where
  "enc_path_snapshot v =
     w_fixed128 (ps_id v) @ w_u64 (ps_generation v) @ w_u64 (ps_fabric_epoch v) @
     w_i64 (ps_ingested_at v) @ w_boolean (ps_complete v) @ w_list enc_path_authority (ps_paths v)"

definition dec_path_snapshot :: "path_authority_snapshot reader" where
  "dec_path_snapshot =
     dbind r_fixed128 (\<lambda>id.
     dbind r_u64 (\<lambda>generation.
     dbind r_u64 (\<lambda>fabric_epoch.
     dbind r_i64 (\<lambda>ingested_at.
     dbind r_boolean (\<lambda>complete.
     dbind (decode_list dec_path_authority) (\<lambda>paths.
     dret \<lparr>ps_id = id, ps_generation = generation, ps_fabric_epoch = fabric_epoch,
       ps_ingested_at = ingested_at, ps_complete = complete, ps_paths = paths\<rparr>))))))"

definition path_snapshot_fits :: "path_authority_snapshot \<Rightarrow> bool" where
  "path_snapshot_fits v \<longleftrightarrow> int64_ok (ps_ingested_at v) \<and> list_fits path_authority_fits (ps_paths v)"

interpretation c_path_snapshot: codec enc_path_snapshot dec_path_snapshot "path_snapshot_fits"
proof unfold_locales
  fix v rest assume "path_snapshot_fits v"
  then show "dec_path_snapshot (enc_path_snapshot v @ rest) = Inr (v, rest)"
    by (cases v) (simp add: enc_path_snapshot_def dec_path_snapshot_def path_snapshot_fits_def codec_rt)
next
  fix bs v rest assume "dec_path_snapshot bs = Inr (v, rest)"
  then show "path_snapshot_fits v \<and> bs = enc_path_snapshot v @ rest"
    by (auto simp: enc_path_snapshot_def dec_path_snapshot_def path_snapshot_fits_def codec_only split: if_splits)
qed

definition enc_policy :: "policy_record \<Rightarrow> bytes" where
  "enc_policy v =
     w_text (pl_name v) @ w_u64 (pl_generation v) @ w_i64 (pl_ingested_at v) @
     w_boolean (pl_allow_recall_guaranteed v) @ w_boolean (pl_allow_recall_protected v) @
     w_boolean (pl_allow_preemption_on_commit v) @ w_u32 (pl_max_preemption_victims v) @
     w_i64 (pl_default_recall_grace v) @ w_boolean (pl_allow_overcommit v) @
     w_i64 (pl_overcommit_allowance v) @ w_i64 (pl_minimum_reservation_amount v) @
     w_boolean (pl_allow_past_start v) @ w_i64 (pl_max_future_horizon v) @
     w_i64 (pl_max_extra_headroom v) @ w_boolean (pl_auto_revalidate_on_generation_change v) @
     w_i64 (pl_policy_headroom v) @ w_u32 (pl_max_conflict_set v) @ w_u32 (pl_max_explanation_bytes v) @
     w_u32 (pl_max_series_members v) @ w_i64 (pl_max_hold_ttl v) @ w_u32 (pl_max_holds_per_session v) @
     w_i64 (pl_max_hold_bandwidth v)"

definition dec_policy :: "policy_record reader" where
  "dec_policy =
     dbind (dec_name kNameCapacity) (\<lambda>name.
     dbind r_u64 (\<lambda>generation.
     dbind r_i64 (\<lambda>ingested_at.
     dbind r_boolean (\<lambda>allow_recall_guaranteed.
     dbind r_boolean (\<lambda>allow_recall_protected.
     dbind r_boolean (\<lambda>allow_preemption_on_commit.
     dbind (dec_checked r_u32 (\<lambda>x. \<not> x > 1024) ECorrupt) (\<lambda>max_preemption_victims.
     dbind r_i64 (\<lambda>default_recall_grace.
     dbind r_boolean (\<lambda>allow_overcommit.
     dbind r_i64 (\<lambda>overcommit_allowance.
     dbind r_i64 (\<lambda>minimum_reservation_amount.
     dbind r_boolean (\<lambda>allow_past_start.
     dbind r_i64 (\<lambda>max_future_horizon.
     dbind r_i64 (\<lambda>max_extra_headroom.
     dbind r_boolean (\<lambda>auto_revalidate_on_generation_change.
     dbind r_i64 (\<lambda>policy_headroom.
     dbind (dec_checked r_u32 (\<lambda>x. \<not> (x = 0 \<or> x > 4096)) ECorrupt) (\<lambda>max_conflict_set.
     dbind (dec_checked r_u32 (\<lambda>x. \<not> (x < 128 \<or> x > 65536)) ECorrupt) (\<lambda>max_explanation_bytes.
     dbind (dec_checked r_u32 (\<lambda>x. \<not> (x = 0 \<or> x > 4096)) ECorrupt) (\<lambda>max_series_members.
     dbind r_i64 (\<lambda>max_hold_ttl.
     dbind (dec_checked r_u32 (\<lambda>x. \<not> x > 4096) ECorrupt) (\<lambda>max_holds_per_session.
     dbind r_i64 (\<lambda>max_hold_bandwidth.
     dret \<lparr>pl_name = name, pl_generation = generation, pl_ingested_at = ingested_at,
       pl_allow_recall_guaranteed = allow_recall_guaranteed,
       pl_allow_recall_protected = allow_recall_protected,
       pl_allow_preemption_on_commit = allow_preemption_on_commit,
       pl_max_preemption_victims = max_preemption_victims, pl_default_recall_grace = default_recall_grace,
       pl_allow_overcommit = allow_overcommit, pl_overcommit_allowance = overcommit_allowance,
       pl_minimum_reservation_amount = minimum_reservation_amount, pl_allow_past_start = allow_past_start,
       pl_max_future_horizon = max_future_horizon, pl_max_extra_headroom = max_extra_headroom,
       pl_auto_revalidate_on_generation_change = auto_revalidate_on_generation_change,
       pl_policy_headroom = policy_headroom, pl_max_conflict_set = max_conflict_set,
       pl_max_explanation_bytes = max_explanation_bytes, pl_max_series_members = max_series_members,
       pl_max_hold_ttl = max_hold_ttl, pl_max_holds_per_session = max_holds_per_session,
       pl_max_hold_bandwidth = max_hold_bandwidth\<rparr>))))))))))))))))))))))"

definition policy_fits :: "policy_record \<Rightarrow> bool" where
  "policy_fits v \<longleftrightarrow> name_ok kNameCapacity (pl_name v) \<and> int64_ok (pl_ingested_at v) \<and>
     \<not> pl_max_preemption_victims v > 1024 \<and> int64_ok (pl_default_recall_grace v) \<and>
     int64_ok (pl_overcommit_allowance v) \<and> int64_ok (pl_minimum_reservation_amount v) \<and>
     int64_ok (pl_max_future_horizon v) \<and> int64_ok (pl_max_extra_headroom v) \<and>
     int64_ok (pl_policy_headroom v) \<and>
     \<not> (pl_max_conflict_set v = 0 \<or> pl_max_conflict_set v > 4096) \<and>
     \<not> (pl_max_explanation_bytes v < 128 \<or> pl_max_explanation_bytes v > 65536) \<and>
     \<not> (pl_max_series_members v = 0 \<or> pl_max_series_members v > 4096) \<and>
     int64_ok (pl_max_hold_ttl v) \<and> \<not> pl_max_holds_per_session v > 4096 \<and>
     int64_ok (pl_max_hold_bandwidth v)"

interpretation c_policy: codec enc_policy dec_policy "policy_fits"
proof unfold_locales
  fix v rest assume "policy_fits v"
  then show "dec_policy (enc_policy v @ rest) = Inr (v, rest)"
    by (cases v) (simp add: enc_policy_def dec_policy_def policy_fits_def codec_rt)
next
  fix bs v rest assume "dec_policy bs = Inr (v, rest)"
  then show "policy_fits v \<and> bs = enc_policy v @ rest"
    by (auto simp: enc_policy_def dec_policy_def policy_fits_def codec_only split: if_splits)
qed

subsection \<open>Terms, records, edges and series\<close>

definition enc_recurrence :: "recurrence_spec \<Rightarrow> bytes" where
  "enc_recurrence v =
     w_boolean (rs_enabled v) @ w_i64 (rs_period v) @ w_u32 (rs_count v)"

definition dec_recurrence :: "recurrence_spec reader" where
  "dec_recurrence =
     dbind r_boolean (\<lambda>enabled.
     dbind r_i64 (\<lambda>period.
     dbind (dec_checked r_u32 (\<lambda>x. \<not> x > 4096) ECorrupt) (\<lambda>count.
     dret \<lparr>rs_enabled = enabled, rs_period = period, rs_count = count\<rparr>)))"

definition recurrence_fits :: "recurrence_spec \<Rightarrow> bool" where
  "recurrence_fits v \<longleftrightarrow> int64_ok (rs_period v) \<and> \<not> rs_count v > 4096"

interpretation c_recurrence: codec enc_recurrence dec_recurrence "recurrence_fits"
proof unfold_locales
  fix v rest assume "recurrence_fits v"
  then show "dec_recurrence (enc_recurrence v @ rest) = Inr (v, rest)"
    by (cases v) (simp add: enc_recurrence_def dec_recurrence_def recurrence_fits_def codec_rt)
next
  fix bs v rest assume "dec_recurrence bs = Inr (v, rest)"
  then show "recurrence_fits v \<and> bs = enc_recurrence v @ rest"
    by (auto simp: enc_recurrence_def dec_recurrence_def recurrence_fits_def codec_only split: if_splits)
qed

interpretation cl_label: codec "w_list w_text" "decode_list (r_text kMaxTextBytes)" "list_fits text_fits"
  by (rule list_codec_item) unfold_locales

text \<open>The two tests that follow the label list.\<close>

definition dec_labels :: "string list reader" where
  "dec_labels =
     dec_checked (dec_checked (decode_list (r_text kMaxTextBytes)) (\<lambda>ls. \<not> length ls > kMaxPolicyLabels) EResourceExhausted)
       (list_all (\<lambda>l. \<not> length l > kMaxLabelBytes)) ECorrupt"

definition labels_fit :: "string list \<Rightarrow> bool" where
  "labels_fit ls \<longleftrightarrow> length ls \<le> kMaxPolicyLabels \<and> list_all (\<lambda>l. length l \<le> kMaxLabelBytes) ls"

lemma checked_apply: "dec_checked d p e bs = dbind (dec_checked d p e) dret bs"
  by (auto simp: dec_checked_def dbind_def bindE_def split: sum.splits)

interpretation c_labels: codec "w_list w_text" dec_labels labels_fit
proof unfold_locales
  fix ls rest assume "labels_fit ls"
  then have "list_fits text_fits ls" "\<not> length ls > kMaxPolicyLabels" "list_all (\<lambda>l. \<not> length l > kMaxLabelBytes) ls"
    by (auto simp: labels_fit_def list_fits_def text_fits_def list_all_iff kMaxPolicyLabels_def kMaxLabelBytes_def
        kMaxCollectionItems_def kMaxTextBytes_def not_less intro: order_trans)
  then show "dec_labels (w_list w_text ls @ rest) = Inr (ls, rest)"
    unfolding dec_labels_def by (subst checked_apply) (simp add: codec_rt)
next
  fix bs ls rest assume "dec_labels bs = Inr (ls, rest)"
  then show "labels_fit ls \<and> bs = w_list w_text ls @ rest"
    unfolding dec_labels_def
    by (subst (asm) checked_apply) (auto simp: codec_only labels_fit_def not_less split: if_splits)
qed

definition enc_terms :: "reservation_terms \<Rightarrow> bytes" where
  "enc_terms v =
     w_fixed128 (tm_claimant v) @ w_u64 (tm_claimant_generation v) @
     enc_binding_kind (tm_binding_kind v) @ w_list w_text (tm_resources v) @ w_text (tm_path v) @
     w_u64 (tm_required_path_generation v) @ enc_interval (tm_interval v) @ w_i64 (tm_amount v) @
     enc_opt_bandwidth (tm_minimum_amount v) @ enc_opt_bandwidth (tm_maximum_amount v) @
     enc_guarantee_class (tm_guarantee v) @ w_u32 (tm_priority v) @ w_boolean (tm_preemptible v) @
     w_boolean (tm_recall_permitted v) @ w_i64 (tm_grace v) @ w_i64 (tm_headroom_requirement v) @
     w_text (tm_policy v) @ w_list w_text (tm_policy_labels v) @ enc_recurrence (tm_recurrence v)"

definition dec_terms :: "reservation_terms reader" where
  "dec_terms =
     dbind r_fixed128 (\<lambda>claimant.
     dbind r_u64 (\<lambda>claimant_generation.
     dbind dec_binding_kind (\<lambda>binding_kind.
     dbind (decode_list (dec_name kNameCapacity)) (\<lambda>resources.
     dbind (dec_name kNameCapacity) (\<lambda>path.
     dbind r_u64 (\<lambda>required_path_generation.
     dbind dec_interval (\<lambda>interval.
     dbind r_i64 (\<lambda>amount.
     dbind dec_opt_bandwidth (\<lambda>minimum_amount.
     dbind dec_opt_bandwidth (\<lambda>maximum_amount.
     dbind dec_guarantee_class (\<lambda>guarantee.
     dbind (dec_checked r_u32 (\<lambda>x. \<not> x > kMaxPriority) ECorrupt) (\<lambda>priority.
     dbind r_boolean (\<lambda>preemptible.
     dbind r_boolean (\<lambda>recall_permitted.
     dbind r_i64 (\<lambda>grace.
     dbind r_i64 (\<lambda>headroom_requirement.
     dbind (dec_name kNameCapacity) (\<lambda>policy.
     dbind dec_labels (\<lambda>policy_labels.
     dbind dec_recurrence (\<lambda>recurrence.
     dret \<lparr>tm_claimant = claimant, tm_claimant_generation = claimant_generation,
       tm_binding_kind = binding_kind, tm_resources = resources, tm_path = path,
       tm_required_path_generation = required_path_generation, tm_interval = interval, tm_amount = amount,
       tm_minimum_amount = minimum_amount, tm_maximum_amount = maximum_amount, tm_guarantee = guarantee,
       tm_priority = priority, tm_preemptible = preemptible, tm_recall_permitted = recall_permitted,
       tm_grace = grace, tm_headroom_requirement = headroom_requirement, tm_policy = policy,
       tm_policy_labels = policy_labels, tm_recurrence = recurrence\<rparr>)))))))))))))))))))"

definition terms_fits :: "reservation_terms \<Rightarrow> bool" where
  "terms_fits v \<longleftrightarrow> list_fits (name_ok kNameCapacity) (tm_resources v) \<and> name_ok kNameCapacity (tm_path v) \<and>
     interval_fits (tm_interval v) \<and> int64_ok (tm_amount v) \<and>
     opt_bandwidth_fits (tm_minimum_amount v) \<and> opt_bandwidth_fits (tm_maximum_amount v) \<and>
     \<not> tm_priority v > kMaxPriority \<and> int64_ok (tm_grace v) \<and>
     int64_ok (tm_headroom_requirement v) \<and> name_ok kNameCapacity (tm_policy v) \<and>
     labels_fit (tm_policy_labels v) \<and> recurrence_fits (tm_recurrence v)"

interpretation c_terms: codec enc_terms dec_terms "terms_fits"
proof unfold_locales
  fix v rest assume "terms_fits v"
  then show "dec_terms (enc_terms v @ rest) = Inr (v, rest)"
    by (cases v) (simp add: enc_terms_def dec_terms_def terms_fits_def codec_rt)
next
  fix bs v rest assume "dec_terms bs = Inr (v, rest)"
  then show "terms_fits v \<and> bs = enc_terms v @ rest"
    by (auto simp: enc_terms_def dec_terms_def terms_fits_def codec_only split: if_splits)
qed

definition enc_record :: "reservation_record \<Rightarrow> bytes" where
  "enc_record v =
     w_fixed128 (rv_id v) @ w_u64 (rv_generation v) @ w_boolean (rv_series_member v) @
     w_fixed128 (rv_series v) @ w_u64 (rv_series_index v) @ enc_terms (rv_terms v) @
     enc_authority (rv_authority v) @ enc_reservation_state (rv_state v) @
     enc_applicability (rv_applicability v) @ enc_applicability_reason (rv_applicability_reason v) @
     w_i64 (rv_declared_at v) @ w_i64 (rv_committed_at v) @ w_i64 (rv_activated_at v) @
     w_i64 (rv_state_changed_at v) @ w_i64 (rv_recall_effective_at v) @ w_i64 (rv_recall_grace v) @
     w_i64 (rv_terminated_at v) @ w_fixed128 (rv_predecessor v) @ w_u64 (rv_predecessor_generation v) @
     w_text (rv_state_reason v) @ enc_provenance (rv_last_provenance v) @ w_u64 (rv_sequence v)"

definition dec_record :: "reservation_record reader" where
  "dec_record =
     dbind r_fixed128 (\<lambda>id.
     dbind r_u64 (\<lambda>generation.
     dbind r_boolean (\<lambda>series_member.
     dbind r_fixed128 (\<lambda>series.
     dbind r_u64 (\<lambda>series_index.
     dbind dec_terms (\<lambda>terms.
     dbind dec_authority (\<lambda>authority.
     dbind dec_reservation_state (\<lambda>state.
     dbind dec_applicability (\<lambda>applicability.
     dbind dec_applicability_reason (\<lambda>applicability_reason.
     dbind r_i64 (\<lambda>declared_at.
     dbind r_i64 (\<lambda>committed_at.
     dbind r_i64 (\<lambda>activated_at.
     dbind r_i64 (\<lambda>state_changed_at.
     dbind r_i64 (\<lambda>recall_effective_at.
     dbind r_i64 (\<lambda>recall_grace.
     dbind r_i64 (\<lambda>terminated_at.
     dbind r_fixed128 (\<lambda>predecessor.
     dbind r_u64 (\<lambda>predecessor_generation.
     dbind (r_text kMaxProvenanceReasonBytes) (\<lambda>state_reason.
     dbind dec_provenance (\<lambda>last_provenance.
     dbind r_u64 (\<lambda>sequence.
     dret \<lparr>rv_id = id, rv_generation = generation, rv_series_member = series_member, rv_series = series,
       rv_series_index = series_index, rv_terms = terms, rv_authority = authority, rv_state = state,
       rv_applicability = applicability, rv_applicability_reason = applicability_reason,
       rv_declared_at = declared_at, rv_committed_at = committed_at, rv_activated_at = activated_at,
       rv_state_changed_at = state_changed_at, rv_recall_effective_at = recall_effective_at,
       rv_recall_grace = recall_grace, rv_terminated_at = terminated_at, rv_predecessor = predecessor,
       rv_predecessor_generation = predecessor_generation, rv_state_reason = state_reason,
       rv_last_provenance = last_provenance, rv_sequence = sequence\<rparr>))))))))))))))))))))))"

definition record_fits :: "reservation_record \<Rightarrow> bool" where
  "record_fits v \<longleftrightarrow> terms_fits (rv_terms v) \<and> authority_fits (rv_authority v) \<and>
     int64_ok (rv_declared_at v) \<and> int64_ok (rv_committed_at v) \<and>
     int64_ok (rv_activated_at v) \<and> int64_ok (rv_state_changed_at v) \<and>
     int64_ok (rv_recall_effective_at v) \<and> int64_ok (rv_recall_grace v) \<and>
     int64_ok (rv_terminated_at v) \<and> reason_fits (rv_state_reason v) \<and>
     provenance_fits (rv_last_provenance v)"

interpretation c_record: codec enc_record dec_record "record_fits"
proof unfold_locales
  fix v rest assume "record_fits v"
  then show "dec_record (enc_record v @ rest) = Inr (v, rest)"
    by (cases v) (simp add: enc_record_def dec_record_def record_fits_def codec_rt)
next
  fix bs v rest assume "dec_record bs = Inr (v, rest)"
  then show "record_fits v \<and> bs = enc_record v @ rest"
    by (auto simp: enc_record_def dec_record_def record_fits_def codec_only split: if_splits)
qed

definition enc_edge :: "supersession_edge \<Rightarrow> bytes" where
  "enc_edge v =
     w_fixed128 (se_predecessor v) @ w_u64 (se_predecessor_generation v) @ w_fixed128 (se_successor v) @
     w_u64 (se_successor_generation v) @ w_i64 (se_recorded_at v) @ w_u64 (se_sequence v) @
     w_text (se_reason v)"

definition dec_edge :: "supersession_edge reader" where
  "dec_edge =
     dbind r_fixed128 (\<lambda>predecessor.
     dbind r_u64 (\<lambda>predecessor_generation.
     dbind r_fixed128 (\<lambda>successor.
     dbind r_u64 (\<lambda>successor_generation.
     dbind r_i64 (\<lambda>recorded_at.
     dbind r_u64 (\<lambda>sequence.
     dbind (r_text kMaxProvenanceReasonBytes) (\<lambda>reason.
     dret \<lparr>se_predecessor = predecessor, se_predecessor_generation = predecessor_generation,
       se_successor = successor, se_successor_generation = successor_generation,
       se_recorded_at = recorded_at, se_sequence = sequence, se_reason = reason\<rparr>)))))))"

definition edge_fits :: "supersession_edge \<Rightarrow> bool" where
  "edge_fits v \<longleftrightarrow> int64_ok (se_recorded_at v) \<and> reason_fits (se_reason v)"

interpretation c_edge: codec enc_edge dec_edge "edge_fits"
proof unfold_locales
  fix v rest assume "edge_fits v"
  then show "dec_edge (enc_edge v @ rest) = Inr (v, rest)"
    by (cases v) (simp add: enc_edge_def dec_edge_def edge_fits_def codec_rt)
next
  fix bs v rest assume "dec_edge bs = Inr (v, rest)"
  then show "edge_fits v \<and> bs = enc_edge v @ rest"
    by (auto simp: enc_edge_def dec_edge_def edge_fits_def codec_only split: if_splits)
qed

interpretation cl_identity: codec "w_list w_fixed128" "decode_list r_fixed128" "list_fits (\<lambda>_. True)"
  by (rule list_codec_item) unfold_locales

definition enc_series :: "reservation_series \<Rightarrow> bytes" where
  "enc_series v =
     w_fixed128 (sr_id v) @ w_u64 (sr_generation v) @ w_fixed128 (sr_claimant v) @
     w_u64 (sr_claimant_generation v) @ enc_recurrence (sr_spec v) @
     enc_interval (sr_first_interval v) @ w_i64 (sr_amount v) @ enc_reservation_state (sr_state v) @
     w_i64 (sr_created_at v) @ w_i64 (sr_state_changed_at v) @
     w_fixed128 (sr_predecessor_series_generation v) @ w_u64 (sr_predecessor_generation v) @
     w_list w_fixed128 (sr_members v) @ enc_provenance (sr_last_provenance v) @ w_u64 (sr_sequence v)"

definition dec_series :: "reservation_series reader" where
  "dec_series =
     dbind r_fixed128 (\<lambda>id.
     dbind r_u64 (\<lambda>generation.
     dbind r_fixed128 (\<lambda>claimant.
     dbind r_u64 (\<lambda>claimant_generation.
     dbind dec_recurrence (\<lambda>spec.
     dbind dec_interval (\<lambda>first_interval.
     dbind r_i64 (\<lambda>amount.
     dbind dec_reservation_state (\<lambda>state.
     dbind r_i64 (\<lambda>created_at.
     dbind r_i64 (\<lambda>state_changed_at.
     dbind r_fixed128 (\<lambda>predecessor_series_generation.
     dbind r_u64 (\<lambda>predecessor_generation.
     dbind (decode_list r_fixed128) (\<lambda>members.
     dbind dec_provenance (\<lambda>last_provenance.
     dbind r_u64 (\<lambda>sequence.
     dret \<lparr>sr_id = id, sr_generation = generation, sr_claimant = claimant,
       sr_claimant_generation = claimant_generation, sr_spec = spec, sr_first_interval = first_interval,
       sr_amount = amount, sr_state = state, sr_created_at = created_at,
       sr_state_changed_at = state_changed_at,
       sr_predecessor_series_generation = predecessor_series_generation,
       sr_predecessor_generation = predecessor_generation, sr_members = members,
       sr_last_provenance = last_provenance, sr_sequence = sequence\<rparr>)))))))))))))))"

definition series_fits :: "reservation_series \<Rightarrow> bool" where
  "series_fits v \<longleftrightarrow> recurrence_fits (sr_spec v) \<and> interval_fits (sr_first_interval v) \<and>
     int64_ok (sr_amount v) \<and> int64_ok (sr_created_at v) \<and>
     int64_ok (sr_state_changed_at v) \<and> list_fits (\<lambda>_. True) (sr_members v) \<and>
     provenance_fits (sr_last_provenance v)"

interpretation c_series: codec enc_series dec_series "series_fits"
proof unfold_locales
  fix v rest assume "series_fits v"
  then show "dec_series (enc_series v @ rest) = Inr (v, rest)"
    by (cases v) (simp add: enc_series_def dec_series_def series_fits_def codec_rt)
next
  fix bs v rest assume "dec_series bs = Inr (v, rest)"
  then show "series_fits v \<and> bs = enc_series v @ rest"
    by (auto simp: enc_series_def dec_series_def series_fits_def codec_only split: if_splits)
qed

subsection \<open>Validation and the decoders\<close>

text \<open>The names of terms are \<^verbatim>\<open>FixedName\<close> objects and their durations 64-bit integers, by their C++ types.\<close>

definition terms_typed :: "reservation_terms \<Rightarrow> bool" where
  "terms_typed t \<longleftrightarrow> list_all (name_ok kNameCapacity) (tm_resources t) \<and> name_ok kNameCapacity (tm_path t) \<and>
     name_ok kNameCapacity (tm_policy t) \<and> int64_ok (rs_period (tm_recurrence t))"

lemma bandwidth_int64: "0 \<le> b \<Longrightarrow> b \<le> kMaxBandwidthBps \<Longrightarrow> int64_ok b"
  by (simp add: int64_ok_def kMaxBandwidthBps_def)

lemma validated_terms_fit:
  assumes "terms_ok t" "terms_typed t" "\<not> rs_count (tm_recurrence t) > 4096"
  shows "terms_fits t"
proof -
  have amounts: "int64_ok (tm_amount t)" "int64_ok (tm_headroom_requirement t)"
    "opt_bandwidth_fits (tm_minimum_amount t)" "opt_bandwidth_fits (tm_maximum_amount t)"
    using assms(1) bandwidth_int64
    by (auto simp: terms_ok_def bandwidth_ok_def opt_bandwidth_fits_def flagged_fits_def split: option.splits)
  have times: "interval_fits (tm_interval t)" "int64_ok (tm_grace t)"
  proof -
    have "interval_ok (tm_interval t)" "0 \<le> tm_grace t" "tm_grace t \<le> kMaxReservationSpanNs"
      using assms(1) unfolding terms_ok_def by blast+
    then show "interval_fits (tm_interval t)" "int64_ok (tm_grace t)"
      by (auto simp: interval_ok_def interval_fits_def int64_ok_def time_consts)
  qed
  have "list_fits (name_ok kNameCapacity) (tm_resources t)"
    using assms(1,2) by (cases "tm_binding_kind t")
      (auto simp: terms_ok_def terms_typed_def list_fits_def kMaxBindingResources_def kMaxCollectionItems_def)
  moreover have "labels_fit (tm_policy_labels t)"
    using assms(1) by (auto simp: terms_ok_def labels_fit_def label_is_safe_def list_all_iff)
  ultimately show ?thesis
    using assms amounts times by (simp add: terms_fits_def terms_typed_def recurrence_fits_def terms_ok_def)
qed

text \<open>C27: Terms that pass validation, with a recurrence count the decoder accepts, are read back
  unchanged from what is written for them.\<close>

theorem validated_terms_readable:
  assumes "validate_terms t = Inr ()" "terms_typed t" "\<not> rs_count (tm_recurrence t) > 4096"
  shows "dec_terms (enc_terms t @ rest) = Inr (t, rest)"
  using assms by (intro c_terms.dec_enc validated_terms_fit) (simp_all add: validate_terms_ok)

lemma sample_terms_ok: "terms_ok (sample_terms (mk_iv 10 20) 5)"
  by (simp add: terms_ok_def sample_terms_def nil_id_def interval_ok_def mk_iv_def time_consts kMaxBandwidthBps_def
      bandwidth_ok_def kMaxBindingResources_def kMaxPriority_def)

lemma sample_terms_typed: "terms_typed (sample_terms i a)"
  by (simp add: terms_typed_def sample_terms_def name_ok_def fixed_name_from_string_def name_char_ok_def
      kNameCapacity_def int64_ok_def less_eq_char_def)

theorem validated_terms_readable_witness:
  "dec_terms (enc_terms (sample_terms (mk_iv 10 20) 5) @ [7]) = Inr (sample_terms (mk_iv 10 20) 5, [7])"
proof (rule validated_terms_readable)
  show "validate_terms (sample_terms (mk_iv 10 20) 5) = Inr ()" by (simp add: validate_terms_ok sample_terms_ok)
  show "\<not> rs_count (tm_recurrence (sample_terms (mk_iv 10 20) 5)) > 4096" by (simp add: sample_terms_def)
qed (rule sample_terms_typed)

text \<open>Reading back terms whose every field but the recurrence count fits.\<close>

lemma unreadable_recurrence:
  assumes "terms_fits t" "int64_ok p" "n > 4096"
  shows "dec_terms (enc_terms (t\<lparr>tm_recurrence := \<lparr>rs_enabled = False, rs_period = p, rs_count = n\<rparr>\<rparr>)) = Inl ECorrupt"
proof -
  have "dbind dec_recurrence f (w_boolean False @ w_i64 p @ w_u32 n) = Inl ECorrupt" for f :: "recurrence_spec \<Rightarrow> 'a reader"
  proof -
    have "dec_recurrence (w_boolean False @ w_i64 p @ w_u32 n @ []) = Inl ECorrupt"
      unfolding dec_recurrence_def using assms(2,3) by (simp add: codec_rt del: append_Nil2)
    then show ?thesis by (simp add: dbind_def)
  qed
  with assms(1) show ?thesis
    by (simp add: dec_terms_def enc_terms_def enc_recurrence_def terms_fits_def codec_rt)
qed

lemma unreadable_reason:
  assumes "interval_fits i" "length s = 257"
  shows "dec_maintenance_window (enc_interval i @ w_text s @ rest) = Inl EResourceExhausted"
proof -
  have "r_text 256 (w_text s @ rest) = Inl EResourceExhausted"
    using assms(2) by (simp add: r_text_def r_bytes_def w_text_def w_bytes_def dbind_def cu32.dec_enc unat_of_nat take_bit_eq_mod)
  then show ?thesis using assms(1) by (simp add: dec_maintenance_window_def codec_rt) (simp add: dbind_def)
qed

definition long_reason_capacity :: resource_capacity where
  "long_reason_capacity = \<lparr>rc_resource = ''link'', rc_generation = 1, rc_reservable_capacity = 100,
     rc_protected_headroom = 0, rc_failure_domain = [], rc_failure_domain_generation = 0,
     rc_maintenance = [\<lparr>mw_interval = mk_iv 10 20, mw_reason = replicate 257 (CHR ''x'')\<rparr>]\<rparr>"

lemma long_reason_unreadable:
  "dec_resource_capacity (enc_resource_capacity long_reason_capacity) = Inl EResourceExhausted"
proof -
  let ?w = "\<lparr>mw_interval = mk_iv 10 20, mw_reason = replicate 257 (CHR ''x'')\<rparr>"
  have i: "interval_fits (mk_iv 10 20)" by (simp add: interval_fits_def int64_ok_def mk_iv_def)
  have "dec_maintenance_window (enc_maintenance_window ?w) = Inl EResourceExhausted"
    using unreadable_reason [OF i, of "replicate 257 (CHR ''x'')" "[]"] by (simp add: enc_maintenance_window_def)
  then have "decode_list dec_maintenance_window (w_list enc_maintenance_window [?w]) = Inl EResourceExhausted"
    by (simp add: decode_list_def r_list_def w_list_def w_count_def r_peek_count_def dbind_def cu32.dec_enc
        kMaxCollectionItems_def)
  then have "dbind (decode_list dec_maintenance_window) f (w_list enc_maintenance_window [?w]) = Inl EResourceExhausted"
    for f :: "maintenance_window list \<Rightarrow> resource_capacity reader"
    by (simp add: dbind_def)
  moreover have "name_ok kNameCapacity ''link''" "name_ok kNameCapacity []"
    by (simp_all add: name_ok_def fixed_name_from_string_def name_char_ok_def kNameCapacity_def less_eq_char_def)
  ultimately show ?thesis
    by (simp add: dec_resource_capacity_def enc_resource_capacity_def long_reason_capacity_def codec_rt int64_ok_def)
qed

text \<open>C34: Validation is weaker than the decoders: terms whose disabled recurrence carries a count above
  4096, and a capacity statement with a maintenance reason above 256 bytes, pass validation, and the bytes
  written for them are refused when they are read back.\<close>

theorem validation_gap:
  "(\<exists>t. validate_terms t = Inr () \<and> dec_terms (enc_terms t) = Inl ECorrupt) \<and>
   (\<exists>c. validate_capacity c = Inr () \<and> dec_resource_capacity (enc_resource_capacity c) = Inl EResourceExhausted)"
proof -
  let ?t = "(sample_terms (mk_iv 10 20) 5)\<lparr>tm_recurrence := \<lparr>rs_enabled = False, rs_period = 0, rs_count = 5000\<rparr>\<rparr>"
  have "terms_fits (sample_terms (mk_iv 10 20) 5)"
    by (rule validated_terms_fit [OF sample_terms_ok sample_terms_typed]) (simp add: sample_terms_def)
  then have "dec_terms (enc_terms ?t) = Inl ECorrupt"
    by (rule unreadable_recurrence) (simp_all add: int64_ok_def)
  moreover have "validate_terms ?t = Inr ()" using sample_terms_ok by (simp add: validate_terms_ok terms_ok_def)
  moreover have "validate_capacity long_reason_capacity = Inr ()"
  proof -
    have "validate_interval (mk_iv 10 20) = Inr ()" by (simp add: interval_ok_def mk_iv_def time_consts)
    then show ?thesis
      by (simp add: validate_capacity_def long_reason_capacity_def kMaxBandwidthBps_def
          kMaxMaintenanceWindowsPerResource_def del: validate_interval_ok)
  qed
  ultimately show ?thesis using long_reason_unreadable by blast
qed

end
