(* ===== verification/Brf_Durable.thy ===== *)
theory Brf_Durable
  imports Brf_Codec
begin

text \<open>
  Holds, request contexts, the payloads of the durable records and the state snapshot, with their codecs,
  from \<^verbatim>\<open>include/brf/codec.hpp\<close> and \<^verbatim>\<open>src/codec.cpp\<close>. A member guarded by a
  \<^verbatim>\<open>has_\<close> flag is an \<open>option\<close>; the union carrier \<^verbatim>\<open>DurableRecord\<close> is a datatype
  with one constructor for each record kind.

  The theorems show that a journal payload decodes exactly when it is the encoding of a record of the
  kind its container names, and that the same holds of snapshots; and that terms and capacity statements
  which pass validation can still be refused when they are read back.
\<close>

datatype record_kind =
    RkFabricBoot | RkCapacitySnapshot | RkPathSnapshot | RkPolicyRecord | RkReservationCommit
  | RkReservationAmend | RkReservationSeries | RkReservationState | RkReservationApplicability
  | RkAttemptOutcome | RkOvercommit | RkRetire | RkFence | RkClaimantRegistration

definition record_kind_values :: "record_kind list" where
  "record_kind_values =
     [RkFabricBoot, RkCapacitySnapshot, RkPathSnapshot, RkPolicyRecord, RkReservationCommit,
      RkReservationAmend, RkReservationSeries, RkReservationState, RkReservationApplicability,
      RkAttemptOutcome, RkOvercommit, RkRetire, RkFence, RkClaimantRegistration]"

text \<open>The numbers start at one.\<close>

definition record_kind_number :: "record_kind \<Rightarrow> u16" where
  "record_kind_number k = of_nat (enum_index record_kind_values k + 1)"

definition record_kind_of :: "u16 \<Rightarrow> record_kind option" where
  "record_kind_of raw =
     (if raw < 1 \<or> raw > 14 then None else Some (record_kind_values ! (unat raw - 1)))"

definition enc_record_kind :: "record_kind \<Rightarrow> bytes" where
  "enc_record_kind k = w_u16 (record_kind_number k)"

definition dec_record_kind :: "record_kind reader" where
  "dec_record_kind = dbind r_u16 (\<lambda>raw.
     case record_kind_of raw of None \<Rightarrow> dfail ECorrupt | Some k \<Rightarrow> dret k)"

lemma record_kind_values: "distinct record_kind_values" "set record_kind_values = UNIV" "length record_kind_values = 14"
  by (auto simp: record_kind_values_def intro: record_kind.exhaust)

lemma u16_kind_range: "\<not> ((raw :: u16) < 1 \<or> raw > 14) \<longleftrightarrow> 1 \<le> unat raw \<and> unat raw \<le> 14"
  by (auto simp: word_less_nat_alt not_less)

lemma record_kind_of_iff: "record_kind_of raw = Some k \<longleftrightarrow> raw = record_kind_number k"
proof
  assume "record_kind_of raw = Some k"
  then have r: "1 \<le> unat raw" "unat raw \<le> 14" and k: "k = record_kind_values ! (unat raw - 1)"
    using u16_kind_range [of raw] by (auto simp: record_kind_of_def split: if_splits)
  then have "enum_index record_kind_values k = unat raw - 1"
    using enum_index_nth [OF record_kind_values(1)] record_kind_values(3) by simp
  then have "enum_index record_kind_values k + 1 = unat raw" using r by simp
  then show "raw = record_kind_number k" by (simp only: record_kind_number_def) simp
next
  assume k: "raw = record_kind_number k"
  have i: "enum_index record_kind_values k < 14" "record_kind_values ! enum_index record_kind_values k = k"
    using enum_index_less [of k record_kind_values] record_kind_values by auto
  then have "unat raw = enum_index record_kind_values k + 1"
    by (simp add: k record_kind_number_def unat_of_nat take_bit_eq_mod del: of_nat_add of_nat_Suc)
  then show "record_kind_of raw = Some k" using i u16_kind_range [of raw] by (auto simp: record_kind_of_def)
qed

interpretation c_record_kind: codec enc_record_kind dec_record_kind "\<lambda>_. True"
proof unfold_locales
  fix k rest
  have "record_kind_of (record_kind_number k) = Some k" by (simp add: record_kind_of_iff)
  then show "dec_record_kind (enc_record_kind k @ rest) = Inr (k, rest)"
    by (simp add: enc_record_kind_def dec_record_kind_def codec_rt)
next
  fix bs k rest assume "dec_record_kind bs = Inr (k, rest)"
  then obtain raw mid where "bs = w_u16 raw @ mid"
    "(case record_kind_of raw of None \<Rightarrow> dfail ECorrupt | Some k \<Rightarrow> dret k) mid = Inr (k, rest)"
    by (auto simp: dec_record_kind_def codec_only)
  then have "bs = w_u16 raw @ rest" "record_kind_of raw = Some k"
    by (cases "record_kind_of raw"; simp)+
  then show "True \<and> bs = enc_record_kind k @ rest" by (simp add: enc_record_kind_def record_kind_of_iff)
qed

subsection \<open>Holds and request contexts\<close>

record hold_record =
  hd_id :: identity
  hd_generation :: counter
  hd_claimant :: identity
  hd_claimant_generation :: counter
  hd_session :: identity
  hd_boot :: identity
  hd_epoch :: counter
  hd_binding_kind :: binding_kind
  hd_resources :: "name list"
  hd_path :: name
  hd_path_generation :: counter
  hd_interval :: interval
  hd_amount :: bandwidth
  hd_guarantee :: guarantee_class
  hd_created_at :: timestamp
  hd_expires_at :: timestamp
  hd_released :: bool
  hd_released_at :: timestamp
  hd_release_reason :: string

definition enc_hold :: "hold_record \<Rightarrow> bytes" where
  "enc_hold v =
     w_fixed128 (hd_id v) @ w_u64 (hd_generation v) @ w_fixed128 (hd_claimant v) @
     w_u64 (hd_claimant_generation v) @ w_fixed128 (hd_session v) @ w_fixed128 (hd_boot v) @
     w_u64 (hd_epoch v) @ enc_binding_kind (hd_binding_kind v) @ w_list w_text (hd_resources v) @
     w_text (hd_path v) @ w_u64 (hd_path_generation v) @ enc_interval (hd_interval v) @
     w_i64 (hd_amount v) @ enc_guarantee_class (hd_guarantee v) @ w_i64 (hd_created_at v) @
     w_i64 (hd_expires_at v) @ w_boolean (hd_released v) @ w_i64 (hd_released_at v) @
     w_text (hd_release_reason v)"

definition dec_hold :: "hold_record reader" where
  "dec_hold =
     dbind r_fixed128 (\<lambda>id.
     dbind r_u64 (\<lambda>generation.
     dbind r_fixed128 (\<lambda>claimant.
     dbind r_u64 (\<lambda>claimant_generation.
     dbind r_fixed128 (\<lambda>session.
     dbind r_fixed128 (\<lambda>boot.
     dbind r_u64 (\<lambda>epoch.
     dbind dec_binding_kind (\<lambda>binding_kind.
     dbind (decode_list (dec_name kNameCapacity)) (\<lambda>resources.
     dbind (dec_name kNameCapacity) (\<lambda>path.
     dbind r_u64 (\<lambda>path_generation.
     dbind dec_interval (\<lambda>interval.
     dbind r_i64 (\<lambda>amount.
     dbind dec_guarantee_class (\<lambda>guarantee.
     dbind r_i64 (\<lambda>created_at.
     dbind r_i64 (\<lambda>expires_at.
     dbind r_boolean (\<lambda>released.
     dbind r_i64 (\<lambda>released_at.
     dbind (r_text kMaxProvenanceReasonBytes) (\<lambda>release_reason.
     dret \<lparr>hd_id = id, hd_generation = generation, hd_claimant = claimant,
       hd_claimant_generation = claimant_generation, hd_session = session, hd_boot = boot,
       hd_epoch = epoch, hd_binding_kind = binding_kind, hd_resources = resources, hd_path = path,
       hd_path_generation = path_generation, hd_interval = interval, hd_amount = amount,
       hd_guarantee = guarantee, hd_created_at = created_at, hd_expires_at = expires_at,
       hd_released = released, hd_released_at = released_at, hd_release_reason = release_reason\<rparr>)))))))))))))))))))"

definition hold_fits :: "hold_record \<Rightarrow> bool" where
  "hold_fits v \<longleftrightarrow> list_fits (name_ok kNameCapacity) (hd_resources v) \<and> name_ok kNameCapacity (hd_path v) \<and>
     interval_fits (hd_interval v) \<and> int64_ok (hd_amount v) \<and>
     int64_ok (hd_created_at v) \<and> int64_ok (hd_expires_at v) \<and>
     int64_ok (hd_released_at v) \<and> reason_fits (hd_release_reason v)"

interpretation c_hold: codec enc_hold dec_hold "hold_fits"
proof unfold_locales
  fix v rest assume "hold_fits v"
  then show "dec_hold (enc_hold v @ rest) = Inr (v, rest)"
    by (cases v) (simp add: enc_hold_def dec_hold_def hold_fits_def codec_rt)
next
  fix bs v rest assume "dec_hold bs = Inr (v, rest)"
  then show "hold_fits v \<and> bs = enc_hold v @ rest"
    by (auto simp: enc_hold_def dec_hold_def hold_fits_def codec_only split: if_splits)
qed

record request_context =
  cx_actor :: name
  cx_publisher :: identity
  cx_publisher_boot :: identity
  cx_session :: identity
  cx_attempt :: identity
  cx_claimant :: identity
  cx_claimant_generation :: counter
  cx_asserted_epoch :: counter
  cx_reason :: string

definition enc_context :: "request_context \<Rightarrow> bytes" where
  "enc_context v =
     w_text (cx_actor v) @ w_fixed128 (cx_publisher v) @ w_fixed128 (cx_publisher_boot v) @
     w_fixed128 (cx_session v) @ w_fixed128 (cx_attempt v) @ w_fixed128 (cx_claimant v) @
     w_u64 (cx_claimant_generation v) @ w_u64 (cx_asserted_epoch v) @ w_text (cx_reason v)"

definition dec_context :: "request_context reader" where
  "dec_context =
     dbind (dec_name kActorNameCapacity) (\<lambda>actor.
     dbind r_fixed128 (\<lambda>publisher.
     dbind r_fixed128 (\<lambda>publisher_boot.
     dbind r_fixed128 (\<lambda>session.
     dbind r_fixed128 (\<lambda>attempt.
     dbind r_fixed128 (\<lambda>claimant.
     dbind r_u64 (\<lambda>claimant_generation.
     dbind r_u64 (\<lambda>asserted_epoch.
     dbind (r_text kMaxProvenanceReasonBytes) (\<lambda>reason.
     dret \<lparr>cx_actor = actor, cx_publisher = publisher, cx_publisher_boot = publisher_boot,
       cx_session = session, cx_attempt = attempt, cx_claimant = claimant,
       cx_claimant_generation = claimant_generation, cx_asserted_epoch = asserted_epoch, cx_reason = reason\<rparr>)))))))))"

definition context_fits :: "request_context \<Rightarrow> bool" where
  "context_fits v \<longleftrightarrow> name_ok kActorNameCapacity (cx_actor v) \<and> reason_fits (cx_reason v)"

interpretation c_context: codec enc_context dec_context "context_fits"
proof unfold_locales
  fix v rest assume "context_fits v"
  then show "dec_context (enc_context v @ rest) = Inr (v, rest)"
    by (cases v) (simp add: enc_context_def dec_context_def context_fits_def codec_rt)
next
  fix bs v rest assume "dec_context bs = Inr (v, rest)"
  then show "context_fits v \<and> bs = enc_context v @ rest"
    by (auto simp: enc_context_def dec_context_def context_fits_def codec_only split: if_splits)
qed

subsection \<open>Payloads\<close>

record attempt_mutation =
  at_attempt :: identity
  at_fingerprint :: identity
  at_outcome :: admission_outcome
  at_reservation :: identity
  at_generation :: counter
  at_result_sequence :: counter
  at_claimant :: identity
  at_at :: timestamp

definition enc_attempt :: "attempt_mutation \<Rightarrow> bytes" where
  "enc_attempt v =
     w_fixed128 (at_attempt v) @ w_fixed128 (at_fingerprint v) @ enc_admission_outcome (at_outcome v) @
     w_fixed128 (at_reservation v) @ w_u64 (at_generation v) @ w_u64 (at_result_sequence v) @
     w_fixed128 (at_claimant v) @ w_i64 (at_at v)"

definition dec_attempt :: "attempt_mutation reader" where
  "dec_attempt =
     dbind r_fixed128 (\<lambda>attempt.
     dbind r_fixed128 (\<lambda>fingerprint.
     dbind dec_admission_outcome (\<lambda>outcome.
     dbind r_fixed128 (\<lambda>reservation.
     dbind r_u64 (\<lambda>generation.
     dbind r_u64 (\<lambda>result_sequence.
     dbind r_fixed128 (\<lambda>claimant.
     dbind r_i64 (\<lambda>at.
     dret \<lparr>at_attempt = attempt, at_fingerprint = fingerprint, at_outcome = outcome,
       at_reservation = reservation, at_generation = generation, at_result_sequence = result_sequence,
       at_claimant = claimant, at_at = at\<rparr>))))))))"

definition attempt_fits :: "attempt_mutation \<Rightarrow> bool" where
  "attempt_fits v \<longleftrightarrow> int64_ok (at_at v)"

interpretation c_attempt: codec enc_attempt dec_attempt "attempt_fits"
proof unfold_locales
  fix v rest assume "attempt_fits v"
  then show "dec_attempt (enc_attempt v @ rest) = Inr (v, rest)"
    by (cases v) (simp add: enc_attempt_def dec_attempt_def attempt_fits_def codec_rt)
next
  fix bs v rest assume "dec_attempt bs = Inr (v, rest)"
  then show "attempt_fits v \<and> bs = enc_attempt v @ rest"
    by (auto simp: enc_attempt_def dec_attempt_def attempt_fits_def codec_only split: if_splits)
qed

interpretation co_attempt: codec "enc_flagged enc_attempt" "dec_flagged dec_attempt" "flagged_fits attempt_fits"
  by (rule flagged_codec) unfold_locales

record state_mutation =
  sm_id :: identity
  sm_generation :: counter
  sm_from_state :: reservation_state
  sm_to_state :: reservation_state
  sm_at :: timestamp
  sm_reason :: string
  sm_provenance :: provenance
  sm_recall_effective_at :: timestamp
  sm_attempt :: "attempt_mutation option"

definition enc_state :: "state_mutation \<Rightarrow> bytes" where
  "enc_state v =
     w_fixed128 (sm_id v) @ w_u64 (sm_generation v) @ enc_reservation_state (sm_from_state v) @
     enc_reservation_state (sm_to_state v) @ w_i64 (sm_at v) @ w_text (sm_reason v) @
     enc_provenance (sm_provenance v) @ w_i64 (sm_recall_effective_at v) @
     enc_flagged enc_attempt (sm_attempt v)"

definition dec_state :: "state_mutation reader" where
  "dec_state =
     dbind r_fixed128 (\<lambda>id.
     dbind r_u64 (\<lambda>generation.
     dbind dec_reservation_state (\<lambda>from_state.
     dbind dec_reservation_state (\<lambda>to_state.
     dbind r_i64 (\<lambda>at.
     dbind (r_text kMaxProvenanceReasonBytes) (\<lambda>reason.
     dbind dec_provenance (\<lambda>provenance.
     dbind r_i64 (\<lambda>recall_effective_at.
     dbind (dec_flagged dec_attempt) (\<lambda>attempt.
     dret \<lparr>sm_id = id, sm_generation = generation, sm_from_state = from_state, sm_to_state = to_state,
       sm_at = at, sm_reason = reason, sm_provenance = provenance,
       sm_recall_effective_at = recall_effective_at, sm_attempt = attempt\<rparr>)))))))))"

definition state_fits :: "state_mutation \<Rightarrow> bool" where
  "state_fits v \<longleftrightarrow> int64_ok (sm_at v) \<and> reason_fits (sm_reason v) \<and> provenance_fits (sm_provenance v) \<and>
     int64_ok (sm_recall_effective_at v) \<and> flagged_fits attempt_fits (sm_attempt v)"

interpretation c_state: codec enc_state dec_state "state_fits"
proof unfold_locales
  fix v rest assume "state_fits v"
  then show "dec_state (enc_state v @ rest) = Inr (v, rest)"
    by (cases v) (simp add: enc_state_def dec_state_def state_fits_def codec_rt)
next
  fix bs v rest assume "dec_state bs = Inr (v, rest)"
  then show "state_fits v \<and> bs = enc_state v @ rest"
    by (auto simp: enc_state_def dec_state_def state_fits_def codec_only split: if_splits)
qed

interpretation co_series: codec "enc_flagged enc_series" "dec_flagged dec_series" "flagged_fits series_fits"
  by (rule flagged_codec) unfold_locales

interpretation cl_record: codec "w_list enc_record" "decode_list dec_record" "list_fits record_fits"
  by (rule list_codec_item) unfold_locales

interpretation co_edge: codec "enc_flagged enc_edge" "dec_flagged dec_edge" "flagged_fits edge_fits"
  by (rule flagged_codec) unfold_locales

interpretation cl_state: codec "w_list enc_state" "decode_list dec_state" "list_fits state_fits"
  by (rule list_codec_item) unfold_locales

record reservation_mutation =
  mu_record :: reservation_record
  mu_series :: "reservation_series option"
  mu_members :: "reservation_record list"
  mu_edge :: "supersession_edge option"
  mu_supersede_record :: bool
  mu_companions :: "state_mutation list"
  mu_attempt :: "attempt_mutation option"

definition enc_mutation :: "reservation_mutation \<Rightarrow> bytes" where
  "enc_mutation v =
     enc_record (mu_record v) @ enc_flagged enc_series (mu_series v) @
     w_list enc_record (mu_members v) @ enc_flagged enc_edge (mu_edge v) @
     w_boolean (mu_supersede_record v) @ w_list enc_state (mu_companions v) @
     enc_flagged enc_attempt (mu_attempt v)"

definition dec_mutation :: "reservation_mutation reader" where
  "dec_mutation =
     dbind dec_record (\<lambda>record.
     dbind (dec_flagged dec_series) (\<lambda>series.
     dbind (decode_list dec_record) (\<lambda>members.
     dbind (dec_flagged dec_edge) (\<lambda>edge.
     dbind r_boolean (\<lambda>supersede_record.
     dbind (decode_list dec_state) (\<lambda>companions.
     dbind (dec_flagged dec_attempt) (\<lambda>attempt.
     dret \<lparr>mu_record = record, mu_series = series, mu_members = members, mu_edge = edge,
       mu_supersede_record = supersede_record, mu_companions = companions, mu_attempt = attempt\<rparr>)))))))"

definition mutation_fits :: "reservation_mutation \<Rightarrow> bool" where
  "mutation_fits v \<longleftrightarrow> record_fits (mu_record v) \<and> flagged_fits series_fits (mu_series v) \<and>
     list_fits record_fits (mu_members v) \<and> flagged_fits edge_fits (mu_edge v) \<and>
     list_fits state_fits (mu_companions v) \<and> flagged_fits attempt_fits (mu_attempt v)"

interpretation c_mutation: codec enc_mutation dec_mutation "mutation_fits"
proof unfold_locales
  fix v rest assume "mutation_fits v"
  then show "dec_mutation (enc_mutation v @ rest) = Inr (v, rest)"
    by (cases v) (simp add: enc_mutation_def dec_mutation_def mutation_fits_def codec_rt)
next
  fix bs v rest assume "dec_mutation bs = Inr (v, rest)"
  then show "mutation_fits v \<and> bs = enc_mutation v @ rest"
    by (auto simp: enc_mutation_def dec_mutation_def mutation_fits_def codec_only split: if_splits)
qed

record applicability_mutation =
  am_id :: identity
  am_generation :: counter
  am_applicability :: applicability
  am_reason :: applicability_reason
  am_at :: timestamp

definition enc_applicability_mutation :: "applicability_mutation \<Rightarrow> bytes" where
  "enc_applicability_mutation v =
     w_fixed128 (am_id v) @ w_u64 (am_generation v) @ enc_applicability (am_applicability v) @
     enc_applicability_reason (am_reason v) @ w_i64 (am_at v)"

definition dec_applicability_mutation :: "applicability_mutation reader" where
  "dec_applicability_mutation =
     dbind r_fixed128 (\<lambda>id.
     dbind r_u64 (\<lambda>generation.
     dbind dec_applicability (\<lambda>applicability.
     dbind dec_applicability_reason (\<lambda>reason.
     dbind r_i64 (\<lambda>at.
     dret \<lparr>am_id = id, am_generation = generation, am_applicability = applicability, am_reason = reason,
       am_at = at\<rparr>)))))"

definition applicability_mutation_fits :: "applicability_mutation \<Rightarrow> bool" where
  "applicability_mutation_fits v \<longleftrightarrow> int64_ok (am_at v)"

interpretation c_applicability_mutation: codec enc_applicability_mutation dec_applicability_mutation "applicability_mutation_fits"
proof unfold_locales
  fix v rest assume "applicability_mutation_fits v"
  then show "dec_applicability_mutation (enc_applicability_mutation v @ rest) = Inr (v, rest)"
    by (cases v) (simp add: enc_applicability_mutation_def dec_applicability_mutation_def applicability_mutation_fits_def codec_rt)
next
  fix bs v rest assume "dec_applicability_mutation bs = Inr (v, rest)"
  then show "applicability_mutation_fits v \<and> bs = enc_applicability_mutation v @ rest"
    by (auto simp: enc_applicability_mutation_def dec_applicability_mutation_def applicability_mutation_fits_def codec_only split: if_splits)
qed

record epoch_mutation =
  em_epoch :: counter
  em_coordinator_boot :: identity
  em_at :: timestamp

definition enc_epoch :: "epoch_mutation \<Rightarrow> bytes" where
  "enc_epoch v =
     w_u64 (em_epoch v) @ w_fixed128 (em_coordinator_boot v) @ w_i64 (em_at v)"

definition dec_epoch :: "epoch_mutation reader" where
  "dec_epoch =
     dbind r_u64 (\<lambda>epoch.
     dbind r_fixed128 (\<lambda>coordinator_boot.
     dbind r_i64 (\<lambda>at.
     dret \<lparr>em_epoch = epoch, em_coordinator_boot = coordinator_boot, em_at = at\<rparr>)))"

definition epoch_fits :: "epoch_mutation \<Rightarrow> bool" where
  "epoch_fits v \<longleftrightarrow> int64_ok (em_at v)"

interpretation c_epoch: codec enc_epoch dec_epoch "epoch_fits"
proof unfold_locales
  fix v rest assume "epoch_fits v"
  then show "dec_epoch (enc_epoch v @ rest) = Inr (v, rest)"
    by (cases v) (simp add: enc_epoch_def dec_epoch_def epoch_fits_def codec_rt)
next
  fix bs v rest assume "dec_epoch bs = Inr (v, rest)"
  then show "epoch_fits v \<and> bs = enc_epoch v @ rest"
    by (auto simp: enc_epoch_def dec_epoch_def epoch_fits_def codec_only split: if_splits)
qed

record fence_mutation =
  fm_claimant :: identity
  fm_claimant_generation :: counter
  fm_boot :: identity
  fm_session :: identity
  fm_at :: timestamp
  fm_reason :: string
  fm_claimant_wide :: bool

definition enc_fence :: "fence_mutation \<Rightarrow> bytes" where
  "enc_fence v =
     w_fixed128 (fm_claimant v) @ w_u64 (fm_claimant_generation v) @ w_fixed128 (fm_boot v) @
     w_fixed128 (fm_session v) @ w_i64 (fm_at v) @ w_text (fm_reason v) @ w_boolean (fm_claimant_wide v)"

definition dec_fence :: "fence_mutation reader" where
  "dec_fence =
     dbind r_fixed128 (\<lambda>claimant.
     dbind r_u64 (\<lambda>claimant_generation.
     dbind r_fixed128 (\<lambda>boot.
     dbind r_fixed128 (\<lambda>session.
     dbind r_i64 (\<lambda>at.
     dbind (r_text kMaxProvenanceReasonBytes) (\<lambda>reason.
     dbind r_boolean (\<lambda>claimant_wide.
     dret \<lparr>fm_claimant = claimant, fm_claimant_generation = claimant_generation, fm_boot = boot,
       fm_session = session, fm_at = at, fm_reason = reason, fm_claimant_wide = claimant_wide\<rparr>)))))))"

definition fence_fits :: "fence_mutation \<Rightarrow> bool" where
  "fence_fits v \<longleftrightarrow> int64_ok (fm_at v) \<and> reason_fits (fm_reason v)"

interpretation c_fence: codec enc_fence dec_fence "fence_fits"
proof unfold_locales
  fix v rest assume "fence_fits v"
  then show "dec_fence (enc_fence v @ rest) = Inr (v, rest)"
    by (cases v) (simp add: enc_fence_def dec_fence_def fence_fits_def codec_rt)
next
  fix bs v rest assume "dec_fence bs = Inr (v, rest)"
  then show "fence_fits v \<and> bs = enc_fence v @ rest"
    by (auto simp: enc_fence_def dec_fence_def fence_fits_def codec_only split: if_splits)
qed

record claimant_mutation =
  cm_claimant :: identity
  cm_generation :: counter
  cm_at :: timestamp

definition enc_claimant :: "claimant_mutation \<Rightarrow> bytes" where
  "enc_claimant v =
     w_fixed128 (cm_claimant v) @ w_u64 (cm_generation v) @ w_i64 (cm_at v)"

definition dec_claimant :: "claimant_mutation reader" where
  "dec_claimant =
     dbind r_fixed128 (\<lambda>claimant.
     dbind r_u64 (\<lambda>generation.
     dbind r_i64 (\<lambda>at.
     dret \<lparr>cm_claimant = claimant, cm_generation = generation, cm_at = at\<rparr>)))"

definition claimant_fits :: "claimant_mutation \<Rightarrow> bool" where
  "claimant_fits v \<longleftrightarrow> int64_ok (cm_at v)"

interpretation c_claimant: codec enc_claimant dec_claimant "claimant_fits"
proof unfold_locales
  fix v rest assume "claimant_fits v"
  then show "dec_claimant (enc_claimant v @ rest) = Inr (v, rest)"
    by (cases v) (simp add: enc_claimant_def dec_claimant_def claimant_fits_def codec_rt)
next
  fix bs v rest assume "dec_claimant bs = Inr (v, rest)"
  then show "claimant_fits v \<and> bs = enc_claimant v @ rest"
    by (auto simp: enc_claimant_def dec_claimant_def claimant_fits_def codec_only split: if_splits)
qed

record overcommit_mutation =
  oc_resource :: name
  oc_generation :: counter
  oc_committed_peak :: bandwidth
  oc_ceiling :: bandwidth
  oc_window :: interval
  oc_at :: timestamp
  oc_resolved :: bool

definition enc_overcommit :: "overcommit_mutation \<Rightarrow> bytes" where
  "enc_overcommit v =
     w_text (oc_resource v) @ w_u64 (oc_generation v) @ w_i64 (oc_committed_peak v) @
     w_i64 (oc_ceiling v) @ enc_interval (oc_window v) @ w_i64 (oc_at v) @ w_boolean (oc_resolved v)"

definition dec_overcommit :: "overcommit_mutation reader" where
  "dec_overcommit =
     dbind (dec_name kNameCapacity) (\<lambda>resource.
     dbind r_u64 (\<lambda>generation.
     dbind r_i64 (\<lambda>committed_peak.
     dbind r_i64 (\<lambda>ceiling.
     dbind dec_interval (\<lambda>window.
     dbind r_i64 (\<lambda>at.
     dbind r_boolean (\<lambda>resolved.
     dret \<lparr>oc_resource = resource, oc_generation = generation, oc_committed_peak = committed_peak,
       oc_ceiling = ceiling, oc_window = window, oc_at = at, oc_resolved = resolved\<rparr>)))))))"

definition overcommit_fits :: "overcommit_mutation \<Rightarrow> bool" where
  "overcommit_fits v \<longleftrightarrow> name_ok kNameCapacity (oc_resource v) \<and> int64_ok (oc_committed_peak v) \<and>
     int64_ok (oc_ceiling v) \<and> interval_fits (oc_window v) \<and> int64_ok (oc_at v)"

interpretation c_overcommit: codec enc_overcommit dec_overcommit "overcommit_fits"
proof unfold_locales
  fix v rest assume "overcommit_fits v"
  then show "dec_overcommit (enc_overcommit v @ rest) = Inr (v, rest)"
    by (cases v) (simp add: enc_overcommit_def dec_overcommit_def overcommit_fits_def codec_rt)
next
  fix bs v rest assume "dec_overcommit bs = Inr (v, rest)"
  then show "overcommit_fits v \<and> bs = enc_overcommit v @ rest"
    by (auto simp: enc_overcommit_def dec_overcommit_def overcommit_fits_def codec_only split: if_splits)
qed

interpretation cl_counter: codec "w_list w_u64" "decode_list r_u64" "list_fits (\<lambda>_. True)"
  by (rule list_codec_item) unfold_locales

record retire_mutation =
  rt_ids :: "identity list"
  rt_generations :: "counter list"
  rt_at :: timestamp

definition enc_retire :: "retire_mutation \<Rightarrow> bytes" where
  "enc_retire v =
     w_list w_fixed128 (rt_ids v) @ w_list w_u64 (rt_generations v) @ w_i64 (rt_at v)"

definition dec_retire :: "retire_mutation reader" where
  "dec_retire =
     dbind (decode_list r_fixed128) (\<lambda>ids.
     dbind (decode_list r_u64) (\<lambda>generations.
     if length ids \<noteq> length generations then dfail ECorrupt else
     dbind r_i64 (\<lambda>at.
     dret \<lparr>rt_ids = ids, rt_generations = generations, rt_at = at\<rparr>)))"

definition retire_fits :: "retire_mutation \<Rightarrow> bool" where
  "retire_fits v \<longleftrightarrow> list_fits (\<lambda>_. True) (rt_ids v) \<and>
     list_fits (\<lambda>_. True) (rt_generations v) \<and> int64_ok (rt_at v) \<and>
     length (rt_ids v) = length (rt_generations v)"

interpretation c_retire: codec enc_retire dec_retire "retire_fits"
proof unfold_locales
  fix v rest assume "retire_fits v"
  then show "dec_retire (enc_retire v @ rest) = Inr (v, rest)"
    by (cases v) (simp add: enc_retire_def dec_retire_def retire_fits_def codec_rt)
next
  fix bs v rest assume "dec_retire bs = Inr (v, rest)"
  then show "retire_fits v \<and> bs = enc_retire v @ rest"
    by (auto simp: enc_retire_def dec_retire_def retire_fits_def codec_only split: if_splits)
qed

record capacity_mutation =
  ca_snapshot :: capacity_snapshot
  ca_withdrawals :: "name list"

definition enc_capacity :: "capacity_mutation \<Rightarrow> bytes" where
  "enc_capacity v =
     enc_capacity_snapshot (ca_snapshot v) @ w_list w_text (ca_withdrawals v)"

definition dec_capacity :: "capacity_mutation reader" where
  "dec_capacity =
     dbind dec_capacity_snapshot (\<lambda>snapshot.
     dbind (decode_list (dec_name kNameCapacity)) (\<lambda>withdrawals.
     dret \<lparr>ca_snapshot = snapshot, ca_withdrawals = withdrawals\<rparr>))"

definition capacity_fits :: "capacity_mutation \<Rightarrow> bool" where
  "capacity_fits v \<longleftrightarrow> capacity_snapshot_fits (ca_snapshot v) \<and> list_fits (name_ok kNameCapacity) (ca_withdrawals v)"

interpretation c_capacity: codec enc_capacity dec_capacity "capacity_fits"
proof unfold_locales
  fix v rest assume "capacity_fits v"
  then show "dec_capacity (enc_capacity v @ rest) = Inr (v, rest)"
    by (cases v) (simp add: enc_capacity_def dec_capacity_def capacity_fits_def codec_rt)
next
  fix bs v rest assume "dec_capacity bs = Inr (v, rest)"
  then show "capacity_fits v \<and> bs = enc_capacity v @ rest"
    by (auto simp: enc_capacity_def dec_capacity_def capacity_fits_def codec_only split: if_splits)
qed

subsection \<open>Durable records\<close>

datatype durable_record =
    DrFabricBoot epoch_mutation
  | DrCapacitySnapshot capacity_mutation
  | DrPathSnapshot path_authority_snapshot
  | DrPolicyRecord policy_record
  | DrReservationCommit reservation_mutation
  | DrReservationAmend reservation_mutation
  | DrReservationSeries reservation_mutation
  | DrReservationState state_mutation
  | DrReservationApplicability applicability_mutation
  | DrAttemptOutcome attempt_mutation
  | DrOvercommit overcommit_mutation
  | DrRetire retire_mutation
  | DrFence fence_mutation
  | DrClaimantRegistration claimant_mutation

fun durable_kind :: "durable_record \<Rightarrow> record_kind" where
  "durable_kind (DrFabricBoot p) = RkFabricBoot"
| "durable_kind (DrCapacitySnapshot p) = RkCapacitySnapshot"
| "durable_kind (DrPathSnapshot p) = RkPathSnapshot"
| "durable_kind (DrPolicyRecord p) = RkPolicyRecord"
| "durable_kind (DrReservationCommit p) = RkReservationCommit"
| "durable_kind (DrReservationAmend p) = RkReservationAmend"
| "durable_kind (DrReservationSeries p) = RkReservationSeries"
| "durable_kind (DrReservationState p) = RkReservationState"
| "durable_kind (DrReservationApplicability p) = RkReservationApplicability"
| "durable_kind (DrAttemptOutcome p) = RkAttemptOutcome"
| "durable_kind (DrOvercommit p) = RkOvercommit"
| "durable_kind (DrRetire p) = RkRetire"
| "durable_kind (DrFence p) = RkFence"
| "durable_kind (DrClaimantRegistration p) = RkClaimantRegistration"

fun enc_payload :: "durable_record \<Rightarrow> bytes" where
  "enc_payload (DrFabricBoot p) = enc_epoch p"
| "enc_payload (DrCapacitySnapshot p) = enc_capacity p"
| "enc_payload (DrPathSnapshot p) = enc_path_snapshot p"
| "enc_payload (DrPolicyRecord p) = enc_policy p"
| "enc_payload (DrReservationCommit p) = enc_mutation p"
| "enc_payload (DrReservationAmend p) = enc_mutation p"
| "enc_payload (DrReservationSeries p) = enc_mutation p"
| "enc_payload (DrReservationState p) = enc_state p"
| "enc_payload (DrReservationApplicability p) = enc_applicability_mutation p"
| "enc_payload (DrAttemptOutcome p) = enc_attempt p"
| "enc_payload (DrOvercommit p) = enc_overcommit p"
| "enc_payload (DrRetire p) = enc_retire p"
| "enc_payload (DrFence p) = enc_fence p"
| "enc_payload (DrClaimantRegistration p) = enc_claimant p"

fun dec_payload :: "record_kind \<Rightarrow> durable_record reader" where
  "dec_payload RkFabricBoot = dbind dec_epoch (\<lambda>p. dret (DrFabricBoot p))"
| "dec_payload RkCapacitySnapshot = dbind dec_capacity (\<lambda>p. dret (DrCapacitySnapshot p))"
| "dec_payload RkPathSnapshot = dbind dec_path_snapshot (\<lambda>p. dret (DrPathSnapshot p))"
| "dec_payload RkPolicyRecord = dbind dec_policy (\<lambda>p. dret (DrPolicyRecord p))"
| "dec_payload RkReservationCommit = dbind dec_mutation (\<lambda>p. dret (DrReservationCommit p))"
| "dec_payload RkReservationAmend = dbind dec_mutation (\<lambda>p. dret (DrReservationAmend p))"
| "dec_payload RkReservationSeries = dbind dec_mutation (\<lambda>p. dret (DrReservationSeries p))"
| "dec_payload RkReservationState = dbind dec_state (\<lambda>p. dret (DrReservationState p))"
| "dec_payload RkReservationApplicability = dbind dec_applicability_mutation (\<lambda>p. dret (DrReservationApplicability p))"
| "dec_payload RkAttemptOutcome = dbind dec_attempt (\<lambda>p. dret (DrAttemptOutcome p))"
| "dec_payload RkOvercommit = dbind dec_overcommit (\<lambda>p. dret (DrOvercommit p))"
| "dec_payload RkRetire = dbind dec_retire (\<lambda>p. dret (DrRetire p))"
| "dec_payload RkFence = dbind dec_fence (\<lambda>p. dret (DrFence p))"
| "dec_payload RkClaimantRegistration = dbind dec_claimant (\<lambda>p. dret (DrClaimantRegistration p))"

fun payload_fits :: "durable_record \<Rightarrow> bool" where
  "payload_fits (DrFabricBoot p) = epoch_fits p"
| "payload_fits (DrCapacitySnapshot p) = capacity_fits p"
| "payload_fits (DrPathSnapshot p) = path_snapshot_fits p"
| "payload_fits (DrPolicyRecord p) = policy_fits p"
| "payload_fits (DrReservationCommit p) = mutation_fits p"
| "payload_fits (DrReservationAmend p) = mutation_fits p"
| "payload_fits (DrReservationSeries p) = mutation_fits p"
| "payload_fits (DrReservationState p) = state_fits p"
| "payload_fits (DrReservationApplicability p) = applicability_mutation_fits p"
| "payload_fits (DrAttemptOutcome p) = attempt_fits p"
| "payload_fits (DrOvercommit p) = overcommit_fits p"
| "payload_fits (DrRetire p) = retire_fits p"
| "payload_fits (DrFence p) = fence_fits p"
| "payload_fits (DrClaimantRegistration p) = claimant_fits p"

definition enc_durable :: "durable_record \<Rightarrow> bytes" where
  "enc_durable r = enc_record_kind (durable_kind r) @ enc_payload r"

definition dec_durable :: "durable_record reader" where
  "dec_durable = dbind dec_record_kind dec_payload"

lemma dec_enc_payload:
  "payload_fits r \<Longrightarrow> dec_payload (durable_kind r) (enc_payload r @ rest) = Inr (r, rest)"
  by (cases r) (simp_all add: codec_rt)

lemma dec_payload_only:
  "dec_payload k bs = Inr (r, rest) \<Longrightarrow> payload_fits r \<and> durable_kind r = k \<and> bs = enc_payload r @ rest"
  by (cases k) (auto simp: codec_only)

interpretation c_durable: codec enc_durable dec_durable payload_fits
proof unfold_locales
  fix r rest assume "payload_fits r"
  then show "dec_durable (enc_durable r @ rest) = Inr (r, rest)"
    by (simp add: dec_durable_def enc_durable_def codec_rt dec_enc_payload)
next
  fix bs r rest assume "dec_durable bs = Inr (r, rest)"
  then show "payload_fits r \<and> bs = enc_durable r @ rest"
    by (auto simp: dec_durable_def enc_durable_def codec_only dest!: dec_payload_only)
qed

definition kDurableFormatVersion :: u16 where "kDurableFormatVersion = 1"

definition encode_record :: "durable_record \<Rightarrow> bytes" where
  "encode_record r = w_u16 kDurableFormatVersion @ enc_durable r"

definition decode_record :: "bytes \<Rightarrow> record_kind \<Rightarrow> durable_record result" where
  "decode_record payload kind =
     bindE (dbind r_u16 (\<lambda>version.
       if version \<noteq> kDurableFormatVersion then dfail EUnsupported else dec_durable) payload) (\<lambda>(r, rest).
         if durable_kind r \<noteq> kind then Inl ECorrupt
         else if rest \<noteq> [] then Inl ECorrupt
         else Inr r)"

subsection \<open>State snapshots\<close>

text \<open>The entries of a snapshot have the fields of the table entries they are taken from.\<close>

type_synonym snapshot_capacity_entry = ledger_entry
type_synonym snapshot_path_entry = path_entry
type_synonym snapshot_policy_entry = policy_entry

definition enc_snapshot_capacity :: "snapshot_capacity_entry \<Rightarrow> bytes" where
  "enc_snapshot_capacity v =
     enc_resource_capacity (le_capacity v) @ w_fixed128 (le_snapshot v) @ w_i64 (le_ingested_at v) @
     w_boolean (le_withdrawn v) @ w_i64 (le_withdrawn_at v) @ w_list w_u64 (le_prior_generations v)"

definition dec_snapshot_capacity :: "snapshot_capacity_entry reader" where
  "dec_snapshot_capacity =
     dbind dec_resource_capacity (\<lambda>capacity.
     dbind r_fixed128 (\<lambda>snapshot.
     dbind r_i64 (\<lambda>ingested_at.
     dbind r_boolean (\<lambda>withdrawn.
     dbind r_i64 (\<lambda>withdrawn_at.
     dbind (decode_list r_u64) (\<lambda>prior_generations.
     dret \<lparr>le_capacity = capacity, le_snapshot = snapshot, le_ingested_at = ingested_at,
       le_withdrawn = withdrawn, le_withdrawn_at = withdrawn_at, le_prior_generations = prior_generations\<rparr>))))))"

definition snapshot_capacity_fits :: "snapshot_capacity_entry \<Rightarrow> bool" where
  "snapshot_capacity_fits v \<longleftrightarrow> resource_capacity_fits (le_capacity v) \<and> int64_ok (le_ingested_at v) \<and>
     int64_ok (le_withdrawn_at v) \<and> list_fits (\<lambda>_. True) (le_prior_generations v)"

interpretation c_snapshot_capacity: codec enc_snapshot_capacity dec_snapshot_capacity "snapshot_capacity_fits"
proof unfold_locales
  fix v rest assume "snapshot_capacity_fits v"
  then show "dec_snapshot_capacity (enc_snapshot_capacity v @ rest) = Inr (v, rest)"
    by (cases v) (simp add: enc_snapshot_capacity_def dec_snapshot_capacity_def snapshot_capacity_fits_def codec_rt)
next
  fix bs v rest assume "dec_snapshot_capacity bs = Inr (v, rest)"
  then show "snapshot_capacity_fits v \<and> bs = enc_snapshot_capacity v @ rest"
    by (auto simp: enc_snapshot_capacity_def dec_snapshot_capacity_def snapshot_capacity_fits_def codec_only split: if_splits)
qed

definition enc_snapshot_path :: "snapshot_path_entry \<Rightarrow> bytes" where
  "enc_snapshot_path v =
     enc_path_authority (pt_path v) @ w_fixed128 (pt_snapshot v) @ w_i64 (pt_ingested_at v) @
     w_boolean (pt_retired v) @ w_list w_u64 (pt_prior_generations v)"

definition dec_snapshot_path :: "snapshot_path_entry reader" where
  "dec_snapshot_path =
     dbind dec_path_authority (\<lambda>path.
     dbind r_fixed128 (\<lambda>snapshot.
     dbind r_i64 (\<lambda>ingested_at.
     dbind r_boolean (\<lambda>retired.
     dbind (decode_list r_u64) (\<lambda>prior_generations.
     dret \<lparr>pt_path = path, pt_snapshot = snapshot, pt_ingested_at = ingested_at, pt_retired = retired,
       pt_prior_generations = prior_generations\<rparr>)))))"

definition snapshot_path_fits :: "snapshot_path_entry \<Rightarrow> bool" where
  "snapshot_path_fits v \<longleftrightarrow> path_authority_fits (pt_path v) \<and> int64_ok (pt_ingested_at v) \<and>
     list_fits (\<lambda>_. True) (pt_prior_generations v)"

interpretation c_snapshot_path: codec enc_snapshot_path dec_snapshot_path "snapshot_path_fits"
proof unfold_locales
  fix v rest assume "snapshot_path_fits v"
  then show "dec_snapshot_path (enc_snapshot_path v @ rest) = Inr (v, rest)"
    by (cases v) (simp add: enc_snapshot_path_def dec_snapshot_path_def snapshot_path_fits_def codec_rt)
next
  fix bs v rest assume "dec_snapshot_path bs = Inr (v, rest)"
  then show "snapshot_path_fits v \<and> bs = enc_snapshot_path v @ rest"
    by (auto simp: enc_snapshot_path_def dec_snapshot_path_def snapshot_path_fits_def codec_only split: if_splits)
qed

definition enc_snapshot_policy :: "snapshot_policy_entry \<Rightarrow> bytes" where
  "enc_snapshot_policy v =
     enc_policy (pe_record v) @ w_i64 (pe_ingested_at v) @ w_list w_u64 (pe_prior_generations v)"

definition dec_snapshot_policy :: "snapshot_policy_entry reader" where
  "dec_snapshot_policy =
     dbind dec_policy (\<lambda>record.
     dbind r_i64 (\<lambda>ingested_at.
     dbind (decode_list r_u64) (\<lambda>prior_generations.
     dret \<lparr>pe_record = record, pe_prior_generations = prior_generations, pe_ingested_at = ingested_at\<rparr>)))"

definition snapshot_policy_fits :: "snapshot_policy_entry \<Rightarrow> bool" where
  "snapshot_policy_fits v \<longleftrightarrow> policy_fits (pe_record v) \<and> int64_ok (pe_ingested_at v) \<and>
     list_fits (\<lambda>_. True) (pe_prior_generations v)"

interpretation c_snapshot_policy: codec enc_snapshot_policy dec_snapshot_policy "snapshot_policy_fits"
proof unfold_locales
  fix v rest assume "snapshot_policy_fits v"
  then show "dec_snapshot_policy (enc_snapshot_policy v @ rest) = Inr (v, rest)"
    by (cases v) (simp add: enc_snapshot_policy_def dec_snapshot_policy_def snapshot_policy_fits_def codec_rt)
next
  fix bs v rest assume "dec_snapshot_policy bs = Inr (v, rest)"
  then show "snapshot_policy_fits v \<and> bs = enc_snapshot_policy v @ rest"
    by (auto simp: enc_snapshot_policy_def dec_snapshot_policy_def snapshot_policy_fits_def codec_only split: if_splits)
qed

interpretation cl_snapshot_capacity: codec "w_list enc_snapshot_capacity" "decode_list dec_snapshot_capacity" "list_fits snapshot_capacity_fits"
  by (rule list_codec_item) unfold_locales

interpretation cl_snapshot_path: codec "w_list enc_snapshot_path" "decode_list dec_snapshot_path" "list_fits snapshot_path_fits"
  by (rule list_codec_item) unfold_locales

interpretation cl_snapshot_policy: codec "w_list enc_snapshot_policy" "decode_list dec_snapshot_policy" "list_fits snapshot_policy_fits"
  by (rule list_codec_item) unfold_locales

interpretation cl_series: codec "w_list enc_series" "decode_list dec_series" "list_fits series_fits"
  by (rule list_codec_item) unfold_locales

interpretation cl_edge: codec "w_list enc_edge" "decode_list dec_edge" "list_fits edge_fits"
  by (rule list_codec_item) unfold_locales

interpretation cl_attempt: codec "w_list enc_attempt" "decode_list dec_attempt" "list_fits attempt_fits"
  by (rule list_codec_item) unfold_locales

interpretation cl_fence: codec "w_list enc_fence" "decode_list dec_fence" "list_fits fence_fits"
  by (rule list_codec_item) unfold_locales

interpretation cl_claimant: codec "w_list enc_claimant" "decode_list dec_claimant" "list_fits claimant_fits"
  by (rule list_codec_item) unfold_locales

interpretation cl_overcommit: codec "w_list enc_overcommit" "decode_list dec_overcommit" "list_fits overcommit_fits"
  by (rule list_codec_item) unfold_locales

record snapshot_state =
  ss_epoch :: counter
  ss_coordinator_boot :: identity
  ss_sequence :: counter
  ss_capacity :: "snapshot_capacity_entry list"
  ss_paths :: "snapshot_path_entry list"
  ss_policies :: "snapshot_policy_entry list"
  ss_reservations :: "reservation_record list"
  ss_series :: "reservation_series list"
  ss_edges :: "supersession_edge list"
  ss_attempts :: "attempt_mutation list"
  ss_fences :: "fence_mutation list"
  ss_claimants :: "claimant_mutation list"
  ss_overcommits :: "overcommit_mutation list"
  ss_retired :: "reservation_record list"

definition enc_snapshot :: "snapshot_state \<Rightarrow> bytes" where
  "enc_snapshot v =
     w_u64 (ss_epoch v) @ w_fixed128 (ss_coordinator_boot v) @ w_u64 (ss_sequence v) @
     w_list enc_snapshot_capacity (ss_capacity v) @ w_list enc_snapshot_path (ss_paths v) @
     w_list enc_snapshot_policy (ss_policies v) @ w_list enc_record (ss_reservations v) @
     w_list enc_series (ss_series v) @ w_list enc_edge (ss_edges v) @
     w_list enc_attempt (ss_attempts v) @ w_list enc_fence (ss_fences v) @
     w_list enc_claimant (ss_claimants v) @ w_list enc_overcommit (ss_overcommits v) @
     w_list enc_record (ss_retired v)"

definition dec_snapshot :: "snapshot_state reader" where
  "dec_snapshot =
     dbind r_u64 (\<lambda>epoch.
     dbind r_fixed128 (\<lambda>coordinator_boot.
     dbind r_u64 (\<lambda>sequence.
     dbind (decode_list dec_snapshot_capacity) (\<lambda>capacity.
     dbind (decode_list dec_snapshot_path) (\<lambda>paths.
     dbind (decode_list dec_snapshot_policy) (\<lambda>policies.
     dbind (decode_list dec_record) (\<lambda>reservations.
     dbind (decode_list dec_series) (\<lambda>series.
     dbind (decode_list dec_edge) (\<lambda>edges.
     dbind (decode_list dec_attempt) (\<lambda>attempts.
     dbind (decode_list dec_fence) (\<lambda>fences.
     dbind (decode_list dec_claimant) (\<lambda>claimants.
     dbind (decode_list dec_overcommit) (\<lambda>overcommits.
     dbind (decode_list dec_record) (\<lambda>retired.
     dret \<lparr>ss_epoch = epoch, ss_coordinator_boot = coordinator_boot, ss_sequence = sequence,
       ss_capacity = capacity, ss_paths = paths, ss_policies = policies, ss_reservations = reservations,
       ss_series = series, ss_edges = edges, ss_attempts = attempts, ss_fences = fences,
       ss_claimants = claimants, ss_overcommits = overcommits, ss_retired = retired\<rparr>))))))))))))))"

definition snapshot_fits :: "snapshot_state \<Rightarrow> bool" where
  "snapshot_fits v \<longleftrightarrow> list_fits snapshot_capacity_fits (ss_capacity v) \<and>
     list_fits snapshot_path_fits (ss_paths v) \<and>
     list_fits snapshot_policy_fits (ss_policies v) \<and>
     list_fits record_fits (ss_reservations v) \<and> list_fits series_fits (ss_series v) \<and>
     list_fits edge_fits (ss_edges v) \<and> list_fits attempt_fits (ss_attempts v) \<and>
     list_fits fence_fits (ss_fences v) \<and> list_fits claimant_fits (ss_claimants v) \<and>
     list_fits overcommit_fits (ss_overcommits v) \<and> list_fits record_fits (ss_retired v)"

interpretation c_snapshot: codec enc_snapshot dec_snapshot "snapshot_fits"
proof unfold_locales
  fix v rest assume "snapshot_fits v"
  then show "dec_snapshot (enc_snapshot v @ rest) = Inr (v, rest)"
    by (cases v) (simp add: enc_snapshot_def dec_snapshot_def snapshot_fits_def codec_rt)
next
  fix bs v rest assume "dec_snapshot bs = Inr (v, rest)"
  then show "snapshot_fits v \<and> bs = enc_snapshot v @ rest"
    by (auto simp: enc_snapshot_def dec_snapshot_def snapshot_fits_def codec_only split: if_splits)
qed

subsection \<open>What the journal and the snapshot can hold\<close>

text \<open>C15: A journal payload decodes to a record exactly when it is the canonical encoding of a record that
  fits the decoder's bounds and is of the kind its container names; every other payload is refused.\<close>

theorem durable_record_roundtrip:
  "decode_record payload kind = Inr r \<longleftrightarrow>
     payload_fits r \<and> durable_kind r = kind \<and> payload = encode_record r"
proof
  assume "decode_record payload kind = Inr r"
  then have "durable_kind r = kind" "dbind r_u16 (\<lambda>version.
       if version \<noteq> kDurableFormatVersion then dfail EUnsupported else dec_durable) payload = Inr (r, [])"
    by (auto simp: decode_record_def bindE_Inr_iff split: if_splits)
  then show "payload_fits r \<and> durable_kind r = kind \<and> payload = encode_record r"
    by (auto simp: encode_record_def codec_only split: if_splits dest!: c_durable.dec_only)
next
  assume r: "payload_fits r \<and> durable_kind r = kind \<and> payload = encode_record r"
  then have "dec_durable (enc_durable r) = Inr (r, [])" using c_durable.dec_enc [of r "[]"] by simp
  with r show "decode_record payload kind = Inr r"
    by (simp add: decode_record_def encode_record_def codec_rt)
qed


end
