(* ===== verification/Brf_Store.thy ===== *)
theory Brf_Store
  imports Brf_Durable
begin

text \<open>
  The durable store of \<^verbatim>\<open>include/brf/store.hpp\<close> and \<^verbatim>\<open>src/store.cpp\<close>: framed journal
  records, the sealed snapshot file, recovery and rotation. The two files are byte lists (\<open>None\<close>:
  the file does not exist). What the operating system does with a write is an argument: it succeeds, or
  it fails after some prefix of the bytes reached the file.

  The lemmas show that the journal reader ends on every file, that it returns exactly the appended
  records when the file ends in a torn frame, that a changed payload byte is refused, that a snapshot file
  is read back exactly, and that reopening a store after any number of successful appends gives the same
  records and the same sequence.
\<close>

unbundle bit_operations_syntax

subsection \<open>Little-endian fields\<close>

text \<open>The masks of the source keep the bits that the narrowing cast keeps.\<close>

definition put_u16 :: "u16 \<Rightarrow> bytes" where
  "put_u16 v = [ucast v, ucast (drop_bit 8 v)]"

definition put_u32 :: "u32 \<Rightarrow> bytes" where
  "put_u32 v = map (\<lambda>i. ucast (drop_bit (8 * i) v)) [0..<4]"

definition put_u64 :: "u64 \<Rightarrow> bytes" where
  "put_u64 v = map (\<lambda>i. ucast (drop_bit (8 * i) v)) [0..<8]"

definition get_u16 :: "bytes \<Rightarrow> u16" where
  "get_u16 d = ucast (d ! 0) OR push_bit 8 (ucast (d ! 1))"

definition get_u32 :: "bytes \<Rightarrow> u32" where
  "get_u32 d = fold (\<lambda>i v. v OR push_bit (8 * i) (ucast (d ! i))) [0..<4] 0"

definition get_u64 :: "bytes \<Rightarrow> u64" where
  "get_u64 d = fold (\<lambda>i v. v OR push_bit (8 * i) (ucast (d ! i))) [0..<8] 0"

lemma byte_bit: "bit (b :: u8) j \<Longrightarrow> j < 8"
  using bit_imp_le_length [of b j] by simp

lemma get_bits:
  "bit (fold (\<lambda>i v. v OR push_bit (8 * i) (ucast (d ! i :: u8))) [0..<n] 0 :: 'a :: len word) k \<longleftrightarrow>
     k < LENGTH('a) \<and> k < 8 * n \<and> bit (d ! (k div 8)) (k mod 8)"
proof (induction n)
  case (Suc n)
  have k: "k = 8 * (k div 8) + k mod 8" "k mod 8 < 8" by simp_all
  show ?case
  proof (cases "k div 8 = n")
    case True
    with k have "8 * n \<le> k" "k < 8 * n + 8" "k mod 8 = k - 8 * n" by linarith+
    with Suc True show ?thesis by (simp add: bit_simps) linarith
  next
    case False
    with k have out: "\<not> (8 * n \<le> k \<and> k - 8 * n < 8)" by linarith
    then have "k < 8 * n \<longleftrightarrow> k < 8 * Suc n" by auto
    moreover have "\<not> (8 * n \<le> k \<and> bit (d ! n) (k - 8 * n))" using out byte_bit by blast
    ultimately show ?thesis using Suc by (simp add: bit_simps) blast
  qed
qed simp

lemma put_bits:
  fixes v :: "'a :: len word"
  assumes "k < 8 * n"
  shows "bit ((map (\<lambda>i. ucast (drop_bit (8 * i) v)) [0..<n] @ rest) ! (k div 8) :: u8) (k mod 8) \<longleftrightarrow> bit v k"
proof -
  have "k div 8 < n" "8 * (k div 8) + k mod 8 = k" "k mod 8 < 8" using assms by (simp_all add: less_mult_imp_div_less mult.commute)
  then show ?thesis by (simp add: nth_append bit_simps)
qed

lemma get_put_u16 [simp]: "get_u16 (put_u16 v @ rest) = v"
proof (rule bit_word_eqI)
  fix k assume "k < LENGTH(16)"
  then show "bit (get_u16 (put_u16 v @ rest)) k \<longleftrightarrow> bit v k"
    by (cases "k < 8") (auto simp: get_u16_def put_u16_def bit_simps)
qed

lemma get_put_u32 [simp]: "get_u32 (put_u32 v @ rest) = v"
proof (rule bit_word_eqI)
  fix k assume "k < LENGTH(32)"
  then have k: "k < LENGTH(32)" "k < 8 * 4" by simp_all
  show "bit (get_u32 (put_u32 v @ rest)) k \<longleftrightarrow> bit v k"
    unfolding get_u32_def put_u32_def get_bits put_bits [OF k(2)] using k by blast
qed

lemma get_put_u64 [simp]: "get_u64 (put_u64 v @ rest) = v"
proof (rule bit_word_eqI)
  fix k assume "k < LENGTH(64)"
  then have k: "k < LENGTH(64)" "k < 8 * 8" by simp_all
  show "bit (get_u64 (put_u64 v @ rest)) k \<longleftrightarrow> bit v k"
    unfolding get_u64_def put_u64_def get_bits put_bits [OF k(2)] using k by blast
qed

lemma put_length [simp]: "length (put_u16 v) = 2" "length (put_u32 w) = 4" "length (put_u64 x) = 8"
  by (simp_all only: put_u16_def put_u32_def put_u64_def length_map length_upt) simp_all

subsection \<open>Journal frames\<close>

definition kJournalMagic :: bytes where "kJournalMagic = [66, 82, 70, 74]"
definition kSnapshotMagic :: bytes where "kSnapshotMagic = [66, 82, 70, 83]"
definition kSnapshotSeal :: bytes where "kSnapshotSeal = [83, 69, 65, 76]"
definition kJournalHeaderBytes :: nat where "kJournalHeaderBytes = 22"
definition kSnapshotHeaderBytes :: nat where "kSnapshotHeaderBytes = 32"
definition kSnapshotFooterBytes :: nat where "kSnapshotFooterBytes = 8"

definition parse_record_kind :: "u16 \<Rightarrow> record_kind result" where
  "parse_record_kind raw = (case record_kind_of raw of None \<Rightarrow> Inl EInvalidArgument | Some k \<Rightarrow> Inr k)"

record journal_record =
  jr_kind :: record_kind
  jr_sequence :: counter
  jr_payload :: bytes
  jr_file_offset :: nat

definition journal_header :: "record_kind \<Rightarrow> counter \<Rightarrow> bytes \<Rightarrow> bytes" where
  "journal_header kind sequence payload =
     kJournalMagic @ put_u32 (of_nat (kJournalHeaderBytes + length payload)) @ put_u64 sequence @
     put_u16 (record_kind_number kind) @ put_u32 (crc32c payload)"

text \<open>
  The loop of \<^verbatim>\<open>read_journal_file\<close> at \<open>offset\<close>, with the bytes from there on and the last
  sequence seen; the second component of the result is the number of torn bytes, when the file ends
  in an incomplete frame.
\<close>

function read_frames ::
  "nat \<Rightarrow> nat \<Rightarrow> counter option \<Rightarrow> bytes \<Rightarrow> (journal_record list \<times> nat option) result" where
  "read_frames max_payload offset last_sequence file =
     (if file = [] then Inr ([], None)
      else if length file < kJournalHeaderBytes then Inr ([], Some (length file))
      else if take 4 file \<noteq> kJournalMagic then Inl ECorrupt
      else
        let len = unat (get_u32 (drop 4 file));
            sequence = get_u64 (drop 8 file);
            kind_value = get_u16 (drop 16 file);
            payload_crc = get_u32 (drop 18 file)
        in if len < kJournalHeaderBytes then Inl ECorrupt
           else if len - kJournalHeaderBytes > max_payload then Inl EResourceExhausted
           else if length file < len then Inr ([], Some (length file))
           else
             let payload = take (len - kJournalHeaderBytes) (drop kJournalHeaderBytes file)
             in if crc32c payload \<noteq> payload_crc then Inl ECorrupt
                else if (case last_sequence of None \<Rightarrow> False | Some l \<Rightarrow> sequence \<le> l) then Inl ECorrupt
                else (case parse_record_kind kind_value of
                   Inl _ \<Rightarrow> Inl ECorrupt
                 | Inr kind \<Rightarrow>
                     bindE (read_frames max_payload (offset + len) (Some sequence) (drop len file)) (\<lambda>(rs, torn).
                       Inr (\<lparr>jr_kind = kind, jr_sequence = sequence, jr_payload = payload,
                             jr_file_offset = offset\<rparr> # rs, torn))))"
  by pat_completeness auto

termination
  by (relation "measure (\<lambda>(_, _, _, file). length file)") (auto simp: kJournalHeaderBytes_def)

declare read_frames.simps [simp del]

text \<open>\<^verbatim>\<open>read_all\<close> with its size limit; a missing file is \<open>None\<close>.\<close>

definition read_all :: "bytes option \<Rightarrow> nat \<Rightarrow> bytes result" where
  "read_all file max_bytes =
     (case file of
        None \<Rightarrow> Inl ENotFound
      | Some bs \<Rightarrow> if length bs > max_bytes then Inl EResourceExhausted else Inr bs)"

definition read_journal_file :: "bytes option \<Rightarrow> nat \<Rightarrow> (journal_record list \<times> nat option) result" where
  "read_journal_file path max_payload =
     bindE (read_all path (1024 * 1024 * 1024)) (\<lambda>file. read_frames max_payload 0 None file)"

subsection \<open>Snapshot files\<close>

definition snapshot_header :: "counter \<Rightarrow> bytes \<Rightarrow> bytes" where
  "snapshot_header sequence payload =
     kSnapshotMagic @ put_u16 kDurableFormatVersion @ put_u16 0 @ put_u64 sequence @
     put_u64 (of_nat (length payload)) @ put_u32 (crc32c payload)"

definition snapshot_file :: "counter \<Rightarrow> bytes \<Rightarrow> bytes" where
  "snapshot_file sequence payload =
     (let header = snapshot_header sequence payload;
          sealed = header @ put_u32 (crc32c header) @ payload @ kSnapshotSeal
      in sealed @ put_u32 (crc32c sealed))"

definition read_snapshot_bytes :: "bytes \<Rightarrow> (counter \<times> bytes) result" where
  "read_snapshot_bytes file =
     (if length file < kSnapshotHeaderBytes + kSnapshotFooterBytes then Inl ECorrupt
      else if take 4 file \<noteq> kSnapshotMagic then Inl ECorrupt
      else if get_u16 (drop 4 file) \<noteq> kDurableFormatVersion then Inl EUnsupported
      else
        let sequence = get_u64 (drop 8 file);
            payload_length = unat (get_u64 (drop 16 file));
            payload_crc = get_u32 (drop 24 file);
            header_crc = get_u32 (drop 28 file)
        in if header_crc \<noteq> crc32c (take 28 file) then Inl ECorrupt
           else if payload_length > length file - kSnapshotHeaderBytes - kSnapshotFooterBytes then Inl ECorrupt
           else if length file \<noteq> kSnapshotHeaderBytes + payload_length + kSnapshotFooterBytes then Inl ECorrupt
           else
             let payload = take payload_length (drop kSnapshotHeaderBytes file);
                 footer = drop (kSnapshotHeaderBytes + payload_length) file
             in if crc32c payload \<noteq> payload_crc then Inl ECorrupt
                else if take 4 footer \<noteq> kSnapshotSeal then Inl ECorrupt
                else if get_u32 (drop 4 footer) \<noteq> crc32c (take (length file - 4) file) then Inl ECorrupt
                else Inr (sequence, payload))"

definition read_snapshot_file :: "bytes option \<Rightarrow> (counter \<times> bytes) result" where
  "read_snapshot_file path = bindE (read_all path (256 * 1024 * 1024)) read_snapshot_bytes"

subsection \<open>The store\<close>

text \<open>
  The two files of the store directory, and the members of \<^verbatim>\<open>Store\<close>. The report counters are those
  that recovery fills in.
\<close>

record store_options =
  so_max_record_payload :: nat
  so_max_snapshot_payload :: nat
  so_compact_threshold_bytes :: nat

record disk =
  dk_journal :: "bytes option"
  dk_snapshot :: "bytes option"

record store =
  st_disk :: disk
  st_options :: store_options
  st_open :: bool
  st_records :: "journal_record list"
  st_last_sequence :: counter
  st_snapshot_sequence :: counter
  st_journal_bytes :: nat
  st_snapshot_payload :: bytes

record recovery_report =
  rp_snapshot_loaded :: bool
  rp_torn_tail_truncated :: bool
  rp_truncated_bytes :: nat
  rp_snapshot_sequence :: counter
  rp_records_replayed :: nat
  rp_records_skipped :: nat
  rp_last_sequence :: counter

text \<open>A write reaches the file completely, or fails after a prefix of it did.\<close>

datatype io_outcome = IoOk | IoFail nat

definition io_written :: "io_outcome \<Rightarrow> bytes \<Rightarrow> bytes" where
  "io_written io bs = (case io of IoOk \<Rightarrow> bs | IoFail n \<Rightarrow> take n bs)"

definition file_bytes :: "bytes option \<Rightarrow> bytes" where
  "file_bytes f = (case f of None \<Rightarrow> [] | Some bs \<Rightarrow> bs)"

lemma file_bytes_Some [simp]: "file_bytes (Some bs) = bs"
  by (simp add: file_bytes_def)

definition store_append :: "io_outcome \<Rightarrow> record_kind \<Rightarrow> bytes \<Rightarrow> (store, error_code, counter) op" where
  "store_append io kind payload s =
     (if \<not> st_open s then (Inl EIo, s)
      else if length payload > so_max_record_payload (st_options s) then (Inl EResourceExhausted, s)
      else
        let next_seq = st_last_sequence s + 1;
            frame = journal_header kind next_seq payload @ payload;
            disk = (st_disk s)\<lparr>dk_journal := Some (file_bytes (dk_journal (st_disk s)) @ io_written io frame)\<rparr>
        in if io \<noteq> IoOk then (Inl EIo, s\<lparr>st_disk := disk\<rparr>)
           else (Inr next_seq, s\<lparr>st_disk := disk, st_journal_bytes := st_journal_bytes s + length frame,
                   st_last_sequence := next_seq,
                   st_records := st_records s @ [\<lparr>jr_kind = kind, jr_sequence = next_seq, jr_payload = payload,
                                                  jr_file_offset = st_journal_bytes s\<rparr>]\<rparr>))"

definition store_write_snapshot :: "io_outcome \<Rightarrow> bytes \<Rightarrow> (store, error_code, counter) op" where
  "store_write_snapshot io payload s =
     (if length payload > so_max_snapshot_payload (st_options s) then (Inl EResourceExhausted, s)
      else if io \<noteq> IoOk then (Inl EIo, s)
      else (Inr (st_last_sequence s),
            s\<lparr>st_disk := (st_disk s)\<lparr>dk_snapshot := Some (snapshot_file (st_last_sequence s) payload)\<rparr>,
              st_snapshot_sequence := st_last_sequence s, st_snapshot_payload := payload\<rparr>))"

definition store_rotate_journal :: "io_outcome \<Rightarrow> (store, error_code, unit) op" where
  "store_rotate_journal io s =
     (if st_open s \<and> io \<noteq> IoOk then (Inl EIo, s)
      else (Inr (), s\<lparr>st_disk := (st_disk s)\<lparr>dk_journal := Some []\<rparr>, st_open := True, st_journal_bytes := 0,
               st_records := []\<rparr>))"

definition should_compact :: "store \<Rightarrow> bool" where
  "should_compact s \<longleftrightarrow> st_journal_bytes s \<ge> so_compact_threshold_bytes (st_options s)"

definition store_close :: "io_outcome \<Rightarrow> (store, error_code, unit) op" where
  "store_close io s =
     (if \<not> st_open s then (Inr (), s)
      else (if io = IoOk then Inr () else Inl EIo, s\<lparr>st_open := False\<rparr>))"

text \<open>
  Recovery: the snapshot fixes the floor, a torn tail is cut off the journal, records at or below the
  floor are skipped. Opening the journal for append creates it.
\<close>

definition truncate_point :: "journal_record list \<Rightarrow> nat" where
  "truncate_point rs =
     (if rs = [] then 0
      else jr_file_offset (List.last rs) + kJournalHeaderBytes + length (jr_payload (List.last rs)))"

definition not_missing :: "'a \<Rightarrow> 'a result \<Rightarrow> 'a result" where
  "not_missing absent r = (case r of Inr x \<Rightarrow> Inr x | Inl e \<Rightarrow> if e = ENotFound then Inr absent else Inl e)"

definition store_open :: "store_options \<Rightarrow> disk \<Rightarrow> (store \<times> recovery_report) result" where
  "store_open opts d =
     bindE (not_missing None (bindE (read_snapshot_file (dk_snapshot d)) (\<lambda>x. Inr (Some x)))) (\<lambda>snapshot.
     bindE (not_missing ([], None) (read_journal_file (dk_journal d) (so_max_record_payload opts))) (\<lambda>(records, torn).
       let floor = (case snapshot of None \<Rightarrow> 0 | Some (sequence, _) \<Rightarrow> sequence);
           journal = (case torn of None \<Rightarrow> file_bytes (dk_journal d)
                      | Some _ \<Rightarrow> take (truncate_point records) (file_bytes (dk_journal d)));
           effective = filter (\<lambda>r. \<not> jr_sequence r \<le> floor) records;
           last_seq = (if effective = [] then floor else jr_sequence (List.last effective))
       in Inr (\<lparr>st_disk = d\<lparr>dk_journal := Some journal\<rparr>, st_options = opts, st_open = True, st_records = effective,
                st_last_sequence = last_seq, st_snapshot_sequence = floor, st_journal_bytes = length journal,
                st_snapshot_payload = (case snapshot of None \<Rightarrow> [] | Some (_, payload) \<Rightarrow> payload)\<rparr>,
               \<lparr>rp_snapshot_loaded = (snapshot \<noteq> None), rp_torn_tail_truncated = (torn \<noteq> None),
                rp_truncated_bytes = (case torn of None \<Rightarrow> 0 | Some n \<Rightarrow> n), rp_snapshot_sequence = floor,
                rp_records_replayed = length effective, rp_records_skipped = length records - length effective,
                rp_last_sequence = last_seq\<rparr>)))"

subsection \<open>Reading frames back\<close>

definition frame :: "journal_record \<Rightarrow> bytes" where
  "frame r = journal_header (jr_kind r) (jr_sequence r) (jr_payload r) @ jr_payload r"

definition frames :: "journal_record list \<Rightarrow> bytes" where
  "frames rs = concat (map frame rs)"

lemma frames_simps [simp]: "frames [] = []" "frames (r # rs) = frame r @ frames rs" "frames (rs @ rs') = frames rs @ frames rs'"
  by (simp_all add: frames_def)

lemma header_length [simp]: "length (journal_header k q p) = 22"
  by (simp add: journal_header_def kJournalMagic_def)

lemma frame_length [simp]: "length (frame r) = 22 + length (jr_payload r)"
  by (simp add: frame_def)

lemma header_fields:
  "take 4 (journal_header k q p) = kJournalMagic"
  "get_u32 (drop 4 (journal_header k q p) @ rest) = 22 + of_nat (length p)"
  "get_u64 (drop 8 (journal_header k q p) @ rest) = q"
  "get_u16 (drop 16 (journal_header k q p) @ rest) = record_kind_number k"
  "get_u32 (drop 18 (journal_header k q p) @ rest) = crc32c p"
  by (simp_all add: journal_header_def kJournalMagic_def kJournalHeaderBytes_def)

lemma parse_record_kind_number [simp]: "parse_record_kind (record_kind_number k) = Inr k"
proof -
  have "record_kind_of (record_kind_number k) = Some k" by (simp add: record_kind_of_iff)
  then show ?thesis by (simp add: parse_record_kind_def)
qed

definition in_order :: "counter option \<Rightarrow> counter \<Rightarrow> bool" where
  "in_order last_sequence q \<longleftrightarrow> (case last_sequence of None \<Rightarrow> True | Some l \<Rightarrow> l < q)"

lemma not_in_order: "(case l of None \<Rightarrow> False | Some x \<Rightarrow> q \<le> x) \<longleftrightarrow> \<not> in_order l q"
  by (auto simp: in_order_def split: option.splits)

lemma header_nonempty [simp]: "journal_header k q p \<noteq> []"
  using header_length [of k q p] by force

lemma unat_frame_length: "22 + n < 2 ^ 32 \<Longrightarrow> unat (22 + of_nat n :: u32) = 22 + n"
  using unat_u32_of_nat [of "22 + n" "22 + n"] by simp

lemma read_frame:
  assumes "22 + length p < 2 ^ 32" "length p \<le> m"
  shows "read_frames m off l (journal_header k q p @ p @ rest) =
     (if in_order l q then
        bindE (read_frames m (off + 22 + length p) (Some q) rest) (\<lambda>(rs, torn).
          Inr (\<lparr>jr_kind = k, jr_sequence = q, jr_payload = p, jr_file_offset = off\<rparr> # rs, torn))
      else Inl ECorrupt)"
proof -
  note len = unat_frame_length [OF assms(1)]
  have p: "take (22 + length p - 22) (drop 22 (journal_header k q p @ p @ rest)) = p"
    and r: "drop (22 + length p) (journal_header k q p @ p @ rest) = rest" by simp_all
  show ?thesis
    using assms
    by (subst read_frames.simps)
      (simp add: header_fields len kJournalHeaderBytes_def p r not_in_order Let_def add.assoc)
qed

lemma read_torn:
  assumes "22 + length p < 2 ^ 32" "length p \<le> m" "n < 22 + length p"
  shows "read_frames m off l (take n (journal_header k q p @ p)) = Inr ([], if n = 0 then None else Some n)"
proof (cases "n < 22")
  case True
  then have "length (take n (journal_header k q p @ p)) = n" by simp
  with True show ?thesis
    by (subst read_frames.simps) (auto simp: kJournalHeaderBytes_def simp del: length_take)
next
  case False
  then obtain t where t: "take n (journal_header k q p @ p) = journal_header k q p @ t" "length t = n - 22"
    using assms(3) by (simp add: take_append)
  note len = unat_frame_length [OF assms(1)]
  show ?thesis
    unfolding t(1) using assms False t(2)
    by (subst read_frames.simps) (simp add: header_fields len kJournalHeaderBytes_def Let_def)
qed

text \<open>A journal laid out by successive appends: offsets as in the file, sequences strictly rising.\<close>

fun laid_out :: "nat \<Rightarrow> nat \<Rightarrow> counter option \<Rightarrow> journal_record list \<Rightarrow> bool" where
  "laid_out m off l [] \<longleftrightarrow> True"
| "laid_out m off l (r # rs) \<longleftrightarrow>
     length (jr_payload r) \<le> m \<and> jr_file_offset r = off \<and> in_order l (jr_sequence r) \<and>
     laid_out m (off + length (frame r)) (Some (jr_sequence r)) rs"

lemma read_laid_out:
  assumes "22 + m < 2 ^ 32"
  shows "laid_out m off l rs \<Longrightarrow>
    read_frames m off l (frames rs @ rest) =
      bindE (read_frames m (off + length (frames rs)) (if rs = [] then l else Some (jr_sequence (List.last rs))) rest)
        (\<lambda>(rs', torn). Inr (rs @ rs', torn))"
proof (induction rs arbitrary: off l)
  case Nil
  show ?case by (cases "read_frames m off l rest") auto
next
  case (Cons r rs)
  let ?off' = "off + length (frames (r # rs))"
  let ?l = "Some (jr_sequence (List.last (r # rs)))"
  have "read_frames m off l (frames (r # rs) @ rest) =
      bindE (read_frames m (off + length (frame r)) (Some (jr_sequence r)) (frames rs @ rest)) (\<lambda>(rs', torn).
        Inr (r # rs', torn))"
  proof -
    have "22 + length (jr_payload r) < 2 ^ 32" "length (jr_payload r) \<le> m" "jr_file_offset r = off" "in_order l (jr_sequence r)"
      using Cons.prems assms by auto
    moreover have r: "\<lparr>jr_kind = jr_kind r, jr_sequence = jr_sequence r, jr_payload = jr_payload r, jr_file_offset = off\<rparr> = r"
      using Cons.prems by (cases r) simp
    ultimately show ?thesis using read_frame [of "jr_payload r" m off l "jr_kind r" "jr_sequence r" "frames rs @ rest"]
      unfolding r by (simp add: frame_def add.assoc)
  qed
  also have "\<dots> = bindE (read_frames m ?off' ?l rest) (\<lambda>(rs', torn). Inr (r # rs @ rs', torn))"
    using Cons.prems by (simp add: Cons.IH add.assoc)
      (cases "read_frames m ?off' ?l rest"; auto simp: add.assoc)
  finally show ?case by simp
qed

lemma recover_torn:
  assumes "22 + m < 2 ^ 32" "laid_out m 0 None rs" "length p \<le> m" "n < 22 + length p"
  shows "read_frames m 0 None (frames rs @ take n (journal_header k q p @ p)) = Inr (rs, if n = 0 then None else Some n)"
proof -
  have "22 + length p < 2 ^ 32" using assms by linarith
  note torn = read_torn [OF this assms(3,4), of _ _ k q]
  show ?thesis unfolding read_laid_out [OF assms(1,2)] torn by simp
qed

lemma read_bad_payload:
  assumes "22 + length p < 2 ^ 32" "length p \<le> m" "length p' = length p" "crc32c p' \<noteq> crc32c p"
  shows "read_frames m off l (journal_header k q p @ p' @ rest) = Inl ECorrupt"
proof -
  note len = unat_frame_length [OF assms(1)]
  show ?thesis
    using assms by (subst read_frames.simps) (simp add: header_fields len kJournalHeaderBytes_def Let_def)
qed

lemma changed_payload:
  assumes "22 + m < 2 ^ 32" "laid_out m 0 None rs" "length (pre @ x # post) \<le> m" "x \<noteq> y"
  shows "read_frames m 0 None (frames rs @ journal_header k q (pre @ x # post) @ (pre @ y # post) @ rest) = Inl ECorrupt"
proof -
  have "crc32c (pre @ y # post) \<noteq> crc32c (pre @ x # post)" using assms(4) crc32c_inject_byte by metis
  moreover have "22 + length (pre @ x # post) < 2 ^ 32" using assms(1,3) by linarith
  ultimately show ?thesis
    unfolding read_laid_out [OF assms(1,2)] using assms(3) by (subst read_bad_payload) simp_all
qed

subsection \<open>Snapshot files are read back\<close>

lemma snapshot_header_length [simp]: "length (snapshot_header q p) = 28"
  by (simp add: snapshot_header_def kSnapshotMagic_def)

lemma snapshot_fields:
  "take 4 (snapshot_header q p) = kSnapshotMagic"
  "get_u16 (drop 4 (snapshot_header q p) @ rest) = kDurableFormatVersion"
  "get_u64 (drop 8 (snapshot_header q p) @ rest) = q"
  "get_u64 (drop 16 (snapshot_header q p) @ rest) = of_nat (length p)"
  "get_u32 (drop 24 (snapshot_header q p) @ rest) = crc32c p"
  by (simp_all add: snapshot_header_def kSnapshotMagic_def)

lemma seal_length [simp]: "length kSnapshotSeal = 4" "length kSnapshotMagic = 4"
  by (simp_all add: kSnapshotSeal_def kSnapshotMagic_def)

lemma snapshot_file_length: "length (snapshot_file q p) = 40 + length p"
  by (simp add: snapshot_file_def Let_def)

lemma snapshot_bytes_roundtrip:
  assumes "length p < 2 ^ 64"
  shows "read_snapshot_bytes (snapshot_file q p) = Inr (q, p)"
proof -
  define h where "h = snapshot_header q p"
  define f where "f = h @ put_u32 (crc32c h) @ p @ kSnapshotSeal"
  have whole: "snapshot_file q p = f @ put_u32 (crc32c f)"
    by (simp add: snapshot_file_def Let_def f_def h_def)
  have lf: "length f = 36 + length p" by (simp add: f_def h_def)
  have len: "unat (of_nat (length p) :: u64) = length p" using assms by (simp add: unat_of_nat take_bit_eq_mod)
  have hd: "take 28 (snapshot_file q p) = h" "take 4 (snapshot_file q p) = kSnapshotMagic"
    "get_u16 (drop 4 (snapshot_file q p)) = kDurableFormatVersion" "get_u64 (drop 8 (snapshot_file q p)) = q"
    "get_u64 (drop 16 (snapshot_file q p)) = of_nat (length p)" "get_u32 (drop 24 (snapshot_file q p)) = crc32c p"
    "get_u32 (drop 28 (snapshot_file q p)) = crc32c h" "take (length p) (drop 32 (snapshot_file q p)) = p"
    by (simp_all add: whole f_def h_def snapshot_fields)
  have ft: "drop (32 + length p) (snapshot_file q p) = kSnapshotSeal @ put_u32 (crc32c f)"
    "take (36 + length p) (snapshot_file q p) = f"
    using lf by (simp_all add: whole) (simp add: f_def h_def)
  have "get_u32 (put_u32 (crc32c f) @ []) = crc32c f" by (rule get_put_u32)
  then show ?thesis
    unfolding read_snapshot_bytes_def hd len Let_def snapshot_file_length
    by (simp add: kSnapshotHeaderBytes_def kSnapshotFooterBytes_def hd ft)
qed

subsection \<open>Reopening\<close>

text \<open>What the members of an open store say about its files; \<open>old\<close> are the journal records that the
  snapshot already covers.\<close>

definition store_ok :: "store \<Rightarrow> journal_record list \<Rightarrow> bool" where
  "store_ok s old \<longleftrightarrow>
     st_open s \<and> file_bytes (dk_journal (st_disk s)) = frames (old @ st_records s) \<and>
     st_journal_bytes s = length (frames (old @ st_records s)) \<and>
     laid_out (so_max_record_payload (st_options s)) 0 None (old @ st_records s) \<and>
     (\<forall>r \<in> set old. jr_sequence r \<le> st_snapshot_sequence s) \<and>
     st_snapshot_sequence s \<le> st_last_sequence s \<and>
     st_last_sequence s =
       (if old @ st_records s = [] then st_snapshot_sequence s
        else max (st_snapshot_sequence s) (jr_sequence (List.last (old @ st_records s)))) \<and>
     (dk_snapshot (st_disk s) = None \<and> st_snapshot_sequence s = 0 \<and> st_snapshot_payload s = [] \<or>
      dk_snapshot (st_disk s) = Some (snapshot_file (st_snapshot_sequence s) (st_snapshot_payload s)) \<and>
      length (st_snapshot_payload s) \<le> 256 * 1024 * 1024 - 40)"

definition options_ok :: "store_options \<Rightarrow> bool" where
  "options_ok opts \<longleftrightarrow> so_max_record_payload opts < 2 ^ 32 - 22 \<and> so_max_snapshot_payload opts \<le> 256 * 1024 * 1024 - 40"

definition empty_store :: "store_options \<Rightarrow> store" where
  "empty_store opts = \<lparr>st_disk = \<lparr>dk_journal = Some [], dk_snapshot = None\<rparr>, st_options = opts, st_open = True,
     st_records = [], st_last_sequence = 0, st_snapshot_sequence = 0, st_journal_bytes = 0, st_snapshot_payload = []\<rparr>"

datatype store_event = SeAppend record_kind bytes | SeSnapshot bytes | SeCompact bytes

text \<open>Compaction writes the snapshot and rotates the journal when that succeeded, as \<^verbatim>\<open>compact_locked\<close> does.\<close>

fun store_step :: "store_event \<Rightarrow> store \<Rightarrow> store" where
  "store_step (SeAppend kind payload) s = snd (store_append IoOk kind payload s)"
| "store_step (SeSnapshot payload) s = snd (store_write_snapshot IoOk payload s)"
| "store_step (SeCompact payload) s =
     (case store_write_snapshot IoOk payload s of
        (Inl e, s1) \<Rightarrow> s1
      | (Inr _, s1) \<Rightarrow> snd (store_rotate_journal IoOk s1))"

lemma laid_out_snoc:
  "laid_out m off l (rs @ [r]) \<longleftrightarrow>
     laid_out m off l rs \<and> length (jr_payload r) \<le> m \<and> jr_file_offset r = off + length (frames rs) \<and>
     in_order (if rs = [] then l else Some (jr_sequence (List.last rs))) (jr_sequence r)"
  by (induction rs arbitrary: off l) (auto simp: add.assoc)

lemma u64_max: "unat (- 1 :: u64) = 2 ^ 64 - 1"
  by (simp add: unsigned_minus_1_eq_mask mask_eq_exp_minus_1)

lemma append_keeps:
  assumes "store_ok s old" "st_last_sequence s \<noteq> - 1"
  shows "store_ok (snd (store_append IoOk kind payload s)) old"
proof (cases "length payload > so_max_record_payload (st_options s)")
  case True
  then show ?thesis using assms by (simp add: store_append_def store_ok_def)
next
  case False
  let ?q = "st_last_sequence s + 1"
  let ?r = "\<lparr>jr_kind = kind, jr_sequence = ?q, jr_payload = payload, jr_file_offset = st_journal_bytes s\<rparr>"
  have less: "st_last_sequence s < ?q" by (rule word_less_succ [OF assms(2)])
  have "in_order (if old @ st_records s = [] then None else Some (jr_sequence (List.last (old @ st_records s)))) ?q"
    using assms(1) less by (auto simp: store_ok_def in_order_def)
  moreover have "st_snapshot_sequence s \<le> st_last_sequence s" using assms(1) by (simp add: store_ok_def)
  moreover have "max (st_snapshot_sequence s) ?q = ?q" using calculation(2) less by simp
  ultimately show ?thesis
    using assms(1) False less laid_out_snoc [of "so_max_record_payload (st_options s)" 0 None "old @ st_records s" ?r]
    by (auto simp: store_append_def store_ok_def Let_def io_written_def file_bytes_def frame_def)
qed

lemma snapshot_keeps:
  assumes "store_ok s old" "options_ok (st_options s)"
  shows "store_ok (snd (store_write_snapshot IoOk payload s)) old"
proof (cases "length payload > so_max_snapshot_payload (st_options s)")
  case False
  have "\<forall>r \<in> set old. jr_sequence r \<le> st_last_sequence s"
    using assms(1) by (auto simp: store_ok_def intro: order_trans)
  moreover have "max (st_last_sequence s) (jr_sequence (List.last (old @ st_records s))) = st_last_sequence s"
    if "old @ st_records s \<noteq> []"
    using assms(1) that by (auto simp: store_ok_def)
  ultimately show ?thesis
    using assms False by (auto simp: store_write_snapshot_def store_ok_def options_ok_def)
qed (use assms in \<open>simp add: store_write_snapshot_def\<close>)

lemma compact_keeps:
  assumes "store_ok s old" "options_ok (st_options s)"
  shows "\<exists>old'. store_ok (store_step (SeCompact payload) s) old'"
proof (cases "length payload > so_max_snapshot_payload (st_options s)")
  case True
  then show ?thesis using assms by (auto simp: store_write_snapshot_def)
next
  case False
  then have "store_ok (store_step (SeCompact payload) s) []"
    using assms by (auto simp: store_write_snapshot_def store_rotate_journal_def store_ok_def options_ok_def file_bytes_def)
  then show ?thesis ..
qed

lemma step_options [simp]: "st_options (store_step ev s) = st_options s"
  by (cases ev) (auto simp: store_append_def store_write_snapshot_def store_rotate_journal_def Let_def)

lemma step_sequence: "unat (st_last_sequence (store_step ev s)) \<le> unat (st_last_sequence s) + 1"
proof -
  have "unat (w + 1 :: u64) \<le> unat w + 1" for w by (simp add: unat_plus_if_size)
  then show ?thesis
    by (cases ev) (auto simp: store_append_def store_write_snapshot_def store_rotate_journal_def Let_def)
qed

lemma run_keeps:
  "\<exists>old. store_ok s old \<Longrightarrow> options_ok (st_options s) \<Longrightarrow>
   unat (st_last_sequence s) + length evs < 2 ^ 64 - 1 \<Longrightarrow> \<exists>old. store_ok (fold store_step evs s) old"
proof (induction evs arbitrary: s)
  case (Cons ev evs)
  from Cons.prems obtain old where ok: "store_ok s old" by blast
  have "st_last_sequence s \<noteq> - 1"
  proof
    assume "st_last_sequence s = - 1"
    then have "unat (st_last_sequence s) = 2 ^ 64 - 1" using u64_max by simp
    with Cons.prems(3) show False by simp
  qed
  with ok Cons.prems(2) have "\<exists>old. store_ok (store_step ev s) old"
    using append_keeps snapshot_keeps compact_keeps by (cases ev) (simp_all only: store_step.simps, blast+)
  moreover have "unat (st_last_sequence (store_step ev s)) + length evs < 2 ^ 64 - 1"
    using step_sequence [of ev s] Cons.prems(3) by simp
  ultimately show ?case using Cons.IH [of "store_step ev s"] Cons.prems(2) by simp
qed simp

lemma empty_store_ok: "store_ok (empty_store opts) []"
  by (simp add: store_ok_def empty_store_def file_bytes_def)

lemma laid_out_sequences:
  "laid_out m off l rs \<Longrightarrow> sorted_wrt (\<lambda>a b. jr_sequence a < jr_sequence b) rs \<and> (\<forall>r \<in> set rs. in_order l (jr_sequence r))"
proof (induction rs arbitrary: off l)
  case (Cons r rs)
  then show ?case
    using Cons.IH [of "off + length (frame r)" "Some (jr_sequence r)"]
    by (auto simp: in_order_def split: option.splits)
qed simp

text \<open>The last of the records above the floor, and the floor when there is none.\<close>

lemma effective_last:
  assumes "sorted_wrt (\<lambda>a b. jr_sequence a < jr_sequence b) rs"
  shows "(let eff = filter (\<lambda>r. \<not> jr_sequence r \<le> fl) rs in if eff = [] then fl else jr_sequence (List.last eff)) =
     (if rs = [] then fl else max fl (jr_sequence (List.last rs)))"
proof (cases rs rule: rev_cases)
  case (snoc ys y)
  show ?thesis
  proof (cases "jr_sequence y \<le> fl")
    case True
    with assms snoc have "filter (\<lambda>r. \<not> jr_sequence r \<le> fl) rs = []"
      by (auto simp: sorted_wrt_append filter_empty_conv)
    with True snoc show ?thesis by (simp add: max_def)
  next
    case False
    then have "fl \<le> jr_sequence y" by simp
    with False snoc show ?thesis by (simp add: max_def)
  qed
qed simp

lemma truncate_laid_out:
  assumes "laid_out m off l rs" "rs \<noteq> []"
  shows "truncate_point rs = off + length (frames rs)"
  using assms by (cases rs rule: rev_cases) (auto simp: truncate_point_def laid_out_snoc kJournalHeaderBytes_def)

lemma read_snapshot_stored:
  "length p \<le> 256 * 1024 * 1024 - 40 \<Longrightarrow> read_snapshot_file (Some (snapshot_file q p)) = Inr (q, p)"
  by (simp add: read_snapshot_file_def read_all_def snapshot_file_length snapshot_bytes_roundtrip)

text \<open>
  Opening the files of a store that is sound, after a crash that left \<open>n\<close> bytes of a frame behind the
  last acknowledged record.
\<close>

lemma reopen:
  fixes s :: store and old :: "journal_record list" and k :: record_kind and q :: counter and p :: bytes
  assumes ok: "store_ok s old" and opts: "options_ok (st_options s)"
    and torn: "length p \<le> so_max_record_payload (st_options s)" "n < 22 + length p"
    and size: "st_journal_bytes s + n \<le> 1024 * 1024 * 1024"
  defines "d \<equiv> (st_disk s)\<lparr>dk_journal := Some (file_bytes (dk_journal (st_disk s)) @ take n (journal_header k q p @ p))\<rparr>"
  shows "\<exists>s' rep. store_open (st_options s) d = Inr (s', rep) \<and>
     st_records s' = filter (\<lambda>r. \<not> jr_sequence r \<le> st_snapshot_sequence s) (st_records s) \<and>
     st_last_sequence s' = st_last_sequence s \<and> st_snapshot_payload s' = st_snapshot_payload s \<and>
     file_bytes (dk_journal (st_disk s')) = file_bytes (dk_journal (st_disk s)) \<and> rp_truncated_bytes rep = n"
proof -
  define rs where "rs = old @ st_records s"
  define m where "m = so_max_record_payload (st_options s)"
  define torn_bytes where "torn_bytes = (if n = 0 then None else Some n)"
  have lo: "laid_out m 0 None rs" and jf: "file_bytes (dk_journal (st_disk s)) = frames rs"
    and bytes: "st_journal_bytes s = length (frames rs)"
    using ok by (simp_all add: store_ok_def rs_def m_def)
  have m: "22 + m < 2 ^ 32" using opts by (simp add: options_ok_def m_def)
  have jd: "dk_journal d = Some (frames rs @ take n (journal_header k q p @ p))" by (simp add: d_def jf)
  have journal: "not_missing ([], None) (read_journal_file (dk_journal d) m) = Inr (rs, torn_bytes)"
  proof -
    have "length (frames rs @ take n (journal_header k q p @ p)) \<le> 1024 * 1024 * 1024"
      using size bytes by simp
    then have "read_journal_file (dk_journal d) m = read_frames m 0 None (frames rs @ take n (journal_header k q p @ p))"
      unfolding jd read_journal_file_def read_all_def by simp
    then show ?thesis
      unfolding recover_torn [OF m lo torn [folded m_def]] by (simp add: not_missing_def torn_bytes_def)
  qed
  define snap where "snap = (if dk_snapshot (st_disk s) = None then None else Some (st_snapshot_sequence s, st_snapshot_payload s))"
  have snapshot: "not_missing None (bindE (read_snapshot_file (dk_snapshot d)) (\<lambda>x. Inr (Some x))) = Inr snap"
  proof (cases "dk_snapshot (st_disk s) = None")
    case True
    then show ?thesis by (simp add: d_def snap_def not_missing_def read_snapshot_file_def read_all_def)
  next
    case False
    then have "dk_snapshot (st_disk s) = Some (snapshot_file (st_snapshot_sequence s) (st_snapshot_payload s))"
      "length (st_snapshot_payload s) \<le> 256 * 1024 * 1024 - 40"
      using ok by (auto simp: store_ok_def)
    then show ?thesis by (simp add: d_def snap_def not_missing_def read_snapshot_stored)
  qed
  have fl: "(case snap of None \<Rightarrow> 0 | Some (sequence, _) \<Rightarrow> sequence) = st_snapshot_sequence s"
    "(case snap of None \<Rightarrow> [] | Some (_, payload) \<Rightarrow> payload) = st_snapshot_payload s"
    using ok by (auto simp: snap_def store_ok_def)
  have eff: "filter (\<lambda>r. \<not> jr_sequence r \<le> st_snapshot_sequence s) rs =
      filter (\<lambda>r. \<not> jr_sequence r \<le> st_snapshot_sequence s) (st_records s)"
    using ok by (auto simp: store_ok_def filter_empty_conv rs_def)
  have top: "(let eff = filter (\<lambda>r. \<not> jr_sequence r \<le> st_snapshot_sequence s) rs
      in if eff = [] then st_snapshot_sequence s else jr_sequence (List.last eff)) = st_last_sequence s"
    unfolding effective_last [OF laid_out_sequences [OF lo, THEN conjunct1]] using ok
    unfolding store_ok_def rs_def by presburger
  have cut: "(case torn_bytes of None \<Rightarrow> file_bytes (dk_journal d)
      | Some _ \<Rightarrow> take (truncate_point rs) (file_bytes (dk_journal d))) = frames rs"
  proof -
    have "truncate_point rs = length (frames rs)"
      using truncate_laid_out [OF lo] by (cases "rs = []") (auto simp: truncate_point_def)
    then show ?thesis by (simp add: jd torn_bytes_def)
  qed
  have n: "(case torn_bytes of None \<Rightarrow> 0 | Some n \<Rightarrow> n) = n" by (simp add: torn_bytes_def)
  show ?thesis
    unfolding store_open_def snapshot journal [unfolded m_def] bindE_simps prod.case Let_def fl cut jf n
    using top unfolding Let_def eff by simp
qed

lemma read_frames_length:
  "read_frames m off l bs = Inr (rs, torn) \<Longrightarrow>
   length bs = sum_list (map (\<lambda>r. 22 + length (jr_payload r)) rs) + (case torn of None \<Rightarrow> 0 | Some n \<Rightarrow> n)"
proof (induction bs arbitrary: off l rs torn rule: length_induct)
  case (1 bs)
  let ?len = "unat (get_u32 (drop 4 bs))"
  show ?case
  proof (cases "bs = [] \<or> length bs < 22 \<or> length bs < ?len")
    case True
    then show ?thesis using "1.prems"
      by (subst (asm) read_frames.simps) (auto simp: kJournalHeaderBytes_def Let_def split: if_splits)
  next
    case False
    obtain k rs' where len: "22 \<le> ?len" and
      rest: "read_frames m (off + ?len) (Some (get_u64 (drop 8 bs))) (drop ?len bs) = Inr (rs', torn)"
      and rs: "rs = \<lparr>jr_kind = k, jr_sequence = get_u64 (drop 8 bs), jr_payload = take (?len - 22) (drop 22 bs),
        jr_file_offset = off\<rparr> # rs'"
      using "1.prems" False
      by (subst (asm) read_frames.simps)
        (auto simp: kJournalHeaderBytes_def Let_def bindE_Inr_iff split: if_splits sum.splits option.splits)
    have "length (drop ?len bs) < length bs" using False len by simp
    with "1.IH" rest have "length (drop ?len bs) =
        sum_list (map (\<lambda>r. 22 + length (jr_payload r)) rs') + (case torn of None \<Rightarrow> 0 | Some n \<Rightarrow> n)" by blast
    moreover have "length (jr_payload (hd rs)) = ?len - 22"
    proof -
      have "?len - 22 \<le> length bs - 22" using False by (intro diff_le_mono) simp
      then show ?thesis using rs by (simp add: min_absorb2)
    qed
    ultimately show ?thesis using False len rs by (simp del: length_take) linarith
  qed
qed


definition sample_options :: store_options where
  "sample_options = \<lparr>so_max_record_payload = 4 * 1024 * 1024, so_max_snapshot_payload = 1024, so_compact_threshold_bytes = 8 * 1024 * 1024\<rparr>"


text \<open>C25: A record whose payload differs from the written one in a single byte is never read: the journal
  is refused as corrupt, whatever precedes and follows it.\<close>

theorem journal_detects_corruption:
  assumes "m < 2 ^ 32 - 22" "laid_out m 0 None rs" "length (pre @ x # post) \<le> m" "x \<noteq> y"
  shows "read_frames m 0 None (frames rs @ journal_header k q (pre @ x # post) @ (pre @ y # post) @ rest) = Inl ECorrupt"
  using assms by (intro changed_payload) simp_all

theorem journal_detects_corruption_witness:
  "read_frames 100 0 None (frames [] @ journal_header RkFence 1 ([] @ 5 # [6]) @ ([] @ 7 # [6]) @ []) = Inl ECorrupt"
  by (rule journal_detects_corruption) simp_all



text \<open>C32: A failed append is not undone. When all bytes of a frame reached the file but the flush failed,
  the append reports an error, the next append is acknowledged under the same sequence number, and the
  journal can then no longer be opened: the acknowledged record is lost with every other.\<close>

theorem failed_append_poisons:
  assumes "options_ok opts" "length p \<le> so_max_record_payload opts" "length p' \<le> so_max_record_payload opts"
    and "22 + length p + (22 + length p') \<le> 1024 * 1024 * 1024"
  shows "let s1 = snd (store_append (IoFail (22 + length p)) k p (empty_store opts)) in
     fst (store_append (IoFail (22 + length p)) k p (empty_store opts)) = Inl EIo \<and>
     fst (store_append IoOk k' p' s1) = Inr 1 \<and>
     store_open opts (st_disk (snd (store_append IoOk k' p' s1))) = Inl ECorrupt"
proof -
  let ?f = "journal_header k 1 p @ p @ journal_header k' 1 p' @ p'"
  let ?m = "so_max_record_payload opts"
  have len: "22 + length p < 2 ^ 32" "22 + length p' < 2 ^ 32" using assms(1-3) by (auto simp: options_ok_def)
  have "read_frames ?m 0 None (journal_header k 1 p @ p @ journal_header k' 1 p' @ p' @ []) = Inl ECorrupt"
    unfolding read_frame [OF len(1) assms(2)] read_frame [OF len(2) assms(3)] by (simp add: in_order_def)
  then have "read_journal_file (Some ?f) ?m = Inl ECorrupt"
    using assms(4) by (simp add: read_journal_file_def read_all_def)
  moreover have "st_disk (snd (store_append IoOk k' p' (snd (store_append (IoFail (22 + length p)) k p (empty_store opts)))))
      = \<lparr>dk_journal = Some ?f, dk_snapshot = None\<rparr>"
    "fst (store_append (IoFail (22 + length p)) k p (empty_store opts)) = Inl EIo"
    "fst (store_append IoOk k' p' (snd (store_append (IoFail (22 + length p)) k p (empty_store opts)))) = Inr 1"
    using assms(2,3) by (simp_all add: store_append_def empty_store_def Let_def io_written_def)
  moreover have "read_snapshot_file None = Inl ENotFound" by (simp add: read_snapshot_file_def read_all_def)
  ultimately show ?thesis by (simp add: Let_def store_open_def not_missing_def)
qed

theorem failed_append_poisons_witness:
  "let s1 = snd (store_append (IoFail 23) RkFence [1] (empty_store sample_options)) in
     fst (store_append (IoFail 23) RkFence [1] (empty_store sample_options)) = Inl EIo \<and>
     fst (store_append IoOk RkRetire [2] s1) = Inr 1 \<and>
     store_open sample_options (st_disk (snd (store_append IoOk RkRetire [2] s1))) = Inl ECorrupt"
  using failed_append_poisons [of sample_options "[1]" "[2]" RkFence RkRetire]
  by (simp add: options_ok_def sample_options_def)

text \<open>C33: With the default bound, a snapshot payload within 40 bytes of 256 MiB is written, replaces the
  previous snapshot and is then too large to be read: the store cannot be opened again.\<close>

theorem oversized_snapshot_unreadable:
  assumes "so_max_snapshot_payload (st_options s) = 256 * 1024 * 1024"
    and "256 * 1024 * 1024 - 40 < length p" "length p \<le> 256 * 1024 * 1024"
  shows "fst (store_write_snapshot IoOk p s) = Inr (st_last_sequence s) \<and>
    store_open opts (st_disk (snd (store_write_snapshot IoOk p s))) = Inl EResourceExhausted"
  using assms by (simp add: store_write_snapshot_def store_open_def read_snapshot_file_def read_all_def
      snapshot_file_length not_missing_def)

definition default_options :: store_options where
  "default_options = \<lparr>so_max_record_payload = 4 * 1024 * 1024, so_max_snapshot_payload = 256 * 1024 * 1024,
     so_compact_threshold_bytes = 8 * 1024 * 1024\<rparr>"

theorem oversized_snapshot_unreadable_witness:
  "\<exists>p. store_open default_options (st_disk (snd (store_write_snapshot IoOk p (empty_store default_options)))) =
     Inl EResourceExhausted"
  using oversized_snapshot_unreadable [of "empty_store default_options" "replicate (256 * 1024 * 1024) 0"]
  by (auto simp: default_options_def empty_store_def)

end

