(* ===== verification/Brf_Coordinator.thy ===== *)
theory Brf_Coordinator
  imports Brf_Index Brf_Store
begin

text \<open>
  The state of \<^verbatim>\<open>ReservationCoordinator::Impl\<close> (\<^verbatim>\<open>src/coordinator_impl.hpp\<close>), the utilities of
  \<^verbatim>\<open>src/coordinator_core.cpp\<close> every operation uses (context validation, the durable append,
  provenance, claimants, policies and holds) and the record, index and queue bookkeeping of
  \<^verbatim>\<open>src/coordinator_records.cpp\<close>.

  Two fields stand for the environment of one run: \<open>co_clock\<close> and \<open>co_ticks\<close> are the successive
  readings of the clock, \<open>co_io\<close> the outcomes of the successive writes of the store (a write beyond the
  list succeeds). A reference to a record is the record read from the record map; writing through
  the reference is \<open>put_record\<close>.

  The lemmas at the end name the part of the state the lifecycle reads (\<open>core\<close>) and the operations that leave
  it alone (\<open>quiet\<close>).
\<close>

subsection \<open>The state\<close>

type_synonym reservation_key = "identity \<times> counter"
type_synonym series_key = "identity \<times> counter"

text \<open>
  The in-memory attempt and fence records have the fields of the mutations they are copied from, one by
  one.
\<close>

type_synonym attempt_record = attempt_mutation
type_synonym fence_record = fence_mutation

record overcommit_state =
  os_mutation :: overcommit_mutation
  os_resolved :: bool

record resolved_binding =
  rb_kind :: binding_kind
  rb_path :: name
  rb_path_generation :: counter
  rb_resources :: "resource_ref list"
  rb_failure_domains :: "failure_domain_ref list"

record coordinator_config =
  cfg_max_live_reservations :: nat
  cfg_max_history_records :: nat
  cfg_max_attempts :: nat
  cfg_index_scan_limit :: nat
  cfg_enable_preemption :: bool
  cfg_boot_identity :: identity

record coordinator_stats =
  cst_commits :: u64
  cst_commit_rejections :: u64
  cst_replayed_attempts :: u64
  cst_amendments :: u64
  cst_releases :: u64
  cst_expiries :: u64
  cst_recalls :: u64
  cst_revocations :: u64
  cst_revalidations :: u64
  cst_fenced_holds :: u64
  cst_capacity_ingestions :: u64
  cst_generation_advances :: u64
  cst_durable_records :: u64
  cst_overcommit_events :: u64
  cst_snapshot_sequence :: u64

record coordinator =
  co_config :: coordinator_config
  co_clock :: timestamp
  co_ticks :: "timestamp list"
  co_io :: "io_outcome list"
  co_store :: store
  co_epoch :: counter
  co_boot :: identity
  co_sequence :: counter
  co_stopping :: bool
  co_stats :: coordinator_stats
  co_ledger :: ledger
  co_paths :: path_table
  co_policies :: policy_registry
  co_index :: capacity_index
  co_last_capacity_snapshot :: identity
  co_last_capacity_generation :: counter
  co_last_path_snapshot :: identity
  co_last_path_generation :: counter
  co_records :: "(reservation_key, reservation_record) omap"
  co_generations :: "(identity, counter list) omap"
  co_current_generation :: "(identity, counter) omap"
  co_edges :: "supersession_edge list"
  co_series_records :: "(series_key, reservation_series) omap"
  co_current_series :: "(identity, counter) omap"
  co_attempts :: "(identity, attempt_record) omap"
  co_attempt_order :: "identity list"
  co_claimants :: "(identity, counter) omap"
  co_fenced_boots :: "(identity, fence_record) omap"
  co_fenced_claimants :: "(identity, fence_record) omap"
  co_holds :: "(identity, hold_record) omap"
  co_released_holds :: "identity list"
  co_overcommit :: "(name, overcommit_state) omap"
  co_retired :: "(identity, reservation_record) omap"
  co_activation_queue :: "(timestamp, reservation_key) omap"
  co_expiry_queue :: "(timestamp, reservation_key) omap"
  co_recall_queue :: "(timestamp, reservation_key) omap"
  co_live_count :: nat
  co_history_count :: nat

type_synonym 'a coord_op = "(coordinator, error_code, 'a) op"

definition empty_stats :: coordinator_stats where
  "empty_stats =
     \<lparr>cst_commits = 0, cst_commit_rejections = 0, cst_replayed_attempts = 0, cst_amendments = 0,
      cst_releases = 0, cst_expiries = 0, cst_recalls = 0, cst_revocations = 0, cst_revalidations = 0,
      cst_fenced_holds = 0, cst_capacity_ingestions = 0, cst_generation_advances = 0,
      cst_durable_records = 0, cst_overcommit_events = 0, cst_snapshot_sequence = 0\<rparr>"

text \<open>A freshly constructed \<^verbatim>\<open>Impl\<close> on an opened store.\<close>

definition fresh_coordinator :: "coordinator_config \<Rightarrow> timestamp \<Rightarrow> timestamp list \<Rightarrow> io_outcome list \<Rightarrow> store \<Rightarrow> coordinator" where
  "fresh_coordinator config clock ticks io store =
     \<lparr>co_config = config, co_clock = clock, co_ticks = ticks, co_io = io, co_store = store, co_epoch = 0,
      co_boot = 0, co_sequence = 0, co_stopping = False, co_stats = empty_stats, co_ledger = [],
      co_paths = [], co_policies = [], co_index = ci_empty, co_last_capacity_snapshot = 0,
      co_last_capacity_generation = 0, co_last_path_snapshot = 0, co_last_path_generation = 0,
      co_records = [], co_generations = [], co_current_generation = [], co_edges = [],
      co_series_records = [], co_current_series = [], co_attempts = [], co_attempt_order = [],
      co_claimants = [], co_fenced_boots = [], co_fenced_claimants = [], co_holds = [],
      co_released_holds = [], co_overcommit = [], co_retired = [], co_activation_queue = [],
      co_expiry_queue = [], co_recall_queue = [], co_live_count = 0, co_history_count = 0\<rparr>"

definition bump :: "((u64 \<Rightarrow> u64) \<Rightarrow> coordinator_stats \<Rightarrow> coordinator_stats) \<Rightarrow> coordinator \<Rightarrow> coordinator" where
  "bump field s = s\<lparr>co_stats := field (\<lambda>n. n + 1) (co_stats s)\<rparr>"

definition now_locked :: "timestamp coord_op" where
  "now_locked s =
     (Inr (co_clock s), case co_ticks s of [] \<Rightarrow> s | t # ts \<Rightarrow> s\<lparr>co_clock := t, co_ticks := ts\<rparr>)"

subsection \<open>Requests\<close>

definition validate_context_locked :: "request_context \<Rightarrow> bool \<Rightarrow> unit coord_op" where
  "validate_context_locked cx require_attempt s =
     (if co_stopping s then (Inl EShuttingDown, s)
      else if cx_asserted_epoch cx \<noteq> co_epoch s then (Inl EStaleEpoch, s)
      else if is_nil (cx_publisher cx) then (Inl EInvalidIdentity, s)
      else if require_attempt \<and> is_nil (cx_attempt cx) then (Inl EInvalidIdentity, s)
      else if \<not> is_nil (cx_publisher_boot cx) \<and> om_find (co_fenced_boots s) (cx_publisher_boot cx) \<noteq> None
      then (Inl EFencedClaimant, s)
      else if \<not> is_nil (cx_claimant cx) \<and> om_find (co_fenced_claimants s) (cx_claimant cx) \<noteq> None
      then (Inl EFencedClaimant, s)
      else (Inr (), s))"

text \<open>One write of the store, with the next outcome of the environment.\<close>

definition next_io :: "coordinator \<Rightarrow> io_outcome" where
  "next_io s = (case co_io s of [] \<Rightarrow> IoOk | io # _ \<Rightarrow> io)"

definition append_locked :: "durable_record \<Rightarrow> counter coord_op" where
  "append_locked r s =
     (case store_append (next_io s) (durable_kind r) (encode_record r) (co_store s) of
        (Inl e, st) \<Rightarrow> (Inl e, s\<lparr>co_io := tl (co_io s), co_store := st\<rparr>)
      | (Inr sequence, st) \<Rightarrow>
          (Inr sequence,
           bump cst_durable_records_update (s\<lparr>co_io := tl (co_io s), co_store := st, co_sequence := sequence\<rparr>)))"

definition make_provenance_locked :: "coordinator \<Rightarrow> request_context \<Rightarrow> counter \<Rightarrow> timestamp \<Rightarrow> provenance" where
  "make_provenance_locked s cx sequence at =
     \<lparr>pv_actor = cx_actor cx, pv_publisher = cx_publisher cx, pv_publisher_boot = cx_publisher_boot cx,
      pv_session = cx_session cx, pv_attempt = cx_attempt cx, pv_fabric_epoch = co_epoch s,
      pv_coordinator_boot = co_boot s, pv_recorded_at = at, pv_sequence = sequence,
      pv_reason = sanitize_reason (cx_reason cx)\<rparr>"

definition policy_for_locked :: "coordinator \<Rightarrow> name \<Rightarrow> policy_record" where
  "policy_for_locked s n =
     (case policy_current (co_policies s) n of Some p \<Rightarrow> p | None \<Rightarrow> strict_default n)"

subsection \<open>Holds\<close>

definition on_index :: "(capacity_index, error_code, 'a) op \<Rightarrow> 'a coord_op" where
  "on_index m s = (case m (co_index s) of (r, ix) \<Rightarrow> (r, s\<lparr>co_index := ix\<rparr>))"

definition release_hold_locked :: "identity \<Rightarrow> string \<Rightarrow> bool \<Rightarrow> unit coord_op" where
  "release_hold_locked i reason fenced s =
     (case om_find (co_holds s) i of
        None \<Rightarrow> (Inl ENotFound, s)
      | Some hold \<Rightarrow>
          if hd_released hold then (Inr (), s)
          else
            let now = co_clock s;
                s1 = snd (now_locked s);
                s2 = s1\<lparr>co_holds := om_put i (hold\<lparr>hd_released := True, hd_released_at := now,
                                                 hd_release_reason := sanitize_reason reason\<rparr>) (co_holds s1)\<rparr>;
                s3 = (if ci_contains HkHold i (co_index s2)
                      then snd (on_index (ci_erase_all HkHold i (hd_generation hold)) s2) else s2);
                s4 = (if fenced then bump cst_fenced_holds_update s3 else s3);
                released = co_released_holds s4 @ [i]
            in (Inr (), s4\<lparr>co_released_holds := drop (length released - 4096) released\<rparr>))"

definition release_holds :: "(hold_record \<Rightarrow> bool) \<Rightarrow> string \<Rightarrow> bool \<Rightarrow> coordinator \<Rightarrow> coordinator" where
  "release_holds victim reason fenced s =
     fold (\<lambda>i s. snd (release_hold_locked i reason fenced s))
       (map fst (filter (\<lambda>(_, hold). \<not> hd_released hold \<and> victim hold) (co_holds s))) s"

definition fence_holds_for_claimant_locked :: "identity \<Rightarrow> counter \<Rightarrow> string \<Rightarrow> coordinator \<Rightarrow> coordinator" where
  "fence_holds_for_claimant_locked claimant gen reason =
     release_holds (\<lambda>hold. hd_claimant hold = claimant \<and> hd_claimant_generation hold < gen) reason True"

definition fence_holds_for_boot_locked :: "identity \<Rightarrow> string \<Rightarrow> coordinator \<Rightarrow> coordinator" where
  "fence_holds_for_boot_locked boot reason = release_holds (\<lambda>hold. hd_boot hold = boot) reason True"

definition fence_holds_for_session_locked :: "identity \<Rightarrow> string \<Rightarrow> coordinator \<Rightarrow> coordinator" where
  "fence_holds_for_session_locked session reason = release_holds (\<lambda>hold. hd_session hold = session) reason True"

definition ensure_claimant_locked :: "identity \<Rightarrow> counter \<Rightarrow> timestamp \<Rightarrow> unit coord_op" where
  "ensure_claimant_locked claimant gen now s =
     (if is_nil claimant then (Inl EInvalidIdentity, s)
      else
        let register = append_locked (DrClaimantRegistration
              \<lparr>cm_claimant = claimant, cm_generation = gen, cm_at = now\<rparr>);
            enter = modify (\<lambda>s. s\<lparr>co_claimants := om_put claimant gen (co_claimants s)\<rparr>)
        in (case om_find (co_claimants s) claimant of
              None \<Rightarrow> andThen register (\<lambda>_. enter) s
            | Some g \<Rightarrow>
                if gen < g then (Inl EFencedClaimant, s)
                else if gen > g
                then andThen register (\<lambda>_. andThen enter (\<lambda>_.
                       modify (fence_holds_for_claimant_locked claimant gen ''claimant generation advanced''))) s
                else (Inr (), s)))"

subsection \<open>Index bookkeeping\<close>

definition record_key :: "reservation_record \<Rightarrow> reservation_key" where
  "record_key r = (rv_id r, rv_generation r)"

definition indexable_locked :: "coordinator \<Rightarrow> reservation_record \<Rightarrow> bool" where
  "indexable_locked s r \<longleftrightarrow> consumes r \<and> rv_applicability r \<noteq> ApStale \<and>
     \<not> iv_empty (consuming_interval r) \<and>
     list_all (ledger_is_current (co_ledger s)) (av_resources (rv_authority r))"

definition index_entries_of :: "reservation_record \<Rightarrow> index_entry list" where
  "index_entries_of r = map (\<lambda>ref.
     \<lparr>ie_kind = HkReservation, ie_id = rv_id r, ie_holder_generation = rv_generation r,
      ie_resource = rr_resource ref, ie_interval = consuming_interval r, ie_amount = tm_amount (rv_terms r),
      ie_guarantee = tm_guarantee (rv_terms r), ie_state = rv_state r\<rparr>) (av_resources (rv_authority r))"

definition index_insert_locked :: "reservation_record \<Rightarrow> unit coord_op" where
  "index_insert_locked r s =
     (if iv_empty (consuming_interval r) then (Inr (), s)
      else on_index (ci_replace_all HkReservation (rv_id r) (rv_generation r) (index_entries_of r)) s)"

definition index_erase_locked :: "reservation_record \<Rightarrow> unit coord_op" where
  "index_erase_locked r s =
     (if \<not> ci_contains HkReservation (rv_id r) (co_index s) then (Inr (), s)
      else on_index (ci_erase_all HkReservation (rv_id r) (rv_generation r)) s)"

definition index_holds_locked :: "coordinator \<Rightarrow> reservation_record \<Rightarrow> bool" where
  "index_holds_locked s r \<longleftrightarrow>
     list_ex (\<lambda>e. ie_holder_generation e = rv_generation r) (ci_find_all HkReservation (rv_id r) (co_index s))"

definition sync_index_locked :: "reservation_record \<Rightarrow> unit coord_op" where
  "sync_index_locked r s =
     (if indexable_locked s r \<and> \<not> index_holds_locked s r then index_insert_locked r s
      else if \<not> indexable_locked s r \<and> index_holds_locked s r then index_erase_locked r s
      else (Inr (), s))"

definition update_index_locked :: "reservation_record \<Rightarrow> unit coord_op" where
  "update_index_locked r s =
     (if index_holds_locked s r
      then andThen (index_erase_locked r) (\<lambda>_. sync_index_locked r) s
      else sync_index_locked r s)"

subsection \<open>Time queues\<close>

definition unqueue :: "reservation_key \<Rightarrow> (timestamp, reservation_key) omap \<Rightarrow> (timestamp, reservation_key) omap" where
  "unqueue k q = filter (\<lambda>(_, k'). k' \<noteq> k) q"

definition sync_queues_locked :: "reservation_record \<Rightarrow> coordinator \<Rightarrow> coordinator" where
  "sync_queues_locked r s =
     (let k = record_key r;
          activation = unqueue k (co_activation_queue s);
          expiry = unqueue k (co_expiry_queue s);
          recall = unqueue k (co_recall_queue s);
          window = consuming_interval r
      in if \<not> consumes r
         then s\<lparr>co_activation_queue := activation, co_expiry_queue := expiry, co_recall_queue := recall\<rparr>
         else s\<lparr>co_activation_queue := (if rv_state r = RsCommitted
                                          then mm_put (iv_start (tm_interval (rv_terms r))) k activation else activation),
                co_expiry_queue := (if \<not> iv_empty window then mm_put (iv_end window) k expiry else expiry),
                co_recall_queue := (if rv_state r = RsRecallPending \<and> rv_recall_effective_at r > 0
                                      then mm_put (rv_recall_effective_at r) k recall else recall)\<rparr>)"

definition rebuild_queues_locked :: "coordinator \<Rightarrow> coordinator" where
  "rebuild_queues_locked s =
     fold (\<lambda>(_, r). sync_queues_locked r) (co_records s)
       (s\<lparr>co_activation_queue := [], co_expiry_queue := [], co_recall_queue := []\<rparr>)"

definition rebuild_index_locked :: "unit coord_op" where
  "rebuild_index_locked s =
     each (\<lambda>(k, r) s.
         if om_find (co_current_generation s) (fst k) \<noteq> Some (snd k) then (Inr (), s)
         else sync_index_locked r s)
       (co_records s) (s\<lparr>co_index := ci_empty\<rparr>)"

subsection \<open>Records\<close>

definition put_record :: "reservation_record \<Rightarrow> coordinator \<Rightarrow> coordinator" where
  "put_record r s = s\<lparr>co_records := om_put (record_key r) r (co_records s)\<rparr>"

definition register_record_locked :: "reservation_record \<Rightarrow> coordinator \<Rightarrow> coordinator" where
  "register_record_locked r s =
     (let existed = om_find (co_records s) (record_key r) \<noteq> None;
          history = (case om_find (co_generations s) (rv_id r) of None \<Rightarrow> [] | Some h \<Rightarrow> h);
          history' = (if rv_generation r \<in> set history then history
                      else sort_by (<) (history @ [rv_generation r]));
          s1 = (put_record r s)\<lparr>co_generations := om_put (rv_id r) history' (co_generations s)\<rparr>;
          s2 = (if (case om_find (co_current_generation s) (rv_id r) of
                      None \<Rightarrow> True | Some g \<Rightarrow> rv_generation r > g)
                then s1\<lparr>co_current_generation := om_put (rv_id r) (rv_generation r) (co_current_generation s1)\<rparr>
                else s1)
      in if existed then s2
         else if is_terminal (rv_state r) then s2\<lparr>co_history_count := co_history_count s2 + 1\<rparr>
         else s2\<lparr>co_live_count := co_live_count s2 + 1\<rparr>)"

text \<open>
  \<^verbatim>\<open>set_state_locked\<close>: the record it leaves behind and the counters it adjusts. Both counters are
  guarded against going below zero.
\<close>

definition stated ::
  "reservation_state \<Rightarrow> timestamp \<Rightarrow> string \<Rightarrow> provenance \<Rightarrow> reservation_record \<Rightarrow> reservation_record" where
  "stated st at reason pv r =
     (let r1 = r\<lparr>rv_state := st, rv_state_changed_at := at, rv_state_reason := sanitize_reason reason,
                rv_last_provenance := pv\<rparr>
      in if is_terminal st then r1\<lparr>rv_terminated_at := at\<rparr> else r1)"

definition count_move :: "reservation_state \<Rightarrow> reservation_state \<Rightarrow> coordinator \<Rightarrow> coordinator" where
  "count_move from to s =
     (if \<not> is_terminal from \<and> is_terminal to
      then s\<lparr>co_live_count := co_live_count s - 1, co_history_count := co_history_count s + 1\<rparr>
      else if is_terminal from \<and> \<not> is_terminal to
      then s\<lparr>co_history_count := co_history_count s - 1, co_live_count := co_live_count s + 1\<rparr>
      else s)"

definition set_state_locked ::
  "reservation_record \<Rightarrow> reservation_state \<Rightarrow> timestamp \<Rightarrow> string \<Rightarrow> provenance \<Rightarrow> coordinator \<Rightarrow> coordinator" where
  "set_state_locked r st at reason pv s =
     put_record (stated st at reason pv r) (count_move (rv_state r) st s)"

definition find_record_locked :: "coordinator \<Rightarrow> identity \<Rightarrow> counter \<Rightarrow> reservation_record option" where
  "find_record_locked s i gen = om_find (co_records s) (i, gen)"

definition current_record_locked :: "coordinator \<Rightarrow> identity \<Rightarrow> reservation_record option" where
  "current_record_locked s i =
     (case om_find (co_current_generation s) i of
        None \<Rightarrow> None
      | Some gen \<Rightarrow> om_find (co_records s) (i, gen))"

definition find_attempt_locked :: "coordinator \<Rightarrow> identity \<Rightarrow> attempt_record option" where
  "find_attempt_locked s a = om_find (co_attempts s) a"

text \<open>The eviction loop of \<^verbatim>\<open>remember_attempt_locked\<close>.\<close>

fun trim_attempts ::
  "nat \<Rightarrow> identity list \<Rightarrow> (identity, attempt_record) omap \<Rightarrow> identity list \<times> (identity, attempt_record) omap" where
  "trim_attempts bound [] m = ([], m)"
| "trim_attempts bound (oldest # rest) m =
     (if length (oldest # rest) > bound then trim_attempts bound rest (om_erase oldest m)
      else (oldest # rest, m))"

definition remember_attempt_locked :: "attempt_record \<Rightarrow> coordinator \<Rightarrow> coordinator" where
  "remember_attempt_locked a s =
     (let order = (if om_find (co_attempts s) (at_attempt a) = None then co_attempt_order s @ [at_attempt a]
                   else co_attempt_order s);
          (order', m) = trim_attempts (cfg_max_attempts (co_config s)) order (om_put (at_attempt a) a (co_attempts s))
      in s\<lparr>co_attempt_order := order', co_attempts := m\<rparr>)"

definition mark_applicability_locked ::
  "reservation_record \<Rightarrow> applicability \<Rightarrow> applicability_reason \<Rightarrow> timestamp \<Rightarrow> unit coord_op" where
  "mark_applicability_locked r ap reason at s =
     (if rv_applicability r = ap \<and> rv_applicability_reason r = reason then (Inr (), s)
      else andThen
        (append_locked (DrReservationApplicability
           \<lparr>am_id = rv_id r, am_generation = rv_generation r, am_applicability = ap, am_reason = reason, am_at = at\<rparr>))
        (\<lambda>sequence s1.
           let r1 = r\<lparr>rv_applicability := ap, rv_applicability_reason := reason, rv_sequence := sequence,
                     rv_state_changed_at := at\<rparr>
           in sync_index_locked r1 (sync_queues_locked r1 (put_record r1 s1))) s)"

subsection \<open>Suspension of index entries\<close>

text \<open>
  A \<^verbatim>\<open>Suspension\<close> collects the entries it took out of the index and puts them back when it goes out
  of scope, unless the operation has kept their removal.
\<close>

fun suspend_entries :: "index_entry list \<Rightarrow> index_entry list \<Rightarrow> coordinator \<Rightarrow> (status \<times> index_entry list) \<times> coordinator" where
  "suspend_entries [] taken s = ((Inr (), taken), s)"
| "suspend_entries (e # es) taken s =
     (case on_index (ci_erase (ie_kind e) (ie_id e) (ie_holder_generation e) (ie_resource e)) s of
        (Inl x, s1) \<Rightarrow> ((Inl x, taken @ [e]), s1)
      | (Inr _, s1) \<Rightarrow> suspend_entries es (taken @ [e]) s1)"

definition suspend :: "reservation_record \<Rightarrow> index_entry list \<Rightarrow> coordinator \<Rightarrow> (status \<times> index_entry list) \<times> coordinator" where
  "suspend r taken s =
     suspend_entries (filter (\<lambda>e. ie_holder_generation e = rv_generation r)
       (ci_find_all HkReservation (rv_id r) (co_index s))) taken s"

definition suspend_hold :: "identity \<Rightarrow> index_entry list \<Rightarrow> coordinator \<Rightarrow> (status \<times> index_entry list) \<times> coordinator" where
  "suspend_hold i taken s = suspend_entries (ci_find_all HkHold i (co_index s)) taken s"

definition restore :: "index_entry list \<Rightarrow> coordinator \<Rightarrow> coordinator" where
  "restore taken s = fold (\<lambda>e s. snd (on_index (ci_insert e) s)) taken s"

subsection \<open>What the utilities leave alone\<close>

text \<open>
  \<open>core\<close> is the part of the state the lifecycle invariant speaks about. The clock, the store, the
  index, the holds and the statistics are outside of it.
\<close>

definition core where
  "core s = (co_config s, co_records s, co_generations s, co_current_generation s, co_attempts s,
     co_attempt_order s, co_activation_queue s, co_expiry_queue s, co_recall_queue s, co_live_count s,
     co_history_count s)"

named_theorems core_simps \<open>operations that leave the core of the coordinator state unchanged\<close>

lemma core_bump [core_simps]: "core (bump f s) = core s"
  by (simp add: core_def bump_def)

lemma core_now [core_simps]: "core (snd (now_locked s)) = core s"
  by (simp add: core_def now_locked_def split: list.splits)

lemma core_append [core_simps]: "core (snd (append_locked r s)) = core s"
  by (simp add: core_def append_locked_def bump_def split: prod.splits sum.splits)

lemma core_on_index [core_simps]: "core (snd (on_index m s)) = core s"
  by (simp add: core_def on_index_def split: prod.splits)

lemma core_index_insert [core_simps]: "core (snd (index_insert_locked r s)) = core s"
  by (simp add: index_insert_locked_def core_simps)

lemma core_index_erase [core_simps]: "core (snd (index_erase_locked r s)) = core s"
  by (simp add: index_erase_locked_def core_simps)

lemma core_sync_index [core_simps]: "core (snd (sync_index_locked r s)) = core s"
  by (simp add: sync_index_locked_def core_simps)

lemma core_update_index [core_simps]: "core (snd (update_index_locked r s)) = core s"
proof -
  have "core (snd (andThen (index_erase_locked r) (\<lambda>_. sync_index_locked r) s)) = core s"
    using core_index_erase [of r s] core_sync_index [of r "snd (index_erase_locked r s)"]
    by (cases "index_erase_locked r s") (auto simp: andThen_def split: sum.splits)
  then show ?thesis
    by (simp add: update_index_locked_def core_simps)
qed

lemma core_suspend_entries [core_simps]: "core (snd (suspend_entries es taken s)) = core s"
proof (induction es taken s rule: suspend_entries.induct)
  case (2 e es taken s)
  let ?m = "ci_erase (ie_kind e) (ie_id e) (ie_holder_generation e) (ie_resource e)"
  obtain x s1 where step: "on_index ?m s = (x, s1)" by force
  with core_on_index [of ?m s] have "core s1 = core s" by simp
  with 2 step show ?case by (cases x) auto
qed simp

lemma core_suspend [core_simps]:
  "core (snd (suspend r taken s)) = core s" "core (snd (suspend_hold i taken s)) = core s"
  by (simp_all add: suspend_def suspend_hold_def core_simps)

lemma core_restore [core_simps]: "core (restore taken s) = core s"
proof (induction taken arbitrary: s)
  case (Cons e es)
  have "restore (e # es) s = restore es (snd (on_index (ci_insert e) s))" by (simp add: restore_def)
  with Cons show ?case by (simp add: core_simps)
qed (simp add: restore_def)

lemma core_holds [core_simps]:
  "core (s\<lparr>co_holds := h\<rparr>) = core s" "core (s\<lparr>co_released_holds := rh\<rparr>) = core s"
  "core (s\<lparr>co_claimants := c\<rparr>) = core s" "core (s\<lparr>co_edges := e\<rparr>) = core s"
  by (simp_all add: core_def)

lemma core_release_hold [core_simps]: "core (snd (release_hold_locked i reason fenced s)) = core s"
  by (simp add: release_hold_locked_def Let_def core_simps split: option.splits)

lemma core_release_holds [core_simps]: "core (release_holds victim reason fenced s) = core s"
proof -
  have "core (fold (\<lambda>i s. snd (release_hold_locked i reason fenced s)) is s) = core s" for "is"
    by (induction "is" arbitrary: s) (simp_all add: core_simps)
  then show ?thesis by (simp add: release_holds_def)
qed

lemma core_fence_claimant [core_simps]: "core (fence_holds_for_claimant_locked c g reason s) = core s"
  by (simp add: fence_holds_for_claimant_locked_def core_simps)

text \<open>An operation that leaves the core alone, as a composable judgement.\<close>

definition quiet :: "'a coord_op \<Rightarrow> bool" where
  "quiet m \<longleftrightarrow> (\<forall>s. core (snd (m s)) = core s)"

lemma quiet_core: "quiet m \<Longrightarrow> core (snd (m s)) = core s"
  by (simp add: quiet_def)

lemma quiet_andThen: "quiet m \<Longrightarrow> (\<And>x. quiet (f x)) \<Longrightarrow> quiet (andThen m f)"
  by (auto simp: quiet_def andThen_def split: prod.splits sum.splits) (metis snd_conv)+

lemma core_ensure_claimant [core_simps]: "core (snd (ensure_claimant_locked c g now s)) = core s"
proof -
  let ?register = "append_locked (DrClaimantRegistration \<lparr>cm_claimant = c, cm_generation = g, cm_at = now\<rparr>)"
  let ?enter = "modify (\<lambda>s. s\<lparr>co_claimants := om_put c g (co_claimants s)\<rparr>) :: unit coord_op"
  let ?fence = "modify (fence_holds_for_claimant_locked c g ''claimant generation advanced'') :: unit coord_op"
  have "quiet ?register" "quiet ?enter" "quiet ?fence"
    by (simp_all add: quiet_def modify_def core_simps)
  then have "quiet (andThen ?register (\<lambda>_. ?enter))" "quiet (andThen ?register (\<lambda>_. andThen ?enter (\<lambda>_. ?fence)))"
    by (auto intro!: quiet_andThen)
  then show ?thesis
    by (simp add: ensure_claimant_locked_def Let_def quiet_def split: option.splits)
qed

end
