(* ===== verification/Brf_Invariant.thy ===== *)
theory Brf_Invariant
  imports Brf_Coordinator
begin

text \<open>
  The lifecycle invariant of the coordinator and the relation \<open>life\<close> its operations move the state along.

  \<open>coord_ok\<close>: the records are filed under their own key, the live and history counters are exact, the
  current generation of an identity is the greatest registered one and the only one that may be live,
  the attempt table stays within its bound, and the three time queues hold exactly the deadlines of the
  consuming records. \<open>legal_step\<close> is the state machine of a reservation. The locale
  \<open>step_preorder\<close> composes operations that move along a preorder; \<open>life\<close> is one.
\<close>

subsection \<open>The lifecycle invariant\<close>

definition live_records :: "coordinator \<Rightarrow> nat" where
  "live_records s = length (filter (\<lambda>(_, r). \<not> is_terminal (rv_state r)) (co_records s))"

definition history_records :: "coordinator \<Rightarrow> nat" where
  "history_records s = length (filter (\<lambda>(_, r). is_terminal (rv_state r)) (co_records s))"

definition records_ok :: "coordinator \<Rightarrow> bool" where
  "records_ok s \<longleftrightarrow> om_ok (co_records s) \<and> (\<forall>i g r. om_find (co_records s) (i, g) = Some r \<longrightarrow> rv_id r = i \<and> rv_generation r = g) \<and>
     co_live_count s = live_records s \<and> co_history_count s = history_records s"

definition registered :: "coordinator \<Rightarrow> identity \<Rightarrow> counter \<Rightarrow> bool" where
  "registered s i g \<longleftrightarrow> (\<exists>h. om_find (co_generations s) i = Some h \<and> g \<in> set h)"

definition generations_ok :: "coordinator \<Rightarrow> bool" where
  "generations_ok s \<longleftrightarrow>
     (\<forall>i h. om_find (co_generations s) i = Some h \<longrightarrow>
        h \<noteq> [] \<and> sorted h \<and> distinct h \<and> om_find (co_current_generation s) i = Some (last h)) \<and>
     (\<forall>i. om_find (co_generations s) i = None \<longrightarrow> om_find (co_current_generation s) i = None) \<and>
     (\<forall>i g r. om_find (co_records s) (i, g) = Some r \<longrightarrow> registered s i g) \<and>
     (\<forall>i g r. om_find (co_records s) (i, g) = Some r \<longrightarrow> \<not> is_terminal (rv_state r) \<longrightarrow>
        om_find (co_current_generation s) i = Some g)"

definition attempts_ok :: "coordinator \<Rightarrow> bool" where
  "attempts_ok s \<longleftrightarrow> om_ok (co_attempts s) \<and> distinct (co_attempt_order s) \<and>
     set (co_attempt_order s) = fst ` set (co_attempts s) \<and>
     length (co_attempt_order s) \<le> cfg_max_attempts (co_config s)"

definition activation_deadline :: "reservation_record \<Rightarrow> timestamp option" where
  "activation_deadline r =
     (if consumes r \<and> rv_state r = RsCommitted then Some (iv_start (tm_interval (rv_terms r))) else None)"

definition expiry_deadline :: "reservation_record \<Rightarrow> timestamp option" where
  "expiry_deadline r =
     (if consumes r \<and> \<not> iv_empty (consuming_interval r) then Some (iv_end (consuming_interval r)) else None)"

definition recall_deadline :: "reservation_record \<Rightarrow> timestamp option" where
  "recall_deadline r =
     (if consumes r \<and> rv_state r = RsRecallPending \<and> rv_recall_effective_at r > 0
      then Some (rv_recall_effective_at r) else None)"

definition queue_exact ::
  "(reservation_record \<Rightarrow> timestamp option) \<Rightarrow> (timestamp, reservation_key) omap \<Rightarrow>
   (reservation_key, reservation_record) omap \<Rightarrow> bool" where
  "queue_exact deadline q m \<longleftrightarrow> mm_ok q \<and>
     (\<forall>t k. (t, k) \<in> set q \<longleftrightarrow> (\<exists>r. om_find m k = Some r \<and> deadline r = Some t))"

definition queues_ok :: "coordinator \<Rightarrow> bool" where
  "queues_ok s \<longleftrightarrow>
     queue_exact activation_deadline (co_activation_queue s) (co_records s) \<and>
     queue_exact expiry_deadline (co_expiry_queue s) (co_records s) \<and>
     queue_exact recall_deadline (co_recall_queue s) (co_records s)"

definition coord_ok :: "coordinator \<Rightarrow> bool" where
  "coord_ok s \<longleftrightarrow> records_ok s \<and> generations_ok s \<and> attempts_ok s \<and> queues_ok s"

lemma coord_ok_core: "core s = core s' \<Longrightarrow> coord_ok s \<longleftrightarrow> coord_ok s'"
  by (simp add: core_def coord_ok_def records_ok_def generations_ok_def attempts_ok_def queues_ok_def
      live_records_def history_records_def registered_def)

lemma registered_core: "core s = core s' \<Longrightarrow> registered s = registered s'"
  by (simp add: core_def registered_def fun_eq_iff)

lemma coord_ok_keyed: "coord_ok s \<Longrightarrow> om_find (co_records s) k = Some r \<Longrightarrow> record_key r = k"
  by (cases k) (simp add: coord_ok_def records_ok_def record_key_def)

lemma generations_okD:
  "generations_ok s \<Longrightarrow> om_find (co_generations s) i = Some h \<Longrightarrow>
     h \<noteq> [] \<and> sorted h \<and> distinct h \<and> om_find (co_current_generation s) i = Some (last h)"
  "generations_ok s \<Longrightarrow> om_find (co_generations s) i = None \<Longrightarrow> om_find (co_current_generation s) i = None"
  "generations_ok s \<Longrightarrow> om_find (co_records s) (i, g) = Some r \<Longrightarrow> registered s i g"
  "generations_ok s \<Longrightarrow> om_find (co_records s) (i, g) = Some r \<Longrightarrow> \<not> is_terminal (rv_state r) \<Longrightarrow>
     om_find (co_current_generation s) i = Some g"
  unfolding generations_ok_def by blast+

text \<open>Counting over a map whose entry for a key is replaced, added or removed.\<close>

definition tally :: "('v \<Rightarrow> bool) \<Rightarrow> ('k, 'v) omap \<Rightarrow> nat" where
  "tally p m = length (filter (\<lambda>(_, v). p v) m)"

lemma tally_put:
  "om_ok m \<Longrightarrow>
   tally p (om_put k v m) + (case om_find m k of None \<Rightarrow> 0 | Some w \<Rightarrow> of_bool (p w)) = tally p m + of_bool (p v)"
proof (induction k v m rule: om_put.induct)
  case (2 k v a b m)
  then have "om_ok m" and "k < a \<Longrightarrow> om_find m k = None"
    by (auto simp: om_ok_Cons om_find_None_iff dest!: bspec)
  with 2 show ?case
    by (auto simp: tally_def om_find_def split: option.splits)
qed (simp_all add: tally_def)

lemma tally_erase:
  "om_ok m \<Longrightarrow> om_find m k = Some w \<Longrightarrow> tally p (om_erase k m) + of_bool (p w) = tally p m"
  by (induction k m rule: om_erase.induct) (auto simp: tally_def om_find_def om_ok_Cons split: if_splits)

lemma live_records_tally: "live_records s = tally (\<lambda>r. \<not> is_terminal (rv_state r)) (co_records s)"
  by (simp add: live_records_def tally_def)

lemma history_records_tally: "history_records s = tally (\<lambda>r. is_terminal (rv_state r)) (co_records s)"
  by (simp add: history_records_def tally_def)

lemma queue_exact_put:
  assumes "queue_exact deadline q m"
  shows "queue_exact deadline
    (case deadline r of None \<Rightarrow> unqueue k q | Some t \<Rightarrow> mm_put t k (unqueue k q)) (om_put k r m)"
  using assms by (auto simp: queue_exact_def unqueue_def mm_ok_put mm_ok_filter split: option.splits)

lemma sync_queues_exact:
  assumes "queues_ok s"
  shows "queues_ok (sync_queues_locked r (put_record r s))"
proof -
  from assms have "queue_exact activation_deadline (co_activation_queue s) (co_records s)"
    "queue_exact expiry_deadline (co_expiry_queue s) (co_records s)"
    "queue_exact recall_deadline (co_recall_queue s) (co_records s)"
    by (simp_all add: queues_ok_def)
  from this [THEN queue_exact_put, where r = r and k = "record_key r"] show ?thesis
    by (auto simp: queues_ok_def sync_queues_locked_def put_record_def Let_def activation_deadline_def
        expiry_deadline_def recall_deadline_def)
qed

lemma count_move_sel [simp]:
  "co_records (count_move a b s) = co_records s" "co_generations (count_move a b s) = co_generations s"
  "co_current_generation (count_move a b s) = co_current_generation s"
  "co_attempts (count_move a b s) = co_attempts s" "co_attempt_order (count_move a b s) = co_attempt_order s"
  "co_config (count_move a b s) = co_config s" "co_activation_queue (count_move a b s) = co_activation_queue s"
  "co_expiry_queue (count_move a b s) = co_expiry_queue s" "co_recall_queue (count_move a b s) = co_recall_queue s"
  by (simp_all add: count_move_def)

lemma sync_queues_sel [simp]:
  "co_records (sync_queues_locked r s) = co_records s" "co_generations (sync_queues_locked r s) = co_generations s"
  "co_current_generation (sync_queues_locked r s) = co_current_generation s"
  "co_attempts (sync_queues_locked r s) = co_attempts s"
  "co_attempt_order (sync_queues_locked r s) = co_attempt_order s"
  "co_config (sync_queues_locked r s) = co_config s" "co_live_count (sync_queues_locked r s) = co_live_count s"
  "co_history_count (sync_queues_locked r s) = co_history_count s"
  by (simp_all add: sync_queues_locked_def Let_def)

lemma ok_sync_queues [simp]:
  "records_ok (sync_queues_locked r s) \<longleftrightarrow> records_ok s"
  "generations_ok (sync_queues_locked r s) \<longleftrightarrow> generations_ok s"
  "attempts_ok (sync_queues_locked r s) \<longleftrightarrow> attempts_ok s"
  unfolding records_ok_def live_records_def history_records_def generations_ok_def registered_def
    attempts_ok_def sync_queues_sel by (rule refl)+

lemma put_record_sel [simp]:
  "co_records (put_record r s) = om_put (record_key r) r (co_records s)"
  "co_generations (put_record r s) = co_generations s"
  "co_current_generation (put_record r s) = co_current_generation s"
  "co_attempts (put_record r s) = co_attempts s" "co_attempt_order (put_record r s) = co_attempt_order s"
  "co_config (put_record r s) = co_config s" "co_live_count (put_record r s) = co_live_count s"
  "co_history_count (put_record r s) = co_history_count s"
  by (simp_all add: put_record_def)

lemma queues_ok_cong:
  "co_records s = co_records s' \<Longrightarrow> co_activation_queue s = co_activation_queue s' \<Longrightarrow>
   co_expiry_queue s = co_expiry_queue s' \<Longrightarrow> co_recall_queue s = co_recall_queue s' \<Longrightarrow>
   queues_ok s \<longleftrightarrow> queues_ok s'"
  by (simp add: queues_ok_def)

lemma records_ok_restate:
  assumes ok: "records_ok s" and old: "om_find (co_records s) (record_key r') = Some r"
  shows "records_ok (put_record r' (count_move (rv_state r) (rv_state r') s))"
proof -
  let ?m = "co_records s" and ?s' = "put_record r' (count_move (rv_state r) (rv_state r') s)"
  from ok have m: "om_ok ?m" and keyed: "\<And>i g v. om_find ?m (i, g) = Some v \<Longrightarrow> rv_id v = i \<and> rv_generation v = g"
    and counts: "co_live_count s = live_records s" "co_history_count s = history_records s"
    unfolding records_ok_def by blast+
  note puts = tally_put [OF m, of _ "record_key r'" r', unfolded old, simplified]
  have "live_records ?s' + of_bool (\<not> is_terminal (rv_state r)) = live_records s + of_bool (\<not> is_terminal (rv_state r'))"
    using puts [of "\<lambda>r. \<not> is_terminal (rv_state r)"] by (simp add: live_records_tally)
  moreover have "history_records ?s' + of_bool (is_terminal (rv_state r)) = history_records s + of_bool (is_terminal (rv_state r'))"
    using puts [of "\<lambda>r. is_terminal (rv_state r)"] by (simp add: history_records_tally)
  ultimately have "co_live_count ?s' = live_records ?s'" "co_history_count ?s' = history_records ?s'"
    using counts by (cases "is_terminal (rv_state r)"; cases "is_terminal (rv_state r')"; simp add: count_move_def)+
  moreover have "rv_id v = i \<and> rv_generation v = g" if "om_find (co_records ?s') (i, g) = Some v" for i g v
    using that keyed [of i g v] by (simp add: record_key_def split: if_splits)
  ultimately show ?thesis
    using m unfolding records_ok_def by simp
qed

lemma coord_ok_restate:
  assumes ok: "coord_ok s" and old: "om_find (co_records s) (record_key r') = Some r"
    and live: "is_terminal (rv_state r) \<longrightarrow> is_terminal (rv_state r')"
  shows "coord_ok (sync_queues_locked r' (put_record r' (count_move (rv_state r) (rv_state r') s)))"
    (is "coord_ok ?s'")
proof -
  let ?p = "put_record r' (count_move (rv_state r) (rv_state r') s)"
  have "records_ok ?p"
    using ok old unfolding coord_ok_def by (intro records_ok_restate) simp_all
  then have "records_ok ?s'" by simp
  moreover have "generations_ok ?s'"
  proof -
    have gen: "generations_ok s" using ok by (simp add: coord_ok_def)
    have reg: "registered ?s' = registered s" by (simp add: registered_def fun_eq_iff)
    have "registered s i g" if "om_find (co_records ?s') (i, g) = Some v" for i g v
      using that generations_okD(3) [OF gen, of i g] old by (simp split: if_splits)
    moreover have "om_find (co_current_generation s) i = Some g"
      if "om_find (co_records ?s') (i, g) = Some v" "\<not> is_terminal (rv_state v)" for i g v
      using that generations_okD(4) [OF gen, of i g] old live by (simp split: if_splits)
    ultimately show ?thesis
      using generations_okD(1,2) [OF gen] unfolding generations_ok_def reg by simp
  qed
  moreover have "attempts_ok ?s'"
    using ok by (simp add: coord_ok_def attempts_ok_def)
  moreover have "queues_ok ?s'"
    using ok by (intro sync_queues_exact) (simp add: coord_ok_def cong: queues_ok_cong)
  ultimately show ?thesis by (simp add: coord_ok_def)
qed

lemma register_record_sel [simp]:
  "co_records (register_record_locked r s) = om_put (record_key r) r (co_records s)"
  "co_attempts (register_record_locked r s) = co_attempts s"
  "co_attempt_order (register_record_locked r s) = co_attempt_order s"
  "co_config (register_record_locked r s) = co_config s"
  "co_activation_queue (register_record_locked r s) = co_activation_queue s"
  "co_expiry_queue (register_record_locked r s) = co_expiry_queue s"
  "co_recall_queue (register_record_locked r s) = co_recall_queue s"
  by (simp_all add: register_record_locked_def put_record_def Let_def)

definition history_of :: "coordinator \<Rightarrow> identity \<Rightarrow> counter list" where
  "history_of s i = (case om_find (co_generations s) i of None \<Rightarrow> [] | Some h \<Rightarrow> h)"

lemma register_record_generations:
  "om_find (co_generations (register_record_locked r s)) i =
     (if i = rv_id r
      then Some (if rv_generation r \<in> set (history_of s i) then history_of s i
                 else sort (history_of s i @ [rv_generation r]))
      else om_find (co_generations s) i)"
  by (cases "om_find (co_generations s) (rv_id r)")
    (auto simp: register_record_locked_def put_record_def Let_def history_of_def sort_by_less)

lemma register_record_current:
  "om_find (co_current_generation (register_record_locked r s)) i =
     (if i = rv_id r \<and> (case om_find (co_current_generation s) i of None \<Rightarrow> True | Some g \<Rightarrow> rv_generation r > g)
      then Some (rv_generation r) else om_find (co_current_generation s) i)"
  by (cases "om_find (co_current_generation s) (rv_id r)")
    (auto simp: register_record_locked_def put_record_def Let_def)

lemma registered_register:
  "registered (register_record_locked r s) i g \<longleftrightarrow> registered s i g \<or> (i = rv_id r \<and> g = rv_generation r)"
  by (cases "om_find (co_generations s) (rv_id r)")
    (auto simp: registered_def register_record_generations history_of_def)

lemma records_ok_register:
  assumes ok: "records_ok s" and new: "om_find (co_records s) (record_key r) = None"
  shows "records_ok (register_record_locked r s)"
proof -
  let ?m = "co_records s" and ?s' = "register_record_locked r s"
  from ok have m: "om_ok ?m" and keyed: "\<And>i g v. om_find ?m (i, g) = Some v \<Longrightarrow> rv_id v = i \<and> rv_generation v = g"
    and counts: "co_live_count s = live_records s" "co_history_count s = history_records s"
    unfolding records_ok_def by blast+
  note puts = tally_put [OF m, of _ "record_key r" r, unfolded new, simplified]
  have "live_records ?s' = live_records s + of_bool (\<not> is_terminal (rv_state r))"
    using puts [of "\<lambda>r. \<not> is_terminal (rv_state r)"] by (simp add: live_records_tally)
  moreover have "history_records ?s' = history_records s + of_bool (is_terminal (rv_state r))"
    using puts [of "\<lambda>r. is_terminal (rv_state r)"] by (simp add: history_records_tally)
  moreover have "co_live_count ?s' = co_live_count s + of_bool (\<not> is_terminal (rv_state r))"
    "co_history_count ?s' = co_history_count s + of_bool (is_terminal (rv_state r))"
    using new by (simp_all add: register_record_locked_def put_record_def Let_def)
  moreover have "rv_id v = i \<and> rv_generation v = g" if "om_find (co_records ?s') (i, g) = Some v" for i g v
    using that keyed [of i g v] by (simp add: record_key_def split: if_splits)
  ultimately show ?thesis
    using m counts unfolding records_ok_def by simp
qed

text \<open>
  Registering a generation above all earlier ones of its identity, none of which is live any more.
\<close>

lemma generations_ok_register:
  assumes gen: "generations_ok s" and above: "\<forall>g \<in> set (history_of s (rv_id r)). g < rv_generation r"
    and dead: "\<And>g v. om_find (co_records s) (rv_id r, g) = Some v \<Longrightarrow> is_terminal (rv_state v)"
  shows "generations_ok (register_record_locked r s)"
proof -
  let ?s' = "register_record_locked r s" and ?h = "history_of s (rv_id r)"
  have fresh: "rv_generation r \<notin> set ?h" using above by blast
  have srt: "sorted ?h \<and> distinct ?h"
    using generations_okD(1) [OF gen, of "rv_id r"] by (simp add: history_of_def split: option.splits)
  have "sorted (?h @ [rv_generation r])"
    using srt above by (auto simp: sorted_append)
  then have hist: "sort (?h @ [rv_generation r]) = ?h @ [rv_generation r]"
    by (rule sorted_sort_id)
  have cur: "om_find (co_current_generation ?s') (rv_id r) = Some (rv_generation r)"
  proof (cases "om_find (co_generations s) (rv_id r)")
    case None
    then show ?thesis using generations_okD(2) [OF gen None] by (simp add: register_record_current)
  next
    case (Some h)
    with generations_okD(1) [OF gen Some] above show ?thesis
      by (simp add: register_record_current history_of_def)
  qed
  have "h \<noteq> [] \<and> sorted h \<and> distinct h \<and> om_find (co_current_generation ?s') i = Some (last h)"
    if "om_find (co_generations ?s') i = Some h" for i h
  proof (cases "i = rv_id r")
    case True
    with that fresh hist have "h = ?h @ [rv_generation r]" by (simp add: register_record_generations)
    with True srt above cur fresh show ?thesis by (auto simp: sorted_append)
  next
    case False
    with that generations_okD(1) [OF gen, of i h] show ?thesis
      by (simp add: register_record_generations register_record_current)
  qed
  moreover have "om_find (co_current_generation ?s') i = None" if "om_find (co_generations ?s') i = None" for i
    using that generations_okD(2) [OF gen, of i]
    by (simp add: register_record_generations register_record_current split: if_splits)
  moreover have "registered ?s' i g" if "om_find (co_records ?s') (i, g) = Some v" for i g v
    using that generations_okD(3) [OF gen, of i g v]
    by (auto simp: registered_register record_key_def split: if_splits)
  moreover have "om_find (co_current_generation ?s') i = Some g"
    if "om_find (co_records ?s') (i, g) = Some v" "\<not> is_terminal (rv_state v)" for i g v
  proof (cases "(i, g) = record_key r")
    case True
    then show ?thesis using cur by (simp add: record_key_def)
  next
    case False
    with that have old: "om_find (co_records s) (i, g) = Some v" by simp
    with dead that(2) have "i \<noteq> rv_id r" by blast
    with generations_okD(4) [OF gen old that(2)] show ?thesis by (simp add: register_record_current)
  qed
  ultimately show ?thesis unfolding generations_ok_def by blast
qed

lemma coord_ok_register:
  assumes ok: "coord_ok s" and above: "\<forall>g \<in> set (history_of s (rv_id r)). g < rv_generation r"
    and dead: "\<And>g v. om_find (co_records s) (rv_id r, g) = Some v \<Longrightarrow> is_terminal (rv_state v)"
  shows "coord_ok (sync_queues_locked r (register_record_locked r s))"
proof -
  have gen: "generations_ok s" using ok by (simp add: coord_ok_def)
  have "om_find (co_records s) (record_key r) = None"
  proof (rule ccontr)
    assume "om_find (co_records s) (record_key r) \<noteq> None"
    then obtain v where "om_find (co_records s) (rv_id r, rv_generation r) = Some v"
      by (auto simp: record_key_def)
    from generations_okD(3) [OF gen this] have "rv_generation r \<in> set (history_of s (rv_id r))"
      by (auto simp: registered_def history_of_def)
    with above show False by blast
  qed
  then have "records_ok (register_record_locked r s)"
    using ok unfolding coord_ok_def by (intro records_ok_register) simp_all
  moreover have "generations_ok (register_record_locked r s)"
    using gen above dead by (rule generations_ok_register)
  moreover have "attempts_ok (register_record_locked r s)"
    using ok by (simp add: coord_ok_def attempts_ok_def)
  moreover have "queues_ok (sync_queues_locked r (register_record_locked r s))"
  proof -
    have "queues_ok (sync_queues_locked r (put_record r s))"
      using ok unfolding coord_ok_def by (intro sync_queues_exact) simp
    then show ?thesis
      by (rule iffD1 [OF queues_ok_cong, rotated -1])
        (simp_all add: sync_queues_locked_def Let_def put_record_def)
  qed
  ultimately show ?thesis by (simp add: coord_ok_def)
qed

subsection \<open>The attempt table\<close>

lemma trim_attempts_ok:
  assumes "om_ok m" "distinct order" "set order = fst ` set m" "trim_attempts bound order m = (order', m')"
  shows "om_ok m' \<and> distinct order' \<and> set order' = fst ` set m' \<and> length order' \<le> bound"
  using assms
proof (induction bound order m rule: trim_attempts.induct)
  case (2 bound oldest rest m)
  show ?case
  proof (cases "length (oldest # rest) > bound")
    case True
    have "set rest = fst ` set (om_erase oldest m)"
      using "2.prems"(2,3) om.items_erase [OF "2.prems"(1), of oldest] by auto
    with 2 True show ?thesis by simp
  next
    case False
    with "2.prems"(4) have "order' = oldest # rest" "m' = m" by simp_all
    with "2.prems" False show ?thesis by simp
  qed
qed simp

lemma attempts_ok_remember: "attempts_ok s \<Longrightarrow> attempts_ok (remember_attempt_locked a s)"
proof -
  assume ok: "attempts_ok s"
  let ?order = "if om_find (co_attempts s) (at_attempt a) = None then co_attempt_order s @ [at_attempt a]
    else co_attempt_order s"
  let ?m = "om_put (at_attempt a) a (co_attempts s)"
  obtain order' m' where trim: "trim_attempts (cfg_max_attempts (co_config s)) ?order ?m = (order', m')" by force
  have "distinct ?order \<and> set ?order = fst ` set ?m"
    using ok by (auto simp: attempts_ok_def om_find_None_iff)
  then have "om_ok m' \<and> distinct order' \<and> set order' = fst ` set m' \<and> length order' \<le> cfg_max_attempts (co_config s)"
    using trim_attempts_ok [OF _ _ _ trim] ok by (simp add: attempts_ok_def)
  with trim show ?thesis by (simp add: attempts_ok_def remember_attempt_locked_def Let_def)
qed

lemma remember_attempt_sel [simp]:
  "co_records (remember_attempt_locked a s) = co_records s"
  "co_generations (remember_attempt_locked a s) = co_generations s"
  "co_current_generation (remember_attempt_locked a s) = co_current_generation s"
  "co_config (remember_attempt_locked a s) = co_config s"
  "co_activation_queue (remember_attempt_locked a s) = co_activation_queue s"
  "co_expiry_queue (remember_attempt_locked a s) = co_expiry_queue s"
  "co_recall_queue (remember_attempt_locked a s) = co_recall_queue s"
  "co_live_count (remember_attempt_locked a s) = co_live_count s"
  "co_history_count (remember_attempt_locked a s) = co_history_count s"
  by (simp_all add: remember_attempt_locked_def Let_def split: prod.splits)

lemma coord_ok_remember: "coord_ok s \<Longrightarrow> coord_ok (remember_attempt_locked a s)"
  using attempts_ok_remember [of s a]
  by (simp add: coord_ok_def records_ok_def generations_ok_def queues_ok_def live_records_def
      history_records_def registered_def)

subsection \<open>Retiring history\<close>

lemma coord_ok_retire:
  assumes ok: "coord_ok s" and old: "om_find (co_records s) k = Some r" and dead: "is_terminal (rv_state r)"
  shows "coord_ok (s\<lparr>co_records := om_erase k (co_records s), co_history_count := co_history_count s - 1\<rparr>)"
    (is "coord_ok ?s'")
proof -
  let ?m = "co_records s"
  have rec: "records_ok s" and gen: "generations_ok s" using ok by (simp_all add: coord_ok_def)
  from rec have m: "om_ok ?m" by (simp add: records_ok_def)
  have sub: "om_find (om_erase k ?m) k' = Some v \<Longrightarrow> om_find ?m k' = Some v" for k' v
    by (simp add: om_find_erase [OF m] split: if_splits)
  have "records_ok ?s'"
    using rec m tally_erase [OF m old, of "\<lambda>r. is_terminal (rv_state r)"] tally_erase [OF m old, of "\<lambda>r. \<not> is_terminal (rv_state r)"] dead
    unfolding records_ok_def live_records_tally history_records_tally by (auto dest!: sub)
  moreover have "generations_ok ?s'"
    using generations_okD [OF gen] sub unfolding generations_ok_def registered_def by simp
  moreover have "attempts_ok ?s'" using ok by (simp add: coord_ok_def attempts_ok_def)
  moreover have "queues_ok ?s'"
  proof -
    have "queue_exact d q (om_erase k ?m)" if "queue_exact d q ?m" "d r = None" for d q
      using that old by (auto simp: queue_exact_def om_find_erase [OF m])
    moreover have "activation_deadline r = None" "expiry_deadline r = None" "recall_deadline r = None"
      using dead by (cases "rv_state r"; simp add: activation_deadline_def expiry_deadline_def recall_deadline_def
          consumes_def)+
    ultimately show ?thesis using ok by (simp add: coord_ok_def queues_ok_def)
  qed
  ultimately show ?thesis by (simp add: coord_ok_def)
qed

subsection \<open>The lifecycle of a reservation\<close>

text \<open>The state changes the lifecycle operations make on a record.\<close>

inductive legal_step :: "reservation_state \<Rightarrow> reservation_state \<Rightarrow> bool" where
  activate: "legal_step RsCommitted RsActive"
| expire: "consumes_capacity st \<Longrightarrow> st \<noteq> RsRecallPending \<Longrightarrow> legal_step st RsExpired"
| recall: "consumes_capacity st \<Longrightarrow> legal_step st RsRecallPending"
| revoke: "consumes_capacity st \<Longrightarrow> legal_step st RsRevoked"
| release: "\<not> is_terminal st \<Longrightarrow> legal_step st RsReleased"
| supersede: "\<not> is_terminal st \<Longrightarrow> legal_step st RsSuperseded"

inductive_cases legal_stepE: "legal_step a b"

lemma legal_step_live: "legal_step a b \<Longrightarrow> \<not> is_terminal a"
  by (erule legal_step.cases) (auto elim: consumes_capacity.elims)

definition moves :: "reservation_state \<Rightarrow> reservation_state \<Rightarrow> bool" where
  "moves = legal_step\<^sup>*\<^sup>*"

lemma moves_refl [simp, intro]: "moves a a"
  by (simp add: moves_def)

lemma moves_trans [trans]: "moves a b \<Longrightarrow> moves b c \<Longrightarrow> moves a c"
  by (auto simp: moves_def)

lemma moves_step: "legal_step a b \<Longrightarrow> moves a b"
  by (auto simp: moves_def)

lemma moves_terminal: "moves a b \<Longrightarrow> is_terminal a \<Longrightarrow> b = a"
  unfolding moves_def by (induction rule: converse_rtranclp_induct) (auto dest: legal_step_live)

text \<open>
  One operation of the coordinator, seen on the records: registered generations stay registered; the
  invariant is kept, a record still held has only made legal moves, a record no longer held had
  reached a terminal state, a retired generation never comes back, and a new generation starts out
  committed or active. Generation numbers are 64-bit counters; the relation says nothing once one of them
  has reached the last value.
\<close>

definition generations_left :: "coordinator \<Rightarrow> bool" where
  "generations_left s \<longleftrightarrow> (\<forall>i. \<not> registered s i (- 1))"

definition record_moved :: "reservation_record \<Rightarrow> reservation_record option \<Rightarrow> bool" where
  "record_moved r x \<longleftrightarrow>
     (case x of
        Some r' \<Rightarrow> moves (rv_state r) (rv_state r') \<and> rv_terms r' = rv_terms r \<and> rv_authority r' = rv_authority r
      | None \<Rightarrow> \<exists>st. is_terminal st \<and> moves (rv_state r) st)"

definition born :: "reservation_record \<Rightarrow> bool" where
  "born r \<longleftrightarrow> moves RsCommitted (rv_state r) \<or> moves RsActive (rv_state r)"

definition life :: "coordinator \<Rightarrow> coordinator \<Rightarrow> bool" where
  "life s s' \<longleftrightarrow>
     (\<forall>i g. registered s i g \<longrightarrow> registered s' i g) \<and>
     (coord_ok s \<and> generations_left s' \<longrightarrow>
        coord_ok s' \<and>
        (\<forall>i g r. om_find (co_records s) (i, g) = Some r \<longrightarrow> record_moved r (om_find (co_records s') (i, g))) \<and>
        (\<forall>i g. registered s i g \<longrightarrow> om_find (co_records s) (i, g) = None \<longrightarrow> om_find (co_records s') (i, g) = None) \<and>
        (\<forall>i g r'. \<not> registered s i g \<longrightarrow> om_find (co_records s') (i, g) = Some r' \<longrightarrow> born r'))"

lemma lifeD:
  assumes "life s s'"
  shows "registered s i g \<Longrightarrow> registered s' i g"
    and "coord_ok s \<Longrightarrow> generations_left s' \<Longrightarrow> coord_ok s'"
    and "coord_ok s \<Longrightarrow> generations_left s' \<Longrightarrow> om_find (co_records s) (i, g) = Some r \<Longrightarrow>
      record_moved r (om_find (co_records s') (i, g))"
    and "coord_ok s \<Longrightarrow> generations_left s' \<Longrightarrow> registered s i g \<Longrightarrow> om_find (co_records s) (i, g) = None \<Longrightarrow>
      om_find (co_records s') (i, g) = None"
    and "coord_ok s \<Longrightarrow> generations_left s' \<Longrightarrow> \<not> registered s i g \<Longrightarrow>
      om_find (co_records s') (i, g) = Some r' \<Longrightarrow> born r'"
  using assms unfolding life_def by blast+

lemma coord_ok_registered:
  "coord_ok s \<Longrightarrow> om_find (co_records s) (i, g) = Some r \<Longrightarrow> registered s i g"
  by (auto simp: coord_ok_def dest: generations_okD(3))

lemma record_moved_trans:
  assumes "record_moved r (Some r')" "record_moved r' x"
  shows "record_moved r x"
  using assms by (cases x) (auto simp: record_moved_def intro: moves_trans)

lemma born_moved: "born r \<Longrightarrow> record_moved r (Some r') \<Longrightarrow> born r'"
  by (auto simp: born_def record_moved_def intro: moves_trans)

lemma life_same:
  assumes "registered s' = registered s" and "co_records s' = co_records s" and "coord_ok s \<Longrightarrow> coord_ok s'"
  shows "life s s'"
  using assms by (auto simp: life_def record_moved_def dest: coord_ok_registered)

lemma life_refl: "life s s"
  by (rule life_same) simp_all

lemma life_trans:
  assumes 1: "life s s'" and 2: "life s' s''"
  shows "life s s''"
  unfolding life_def
proof (intro conjI allI impI)
  fix i g assume "registered s i g"
  then show "registered s'' i g" using lifeD(1) [OF 1] lifeD(1) [OF 2] by blast
next
  assume "coord_ok s \<and> generations_left s''"
  then have ok: "coord_ok s" and left'': "generations_left s''" by simp_all
  from left'' have left': "generations_left s'"
    using lifeD(1) [OF 2] unfolding generations_left_def by blast
  from ok left' have ok': "coord_ok s'" using lifeD(2) [OF 1] by blast
  show "coord_ok s''" using lifeD(2) [OF 2 ok' left''] .
  fix i g
  {
    fix r assume old: "om_find (co_records s) (i, g) = Some r"
    show "record_moved r (om_find (co_records s'') (i, g))"
    proof (cases "om_find (co_records s') (i, g)")
      case None
      have "registered s' i g" using lifeD(1) [OF 1] coord_ok_registered [OF ok old] .
      from lifeD(4) [OF 2 ok' left'' this None] lifeD(3) [OF 1 ok left' old] None show ?thesis by simp
    next
      case (Some r')
      from lifeD(3) [OF 1 ok left' old] lifeD(3) [OF 2 ok' left'' Some] Some show ?thesis
        by (auto intro: record_moved_trans)
    qed
  next
    assume reg: "registered s i g" and "om_find (co_records s) (i, g) = None"
    then have "om_find (co_records s') (i, g) = None" using lifeD(4) [OF 1 ok left'] by blast
    with lifeD(4) [OF 2 ok' left''] lifeD(1) [OF 1 reg] show "om_find (co_records s'') (i, g) = None" by blast
  next
    fix r'' assume new: "\<not> registered s i g" and found: "om_find (co_records s'') (i, g) = Some r''"
    show "born r''"
    proof (cases "registered s' i g")
      case False
      then show ?thesis using lifeD(5) [OF 2 ok' left''] found by blast
    next
      case True
      then obtain r' where r': "om_find (co_records s') (i, g) = Some r'"
        using lifeD(4) [OF 2 ok' left'' True] found by fastforce
      with lifeD(5) [OF 1 ok left' new] lifeD(3) [OF 2 ok' left'' r'] found show ?thesis
        by (auto intro: born_moved)
    qed
  }
qed

subsection \<open>Composing operations\<close>

text \<open>
  \<open>ends_in R m\<close>: an operation that succeeds leads along \<open>R\<close>. For a preorder \<open>R\<close> the judgement composes
  the way the operations do.
\<close>

definition ends_in :: "('s \<Rightarrow> 's \<Rightarrow> bool) \<Rightarrow> ('s, 'e, 'a) op \<Rightarrow> bool" where
  "ends_in R m \<longleftrightarrow> (\<forall>s x s'. m s = (Inr x, s') \<longrightarrow> R s s')"

lemma ends_inI: "(\<And>s x s'. m s = (Inr x, s') \<Longrightarrow> R s s') \<Longrightarrow> ends_in R m"
  by (simp add: ends_in_def)

lemma ends_inD: "ends_in R m \<Longrightarrow> m s = (Inr x, s') \<Longrightarrow> R s s'"
  by (simp add: ends_in_def)

lemma andThen_Inr: "andThen m f s = (Inr y, s'') \<longleftrightarrow> (\<exists>x s'. m s = (Inr x, s') \<and> f x s' = (Inr y, s''))"
  by (auto simp: andThen_def split: prod.splits sum.splits)

lemma andThen_Inl:
  "andThen m f s = (Inl e, s'') \<longleftrightarrow> m s = (Inl e, s'') \<or> (\<exists>x s'. m s = (Inr x, s') \<and> f x s' = (Inl e, s''))"
  by (auto simp: andThen_def split: prod.splits sum.splits)

locale step_preorder =
  fixes R :: "'s \<Rightarrow> 's \<Rightarrow> bool"
  assumes R_refl: "R s s"
    and R_trans: "R s s' \<Longrightarrow> R s' s'' \<Longrightarrow> R s s''"
begin

lemma ends_pure [intro]:
  "ends_in R (ret x)" "ends_in R (fail e)" "ends_in R (gets g)" "ends_in R (lift y)" "ends_in R (guard_op c e)"
  by (auto simp: ends_in_def op_defs R_refl split: if_splits)

lemma ends_andThen [intro]: "ends_in R m \<Longrightarrow> (\<And>x. ends_in R (f x)) \<Longrightarrow> ends_in R (andThen m f)"
  unfolding ends_in_def andThen_Inr using R_trans by blast

lemma ends_each [intro]: "(\<And>x. ends_in R (f x)) \<Longrightarrow> ends_in R (each f xs)"
proof (induction xs)
  case (Cons x xs)
  then show ?case unfolding ends_in_def each.simps andThen_Inr using R_trans by blast
qed (simp add: ends_in_def R_refl)

lemma ends_modify [intro]: "(\<And>s. R s (f s)) \<Longrightarrow> ends_in R (modify f)"
  by (auto simp: ends_in_def modify_def)

lemma fold_steps: "(\<And>x s. R s (f x s)) \<Longrightarrow> R s (fold f xs s)"
  by (induction xs arbitrary: s) (auto intro: R_refl R_trans)

end

lemma life_core: "core s = core s' \<Longrightarrow> life s s'"
  using coord_ok_core [of s s'] registered_core [of s s'] by (intro life_same) (simp_all add: core_def)

interpretation life: step_preorder life
  by unfold_locales (auto intro: life_refl life_trans)

lemma life_quiet: "quiet m \<Longrightarrow> ends_in life m"
  unfolding ends_in_def quiet_def by (metis life_core snd_conv)

lemma life_restate:
  assumes "om_find (co_records s) (record_key r') = Some r"
    and "moves (rv_state r) (rv_state r')" and "rv_terms r' = rv_terms r" and "rv_authority r' = rv_authority r"
  shows "life s (sync_queues_locked r' (put_record r' (count_move (rv_state r) (rv_state r') s)))"
    (is "life s ?s'")
proof -
  have reg: "registered ?s' = registered s" by (simp add: registered_def fun_eq_iff)
  have find: "om_find (co_records ?s') k = (if k = record_key r' then Some r' else om_find (co_records s) k)" for k
    by simp
  have "coord_ok ?s'" if "coord_ok s"
    using that assms(1,2) by (intro coord_ok_restate) (auto dest: moves_terminal)
  moreover have "record_moved v (om_find (co_records ?s') (i, g))" if "om_find (co_records s) (i, g) = Some v" for i g v
    using that assms unfolding find by (auto simp: record_moved_def)
  moreover have "om_find (co_records ?s') (i, g) = None" if "om_find (co_records s) (i, g) = None" for i g
    using that assms(1) unfolding find by auto
  moreover have "born v" if "coord_ok s" "\<not> registered s i g" "om_find (co_records ?s') (i, g) = Some v" for i g v
    using that assms(1) coord_ok_registered [OF that(1), of i g] unfolding find by (auto split: if_splits)
  ultimately show ?thesis unfolding life_def reg by blast
qed

lemma life_remember: "life s (remember_attempt_locked a s)"
  by (rule life_same) (simp_all add: registered_def fun_eq_iff coord_ok_remember)

lemma life_retire:
  assumes old: "om_find (co_records s) k = Some r" and dead: "is_terminal (rv_state r)"
  shows "life s (s\<lparr>co_records := om_erase k (co_records s), co_history_count := co_history_count s - 1\<rparr>)"
    (is "life s ?s'")
proof -
  have reg: "registered ?s' = registered s" by (simp add: registered_def fun_eq_iff)
  have find: "om_find (om_erase k (co_records s)) k' = (if k' = k then None else om_find (co_records s) k')" if "coord_ok s" for k'
    using that by (simp add: coord_ok_def records_ok_def om_find_erase)
  have "record_moved v (om_find (co_records ?s') (i, g))" if "coord_ok s" "om_find (co_records s) (i, g) = Some v" for i g v
    using that old dead by (auto simp: record_moved_def find)
  moreover have "born v" if "coord_ok s" "\<not> registered s i g" "om_find (co_records ?s') (i, g) = Some v" for i g v
    using that coord_ok_registered [OF that(1), of i g] by (auto simp: find split: if_splits)
  moreover have "om_find (co_records ?s') (i, g) = None" if "coord_ok s" "om_find (co_records s) (i, g) = None" for i g
    using that by (simp add: find)
  ultimately show ?thesis
    unfolding life_def reg using coord_ok_retire [OF _ old dead] by blast
qed

lemma sorted_last_ge: "sorted xs \<Longrightarrow> x \<in> set xs \<Longrightarrow> x \<le> last xs"
  by (induction xs) auto

lemma life_succeed:
  assumes new: "rv_id r' = i" "rv_generation r' = g + 1"
    and cur: "om_find (co_current_generation s) i = Some g"
    and dead: "\<And>g v. om_find (co_records s) (i, g) = Some v \<Longrightarrow> is_terminal (rv_state v)"
    and born: "born r'"
  shows "life s (sync_queues_locked r' (register_record_locked r' s))" (is "life s ?s'")
proof -
  have reg: "registered ?s' j h \<longleftrightarrow> registered s j h \<or> (j = i \<and> h = g + 1)" for j h
    using registered_register [of r' s j h] new by (simp add: registered_def)
  have find: "om_find (co_records ?s') k = (if k = (i, g + 1) then Some r' else om_find (co_records s) k)" for k
    using new by (simp add: record_key_def)
  {
    assume ok: "coord_ok s" and left: "generations_left ?s'"
    have gen: "generations_ok s" using ok by (simp add: coord_ok_def)
    have hist: "history_of s i \<noteq> [] \<and> sorted (history_of s i) \<and> last (history_of s i) = g"
      using generations_okD(1,2) [OF gen, of i] cur by (auto simp: history_of_def split: option.splits)
    then have le: "\<forall>h \<in> set (history_of s i). h \<le> g"
      using sorted_last_ge by blast
    have "registered s i g"
      using hist last_in_set [of "history_of s i"] by (auto simp: registered_def history_of_def split: option.splits)
    then have "g \<noteq> - 1" using left reg unfolding generations_left_def by blast
    then have "g < g + 1" by (rule word_less_succ)
    with le have above: "\<forall>h \<in> set (history_of s (rv_id r')). h < rv_generation r'"
      using new by auto
    then have fresh: "\<not> registered s i (g + 1)"
      using new by (auto simp: registered_def history_of_def)
    have "coord_ok ?s'"
      using ok above dead new by (intro coord_ok_register) auto
    moreover have "record_moved v (om_find (co_records ?s') (j, h))" if "om_find (co_records s) (j, h) = Some v" for j h v
      using that coord_ok_registered [OF ok that] fresh unfolding find by (auto simp: record_moved_def)
    moreover have "om_find (co_records ?s') (j, h) = None" if "registered s j h" "om_find (co_records s) (j, h) = None" for j h
      using that fresh unfolding find by auto
    moreover have "born v" if "\<not> registered s j h" "om_find (co_records ?s') (j, h) = Some v" for j h v
      using that born coord_ok_registered [OF ok, of j h] unfolding find by (auto split: if_splits)
    ultimately have "coord_ok ?s' \<and>
      (\<forall>j h v. om_find (co_records s) (j, h) = Some v \<longrightarrow> record_moved v (om_find (co_records ?s') (j, h))) \<and>
      (\<forall>j h. registered s j h \<longrightarrow> om_find (co_records s) (j, h) = None \<longrightarrow> om_find (co_records ?s') (j, h) = None) \<and>
      (\<forall>j h v. \<not> registered s j h \<longrightarrow> om_find (co_records ?s') (j, h) = Some v \<longrightarrow> born v)" by blast
  }
  then show ?thesis unfolding life_def using reg by blast
qed

end
