(* ===== verification/Brf_Admission.thy ===== *)
theory Brf_Admission
  imports Brf_Invariant
begin

text \<open>
  Admission of \<^verbatim>\<open>src/coordinator_admission.cpp\<close>: the binding of the terms to authoritative
  generations, the capacity closure evaluation of one window, and the preemption candidates.

  The lemmas show that a committable assessment closes: at every instant of the window, on every bound
  resource, what the index already accounts for and the requested amount stay below the ceiling the policy
  leaves.
\<close>

record assessment =
  as_outcome :: admission_outcome
  as_deltas :: "capability_delta list"
  as_conflicts :: conflict_set
  as_victims :: "identity list"
  as_victim_generations :: "counter list"
  as_preemption_planned :: bool
  as_reason :: applicability_reason

definition empty_conflicts :: conflict_set where
  "empty_conflicts = \<lparr>cf_entries = [], cf_total_considered = 0, cf_scan_limit_hit = 0, cf_truncated = False\<rparr>"

definition to_report :: "assessment \<Rightarrow> admission_report" where
  "to_report a =
     \<lparr>ar_outcome = as_outcome a, ar_resources = as_deltas a, ar_conflicts = as_conflicts a,
      ar_preemption_plan = as_victims a, ar_preemption_plan_generations = as_victim_generations a,
      ar_preemption_planned = as_preemption_planned a, ar_applicability_reason = as_reason a\<rparr>"

definition commits_as_active :: "timestamp \<Rightarrow> interval \<Rightarrow> bool" where
  "commits_as_active now w \<longleftrightarrow> \<not> now < iv_start w \<and> now < iv_end w"

subsection \<open>Binding\<close>

text \<open>The resource loop of \<^verbatim>\<open>resolve_binding_locked\<close>, the same for named resources and for the
  components of a path.\<close>

fun bind_resources :: "ledger \<Rightarrow> name list \<Rightarrow> (resource_ref list \<times> failure_domain_ref list) result" where
  "bind_resources m [] = Inr ([], [])"
| "bind_resources m (n # ns) =
     (case ledger_find m n of
        None \<Rightarrow> Inl EStaleGeneration
      | Some e \<Rightarrow>
          if le_withdrawn e then Inl EStaleGeneration
          else bindE (bind_resources m ns) (\<lambda>(refs, domains).
            let c = le_capacity e
            in Inr (\<lparr>rr_resource = n, rr_generation = rc_generation c\<rparr> # refs,
                    if rc_failure_domain c \<noteq> []
                    then \<lparr>fr_domain = rc_failure_domain c, fr_generation = rc_failure_domain_generation c\<rparr> # domains
                    else domains)))"

definition canonical_binding ::
  "binding_kind \<Rightarrow> name \<Rightarrow> counter \<Rightarrow> resource_ref list \<times> failure_domain_ref list \<Rightarrow> resolved_binding result" where
  "canonical_binding kind path gen x =
     bindE (canonicalize_resources (fst x)) (\<lambda>refs.
     bindE (canonicalize_failure_domains (snd x)) (\<lambda>domains.
       Inr \<lparr>rb_kind = kind, rb_path = path, rb_path_generation = gen, rb_resources = refs,
            rb_failure_domains = domains\<rparr>))"

definition resolve_binding_locked :: "coordinator \<Rightarrow> reservation_terms \<Rightarrow> resolved_binding result" where
  "resolve_binding_locked s t =
     (if tm_binding_kind t = BkResources
      then bindE (bind_resources (co_ledger s) (tm_resources t)) (canonical_binding BkResources [] 0)
      else (case path_find (co_paths s) (tm_path t) of
          None \<Rightarrow> Inl EStaleGeneration
        | Some e \<Rightarrow>
            if pt_retired e then Inl EStaleGeneration
            else if tm_required_path_generation t \<noteq> 0 \<and> pa_generation (pt_path e) \<noteq> tm_required_path_generation t
            then Inl EStaleGeneration
            else bindE (bind_resources (co_ledger s) (pa_components (pt_path e)))
                   (canonical_binding BkPath (tm_path t) (pa_generation (pt_path e)))))"

subsection \<open>Evaluation\<close>

text \<open>The verdicts the resource loop of \<^verbatim>\<open>assess_locked\<close> accumulates.\<close>

record verdicts =
  vd_short_capacity :: bool
  vd_stale :: bool
  vd_policy_rejected :: bool
  vd_emergency :: bool
  vd_reason :: applicability_reason
  vd_short_resources :: "name list"
  vd_deltas :: "capability_delta list"

definition no_verdicts :: verdicts where
  "no_verdicts = \<lparr>vd_short_capacity = False, vd_stale = False, vd_policy_rejected = False, vd_emergency = False,
     vd_reason = ArCurrent, vd_short_resources = [], vd_deltas = []\<rparr>"

definition blank_delta :: "resource_ref \<Rightarrow> interval \<Rightarrow> capability_delta" where
  "blank_delta ref w =
     \<lparr>cd_resource = rr_resource ref, cd_generation = rr_generation ref, cd_reservable_capacity = 0,
      cd_protected_headroom = 0, cd_committable_ceiling = 0, cd_committed_peak_before = 0,
      cd_committed_peak_after = 0, cd_holds_peak = 0, cd_remaining_after = 0, cd_window = w,
      cd_maintenance_covers = False, cd_overcommit_emergency = False\<rparr>"

definition in_emergency :: "coordinator \<Rightarrow> name \<Rightarrow> bool" where
  "in_emergency s r = (case om_find (co_overcommit s) r of None \<Rightarrow> False | Some o' \<Rightarrow> \<not> os_resolved o')"

definition open_ceiling :: "policy_record \<Rightarrow> reservation_terms \<Rightarrow> resource_capacity \<Rightarrow> bandwidth" where
  "open_ceiling policy t c =
     (let required_headroom = rc_protected_headroom c + pl_policy_headroom policy + tm_headroom_requirement t;
          raw = rc_reservable_capacity c - required_headroom
      in if raw > 0 then raw else 0)"

definition assess_resource ::
  "coordinator \<Rightarrow> reservation_terms \<Rightarrow> policy_record \<Rightarrow> resource_ref \<Rightarrow> verdicts \<Rightarrow> verdicts" where
  "assess_resource s t policy ref v =
     (let delta = blank_delta ref (tm_interval t)
      in case ledger_find (co_ledger s) (rr_resource ref) of
        None \<Rightarrow> v\<lparr>vd_stale := True, vd_reason := ArResourceWithdrawn, vd_deltas := vd_deltas v @ [delta]\<rparr>
      | Some e \<Rightarrow>
        if le_withdrawn e
        then v\<lparr>vd_stale := True, vd_reason := ArResourceWithdrawn, vd_deltas := vd_deltas v @ [delta]\<rparr>
        else if rc_generation (le_capacity e) \<noteq> rr_generation ref
        then v\<lparr>vd_stale := True, vd_reason := ArResourceGenerationChanged, vd_deltas := vd_deltas v @ [delta]\<rparr>
        else
          let c = le_capacity e;
              ceiling = open_ceiling policy t c;
              combined = peak_combined (co_index s) (rr_resource ref) (tm_interval t);
              after = saturating_add_bandwidth combined (tm_amount t);
              remaining = ceiling - after;
              emergency = in_emergency s (rr_resource ref);
              maintenance = maintenance_covers c (tm_interval t) \<noteq> None;
              short = after > ceiling \<and>
                \<not> (pl_allow_overcommit policy \<and> after \<le> ceiling + pl_overcommit_allowance policy);
              delta' = delta\<lparr>cd_reservable_capacity := rc_reservable_capacity c,
                cd_protected_headroom := rc_protected_headroom c, cd_committable_ceiling := ceiling,
                cd_committed_peak_before := peak_committed (co_index s) (rr_resource ref) (tm_interval t),
                cd_holds_peak := peak_holds (co_index s) (rr_resource ref) (tm_interval t),
                cd_committed_peak_after := after, cd_remaining_after := (if remaining > 0 then remaining else 0),
                cd_overcommit_emergency := emergency, cd_maintenance_covers := maintenance\<rparr>
          in v\<lparr>vd_emergency := vd_emergency v \<or> (emergency \<and> \<not> pl_allow_overcommit policy),
               vd_policy_rejected := vd_policy_rejected v \<or> maintenance,
               vd_reason := (if maintenance then ArMaintenanceWindowAdded else vd_reason v),
               vd_short_capacity := vd_short_capacity v \<or> short,
               vd_short_resources := (if short then vd_short_resources v @ [rr_resource ref] else vd_short_resources v),
               vd_deltas := vd_deltas v @ [delta']\<rparr>)"

definition conflict_of :: "index_entry \<Rightarrow> conflict_entry" where
  "conflict_of e =
     \<lparr>ce_id = ie_id e, ce_generation = ie_holder_generation e, ce_resource = ie_resource e,
      ce_interval = ie_interval e, ce_amount = ie_amount e, ce_guarantee = ie_guarantee e,
      ce_state = ie_state e, ce_is_hold = (ie_kind e = HkHold)\<rparr>"

definition add_conflicts :: "coordinator \<Rightarrow> interval \<Rightarrow> nat \<Rightarrow> name \<Rightarrow> conflict_set \<Rightarrow> conflict_set" where
  "add_conflicts s w max_conflicts r cs =
     (case overlapping (co_index s) r w max_conflicts (cfg_index_scan_limit (co_config s)) of
        (found, considered, truncated) \<Rightarrow>
          cs\<lparr>cf_entries := cf_entries cs @ map conflict_of found,
             cf_total_considered := cf_total_considered cs + considered,
             cf_truncated := cf_truncated cs \<or> truncated,
             cf_scan_limit_hit := (if truncated then cf_scan_limit_hit cs + 1 else cf_scan_limit_hit cs)\<rparr>)"

definition conflict_key :: "conflict_entry \<Rightarrow> identity \<times> counter \<times> name" where
  "conflict_key c = (ce_id c, ce_generation c, ce_resource c)"

definition conflicts_locked :: "coordinator \<Rightarrow> interval \<Rightarrow> nat \<Rightarrow> name list \<Rightarrow> conflict_set" where
  "conflicts_locked s w max_conflicts short =
     (let cs = fold (add_conflicts s w max_conflicts) short empty_conflicts;
          entries = sort_by (\<lambda>a b. conflict_key a < conflict_key b) (cf_entries cs)
      in if length entries > max_conflicts
         then cs\<lparr>cf_entries := take max_conflicts entries, cf_truncated := True\<rparr>
         else cs\<lparr>cf_entries := entries\<rparr>)"

text \<open>The path check that precedes the resource loop.\<close>

definition stale_path :: "coordinator \<Rightarrow> reservation_terms \<Rightarrow> resolved_binding \<Rightarrow> bool" where
  "stale_path s t b \<longleftrightarrow> tm_binding_kind t = BkPath \<and>
     (case path_find (co_paths s) (tm_path t) of
        None \<Rightarrow> True
      | Some e \<Rightarrow> pt_retired e \<or> pa_generation (pt_path e) \<noteq> rb_path_generation b)"

definition assessed :: "admission_outcome \<Rightarrow> capability_delta list \<Rightarrow> conflict_set \<Rightarrow> applicability_reason \<Rightarrow> assessment" where
  "assessed o' deltas conflicts reason =
     \<lparr>as_outcome = o', as_deltas = deltas, as_conflicts = conflicts, as_victims = [],
      as_victim_generations = [], as_preemption_planned = False, as_reason = reason\<rparr>"

definition assess_locked ::
  "coordinator \<Rightarrow> reservation_terms \<Rightarrow> resolved_binding \<Rightarrow> policy_record \<Rightarrow> nat \<Rightarrow> assessment" where
  "assess_locked s t b policy conflict_bound =
     (let max_conflicts = (if conflict_bound = 0 then unat (pl_max_conflict_set policy) else conflict_bound);
          v = fold (assess_resource s t policy) (rb_resources b) no_verdicts;
          deltas = sort_by (\<lambda>x y. cd_resource x < cd_resource y) (vd_deltas v)
      in if stale_path s t b then assessed AoStalePathAuthority deltas empty_conflicts ArPathGenerationChanged
         else if vd_stale v then assessed AoStaleResource deltas empty_conflicts (vd_reason v)
         else if vd_policy_rejected v then assessed AoPolicyRejected deltas empty_conflicts (vd_reason v)
         else if vd_emergency v then assessed AoEmergencyOvercommit deltas empty_conflicts ArCurrent
         else if vd_short_capacity v
         then assessed AoInsufficientCapacity deltas
                (conflicts_locked s (tm_interval t) max_conflicts (vd_short_resources v)) ArCurrent
         else assessed AoCommittable deltas empty_conflicts ArCurrent)"

subsection \<open>Preemption candidates\<close>

definition preemption_key :: "index_entry \<Rightarrow> guarantee_class \<times> identity \<times> u64" where
  "preemption_key e = (ie_guarantee e, ie_id e, ie_holder_generation e)"

definition preemption_candidates_locked ::
  "coordinator \<Rightarrow> name \<Rightarrow> interval \<Rightarrow> guarantee_class \<Rightarrow> policy_record \<Rightarrow> identity \<Rightarrow> index_entry list" where
  "preemption_candidates_locked s r w requester policy self =
     (let limit = cfg_index_scan_limit (co_config s);
          (found, _, _) = overlapping (co_index s) r w limit limit;
          eligible = filter (\<lambda>e. ie_kind e = HkReservation \<and> ie_id e \<noteq> self \<and> ie_guarantee e < requester \<and>
            \<not> (ie_guarantee e = GcGuaranteed \<and> \<not> pl_allow_recall_guaranteed policy) \<and>
            \<not> (ie_guarantee e = GcProtected \<and> \<not> pl_allow_recall_protected policy)) found
      in unique_by (\<lambda>a b. ie_id a = ie_id b \<and> ie_holder_generation a = ie_holder_generation b)
           (sort_by (\<lambda>a b. preemption_key a < preemption_key b) eligible))"

subsection \<open>Closure\<close>

text \<open>What the evaluation is meant to establish for one bound resource, instant by instant.\<close>

definition admission_limit :: "policy_record \<Rightarrow> reservation_terms \<Rightarrow> resource_capacity \<Rightarrow> bandwidth" where
  "admission_limit policy t c =
     max 0 (rc_reservable_capacity c - rc_protected_headroom c - pl_policy_headroom policy - tm_headroom_requirement t) +
     (if pl_allow_overcommit policy then pl_overcommit_allowance policy else 0)"

definition accounted_at :: "coordinator \<Rightarrow> name \<Rightarrow> timestamp \<Rightarrow> bandwidth" where
  "accounted_at s r x = load (spec_loads (index_abs (co_index s)) r (\<lambda>_. True)) x"

definition resource_closes :: "coordinator \<Rightarrow> reservation_terms \<Rightarrow> policy_record \<Rightarrow> resource_ref \<Rightarrow> bool" where
  "resource_closes s t policy ref \<longleftrightarrow>
     (\<exists>e. ledger_find (co_ledger s) (rr_resource ref) = Some e \<and> \<not> le_withdrawn e \<and>
        rc_generation (le_capacity e) = rr_generation ref \<and>
        (\<forall>w \<in> set (rc_maintenance (le_capacity e)). \<not> overlaps (mw_interval w) (tm_interval t)) \<and>
        (in_emergency s (rr_resource ref) \<longrightarrow> pl_allow_overcommit policy) \<and>
        (\<forall>x \<in> window_points (tm_interval t).
           accounted_at s (rr_resource ref) x + tm_amount t \<le> admission_limit policy t (le_capacity e)))"

definition limits_below_saturation :: "coordinator \<Rightarrow> reservation_terms \<Rightarrow> policy_record \<Rightarrow> resolved_binding \<Rightarrow> bool" where
  "limits_below_saturation s t policy b \<longleftrightarrow>
     (\<forall>ref \<in> set (rb_resources b). \<forall>e. ledger_find (co_ledger s) (rr_resource ref) = Some e \<longrightarrow>
        admission_limit policy t (le_capacity e) < kMaxBandwidthBps)"

lemma maintenance_free:
  "maintenance_covers c w = None \<longleftrightarrow> (\<forall>m \<in> set (rc_maintenance c). \<not> overlaps (mw_interval m) w)"
  by (auto simp: maintenance_covers_def find_None_iff)

lemma admission_limit_eq:
  "admission_limit policy t c = open_ceiling policy t c + (if pl_allow_overcommit policy then pl_overcommit_allowance policy else 0)"
  by (simp add: admission_limit_def open_ceiling_def Let_def)

lemma open_ceiling_nonneg: "0 \<le> open_ceiling policy t c"
  by (simp add: open_ceiling_def Let_def)

text \<open>The verdict of the loop on one resource.\<close>

definition resource_passes :: "coordinator \<Rightarrow> reservation_terms \<Rightarrow> policy_record \<Rightarrow> resource_ref \<Rightarrow> bool" where
  "resource_passes s t policy ref \<longleftrightarrow>
     (\<exists>e. ledger_find (co_ledger s) (rr_resource ref) = Some e \<and> \<not> le_withdrawn e \<and>
        rc_generation (le_capacity e) = rr_generation ref \<and>
        maintenance_covers (le_capacity e) (tm_interval t) = None \<and>
        (in_emergency s (rr_resource ref) \<longrightarrow> pl_allow_overcommit policy) \<and>
        saturating_add_bandwidth (peak_combined (co_index s) (rr_resource ref) (tm_interval t)) (tm_amount t)
          \<le> admission_limit policy t (le_capacity e))"

definition clean :: "verdicts \<Rightarrow> bool" where
  "clean v \<longleftrightarrow> \<not> vd_stale v \<and> \<not> vd_policy_rejected v \<and> \<not> vd_emergency v \<and> \<not> vd_short_capacity v"

lemma assess_resource_clean:
  assumes "0 \<le> pl_overcommit_allowance policy"
  shows "clean (assess_resource s t policy ref v) \<longleftrightarrow> clean v \<and> resource_passes s t policy ref"
proof (cases "ledger_find (co_ledger s) (rr_resource ref)")
  case None
  then show ?thesis by (simp add: assess_resource_def clean_def resource_passes_def)
next
  case (Some e)
  let ?after = "saturating_add_bandwidth (peak_combined (co_index s) (rr_resource ref) (tm_interval t)) (tm_amount t)"
  let ?ceiling = "open_ceiling policy t (le_capacity e)"
  have "\<not> (?after > ?ceiling \<and> \<not> (pl_allow_overcommit policy \<and> ?after \<le> ?ceiling + pl_overcommit_allowance policy))
    \<longleftrightarrow> ?after \<le> admission_limit policy t (le_capacity e)"
    using assms by (auto simp: admission_limit_eq)
  with Some show ?thesis
    by (auto simp: assess_resource_def Let_def clean_def resource_passes_def)
qed

lemma assess_fold_clean:
  assumes "0 \<le> pl_overcommit_allowance policy"
  shows "clean (fold (assess_resource s t policy) refs v) \<longleftrightarrow> clean v \<and> (\<forall>ref \<in> set refs. resource_passes s t policy ref)"
  by (induction refs arbitrary: v) (auto simp: assess_resource_clean [OF assms])

lemma assess_committable:
  assumes "0 \<le> pl_overcommit_allowance policy"
  shows "as_outcome (assess_locked s t b policy n) = AoCommittable \<longleftrightarrow>
    \<not> stale_path s t b \<and> (\<forall>ref \<in> set (rb_resources b). resource_passes s t policy ref)"
proof -
  let ?v = "fold (assess_resource s t policy) (rb_resources b) no_verdicts"
  have "as_outcome (assess_locked s t b policy n) = AoCommittable \<longleftrightarrow> \<not> stale_path s t b \<and> clean ?v"
    by (simp add: assess_locked_def Let_def assessed_def clean_def)
  moreover have "clean no_verdicts" by (simp add: clean_def no_verdicts_def)
  ultimately show ?thesis using assess_fold_clean [OF assms, of s t "rb_resources b" no_verdicts] by blast
qed

lemma saturating_add_le:
  "0 \<le> b \<Longrightarrow> saturating_add_bandwidth a b \<le> c \<longleftrightarrow> a + b \<le> c \<or> (kMaxBandwidthBps \<le> c \<and> kMaxBandwidthBps < a + b)"
  by (auto simp: saturating_add_bandwidth_def)

lemma resource_passes_closes:
  assumes ok: "ci_ok (co_index s)" and amount: "0 \<le> tm_amount t" and window: "window_points (tm_interval t) \<noteq> {}"
    and limit: "\<And>e. ledger_find (co_ledger s) (rr_resource ref) = Some e \<Longrightarrow>
      admission_limit policy t (le_capacity e) < kMaxBandwidthBps"
  shows "resource_passes s t policy ref \<longleftrightarrow> resource_closes s t policy ref"
proof -
  let ?r = "rr_resource ref" and ?w = "tm_interval t"
  let ?es = "spec_loads (index_abs (co_index s)) ?r (\<lambda>_. True)"
  have peak: "peak_combined (co_index s) ?r ?w = spec_peak ?es ?w" by (rule queries_exact(3) [OF ok])
  have "spec_peak ?es ?w + tm_amount t \<le> c \<longleftrightarrow> (\<forall>x \<in> window_points ?w. load ?es x + tm_amount t \<le> c)" for c
    using window by (auto simp: spec_peak_def le_diff_eq [symmetric] Max_le_iff)
  then have "saturating_add_bandwidth (peak_combined (co_index s) ?r ?w) (tm_amount t) \<le> admission_limit policy t (le_capacity e)
      \<longleftrightarrow> (\<forall>x \<in> window_points ?w. accounted_at s ?r x + tm_amount t \<le> admission_limit policy t (le_capacity e))"
    if "ledger_find (co_ledger s) ?r = Some e" for e
    using limit [OF that] amount by (simp add: saturating_add_le peak accounted_at_def)
  then show ?thesis
    unfolding resource_passes_def resource_closes_def maintenance_free by blast
qed

text \<open>C6: Capacity closure. When no admission limit reaches the largest representable bandwidth, an evaluation is
  COMMITTABLE exactly when the path authority is current and every bound resource is current, free of
  maintenance in the window, not in an unresolved emergency (unless the policy overcommits), and at
  every instant of the window what committed reservations and holds already take, plus the requested amount,
  stays within the ceiling left by the protected, policy and requested headroom and the policy's
  allowance.
\<close>

theorem admission_closure:
  assumes "ci_ok (co_index s)" and "validate_terms t = Inr ()"
    and "0 \<le> pl_overcommit_allowance policy" and "limits_below_saturation s t policy b"
  shows "as_outcome (assess_locked s t b policy bound) = AoCommittable \<longleftrightarrow>
    \<not> stale_path s t b \<and> (\<forall>ref \<in> set (rb_resources b). resource_closes s t policy ref)"
proof -
  from assms(2) have amount: "0 \<le> tm_amount t" and "interval_ok (tm_interval t)"
    by (simp_all add: validate_terms_ok terms_ok_def)
  then have "iv_start (tm_interval t) \<in> window_points (tm_interval t)"
    by (simp add: window_points_def contains_ts_def on_timeline_def interval_ok_def)
  then have window: "window_points (tm_interval t) \<noteq> {}" by blast
  have "resource_passes s t policy ref \<longleftrightarrow> resource_closes s t policy ref" if "ref \<in> set (rb_resources b)" for ref
    using assms(1) amount window that assms(4)
    by (intro resource_passes_closes) (auto simp: limits_below_saturation_def)
  then show ?thesis unfolding assess_committable [OF assms(3)] by blast
qed

definition sample_config :: coordinator_config where
  "sample_config = \<lparr>cfg_max_live_reservations = 8, cfg_max_history_records = 8, cfg_max_attempts = 8,
     cfg_index_scan_limit = 16, cfg_enable_preemption = True, cfg_boot_identity = 9\<rparr>"

text \<open>A coordinator in epoch 1 with one resource of the given capacity and no reservation.\<close>

definition sample_coordinator :: "bandwidth \<Rightarrow> coordinator" where
  "sample_coordinator bw = (fresh_coordinator sample_config 5 [] [] (empty_store sample_options))
     \<lparr>co_epoch := 1, co_boot := 9,
      co_ledger := [(''link'', \<lparr>le_capacity = sample_capacity 1 bw, le_snapshot = 1, le_ingested_at = 0,
        le_withdrawn = False, le_withdrawn_at = 0, le_prior_generations = []\<rparr>)]\<rparr>"

definition sample_binding :: resolved_binding where
  "sample_binding = \<lparr>rb_kind = BkResources, rb_path = [], rb_path_generation = 0,
     rb_resources = [\<lparr>rr_resource = ''link'', rr_generation = 1\<rparr>], rb_failure_domains = []\<rparr>"

lemmas sample_defs = sample_coordinator_def fresh_coordinator_def sample_binding_def sample_config_def
  sample_capacity_def sample_terms_def

lemma sample_ledger: "ledger_find (co_ledger (sample_coordinator bw)) ''link'' =
    Some \<lparr>le_capacity = sample_capacity 1 bw, le_snapshot = 1, le_ingested_at = 0, le_withdrawn = False,
      le_withdrawn_at = 0, le_prior_generations = []\<rparr>"
  by (simp add: sample_coordinator_def ledger_find_def om_find_def)

lemma sample_limit:
  "admission_limit (strict_default ''p'') (sample_terms w a) (sample_capacity 1 bw) = (if bw > 0 then bw else 0)"
  by (simp add: admission_limit_def strict_default_def sample_capacity_def sample_terms_def)

theorem admission_closure_witness:
  "as_outcome (assess_locked (sample_coordinator 10) (sample_terms (mk_iv 10 20) 5) sample_binding
     (strict_default ''p'') 0) = AoCommittable"
proof -
  let ?s = "sample_coordinator 10" and ?t = "sample_terms (mk_iv 10 20) 5"
  have "co_index ?s = ci_empty" by (simp add: sample_coordinator_def fresh_coordinator_def)
  then have ok: "ci_ok (co_index ?s)" and empty: "accounted_at ?s r x = 0" for r x
    by (simp_all add: ci_empty_ok accounted_at_def spec_loads_def)
  have "validate_terms ?t = Inr ()" by (simp add: validate_terms_ok sample_terms_ok)
  moreover have "0 \<le> pl_overcommit_allowance (strict_default ''p'')" by (simp add: strict_default_def)
  moreover have "limits_below_saturation ?s ?t (strict_default ''p'') sample_binding"
    by (simp add: limits_below_saturation_def sample_binding_def sample_ledger sample_limit kMaxBandwidthBps_def)
  moreover have "\<not> stale_path ?s ?t sample_binding" by (simp add: stale_path_def sample_terms_def)
  moreover have "resource_closes ?s ?t (strict_default ''p'') \<lparr>rr_resource = ''link'', rr_generation = 1\<rparr>"
    using sample_limit [of "mk_iv 10 20" 5 10]
    by (simp add: resource_closes_def sample_ledger empty)
      (simp add: sample_capacity_def sample_terms_def in_emergency_def sample_coordinator_def fresh_coordinator_def)
  ultimately show ?thesis
    using admission_closure [of ?s ?t "strict_default ''p''" sample_binding 0] ok by (simp add: sample_binding_def)
qed

text \<open>C35: Where the limit does reach the largest representable bandwidth the closure is lost: the saturating sum
  cannot exceed the ceiling any more, so a current resource without maintenance or emergency accepts a
  request whatever the index already accounts for.
\<close>

theorem saturated_limit_admits:
  assumes "0 \<le> pl_overcommit_allowance policy" and "rb_resources b = [ref]" and "\<not> stale_path s t b"
    and "ledger_find (co_ledger s) (rr_resource ref) = Some e" and "ledger_is_current (co_ledger s) ref"
    and "maintenance_covers (le_capacity e) (tm_interval t) = None" and "\<not> in_emergency s (rr_resource ref)"
    and "kMaxBandwidthBps \<le> admission_limit policy t (le_capacity e)"
  shows "as_outcome (assess_locked (s\<lparr>co_index := ix\<rparr>) t b policy n) = AoCommittable"
proof -
  have "saturating_add_bandwidth x y \<le> kMaxBandwidthBps" for x y by (simp add: saturating_add_bandwidth_def)
  then have "saturating_add_bandwidth x y \<le> admission_limit policy t (le_capacity e)" for x y
    using assms(8) order_trans by blast
  then have "resource_passes (s\<lparr>co_index := ix\<rparr>) t policy ref"
    using assms(4-7) by (simp add: resource_passes_def ledger_is_current_def in_emergency_def)
  moreover have "\<not> stale_path (s\<lparr>co_index := ix\<rparr>) t b" using assms(3) by (simp add: stale_path_def)
  ultimately show ?thesis using assms(2) by (simp add: assess_committable [OF assms(1)])
qed

theorem saturated_limit_witness:
  "as_outcome (assess_locked ((sample_coordinator kMaxBandwidthBps)\<lparr>co_index := snd (ci_insert
       (sample_entry\<lparr>ie_amount := kMaxBandwidthBps\<rparr>) ci_empty)\<rparr>)
     (sample_terms (mk_iv 10 20) kMaxBandwidthBps) sample_binding (strict_default ''p'') 0) = AoCommittable"
proof (rule saturated_limit_admits)
  show "rb_resources sample_binding = [\<lparr>rr_resource = ''link'', rr_generation = 1\<rparr>]"
    by (simp add: sample_binding_def)
  show "ledger_find (co_ledger (sample_coordinator kMaxBandwidthBps)) (rr_resource \<lparr>rr_resource = ''link'', rr_generation = 1\<rparr>) =
    Some \<lparr>le_capacity = sample_capacity 1 kMaxBandwidthBps, le_snapshot = 1, le_ingested_at = 0, le_withdrawn = False,
      le_withdrawn_at = 0, le_prior_generations = []\<rparr>"
    by (simp add: sample_ledger)
  show "ledger_is_current (co_ledger (sample_coordinator kMaxBandwidthBps)) \<lparr>rr_resource = ''link'', rr_generation = 1\<rparr>"
    by (simp add: ledger_is_current_def sample_ledger) (simp add: sample_capacity_def)
  show "\<not> stale_path (sample_coordinator kMaxBandwidthBps) (sample_terms (mk_iv 10 20) kMaxBandwidthBps) sample_binding"
    by (simp add: stale_path_def sample_terms_def)
qed (simp_all add: sample_limit kMaxBandwidthBps_def, simp_all add: strict_default_def sample_capacity_def
    maintenance_covers_def in_emergency_def sample_coordinator_def fresh_coordinator_def)

end
