(* ===== verification/Brf_Recovery.thy ===== *)
theory Brf_Recovery
  imports Brf_Invariant
begin

text \<open>
  Persistence of the coordinator (\<^verbatim>\<open>src/coordinator_core.cpp\<close>): the snapshot of the durable state,
  its reload, the replay of one journal record, and compaction.
\<close>

subsection \<open>Snapshots\<close>

text \<open>
  The entries of the three authority tables are the entries of the snapshot, field by field; the instant
  of a claimant registration is not kept. Only the fences filed under a publisher boot are written.
\<close>

definition snapshot_state_locked :: "coordinator \<Rightarrow> snapshot_state" where
  "snapshot_state_locked s =
     \<lparr>ss_epoch = co_epoch s, ss_coordinator_boot = co_boot s, ss_sequence = st_last_sequence (co_store s),
      ss_capacity = map snd (co_ledger s), ss_paths = map snd (co_paths s), ss_policies = map snd (co_policies s),
      ss_reservations = map snd (co_records s), ss_series = map snd (co_series_records s),
      ss_edges = co_edges s, ss_attempts = map snd (co_attempts s), ss_fences = map snd (co_fenced_boots s),
      ss_claimants = map (\<lambda>(c, g). \<lparr>cm_claimant = c, cm_generation = g, cm_at = 0\<rparr>) (co_claimants s),
      ss_overcommits = map (\<lambda>(_, o'). os_mutation o') (co_overcommit s), ss_retired = map snd (co_retired s)\<rparr>"

definition inject_capacity :: "ledger_entry \<Rightarrow> coordinator \<times> timestamp \<Rightarrow> coordinator \<times> timestamp" where
  "inject_capacity e acc =
     (case acc of (s, best) \<Rightarrow>
        let s1 = s\<lparr>co_ledger := ledger_inject e (co_ledger s)\<rparr>
        in if \<not> le_ingested_at e < best
           then (s1\<lparr>co_last_capacity_snapshot := le_snapshot e, co_last_capacity_generation := 0\<rparr>, le_ingested_at e)
           else (s1, best))"

definition inject_path :: "path_entry \<Rightarrow> coordinator \<Rightarrow> coordinator" where
  "inject_path e s = s\<lparr>co_paths := path_inject e (co_paths s), co_last_path_snapshot := pt_snapshot e\<rparr>"

definition inject_policy :: "policy_entry \<Rightarrow> coordinator \<Rightarrow> coordinator" where
  "inject_policy e s = s\<lparr>co_policies := policy_inject e (co_policies s)\<rparr>"

definition register_series :: "reservation_series \<Rightarrow> coordinator \<Rightarrow> coordinator" where
  "register_series v s =
     (let s1 = s\<lparr>co_series_records := om_put (sr_id v, sr_generation v) v (co_series_records s)\<rparr>
      in if (case om_find (co_current_series s) (sr_id v) of None \<Rightarrow> True | Some g \<Rightarrow> sr_generation v > g)
         then s1\<lparr>co_current_series := om_put (sr_id v) (sr_generation v) (co_current_series s1)\<rparr> else s1)"

definition enter_fence :: "fence_mutation \<Rightarrow> coordinator \<Rightarrow> coordinator" where
  "enter_fence f s =
     (let s1 = (if fm_claimant_wide f \<and> \<not> is_nil (fm_claimant f)
                then s\<lparr>co_fenced_claimants := om_put (fm_claimant f) f (co_fenced_claimants s)\<rparr> else s)
      in if \<not> is_nil (fm_boot f) then s1\<lparr>co_fenced_boots := om_put (fm_boot f) f (co_fenced_boots s1)\<rparr> else s1)"

definition enter_claimant :: "claimant_mutation \<Rightarrow> coordinator \<Rightarrow> coordinator" where
  "enter_claimant c s =
     (if (case om_find (co_claimants s) (cm_claimant c) of None \<Rightarrow> True | Some g \<Rightarrow> cm_generation c > g)
      then s\<lparr>co_claimants := om_put (cm_claimant c) (cm_generation c) (co_claimants s)\<rparr> else s)"

definition enter_overcommit :: "overcommit_mutation \<Rightarrow> coordinator \<Rightarrow> coordinator" where
  "enter_overcommit m s =
     s\<lparr>co_overcommit := om_put (oc_resource m) \<lparr>os_mutation = m, os_resolved = oc_resolved m\<rparr> (co_overcommit s)\<rparr>"

definition reload_record :: "reservation_record \<Rightarrow> coordinator \<Rightarrow> coordinator" where
  "reload_record r s = sync_queues_locked r (register_record_locked r s)"

definition reload_retired :: "reservation_record \<Rightarrow> coordinator \<Rightarrow> coordinator" where
  "reload_retired r s = register_record_locked r (s\<lparr>co_retired := om_put (rv_id r) r (co_retired s)\<rparr>)"

definition apply_snapshot_locked :: "snapshot_state \<Rightarrow> coordinator \<Rightarrow> coordinator" where
  "apply_snapshot_locked v s =
     (let s0 = s\<lparr>co_ledger := [], co_paths := [], co_policies := []\<rparr>;
          s1 = fst (fold inject_capacity (ss_capacity v) (s0, 0));
          s2 = fold inject_policy (ss_policies v) (fold inject_path (ss_paths v) s1);
          s3 = fold reload_record (ss_reservations v) (s2\<lparr>co_epoch := ss_epoch v\<rparr>);
          s4 = (fold register_series (ss_series v) s3)\<lparr>co_edges := ss_edges v\<rparr>;
          s5 = fold remember_attempt_locked (ss_attempts v) s4;
          s6 = fold enter_claimant (ss_claimants v) (fold enter_fence (ss_fences v) s5);
          s7 = fold enter_overcommit (ss_overcommits v) s6
      in fold reload_retired (ss_retired v) s7)"

definition compact_locked :: "unit coord_op" where
  "compact_locked s =
     (case store_write_snapshot (next_io s) (enc_snapshot (snapshot_state_locked s)) (co_store s) of
        (Inl e, st) \<Rightarrow> (Inl e, s\<lparr>co_io := tl (co_io s), co_store := st\<rparr>)
      | (Inr _, st) \<Rightarrow>
          let s1 = s\<lparr>co_io := tl (co_io s), co_store := st\<rparr>
          in (case store_rotate_journal (next_io s1) (co_store s1) of
                (Inl e, st2) \<Rightarrow> (Inl e, s1\<lparr>co_io := tl (co_io s1), co_store := st2\<rparr>)
              | (Inr _, st2) \<Rightarrow>
                  (Inr (), s1\<lparr>co_io := tl (co_io s1), co_store := st2,
                    co_stats := (co_stats s1)\<lparr>cst_snapshot_sequence := st_snapshot_sequence st2\<rparr>\<rparr>)))"

subsection \<open>Replay\<close>

definition on_ledger :: "(ledger, error_code, 'a) op \<Rightarrow> 'a coord_op" where
  "on_ledger m s = (case m (co_ledger s) of (r, l) \<Rightarrow> (r, s\<lparr>co_ledger := l\<rparr>))"

definition on_paths :: "(path_table, error_code, 'a) op \<Rightarrow> 'a coord_op" where
  "on_paths m s = (case m (co_paths s) of (r, p) \<Rightarrow> (r, s\<lparr>co_paths := p\<rparr>))"

definition on_policies :: "(policy_registry, error_code, 'a) op \<Rightarrow> 'a coord_op" where
  "on_policies m s = (case m (co_policies s) of (r, p) \<Rightarrow> (r, s\<lparr>co_policies := p\<rparr>))"

definition replay_withdraw :: "timestamp \<Rightarrow> name \<Rightarrow> unit coord_op" where
  "replay_withdraw at n s =
     (case on_ledger (ledger_withdraw n at) s of
        (Inl e, s1) \<Rightarrow> if e \<noteq> ENotFound then (Inl e, s1) else (Inr (), s1)
      | (Inr _, s1) \<Rightarrow> (Inr (), s1))"

text \<open>\<^verbatim>\<open>set_state_locked\<close> on a record, followed by \<^verbatim>\<open>sync_queues_locked\<close>.\<close>

definition restate ::
  "reservation_record \<Rightarrow> reservation_state \<Rightarrow> timestamp \<Rightarrow> string \<Rightarrow> provenance \<Rightarrow> coordinator \<Rightarrow> coordinator" where
  "restate r st at reason pv s = sync_queues_locked (stated st at reason pv r) (set_state_locked r st at reason pv s)"

definition replay_state :: "state_mutation \<Rightarrow> unit coord_op" where
  "replay_state m s =
     (case find_record_locked s (sm_id m) (sm_generation m) of
        None \<Rightarrow> (Inl ECorrupt, s)
      | Some r \<Rightarrow> (Inr (), restate r (sm_to_state m) (sm_at m) (sm_reason m) (sm_provenance m) s))"

definition replay_attempt :: "attempt_mutation option \<Rightarrow> coordinator \<Rightarrow> coordinator" where
  "replay_attempt a s = (case a of None \<Rightarrow> s | Some x \<Rightarrow> remember_attempt_locked x s)"

definition replay_mutation :: "reservation_mutation \<Rightarrow> unit coord_op" where
  "replay_mutation m s =
     andThen
       (if mu_supersede_record m
        then (\<lambda>s. case find_record_locked s (rv_predecessor (mu_record m)) (rv_predecessor_generation (mu_record m)) of
                None \<Rightarrow> (Inl ECorrupt, s)
              | Some p \<Rightarrow>
                  (Inr (), restate p RsSuperseded (rv_committed_at (mu_record m)) ''superseded by a later generation''
                             (rv_last_provenance p) s))
        else ret ())
       (\<lambda>_ s.
          let s1 = (case mu_edge m of None \<Rightarrow> s | Some e \<Rightarrow> s\<lparr>co_edges := co_edges s @ [e]\<rparr>);
              s2 = fold reload_record (mu_record m # mu_members m) s1;
              s3 = (case mu_series m of None \<Rightarrow> s2 | Some v \<Rightarrow> register_series v s2)
          in andThen (each replay_state (mu_companions m))
               (\<lambda>_ s. (Inr (), replay_attempt (mu_attempt m) s)) s3) s"

definition replay_retire :: "reservation_key \<Rightarrow> coordinator \<Rightarrow> coordinator" where
  "replay_retire k s =
     (case om_find (co_records s) k of
        None \<Rightarrow> s
      | Some r \<Rightarrow> s\<lparr>co_retired := om_put (fst k) r (co_retired s), co_history_count := co_history_count s - 1,
                    co_records := om_erase k (co_records s)\<rparr>)"

fun apply_replay_locked :: "durable_record \<Rightarrow> unit coord_op" where
  "apply_replay_locked (DrFabricBoot m) s =
     (Inr (), if em_epoch m > co_epoch s then s\<lparr>co_epoch := em_epoch m\<rparr> else s)"
| "apply_replay_locked (DrCapacitySnapshot m) s =
     andThen (each (\<lambda>c. andThen (on_ledger (ledger_apply (cs_id (ca_snapshot m)) (cs_ingested_at (ca_snapshot m)) c))
                          (\<lambda>_. ret ())) (cs_resources (ca_snapshot m)))
       (\<lambda>_. andThen (each (replay_withdraw (cs_ingested_at (ca_snapshot m))) (ca_withdrawals m))
         (\<lambda>_. modify (\<lambda>s. s\<lparr>co_last_capacity_snapshot := cs_id (ca_snapshot m),
                            co_last_capacity_generation := cs_generation (ca_snapshot m)\<rparr>))) s"
| "apply_replay_locked (DrPathSnapshot v) s =
     andThen (each (\<lambda>p. andThen (on_paths (path_apply (ps_id v) (ps_ingested_at v) p)) (\<lambda>_. ret ())) (ps_paths v))
       (\<lambda>_. modify (\<lambda>s. s\<lparr>co_last_path_snapshot := ps_id v, co_last_path_generation := ps_generation v\<rparr>)) s"
| "apply_replay_locked (DrPolicyRecord p) s = andThen (on_policies (policy_apply p)) (\<lambda>_. ret ()) s"
| "apply_replay_locked (DrReservationCommit m) s = replay_mutation m s"
| "apply_replay_locked (DrReservationAmend m) s = replay_mutation m s"
| "apply_replay_locked (DrReservationSeries m) s = replay_mutation m s"
| "apply_replay_locked (DrReservationState m) s =
     (case find_record_locked s (sm_id m) (sm_generation m) of
        None \<Rightarrow> (Inl ECorrupt, s)
      | Some r \<Rightarrow>
          let r1 = (if sm_recall_effective_at m > 0 then r\<lparr>rv_recall_effective_at := sm_recall_effective_at m\<rparr> else r);
              s1 = restate r1 (sm_to_state m) (sm_at m) (sm_reason m) (sm_provenance m) s
          in (Inr (), replay_attempt (sm_attempt m) s1))"
| "apply_replay_locked (DrReservationApplicability m) s =
     (case find_record_locked s (am_id m) (am_generation m) of
        None \<Rightarrow> (Inl ECorrupt, s)
      | Some r \<Rightarrow>
          (Inr (), put_record (r\<lparr>rv_applicability := am_applicability m, rv_applicability_reason := am_reason m,
                                 rv_state_changed_at := am_at m\<rparr>) s))"
| "apply_replay_locked (DrAttemptOutcome a) s = (Inr (), remember_attempt_locked a s)"
| "apply_replay_locked (DrFence f) s = (Inr (), enter_fence f s)"
| "apply_replay_locked (DrClaimantRegistration c) s = (Inr (), enter_claimant c s)"
| "apply_replay_locked (DrOvercommit m) s = (Inr (), enter_overcommit m s)"
| "apply_replay_locked (DrRetire m) s = (Inr (), fold replay_retire (zip (rt_ids m) (rt_generations m)) s)"

end
