(* ===== verification/Brf_Lifecycle.thy ===== *)
theory Brf_Lifecycle
  imports Brf_Admission Brf_Recovery
begin

text \<open>
  The lifecycle of \<^verbatim>\<open>src/coordinator_lifecycle.cpp\<close> (transitions, time reconciliation, retirement
  of history, the degraded capacity state, applicability and revalidation, release, recall, revocation),
  the overcommit resolution of \<^verbatim>\<open>src/coordinator_overcommit.cpp\<close> and the boot sequence of
  \<^verbatim>\<open>src/coordinator_core.cpp\<close>.
\<close>

record lifecycle_result =
  lr_record :: "reservation_record option"
  lr_replayed :: bool
  lr_transitions :: u64

definition blank_provenance :: provenance where
  "blank_provenance = \<lparr>pv_actor = [], pv_publisher = 0, pv_publisher_boot = 0, pv_session = 0, pv_attempt = 0,
     pv_fabric_epoch = 0, pv_coordinator_boot = 0, pv_recorded_at = 0, pv_sequence = 0, pv_reason = []\<rparr>"

subsection \<open>Transitions\<close>

definition state_fingerprint :: "reservation_record \<Rightarrow> reservation_state \<Rightarrow> identity" where
  "state_fingerprint r target =
     fingerprint128 (text_bytes (''state|'' @ to_hex (rv_id r) @ ''|'' @ to_decimal (rv_generation r) @ ''|'' @
       to_decimal (of_nat (enum_index reservation_state_values target))))"

text \<open>
  The attempt part of the durable record of a transition: its sequence is left at zero, the in-memory
  attempt record gets the sequence of the append.
\<close>

definition state_attempt :: "request_context \<Rightarrow> reservation_record \<Rightarrow> reservation_state \<Rightarrow> timestamp \<Rightarrow> attempt_mutation" where
  "state_attempt cx r target at =
     \<lparr>at_attempt = cx_attempt cx, at_fingerprint = state_fingerprint r target, at_outcome = AoCommittable,
      at_reservation = rv_id r, at_generation = rv_generation r, at_result_sequence = 0,
      at_claimant = tm_claimant (rv_terms r), at_at = at\<rparr>"

definition state_record ::
  "request_context \<Rightarrow> reservation_record \<Rightarrow> reservation_state \<Rightarrow> timestamp \<Rightarrow> string \<Rightarrow> timestamp \<Rightarrow> state_mutation" where
  "state_record cx r target at reason recall_effective_at =
     \<lparr>sm_id = rv_id r, sm_generation = rv_generation r, sm_from_state = rv_state r, sm_to_state = target,
      sm_at = at, sm_reason = sanitize_reason reason, sm_provenance = blank_provenance,
      sm_recall_effective_at = recall_effective_at,
      sm_attempt = (if is_nil (cx_attempt cx) then None else Some (state_attempt cx r target at))\<rparr>"

definition transition_locked ::
  "reservation_record \<Rightarrow> reservation_state \<Rightarrow> timestamp \<Rightarrow> string \<Rightarrow> request_context \<Rightarrow> timestamp \<Rightarrow>
   attempt_record coord_op" where
  "transition_locked r target at reason cx recall_effective_at =
     andThen (append_locked (DrReservationState (state_record cx r target at reason recall_effective_at)))
       (\<lambda>sequence s.
          let r1 = (if recall_effective_at > 0 then r\<lparr>rv_recall_effective_at := recall_effective_at\<rparr> else r);
              pv = make_provenance_locked s cx sequence at;
              r2 = (stated target at reason pv r1)\<lparr>rv_sequence := sequence\<rparr>;
              s1 = put_record r2 (set_state_locked r1 target at reason pv s)
          in andThen (if target = RsRecallPending then update_index_locked r2 else sync_index_locked r2)
               (\<lambda>_ s2. (Inr ((state_attempt cx r target at)\<lparr>at_result_sequence := sequence\<rparr>),
                        sync_queues_locked r2 s2)) s1)"

subsection \<open>Time reconciliation\<close>

definition coordinator_context :: "coordinator \<Rightarrow> string \<Rightarrow> request_context" where
  "coordinator_context s reason =
     \<lparr>cx_actor = ''brf-coordinator'', cx_publisher = co_boot s, cx_publisher_boot = co_boot s, cx_session = 0,
      cx_attempt = 0, cx_claimant = 0, cx_claimant_generation = 0, cx_asserted_epoch = co_epoch s,
      cx_reason = reason\<rparr>"

definition due :: "timestamp \<Rightarrow> (timestamp, reservation_key) omap \<Rightarrow> reservation_key list" where
  "due now q = map snd (takeWhile (\<lambda>(t, _). \<not> now < t) q)"

definition reconcile_work :: "timestamp \<Rightarrow> coordinator \<Rightarrow> reservation_key list" where
  "reconcile_work now s = unique_by (=) (sort_by (<)
     (due now (co_activation_queue s) @ due now (co_expiry_queue s) @ due now (co_recall_queue s)))"

definition count_revocation :: "unit coord_op" where
  "count_revocation = modify (\<lambda>s. bump cst_revocations_update (bump cst_recalls_update s))"

text \<open>The end of the reconciliation of one record: expiry, or revocation of a pending recall.\<close>

definition reconcile_expiry :: "timestamp \<Rightarrow> request_context \<Rightarrow> reservation_key \<Rightarrow> unit coord_op" where
  "reconcile_expiry now cx k s =
     (case om_find (co_records s) k of
        None \<Rightarrow> (Inr (), s)
      | Some r \<Rightarrow>
          let window = consuming_interval r
          in if consumes r \<and> (iv_empty window \<or> \<not> now < iv_end window)
             then if rv_state r = RsRecallPending
                  then andThen (transition_locked r RsRevoked now ''recall effect reached at the committed interval end'' cx 0)
                         (\<lambda>_. count_revocation) s
                  else andThen (transition_locked r RsExpired now ''committed interval elapsed'' cx 0)
                         (\<lambda>_. modify (bump cst_expiries_update)) s
             else (Inr (), s))"

definition reconcile_record :: "timestamp \<Rightarrow> request_context \<Rightarrow> reservation_key \<Rightarrow> unit coord_op" where
  "reconcile_record now cx k s =
     (case om_find (co_records s) k of
        None \<Rightarrow> (Inr (), s)
      | Some r \<Rightarrow>
          if rv_state r = RsRecallPending \<and> rv_recall_effective_at r > 0 \<and> \<not> now < rv_recall_effective_at r
          then andThen (transition_locked r RsRevoked now ''recall effect reached'' cx 0) (\<lambda>_. count_revocation) s
          else andThen
            (if rv_state r = RsCommitted \<and> \<not> now < iv_start (tm_interval (rv_terms r)) \<and>
                now < iv_end (tm_interval (rv_terms r))
             then andThen (transition_locked r RsActive now ''interval opened'' cx 0) (\<lambda>_. ret ())
             else ret ())
            (\<lambda>_. reconcile_expiry now cx k) s)"

definition expired_holds :: "timestamp \<Rightarrow> coordinator \<Rightarrow> identity list" where
  "expired_holds now s =
     map fst (filter (\<lambda>(_, hold). \<not> hd_released hold \<and> \<not> now < hd_expires_at hold) (co_holds s))"

definition reconcile_locked :: "timestamp \<Rightarrow> unit coord_op" where
  "reconcile_locked now s =
     andThen (each (reconcile_record now (coordinator_context s ''time reconciliation'')) (reconcile_work now s))
       (\<lambda>_ s1. each (\<lambda>i. release_hold_locked i ''hold deadline reached'' False) (expired_holds now s1) s1) s"

subsection \<open>Retirement of history\<close>

definition retirement_order :: "coordinator \<Rightarrow> reservation_key list" where
  "retirement_order s =
     (let seq = (\<lambda>k. case om_find (co_records s) k of None \<Rightarrow> 0 | Some r \<Rightarrow> rv_sequence r)
      in sort_by (\<lambda>a b. (seq a, a) < (seq b, b))
           (map fst (filter (\<lambda>(_, r). is_terminal (rv_state r)) (co_records s))))"

definition retire_record :: "timestamp \<Rightarrow> reservation_key \<Rightarrow> coordinator \<Rightarrow> coordinator" where
  "retire_record now k s =
     (case om_find (co_records s) k of
        None \<Rightarrow> s
      | Some r \<Rightarrow>
          let archived = r\<lparr>rv_state := RsRetired, rv_state_changed_at := now,
                rv_state_reason := ''retired from live history into the archival record set''\<rparr>
          in s\<lparr>co_retired := om_put (fst k) archived (co_retired s),
               co_records := om_erase k (co_records s), co_history_count := co_history_count s - 1\<rparr>)"

definition release_terminal_history_locked :: "timestamp \<Rightarrow> unit coord_op" where
  "release_terminal_history_locked now s =
     (if co_history_count s \<le> cfg_max_history_records (co_config s) then (Inr (), s)
      else
        let batch = min (co_history_count s - cfg_max_history_records (co_config s)) 64;
            victims = take batch (retirement_order s)
        in if victims = [] then (Inr (), s)
           else andThen (append_locked (DrRetire
                  \<lparr>rt_ids = map fst victims, rt_generations = map snd victims, rt_at = now\<rparr>))
                (\<lambda>_. modify (fold (retire_record now) victims)) s)"

subsection \<open>Degraded capacity state\<close>

definition horizon :: interval where
  "horizon = mk_iv 0 kMaxTimestampNs"

definition ledger_ceiling :: "ledger_entry \<Rightarrow> bandwidth" where
  "ledger_ceiling e = (if le_withdrawn e then 0 else committable_ceiling (le_capacity e))"

text \<open>A consuming record bound to the resource, with a reference that is no longer current.\<close>

definition outstanding :: "coordinator \<Rightarrow> name \<Rightarrow> reservation_record \<Rightarrow> bool" where
  "outstanding s resource r \<longleftrightarrow> consumes r \<and>
     list_ex (\<lambda>ref. rr_resource ref = resource) (av_resources (rv_authority r)) \<and>
     \<not> list_all (ledger_is_current (co_ledger s)) (av_resources (rv_authority r))"

definition stale_obligations :: "coordinator \<Rightarrow> name \<Rightarrow> reservation_record list" where
  "stale_obligations s resource =
     filter (\<lambda>r. outstanding s resource r \<and> \<not> iv_empty (consuming_interval r)) (map snd (co_records s))"

definition obligation_peak :: "coordinator \<Rightarrow> name \<Rightarrow> bandwidth" where
  "obligation_peak s resource =
     (let peak = peak_committed (co_index s) resource horizon;
          stale = stale_obligations s resource;
          load_of = fold (\<lambda>r x. ici_add x (consuming_interval r) (tm_amount (rv_terms r))) stale ici_new
      in if stale \<noteq> [] \<and> ici_peak load_of horizon > peak then ici_peak load_of horizon else peak)"

definition overcommit_record :: "name \<Rightarrow> ledger_entry \<Rightarrow> bandwidth \<Rightarrow> timestamp \<Rightarrow> bool \<Rightarrow> overcommit_mutation" where
  "overcommit_record resource e peak now resolved =
     \<lparr>oc_resource = resource, oc_generation = rc_generation (le_capacity e), oc_committed_peak = peak,
      oc_ceiling = ledger_ceiling e, oc_window = horizon, oc_at = now, oc_resolved = resolved\<rparr>"

definition detect_overcommit_locked :: "name \<Rightarrow> timestamp \<Rightarrow> unit coord_op" where
  "detect_overcommit_locked resource now s =
     (case ledger_find (co_ledger s) resource of
        None \<Rightarrow> (Inr (), s)
      | Some e \<Rightarrow>
          let peak = obligation_peak s resource;
              over = (peak > ledger_ceiling e)
          in if \<not> over
             then if in_emergency s resource
                  then let m = overcommit_record resource e peak now True
                       in andThen (append_locked (DrOvercommit m)) (\<lambda>_. modify (enter_overcommit m)) s
                  else (Inr (), s)
             else if in_emergency s resource then (Inr (), s)
             else let m = overcommit_record resource e peak now False
                  in andThen (append_locked (DrOvercommit m))
                       (\<lambda>_. modify (\<lambda>s. bump cst_overcommit_events_update (enter_overcommit m s))) s)"

subsection \<open>Applicability and revalidation\<close>

definition successor_of ::
  "coordinator \<Rightarrow> request_context \<Rightarrow> timestamp \<Rightarrow> policy_record \<Rightarrow> resolved_binding \<Rightarrow> counter \<Rightarrow>
   reservation_record \<Rightarrow> reservation_record" where
  "successor_of s cx now policy b predicted r =
     (let t = rv_terms r;
          gen = rv_generation r + 1;
          state = (if commits_as_active now (tm_interval t) then RsActive else RsCommitted)
      in r\<lparr>rv_generation := gen,
           rv_authority := (rv_authority r)\<lparr>av_reservation_generation := gen, av_fabric_epoch := co_epoch s,
             av_capacity_snapshot := co_last_capacity_snapshot s,
             av_capacity_generation := co_last_capacity_generation s, av_policy := pl_name policy,
             av_policy_generation := pl_generation policy, av_path_generation := rb_path_generation b,
             av_resources := rb_resources b, av_failure_domains := rb_failure_domains b,
             av_claimant := tm_claimant t, av_claimant_generation := tm_claimant_generation t\<rparr>,
           rv_predecessor := rv_id r, rv_predecessor_generation := rv_generation r,
           rv_applicability := ApCurrent, rv_applicability_reason := ArCurrent, rv_state := state,
           rv_activated_at := (if state = RsActive \<and> rv_activated_at r = 0 then now else rv_activated_at r),
           rv_state_changed_at := now, rv_last_provenance := make_provenance_locked s cx predicted now,
           rv_sequence := predicted\<rparr>)"

definition revalidation_edge :: "reservation_record \<Rightarrow> reservation_record \<Rightarrow> timestamp \<Rightarrow> counter \<Rightarrow> supersession_edge" where
  "revalidation_edge r r' now predicted =
     \<lparr>se_predecessor = rv_id r, se_predecessor_generation = rv_generation r, se_successor = rv_id r',
      se_successor_generation = rv_generation r', se_recorded_at = now, se_sequence = predicted,
      se_reason = ''revalidated against authoritative generations''\<rparr>"

text \<open>The part of \<^verbatim>\<open>auto_revalidate_record_locked\<close> after a committable assessment.\<close>

definition commit_successor ::
  "request_context \<Rightarrow> timestamp \<Rightarrow> policy_record \<Rightarrow> resolved_binding \<Rightarrow> reservation_record \<Rightarrow> unit coord_op" where
  "commit_successor cx now policy b r s =
     (let predicted = st_last_sequence (co_store s) + 1;
          r' = successor_of s cx now policy b predicted r;
          edge = revalidation_edge r r' now predicted;
          mutation = \<lparr>mu_record = r', mu_series = None, mu_members = [], mu_edge = Some edge,
            mu_supersede_record = True, mu_companions = [], mu_attempt = None\<rparr>;
          old = stated RsSuperseded now ''superseded by revalidation'' (rv_last_provenance r') r
      in andThen (append_locked (DrReservationAmend mutation)) (\<lambda>appended.
         andThen (guard_op (appended = predicted) EInternal) (\<lambda>_.
         andThen (modify (set_state_locked r RsSuperseded now ''superseded by revalidation'' (rv_last_provenance r'))) (\<lambda>_.
         andThen (index_erase_locked old) (\<lambda>_.
         andThen (modify (\<lambda>s. register_record_locked r' ((sync_queues_locked old s)\<lparr>co_edges := co_edges s @ [edge]\<rparr>))) (\<lambda>_.
         andThen (sync_index_locked r') (\<lambda>_.
           modify (\<lambda>s. bump cst_revalidations_update (sync_queues_locked r' s)))))))) s)"

definition auto_revalidate_record_locked :: "reservation_record \<Rightarrow> timestamp \<Rightarrow> request_context \<Rightarrow> unit coord_op" where
  "auto_revalidate_record_locked r now cx s =
     (case resolve_binding_locked s (rv_terms r) of
        Inl _ \<Rightarrow> (Inr (), s)
      | Inr b \<Rightarrow>
          let name = (if av_policy (rv_authority r) = [] then tm_policy (rv_terms r) else av_policy (rv_authority r));
              policy = policy_for_locked s name
          in (case suspend r [] s of
                ((Inl e, taken), s1) \<Rightarrow> (Inl e, restore taken s1)
              | ((Inr _, taken), s1) \<Rightarrow>
                  if as_outcome (assess_locked s1 (rv_terms r) b policy (unat (pl_max_conflict_set policy))) \<noteq> AoCommittable
                  then (Inr (), restore taken s1)
                  else (case commit_successor cx now policy b r s1 of
                          (Inl e, s2) \<Rightarrow> (Inl e, restore taken s2)
                        | (Inr _, s2) \<Rightarrow> (Inr (), s2))))"

text \<open>Why a record's authority is no longer current: the first resource, path or failure domain that moved.\<close>

definition resource_reason :: "ledger \<Rightarrow> resource_ref \<Rightarrow> applicability_reason option" where
  "resource_reason m ref =
     (case ledger_find m (rr_resource ref) of
        None \<Rightarrow> Some ArResourceWithdrawn
      | Some e \<Rightarrow>
          if le_withdrawn e then Some ArResourceWithdrawn
          else if rc_generation (le_capacity e) \<noteq> rr_generation ref then Some ArResourceGenerationChanged
          else None)"

fun first_reason :: "('a \<Rightarrow> applicability_reason option) \<Rightarrow> 'a list \<Rightarrow> applicability_reason option" where
  "first_reason f [] = None"
| "first_reason f (x # xs) = (case f x of Some r \<Rightarrow> Some r | None \<Rightarrow> first_reason f xs)"

definition path_reason :: "coordinator \<Rightarrow> reservation_record \<Rightarrow> applicability_reason option" where
  "path_reason s r =
     (if av_path_generation (rv_authority r) = 0 then None
      else (case path_find (co_paths s) (tm_path (rv_terms r)) of
              None \<Rightarrow> Some ArPathRetired
            | Some e \<Rightarrow>
                if pt_retired e then Some ArPathRetired
                else if pa_generation (pt_path e) \<noteq> av_path_generation (rv_authority r)
                then Some ArPathGenerationChanged else None))"

definition stale_reason :: "coordinator \<Rightarrow> reservation_record \<Rightarrow> applicability_reason option" where
  "stale_reason s r =
     (case first_reason (resource_reason (co_ledger s)) (av_resources (rv_authority r)) of
        Some x \<Rightarrow> Some x
      | None \<Rightarrow>
          (case path_reason s r of
             Some x \<Rightarrow> Some x
           | None \<Rightarrow>
               if list_all (is_current_failure_domain (co_ledger s)) (av_failure_domains (rv_authority r)) then None
               else Some ArFailureDomainGenerationChanged))"

definition refresh_record :: "timestamp \<Rightarrow> bool \<Rightarrow> reservation_key \<Rightarrow> unit coord_op" where
  "refresh_record now auto_revalidate k s =
     (case om_find (co_records s) k of
        None \<Rightarrow> (Inr (), s)
      | Some r \<Rightarrow>
          (case stale_reason s r of
             None \<Rightarrow>
               if rv_applicability r \<noteq> ApCurrent then mark_applicability_locked r ApCurrent ArCurrent now s
               else (Inr (), s)
           | Some reason \<Rightarrow>
               let attempt = auto_revalidate \<and>
                     pl_auto_revalidate_on_generation_change (policy_for_locked s (av_policy (rv_authority r)))
               in andThen
                    (if attempt
                     then auto_revalidate_record_locked r now (coordinator_context s ''policy-permitted revalidation'')
                     else ret ())
                    (\<lambda>_ s1. case om_find (co_records s1) k of
                       None \<Rightarrow> (Inr (), s1)
                     | Some r1 \<Rightarrow>
                         if attempt \<and> rv_applicability r1 = ApCurrent then (Inr (), s1)
                         else mark_applicability_locked r1 ApRevalidationRequired reason now s1) s))"

definition refresh_applicability_locked :: "timestamp \<Rightarrow> bool \<Rightarrow> unit coord_op" where
  "refresh_applicability_locked now auto_revalidate s =
     each (refresh_record now auto_revalidate)
       (map fst (filter (\<lambda>(_, r). \<not> is_terminal (rv_state r)) (co_records s))) s"

subsection \<open>Release, recall, revocation, revalidation\<close>

definition replayed_result :: "reservation_record option \<Rightarrow> lifecycle_result" where
  "replayed_result r = \<lparr>lr_record = r, lr_replayed = True, lr_transitions = 0\<rparr>"

definition one_transition :: "reservation_record option \<Rightarrow> lifecycle_result" where
  "one_transition r = \<lparr>lr_record = r, lr_replayed = False, lr_transitions = 1\<rparr>"

definition record_now :: "identity \<Rightarrow> counter \<Rightarrow> (reservation_record option \<Rightarrow> lifecycle_result) \<Rightarrow> lifecycle_result coord_op" where
  "record_now i gen f s = (Inr (f (find_record_locked s i gen)), s)"

definition reason_or :: "request_context \<Rightarrow> string \<Rightarrow> string" where
  "reason_or cx text = (if cx_reason cx = [] then text else cx_reason cx)"

text \<open>
  The record a request names is looked up before the time is reconciled; the reference is read again after
  it. Reconciliation never removes a record, so the second lookup finds it.
\<close>

definition with_record :: "identity \<Rightarrow> counter \<Rightarrow> (reservation_record \<Rightarrow> 'a coord_op) \<Rightarrow> 'a coord_op" where
  "with_record i gen f s =
     (case find_record_locked s i gen of None \<Rightarrow> (Inl ENotFound, s) | Some r \<Rightarrow> f r s)"

text \<open>The release of the record, once the claimant is known and the time is reconciled.\<close>

definition release_record :: "request_context \<Rightarrow> identity \<Rightarrow> counter \<Rightarrow> timestamp \<Rightarrow> reservation_record \<Rightarrow> lifecycle_result coord_op" where
  "release_record cx i gen now r =
     (if rv_state r = RsReleased then ret (replayed_result (Some r))
      else if is_terminal (rv_state r) then fail EIllegalTransition
      else andThen (transition_locked r RsReleased now (reason_or cx ''released by claimant'') cx 0) (\<lambda>attempt.
           andThen (modify (\<lambda>s. bump cst_releases_update (remember_attempt_locked attempt s))) (\<lambda>_.
             record_now i gen one_transition)))"

definition release_locked :: "request_context \<Rightarrow> identity \<Rightarrow> counter \<Rightarrow> lifecycle_result coord_op" where
  "release_locked cx i gen =
     andThen now_locked (\<lambda>now.
     andThen (validate_context_locked cx True) (\<lambda>_.
     with_record i gen (\<lambda>named.
     andThen (guard_op (is_nil (cx_claimant cx) \<or> cx_claimant cx = tm_claimant (rv_terms named)) EAuthorityRequired) (\<lambda>_.
     andThen (if is_nil (cx_claimant cx) then ret ()
              else ensure_claimant_locked (cx_claimant cx) (cx_claimant_generation cx) now) (\<lambda>_.
     andThen (reconcile_locked now) (\<lambda>_.
       with_record i gen (release_record cx i gen now)))))))"

definition recall_permitted :: "policy_record \<Rightarrow> reservation_terms \<Rightarrow> bool" where
  "recall_permitted policy t =
     (case tm_guarantee t of
        GcScavenger \<Rightarrow> True
      | GcPreemptible \<Rightarrow> True
      | GcProtected \<Rightarrow> pl_allow_recall_protected policy \<or> tm_recall_permitted t
      | GcGuaranteed \<Rightarrow> pl_allow_recall_guaranteed policy \<or> tm_recall_permitted t)"

text \<open>The recall of a consuming record the policy lets go, and the checks before it.\<close>

definition recall_effect ::
  "request_context \<Rightarrow> identity \<Rightarrow> counter \<Rightarrow> timestamp \<Rightarrow> duration \<Rightarrow> bool \<Rightarrow> timestamp \<Rightarrow> policy_record \<Rightarrow>
   reservation_record \<Rightarrow> lifecycle_result coord_op" where
  "recall_effect cx i gen effective_at grace force now policy r =
     (let effect0 = (if force \<or> effective_at = 0 then now else effective_at);
          effect = (if iv_end (tm_interval (rv_terms r)) < effect0 then iv_end (tm_interval (rv_terms r)) else effect0);
          effective_grace = (if grace = 0 then pl_default_recall_grace policy else grace)
      in if effect0 < now then fail EInvalidInterval
         else if rv_state r = RsRecallPending \<and> rv_recall_effective_at r = effect
         then ret (replayed_result (Some r))
         else if \<not> now < effect
         then andThen (transition_locked r RsRevoked now (reason_or cx ''recalled with immediate effect'') cx 0) (\<lambda>attempt.
              andThen (modify (remember_attempt_locked attempt)) (\<lambda>_.
              andThen count_revocation (\<lambda>_. record_now i gen one_transition)))
         else andThen (transition_locked r RsRecallPending now (reason_or cx ''recall recorded; effect pending'') cx effect) (\<lambda>attempt.
              with_record i gen (\<lambda>r1.
                let r2 = r1\<lparr>rv_recall_grace := effective_grace\<rparr>
                in andThen (modify (put_record r2)) (\<lambda>_.
                   andThen (update_index_locked r2) (\<lambda>_.
                   andThen (modify (\<lambda>s. bump cst_recalls_update
                              (remember_attempt_locked attempt (sync_queues_locked r2 s)))) (\<lambda>_.
                     record_now i gen one_transition))))))"

definition recall_record ::
  "request_context \<Rightarrow> identity \<Rightarrow> counter \<Rightarrow> timestamp \<Rightarrow> duration \<Rightarrow> bool \<Rightarrow> timestamp \<Rightarrow> reservation_record \<Rightarrow>
   lifecycle_result coord_op" where
  "recall_record cx i gen effective_at grace force now r s =
     (let policy = policy_for_locked s (av_policy (rv_authority r))
      in if \<not> consumes r then (Inl EIllegalTransition, s)
         else if \<not> recall_permitted policy (rv_terms r) then (Inl EPolicyRejected, s)
         else recall_effect cx i gen effective_at grace force now policy r s)"

definition recall_locked ::
  "request_context \<Rightarrow> identity \<Rightarrow> counter \<Rightarrow> timestamp \<Rightarrow> duration \<Rightarrow> bool \<Rightarrow> lifecycle_result coord_op" where
  "recall_locked cx i gen effective_at grace force =
     andThen now_locked (\<lambda>now.
     andThen (validate_context_locked cx True) (\<lambda>_.
     with_record i gen (\<lambda>named.
     andThen (gets (\<lambda>s. find_attempt_locked s (cx_attempt cx))) (\<lambda>previous.
       case previous of
         Some _ \<Rightarrow> andThen (modify (bump cst_replayed_attempts_update)) (\<lambda>_. record_now i gen replayed_result)
       | None \<Rightarrow>
         andThen (reconcile_locked now) (\<lambda>_.
           with_record i gen (recall_record cx i gen effective_at grace force now))))))"

definition revoke_record :: "request_context \<Rightarrow> identity \<Rightarrow> counter \<Rightarrow> timestamp \<Rightarrow> reservation_record \<Rightarrow> lifecycle_result coord_op" where
  "revoke_record cx i gen now r s =
     (if find_attempt_locked s (cx_attempt cx) \<noteq> None
      then (Inr (replayed_result (Some r)), bump cst_replayed_attempts_update s)
      else if rv_state r = RsRevoked then (Inr (replayed_result (Some r)), s)
      else if \<not> consumes r then (Inl EIllegalTransition, s)
      else andThen (transition_locked r RsRevoked now (reason_or cx ''revoked by authority'') cx 0) (\<lambda>attempt.
           andThen (modify (\<lambda>s. bump cst_revocations_update (remember_attempt_locked attempt s))) (\<lambda>_.
             record_now i gen one_transition)) s)"

definition revoke_locked :: "request_context \<Rightarrow> identity \<Rightarrow> counter \<Rightarrow> lifecycle_result coord_op" where
  "revoke_locked cx i gen =
     andThen now_locked (\<lambda>now.
     andThen (validate_context_locked cx True) (\<lambda>_.
     with_record i gen (\<lambda>named.
     andThen (reconcile_locked now) (\<lambda>_.
       with_record i gen (revoke_record cx i gen now)))))"

definition revalidate_record :: "request_context \<Rightarrow> identity \<Rightarrow> counter \<Rightarrow> bool \<Rightarrow> timestamp \<Rightarrow> reservation_record \<Rightarrow> lifecycle_result coord_op" where
  "revalidate_record cx i gen mark_stale now r =
     (if is_terminal (rv_state r) then fail EIllegalTransition
      else if rv_applicability r = ApCurrent then ret (replayed_result (Some r))
      else if mark_stale
      then andThen (mark_applicability_locked r ApStale (rv_applicability_reason r) now) (\<lambda>_.
             record_now i gen one_transition)
      else andThen (auto_revalidate_record_locked r now cx) (\<lambda>_ s.
             case current_record_locked s i of
               Some latest \<Rightarrow>
                 if rv_applicability latest = ApCurrent
                 then (Inr \<lparr>lr_record = Some latest, lr_replayed = False,
                            lr_transitions = (if rv_generation latest = gen then 0 else 1)\<rparr>, s)
                 else (Inl EStaleGeneration, s)
             | None \<Rightarrow> (Inl EStaleGeneration, s)))"

definition revalidate_locked :: "request_context \<Rightarrow> identity \<Rightarrow> counter \<Rightarrow> bool \<Rightarrow> lifecycle_result coord_op" where
  "revalidate_locked cx i gen mark_stale =
     andThen now_locked (\<lambda>now.
     andThen (validate_context_locked cx True) (\<lambda>_.
     with_record i gen (\<lambda>named.
     andThen (reconcile_locked now) (\<lambda>_.
       with_record i gen (revalidate_record cx i gen mark_stale now)))))"

definition compact_if_due :: "unit coord_op" where
  "compact_if_due s = (if should_compact (co_store s) then compact_locked s else (Inr (), s))"

definition reconcile_lifecycle_locked :: "request_context \<Rightarrow> lifecycle_result coord_op" where
  "reconcile_lifecycle_locked cx =
     andThen now_locked (\<lambda>now.
     andThen (validate_context_locked cx False) (\<lambda>_.
     andThen (gets co_stats) (\<lambda>before.
     andThen (reconcile_locked now) (\<lambda>_.
     andThen (refresh_applicability_locked now True) (\<lambda>_.
     andThen (release_terminal_history_locked now) (\<lambda>_.
     andThen compact_if_due (\<lambda>_.
       gets (\<lambda>s. \<lparr>lr_record = None, lr_replayed = False,
         lr_transitions = (cst_expiries (co_stats s) - cst_expiries before) +
                          (cst_revocations (co_stats s) - cst_revocations before)\<rparr>))))))))"

subsection \<open>Overcommit resolution\<close>

datatype overcommit_resolution = OrRetain | OrRevoke

definition stale_entry :: "name \<Rightarrow> reservation_record \<Rightarrow> index_entry" where
  "stale_entry resource r =
     \<lparr>ie_kind = HkReservation, ie_id = rv_id r, ie_holder_generation = rv_generation r, ie_resource = resource,
      ie_interval = consuming_interval r, ie_amount = tm_amount (rv_terms r),
      ie_guarantee = tm_guarantee (rv_terms r), ie_state = rv_state r\<rparr>"

definition resolution_candidates :: "coordinator \<Rightarrow> name \<Rightarrow> index_entry list" where
  "resolution_candidates s resource =
     (let limit = cfg_index_scan_limit (co_config s);
          (found, _, _) = overlapping (co_index s) resource horizon limit limit
      in filter (\<lambda>e. ie_kind e = HkReservation) found @
         map (stale_entry resource) (filter (outstanding s resource) (map snd (co_records s))))"

definition candidates_peak :: "index_entry list \<Rightarrow> bandwidth" where
  "candidates_peak es =
     ici_peak (fold (\<lambda>e x. ici_add x (ie_interval e) (ie_amount e)) (filter (\<lambda>e. \<not> iv_empty (ie_interval e)) es) ici_new)
       horizon"

text \<open>
  The revocation loop, with the number of revocations it may still make: the source stops after the 4097th.
\<close>

fun resolve_loop :: "nat \<Rightarrow> request_context \<Rightarrow> name \<Rightarrow> bandwidth \<Rightarrow> timestamp \<Rightarrow> unit coord_op" where
  "resolve_loop 0 cx resource ceiling now s = (Inr (), s)"
| "resolve_loop (Suc n) cx resource ceiling now s =
     (let candidates = resolution_candidates s resource
      in if candidates = [] \<or> candidates_peak candidates \<le> ceiling then (Inr (), s)
         else
           let weakest = hd (sort_by (\<lambda>a b. preemption_key a < preemption_key b) candidates);
               reason = ''overcommit resolution on '' @ resource
           in (case find_record_locked s (ie_id weakest) (ie_holder_generation weakest) of
                 None \<Rightarrow> (Inr (), s)
               | Some victim \<Rightarrow>
                   andThen (transition_locked victim RsRevoked now reason (cx\<lparr>cx_reason := reason\<rparr>) 0)
                     (\<lambda>_. resolve_loop n cx resource ceiling now) s))"

definition resolve_overcommit :: "request_context \<Rightarrow> name \<Rightarrow> overcommit_resolution \<Rightarrow> unit coord_op" where
  "resolve_overcommit cx resource resolution =
     andThen now_locked (\<lambda>now.
     andThen (validate_context_locked cx True) (\<lambda>_.
     andThen (gets (\<lambda>s. in_emergency s resource)) (\<lambda>pending.
     andThen (guard_op pending ENotFound) (\<lambda>_.
     andThen (gets (\<lambda>s. ledger_find (co_ledger s) resource)) (\<lambda>found.
       case found of
         None \<Rightarrow> fail ENotFound
       | Some e \<Rightarrow>
           andThen (if resolution = OrRevoke then resolve_loop 4097 cx resource (ledger_ceiling e) now else ret ()) (\<lambda>_.
           andThen (gets (\<lambda>s. overcommit_record resource e (peak_committed (co_index s) resource horizon) now True)) (\<lambda>m.
           andThen (append_locked (DrOvercommit m)) (\<lambda>_.
             modify (enter_overcommit m)))))))))"

subsection \<open>Boot\<close>

definition replay_journal_record :: "journal_record \<Rightarrow> unit coord_op" where
  "replay_journal_record j s =
     (case decode_record (jr_payload j) (jr_kind j) of
        Inl _ \<Rightarrow> (Inl ECorrupt, s)
      | Inr r \<Rightarrow> apply_replay_locked r s)"

definition load_snapshot :: "unit coord_op" where
  "load_snapshot s =
     (let payload = st_snapshot_payload (co_store s)
      in if payload = [] then (Inr (), s)
         else (case dec_snapshot payload of
                 Inl _ \<Rightarrow> (Inl ECorrupt, s)
               | Inr (v, rest) \<Rightarrow> if rest \<noteq> [] then (Inl ECorrupt, s) else (Inr (), apply_snapshot_locked v s)))"

definition advance_epoch :: "identity \<Rightarrow> timestamp coord_op" where
  "advance_epoch fresh =
     andThen (gets (\<lambda>s. (co_epoch s, if is_nil (cfg_boot_identity (co_config s)) then fresh
                                    else cfg_boot_identity (co_config s)))) (\<lambda>(epoch, boot).
     andThen (guard_op (epoch \<noteq> - 1) EOverflow) (\<lambda>_.
     andThen now_locked (\<lambda>now.
     andThen (append_locked (DrFabricBoot \<lparr>em_epoch = epoch + 1, em_coordinator_boot = boot, em_at = now\<rparr>)) (\<lambda>_.
     andThen (modify (\<lambda>s. s\<lparr>co_epoch := epoch + 1, co_boot := boot, co_sequence := st_last_sequence (co_store s)\<rparr>)) (\<lambda>_.
       ret now)))))"

text \<open>
  \<^verbatim>\<open>ReservationCoordinator::open\<close> after the store has been opened and its identity file read;
  \<open>fresh\<close> is the random boot identity. The recovery report is left out.
\<close>

definition open_locked :: "identity \<Rightarrow> unit coord_op" where
  "open_locked fresh =
     andThen load_snapshot (\<lambda>_.
     andThen (gets (\<lambda>s. st_records (co_store s))) (\<lambda>journal.
     andThen (each replay_journal_record journal) (\<lambda>_.
     andThen (modify rebuild_queues_locked) (\<lambda>_.
     andThen rebuild_index_locked (\<lambda>_.
     andThen (advance_epoch fresh) (\<lambda>now.
     andThen (reconcile_locked now) (\<lambda>_.
     andThen (refresh_applicability_locked now True) (\<lambda>_.
       release_terminal_history_locked now))))))))"

definition coordinator_open ::
  "coordinator_config \<Rightarrow> store_options \<Rightarrow> disk \<Rightarrow> identity option \<Rightarrow> identity \<Rightarrow> timestamp \<Rightarrow> timestamp list \<Rightarrow>
   io_outcome list \<Rightarrow> coordinator result" where
  "coordinator_open config opts d store_id fresh clock ticks io =
     (if cfg_max_live_reservations config = 0 \<or> cfg_max_attempts config = 0 then Inl EInvalidArgument
      else bindE (store_open opts d) (\<lambda>(st, _).
        if store_id = None then Inl ECorrupt
        else (case open_locked fresh (fresh_coordinator config clock ticks io st) of
                (Inl e, _) \<Rightarrow> Inl e
              | (Inr _, s) \<Rightarrow> Inr s)))"

end
