(* ===== verification/Brf_Lifecycle_Proofs.thy ===== *)
theory Brf_Lifecycle_Proofs
  imports Brf_Lifecycle
begin

text \<open>
  The lifecycle operations keep the invariant of \<^verbatim>\<open>Brf_Invariant\<close>: each of them is shown to relate
  the states before and after it by \<open>life\<close>, from the effect of a single transition up to the requests.
  The theorem at the end states that time reconciliation leaves no deadline behind.
\<close>

subsection \<open>Effect of a transition\<close>

lemma om_put_put: "om_put k v (om_put k w m) = om_put k v m"
  by (induction k w m rule: om_put.induct) auto

lemma put_record_put: "record_key r = record_key r' \<Longrightarrow> put_record r (put_record r' s) = put_record r s"
  by (simp add: put_record_def om_put_put)

lemma core_sync_queues_cong: "core s = core s' \<Longrightarrow> core (sync_queues_locked r s) = core (sync_queues_locked r s')"
  by (simp add: core_def sync_queues_locked_def Let_def)

lemma core_put_cong: "core s = core s' \<Longrightarrow> core (put_record r s) = core (put_record r s')"
  by (simp add: core_def put_record_def)

lemma core_count_cong: "core s = core s' \<Longrightarrow> core (count_move a b s) = core (count_move a b s')"
  by (simp add: core_def count_move_def)

lemma stated_sel [simp]:
  "rv_state (stated st at reason pv r) = st" "record_key (stated st at reason pv r) = record_key r"
  "rv_terms (stated st at reason pv r) = rv_terms r" "rv_authority (stated st at reason pv r) = rv_authority r"
  "rv_applicability (stated st at reason pv r) = rv_applicability r"
  "rv_recall_effective_at (stated st at reason pv r) = rv_recall_effective_at r"
  "rv_recall_grace (stated st at reason pv r) = rv_recall_grace r"
  "rv_series_member (stated st at reason pv r) = rv_series_member r"
  by (simp_all add: stated_def Let_def record_key_def)

text \<open>The record a transition leaves behind, as far as the lifecycle reads it.\<close>

definition transitioned :: "reservation_state \<Rightarrow> timestamp \<Rightarrow> reservation_record \<Rightarrow> reservation_record \<Rightarrow> bool" where
  "transitioned target effect r r' \<longleftrightarrow> record_key r' = record_key r \<and> rv_state r' = target \<and>
     rv_terms r' = rv_terms r \<and> rv_authority r' = rv_authority r \<and> rv_applicability r' = rv_applicability r \<and>
     rv_recall_effective_at r' = (if effect > 0 then effect else rv_recall_effective_at r) \<and>
     rv_recall_grace r' = rv_recall_grace r \<and> rv_series_member r' = rv_series_member r"

lemma quiet_ops:
  "quiet (append_locked d)" "quiet (sync_index_locked r)" "quiet (update_index_locked r)"
  "quiet (index_erase_locked r)" "quiet now_locked" "quiet (release_hold_locked i reason fenced)"
  "quiet (ensure_claimant_locked c g now)" "quiet (on_index m)"
  by (simp_all add: quiet_def core_simps)

lemma quiet_Inr: "quiet m \<Longrightarrow> m s = (Inr x, s') \<Longrightarrow> core s' = core s"
  unfolding quiet_def by (metis snd_conv)

lemma transition_effect:
  assumes "transition_locked r target at reason cx effect s = (Inr a, s')"
  shows "\<exists>r'. transitioned target effect r r' \<and>
    core s' = core (sync_queues_locked r' (put_record r' (count_move (rv_state r) target s)))"
proof -
  let ?r1 = "if effect > 0 then r\<lparr>rv_recall_effective_at := effect\<rparr> else r"
  from assms obtain seq s1 where app: "append_locked (DrReservationState (state_record cx r target at reason effect)) s = (Inr seq, s1)"
    and rest: "andThen (if target = RsRecallPending
        then update_index_locked ((stated target at reason (make_provenance_locked s1 cx seq at) ?r1)\<lparr>rv_sequence := seq\<rparr>)
        else sync_index_locked ((stated target at reason (make_provenance_locked s1 cx seq at) ?r1)\<lparr>rv_sequence := seq\<rparr>))
      (\<lambda>_ s2. (Inr ((state_attempt cx r target at)\<lparr>at_result_sequence := seq\<rparr>),
        sync_queues_locked ((stated target at reason (make_provenance_locked s1 cx seq at) ?r1)\<lparr>rv_sequence := seq\<rparr>) s2))
      (put_record ((stated target at reason (make_provenance_locked s1 cx seq at) ?r1)\<lparr>rv_sequence := seq\<rparr>)
        (set_state_locked ?r1 target at reason (make_provenance_locked s1 cx seq at) s1)) = (Inr a, s')"
    unfolding transition_locked_def andThen_Inr Let_def by blast
  define r' where "r' = (stated target at reason (make_provenance_locked s1 cx seq at) ?r1)\<lparr>rv_sequence := seq\<rparr>"
  have r': "transitioned target effect r r'"
    by (simp add: transitioned_def r'_def record_key_def) (simp add: record_key_def [symmetric] stated_def Let_def)
  obtain s2 where "core s2 = core (put_record r' (set_state_locked ?r1 target at reason (make_provenance_locked s1 cx seq at) s1))"
    and "s' = sync_queues_locked r' s2"
    using rest [folded r'_def] quiet_ops(2,3) [of r']
    by (auto simp: andThen_Inr split: if_splits dest: quiet_Inr)
  moreover have "put_record r' (set_state_locked ?r1 target at reason (make_provenance_locked s1 cx seq at) s1) =
      put_record r' (count_move (rv_state r) target s1)"
    unfolding set_state_locked_def by (subst put_record_put) (simp_all add: r'_def record_key_def stated_def Let_def)
  ultimately have "core s' = core (sync_queues_locked r' (put_record r' (count_move (rv_state r) target s)))"
    using quiet_Inr [OF quiet_ops(1) app] core_sync_queues_cong core_put_cong core_count_cong by metis
  with r' show ?thesis by blast
qed

lemma transition_records:
  assumes "transition_locked r target at reason cx effect s = (Inr a, s')"
  shows "\<exists>r'. transitioned target effect r r' \<and> co_records s' = om_put (record_key r) r' (co_records s)"
proof -
  from transition_effect [OF assms] obtain r' where "transitioned target effect r r'"
    and "core s' = core (sync_queues_locked r' (put_record r' (count_move (rv_state r) target s)))" by blast
  then show ?thesis by (auto simp: core_def transitioned_def intro!: exI [of _ r'])
qed

lemma transition_life:
  assumes found: "om_find (co_records s) (record_key r) = Some r" and legal: "moves (rv_state r) target"
    and run: "transition_locked r target at reason cx effect s = (Inr a, s')"
  shows "life s s'"
proof -
  from transition_effect [OF run] obtain r' where r': "transitioned target effect r r'"
    and core: "core s' = core (sync_queues_locked r' (put_record r' (count_move (rv_state r) target s)))" by blast
  from r' have "life s (sync_queues_locked r' (put_record r' (count_move (rv_state r) (rv_state r') s)))"
    using found legal by (intro life_restate) (auto simp: transitioned_def)
  moreover from r' core have "life (sync_queues_locked r' (put_record r' (count_move (rv_state r) (rv_state r') s))) s'"
    by (intro life_core) (simp add: transitioned_def)
  ultimately show ?thesis by (rule life_trans)
qed

lemma life_if_ok:
  assumes "\<And>i g. registered s i g \<Longrightarrow> registered s' i g" and "coord_ok s \<Longrightarrow> life s s'"
  shows "life s s'"
proof (cases "coord_ok s")
  case False
  with assms(1) show ?thesis by (simp add: life_def)
qed (rule assms(2))

lemma transition_life_at:
  assumes found: "om_find (co_records s) k = Some r" and legal: "moves (rv_state r) target"
    and run: "transition_locked r target at reason cx effect s = (Inr a, s')"
  shows "life s s'"
proof (rule life_if_ok)
  from transition_effect [OF run] have "co_generations s' = co_generations s"
    by (auto simp: core_def)
  then show "registered s' i g" if "registered s i g" for i g using that by (simp add: registered_def)
  show "life s s'" if "coord_ok s"
    using transition_life [OF _ legal run] found coord_ok_keyed [OF that found] by simp
qed

lemma moves_of: "\<not> is_terminal st \<Longrightarrow> moves st RsReleased" "\<not> is_terminal st \<Longrightarrow> moves st RsSuperseded"
  "consumes_capacity st \<Longrightarrow> moves st RsRevoked" "consumes_capacity st \<Longrightarrow> moves st RsRecallPending"
  "consumes_capacity st \<Longrightarrow> st \<noteq> RsRecallPending \<Longrightarrow> moves st RsExpired" "moves RsCommitted RsActive"
  by (auto intro!: moves_step legal_step.intros)

lemma consumes_state: "consumes r \<Longrightarrow> consumes_capacity (rv_state r)"
  by (simp add: consumes_def)

lemma life_quietD: "quiet m \<Longrightarrow> m s = (Inr x, s') \<Longrightarrow> life s s'"
  by (rule ends_inD [OF life_quiet])

lemma life_bump: "life s (bump f s)"
  by (rule life_core) (simp add: core_simps)

lemma quiet_counts:
  "quiet count_revocation" "quiet (modify (bump u) :: unit coord_op)" "quiet (ret y)"
  by (simp_all add: quiet_def count_revocation_def modify_def ret_def core_simps)

text \<open>Time reconciliation moves along every relation that contains the quiet steps and the legal transitions.\<close>

locale transition_relation = step_preorder R for R :: "coordinator \<Rightarrow> coordinator \<Rightarrow> bool" +
  assumes of_core: "core s = core s' \<Longrightarrow> R s s'"
    and of_transition: "om_find (co_records s) k = Some r \<Longrightarrow> moves (rv_state r) target \<Longrightarrow>
      transition_locked r target at reason cx effect s = (Inr a, s') \<Longrightarrow> R s s'"
begin

lemma ends_quiet: "quiet m \<Longrightarrow> ends_in R m"
  unfolding ends_in_def quiet_def by (metis of_core snd_conv)

lemma transition_then:
  assumes "andThen (transition_locked r target at reason cx effect) (\<lambda>_. m) s = (Inr x, s')" and "quiet m"
    and "om_find (co_records s) k = Some r" and "moves (rv_state r) target"
  shows "R s s'"
proof -
  from assms(1) obtain a s1 where "transition_locked r target at reason cx effect s = (Inr a, s1)" and "m s1 = (Inr x, s')"
    unfolding andThen_Inr by blast
  then show ?thesis using of_transition [OF assms(3,4)] ends_inD [OF ends_quiet [OF assms(2)]] R_trans by blast
qed

lemma reconcile_expiry_ends: "ends_in R (reconcile_expiry now cx k)"
proof (rule ends_inI)
  fix s x s' assume run: "reconcile_expiry now cx k s = (Inr x, s')"
  show "R s s'"
  proof (cases "om_find (co_records s) k")
    case None
    with run show ?thesis by (simp add: reconcile_expiry_def R_refl)
  next
    case (Some r)
    show ?thesis
      using run Some transition_then [OF _ quiet_counts(1) Some moves_of(3)] transition_then [OF _ quiet_counts(2) Some moves_of(5)] R_refl [of s]
      by (auto simp: reconcile_expiry_def Let_def consumes_state split: if_splits)
  qed
qed

lemma reconcile_record_ends: "ends_in R (reconcile_record now cx k)"
proof (rule ends_inI)
  fix s x s' assume run: "reconcile_record now cx k s = (Inr x, s')"
  show "R s s'"
  proof (cases "om_find (co_records s) k")
    case None
    with run show ?thesis by (simp add: reconcile_record_def R_refl)
  next
    case (Some r)
    show ?thesis
    proof (cases "rv_state r = RsRecallPending \<and> rv_recall_effective_at r > 0 \<and> \<not> now < rv_recall_effective_at r")
      case True
      then have "moves (rv_state r) RsRevoked" by (simp add: moves_of(3))
      with True run Some transition_then [OF _ quiet_counts(1) Some] show ?thesis by (simp add: reconcile_record_def)
    next
      case False
      let ?open = "if rv_state r = RsCommitted \<and> \<not> now < iv_start (tm_interval (rv_terms r)) \<and>
          now < iv_end (tm_interval (rv_terms r))
        then andThen (transition_locked r RsActive now ''interval opened'' cx 0) (\<lambda>_. ret ()) else ret ()"
      from False run Some obtain s1 where opened: "?open s = (Inr (), s1)" and rest: "reconcile_expiry now cx k s1 = (Inr x, s')"
        by (auto simp: reconcile_record_def andThen_Inr)
      have "R s s1"
        using opened moves_of(6) transition_then [OF _ quiet_counts(3) Some] by (auto simp: R_refl ret_def split: if_splits)
      then show ?thesis using ends_inD [OF reconcile_expiry_ends rest] by (rule R_trans)
    qed
  qed
qed

lemma reconcile_ends: "ends_in R (reconcile_locked now)"
proof (rule ends_inI)
  fix s x s' assume "reconcile_locked now s = (Inr x, s')"
  then obtain s1 where work: "each (reconcile_record now (coordinator_context s ''time reconciliation'')) (reconcile_work now s) s = (Inr (), s1)"
    and holds: "each (\<lambda>i. release_hold_locked i ''hold deadline reached'' False) (expired_holds now s1) s1 = (Inr x, s')"
    by (auto simp: reconcile_locked_def andThen_Inr)
  have "R s s1"
    by (rule ends_inD [OF ends_each work]) (rule reconcile_record_ends)
  moreover have "R s1 s'"
    by (rule ends_inD [OF ends_each holds]) (rule ends_quiet [OF quiet_ops(6)])
  ultimately show "R s s'" by (rule R_trans)
qed

end

interpretation life_steps: transition_relation life
  by unfold_locales (auto intro: life_core transition_life_at)

lemma count_revocation_life: "ends_in life count_revocation"
  by (rule life_quiet [OF quiet_counts(1)])

lemma reconcile_life: "ends_in life (reconcile_locked now)"
  by (rule life_steps.reconcile_ends)

lemma retire_record_life:
  assumes "om_find (co_records s) k = None \<or> (\<exists>r. om_find (co_records s) k = Some r \<and> is_terminal (rv_state r))"
  shows "life s (retire_record now k s)"
proof (cases "om_find (co_records s) k")
  case None
  then show ?thesis by (simp add: retire_record_def life_refl)
next
  case (Some r)
  with assms have "is_terminal (rv_state r)" by simp
  from life_retire [OF Some this] show ?thesis
    by (rule life_trans) (rule life_core, simp add: retire_record_def Some Let_def core_def)
qed

lemma retire_record_generations [simp]: "co_generations (retire_record now k s) = co_generations s"
  by (simp add: retire_record_def Let_def split: option.splits)

definition retirable :: "coordinator \<Rightarrow> reservation_key \<Rightarrow> bool" where
  "retirable s k \<longleftrightarrow> (case om_find (co_records s) k of None \<Rightarrow> True | Some r \<Rightarrow> is_terminal (rv_state r))"

lemma retire_record_ok:
  assumes "coord_ok s" and "retirable s k"
  shows "coord_ok (retire_record now k s) \<and> (\<forall>k'. retirable s k' \<longrightarrow> retirable (retire_record now k s) k')"
proof (cases "om_find (co_records s) k")
  case None
  then show ?thesis using assms by (simp add: retire_record_def)
next
  case (Some r)
  let ?s' = "s\<lparr>co_records := om_erase k (co_records s), co_history_count := co_history_count s - 1\<rparr>"
  have core: "core (retire_record now k s) = core ?s'" by (simp add: retire_record_def Some Let_def core_def)
  then have "co_records (retire_record now k s) = om_erase k (co_records s)" by (simp add: core_def)
  then have "retirable (retire_record now k s) k'" if "retirable s k'" for k'
    using that assms(1) by (simp add: retirable_def coord_ok_def records_ok_def om_find_erase)
  moreover have "coord_ok ?s'" using assms Some by (intro coord_ok_retire) (auto simp: retirable_def)
  ultimately show ?thesis using coord_ok_core [OF core] by simp
qed

lemma retire_all_life:
  assumes "\<forall>k \<in> set ks. retirable s k"
  shows "life s (fold (retire_record now) ks s)"
proof (rule life_if_ok)
  have "co_generations (fold (retire_record now) ks s) = co_generations s" for s
    by (induction ks arbitrary: s) simp_all
  then show "registered (fold (retire_record now) ks s) i g" if "registered s i g" for i g
    using that by (simp add: registered_def)
  show "life s (fold (retire_record now) ks s)" if "coord_ok s"
    using that assms
  proof (induction ks arbitrary: s)
    case (Cons k ks)
    have "life s (retire_record now k s)"
      using Cons.prems by (intro retire_record_life) (auto simp: retirable_def split: option.splits)
    moreover have "life (retire_record now k s) (fold (retire_record now) ks (retire_record now k s))"
      using Cons.prems retire_record_ok [of s k now] by (intro Cons.IH) auto
    ultimately show ?case by (auto intro: life_trans)
  qed (simp add: life_refl)
qed

lemma retirement_order_retirable:
  assumes "om_ok (co_records s)" and "k \<in> set (retirement_order s)"
  shows "retirable s k"
  using assms by (auto simp: retirement_order_def Let_def retirable_def om_find_iff [symmetric] split: option.splits)
    (metis om_find_iff option.inject)

lemma release_terminal_history_life: "ends_in life (release_terminal_history_locked now)"
proof (rule ends_inI)
  fix s x s' assume run: "release_terminal_history_locked now s = (Inr x, s')"
  define victims where "victims = take (min (co_history_count s - cfg_max_history_records (co_config s)) 64) (retirement_order s)"
  note run' = run [unfolded release_terminal_history_locked_def Let_def, folded victims_def]
  show "life s s'"
  proof (cases "co_history_count s \<le> cfg_max_history_records (co_config s) \<or> victims = []")
    case True
    with run' have "s' = s" by (auto split: if_splits)
    then show ?thesis by (simp add: life_refl)
  next
    case False
    with run' obtain seq s1 where app: "append_locked (DrRetire
        \<lparr>rt_ids = map fst victims, rt_generations = map snd victims, rt_at = now\<rparr>) s = (Inr seq, s1)"
      and s': "s' = fold (retire_record now) victims s1"
      by (auto simp: andThen_Inr modify_def)
    have core: "core s1 = core s" by (rule quiet_Inr [OF quiet_ops(1) app])
    have "life s1 s'"
    proof (rule life_if_ok)
      have "co_generations (fold (retire_record now) ks t) = co_generations t" for ks t
        by (induction ks arbitrary: t) simp_all
      then show "registered s' i g" if "registered s1 i g" for i g
        using that by (simp add: registered_def s')
      assume "coord_ok s1"
      then have "om_ok (co_records s)" using coord_ok_core [OF core] by (simp add: coord_ok_def records_ok_def)
      then have "\<forall>k \<in> set victims. retirable s1 k"
        using retirement_order_retirable [of s] core by (auto dest!: in_set_takeD simp: core_def retirable_def victims_def)
      then show "life s1 s'" unfolding s' by (rule retire_all_life)
    qed
    then show ?thesis using life_core [OF core [symmetric]] life_trans by blast
  qed
qed

lemma count_move_same [simp]: "count_move a a s = s"
  by (simp add: count_move_def)

lemma mark_effect:
  assumes "mark_applicability_locked r ap reason at s = (Inr x, s')"
    and "\<not> (rv_applicability r = ap \<and> rv_applicability_reason r = reason)"
  shows "\<exists>r'. record_key r' = record_key r \<and> rv_state r' = rv_state r \<and> rv_terms r' = rv_terms r \<and>
    rv_authority r' = rv_authority r \<and> rv_applicability r' = ap \<and>
    core s' = core (sync_queues_locked r' (put_record r' s))"
proof -
  from assms obtain seq s1 where app: "append_locked (DrReservationApplicability
       \<lparr>am_id = rv_id r, am_generation = rv_generation r, am_applicability = ap, am_reason = reason, am_at = at\<rparr>) s = (Inr seq, s1)"
    and rest: "sync_index_locked (r\<lparr>rv_applicability := ap, rv_applicability_reason := reason, rv_sequence := seq,
        rv_state_changed_at := at\<rparr>)
      (sync_queues_locked (r\<lparr>rv_applicability := ap, rv_applicability_reason := reason, rv_sequence := seq,
        rv_state_changed_at := at\<rparr>) (put_record (r\<lparr>rv_applicability := ap, rv_applicability_reason := reason,
        rv_sequence := seq, rv_state_changed_at := at\<rparr>) s1)) = (Inr x, s')"
    unfolding mark_applicability_locked_def Let_def by (auto simp: andThen_Inr)
  let ?r' = "r\<lparr>rv_applicability := ap, rv_applicability_reason := reason, rv_sequence := seq, rv_state_changed_at := at\<rparr>"
  have "core s' = core (sync_queues_locked ?r' (put_record ?r' s))"
    using quiet_Inr [OF quiet_ops(2) rest] quiet_Inr [OF quiet_ops(1) app] core_sync_queues_cong core_put_cong by metis
  then show ?thesis by (intro exI [of _ ?r']) (simp add: record_key_def)
qed

lemma mark_life_at:
  assumes found: "om_find (co_records s) k = Some r"
    and run: "mark_applicability_locked r ap reason at s = (Inr x, s')"
  shows "life s s'"
proof (cases "rv_applicability r = ap \<and> rv_applicability_reason r = reason")
  case True
  with run show ?thesis by (simp add: mark_applicability_locked_def life_refl)
next
  case False
  from mark_effect [OF run False] obtain r' where r': "record_key r' = record_key r" "rv_state r' = rv_state r"
    "rv_terms r' = rv_terms r" "rv_authority r' = rv_authority r"
    and core: "core s' = core (sync_queues_locked r' (put_record r' s))" by blast
  show ?thesis
  proof (rule life_if_ok)
    from core have "co_generations s' = co_generations s" by (simp add: core_def)
    then show "registered s' i g" if "registered s i g" for i g using that by (simp add: registered_def)
    assume "coord_ok s"
    then have "life s (sync_queues_locked r' (put_record r' (count_move (rv_state r) (rv_state r') s)))"
      using found coord_ok_keyed [OF _ found] r' by (intro life_restate) auto
    then show "life s s'" using life_core [OF core [symmetric]] r'(2) by (auto intro: life_trans)
  qed
qed

subsection \<open>Succession\<close>

lemma core_register_cong: "core s = core s' \<Longrightarrow> core (register_record_locked r s) = core (register_record_locked r s')"
  by (simp add: core_def register_record_locked_def put_record_def Let_def split: option.splits)

lemma successor_sel:
  "rv_id (successor_of s cx now policy b n r) = rv_id r"
  "rv_generation (successor_of s cx now policy b n r) = rv_generation r + 1"
  "born (successor_of s cx now policy b n r)"
  by (simp_all add: successor_of_def Let_def born_def)

lemma commit_successor_effect:
  assumes "commit_successor cx now policy b r s = (Inr x, s')"
  shows "\<exists>old r'. record_key old = record_key r \<and> rv_state old = RsSuperseded \<and> rv_terms old = rv_terms r \<and>
    rv_authority old = rv_authority r \<and> r' = successor_of s cx now policy b (st_last_sequence (co_store s) + 1) r \<and>
    core s' = core (sync_queues_locked r' (register_record_locked r'
      (sync_queues_locked old (put_record old (count_move (rv_state r) RsSuperseded s)))))"
proof -
  define n where "n = st_last_sequence (co_store s) + 1"
  define r' where "r' = successor_of s cx now policy b n r"
  define edge where "edge = revalidation_edge r r' now n"
  define old where "old = stated RsSuperseded now ''superseded by revalidation'' (rv_last_provenance r') r"
  define m where "m = \<lparr>mu_record = r', mu_series = None, mu_members = [], mu_edge = Some edge,
    mu_supersede_record = True, mu_companions = [], mu_attempt = None\<rparr>"
  note run = assms [unfolded commit_successor_def Let_def, folded n_def, folded r'_def, folded edge_def old_def,
      folded m_def, unfolded andThen_Inr guard_op_def modify_def]
  from run obtain seq s1 s3 s5 u where app: "append_locked (DrReservationAmend m) s = (Inr seq, s1)"
    and erase: "index_erase_locked old (set_state_locked r RsSuperseded now ''superseded by revalidation'' (rv_last_provenance r') s1) = (Inr u, s3)"
    and sync: "sync_index_locked r' (register_record_locked r' ((sync_queues_locked old s3)\<lparr>co_edges := co_edges s3 @ [edge]\<rparr>)) = (Inr (), s5)"
    and fin: "s' = bump cst_revalidations_update (sync_queues_locked r' s5)"
    by (auto split: if_splits)
  have core1: "core s1 = core s" by (rule quiet_Inr [OF quiet_ops(1) app])
  have "set_state_locked r RsSuperseded now ''superseded by revalidation'' (rv_last_provenance r') s1 =
      put_record old (count_move (rv_state r) RsSuperseded s1)"
    by (simp add: set_state_locked_def old_def)
  then have "core s3 = core (put_record old (count_move (rv_state r) RsSuperseded s1))"
    using quiet_Inr [OF quiet_ops(4) erase] by simp
  also have "\<dots> = core (put_record old (count_move (rv_state r) RsSuperseded s))"
    by (intro core_put_cong core_count_cong core1)
  finally have "core s3 = core (put_record old (count_move (rv_state r) RsSuperseded s))" .
  then have "core ((sync_queues_locked old s3)\<lparr>co_edges := co_edges s3 @ [edge]\<rparr>) =
      core (sync_queues_locked old (put_record old (count_move (rv_state r) RsSuperseded s)))"
    unfolding core_holds by (rule core_sync_queues_cong)
  then have "core s5 = core (register_record_locked r'
      (sync_queues_locked old (put_record old (count_move (rv_state r) RsSuperseded s))))"
    using quiet_Inr [OF quiet_ops(2) sync] core_register_cong by metis
  then have "core s' = core (sync_queues_locked r' (register_record_locked r'
      (sync_queues_locked old (put_record old (count_move (rv_state r) RsSuperseded s)))))"
    unfolding fin core_bump by (rule core_sync_queues_cong)
  then show ?thesis by (intro exI [of _ old] exI [of _ r']) (simp add: old_def r'_def n_def)
qed

lemma commit_successor_life:
  assumes found: "om_find (co_records s) k = Some r" and live: "\<not> is_terminal (rv_state r)"
    and run: "commit_successor cx now policy b r s = (Inr x, s')"
  shows "life s s'"
proof -
  from commit_successor_effect [OF run] obtain old r' where old: "record_key old = record_key r" "rv_state old = RsSuperseded"
    "rv_terms old = rv_terms r" "rv_authority old = rv_authority r"
    and r': "r' = successor_of s cx now policy b (st_last_sequence (co_store s) + 1) r"
    and core: "core s' = core (sync_queues_locked r' (register_record_locked r'
      (sync_queues_locked old (put_record old (count_move (rv_state r) RsSuperseded s)))))" by blast
  define s1 where "s1 = sync_queues_locked old (put_record old (count_move (rv_state r) RsSuperseded s))"
  define s2 where "s2 = sync_queues_locked r' (register_record_locked r' s1)"
  have same: "co_generations s1 = co_generations s" "co_current_generation s1 = co_current_generation s"
    "co_records s1 = om_put (record_key r) old (co_records s)"
    by (simp_all add: s1_def old)
  have "life s s2"
  proof (rule life_if_ok)
    show "registered s2 i g" if "registered s i g" for i g
      using that registered_register [of r' s1 i g] same(1) by (simp add: s2_def registered_def)
    assume ok: "coord_ok s"
    then have gen: "generations_ok s" by (simp add: coord_ok_def)
    have key: "record_key r = k" using coord_ok_keyed [OF ok found] .
    have "life s s1"
      using life_restate [of s old r] found live key old unfolding s1_def by (simp add: moves_of(2))
    moreover have "life s1 s2"
      unfolding s2_def
    proof (rule life_succeed)
      show "rv_id r' = rv_id r" "rv_generation r' = rv_generation r + 1" "born r'"
        by (simp_all add: r' successor_sel)
      have at: "om_find (co_records s) (rv_id r, rv_generation r) = Some r"
        using found key by (simp add: record_key_def)
      show cur: "om_find (co_current_generation s1) (rv_id r) = Some (rv_generation r)"
        using generations_okD(4) [OF gen at live] same by simp
      show "is_terminal (rv_state v)" if "om_find (co_records s1) (rv_id r, g) = Some v" for g v
      proof (cases "g = rv_generation r")
        case True
        with that same(3) have "v = old" by (simp add: record_key_def)
        with old(2) show ?thesis by simp
      next
        case False
        then have "om_find (co_records s) (rv_id r, g) = Some v"
          using that same(3) by (simp add: record_key_def)
        from generations_okD(4) [OF gen this] False cur same(2) show ?thesis by auto
      qed
    qed
    ultimately show "life s s2" by (rule life_trans)
  qed
  moreover have "life s2 s'" by (rule life_core) (simp add: core s2_def s1_def)
  ultimately show ?thesis by (rule life_trans)
qed

lemma auto_revalidate_life_at:
  assumes found: "om_find (co_records s) k = Some r" and live: "\<not> is_terminal (rv_state r)"
    and run: "auto_revalidate_record_locked r now cx s = (Inr x, s')"
  shows "life s s'"
proof -
  have same: "life s (restore taken s1)" if "core s1 = core s" for taken s1
    by (rule life_core) (simp add: core_simps that)
  show ?thesis
  proof (cases "resolve_binding_locked s (rv_terms r)")
    case (Inl e)
    with run show ?thesis by (simp add: auto_revalidate_record_locked_def life_refl)
  next
    case (Inr b)
    obtain st taken s1 where susp: "suspend r [] s = ((st, taken), s1)" by (metis surj_pair)
    have core: "core s1 = core s" using core_suspend(1) [of r "[]" s] susp by simp
    define policy where "policy = policy_for_locked s
      (if av_policy (rv_authority r) = [] then tm_policy (rv_terms r) else av_policy (rv_authority r))"
    note run' = run [unfolded auto_revalidate_record_locked_def Inr sum.case Let_def, folded policy_def, unfolded susp, simplified]
    have found1: "om_find (co_records s1) k = Some r" using found core by (simp add: core_def)
    show ?thesis
    proof (cases "is_ok st \<and> as_outcome (assess_locked s1 (rv_terms r) b policy (unat (pl_max_conflict_set policy))) = AoCommittable")
      case False
      with run' same [OF core] show ?thesis by (cases st) (auto split: if_splits)
    next
      case True
      with run' obtain y where "commit_successor cx now policy b r s1 = (Inr y, s')"
        by (cases st) (auto split: prod.splits sum.splits)
      from commit_successor_life [OF found1 live this] life_core [OF core [symmetric]] show ?thesis
        using life_trans by blast
    qed
  qed
qed

subsection \<open>Refreshing applicability\<close>

definition grows :: "coordinator \<Rightarrow> coordinator \<Rightarrow> bool" where
  "grows s s' \<longleftrightarrow> (\<forall>i g. registered s i g \<longrightarrow> registered s' i g)"

interpretation grows: step_preorder grows
  by unfold_locales (auto simp: grows_def)

lemma life_grows: "life s s' \<Longrightarrow> grows s s'"
  by (simp add: life_def grows_def)

lemma grows_left: "grows s s' \<Longrightarrow> generations_left s' \<Longrightarrow> generations_left s"
  unfolding grows_def generations_left_def by blast

lemma life_if:
  assumes "grows s s'" and "coord_ok s \<Longrightarrow> generations_left s' \<Longrightarrow> life s s'"
  shows "life s s'"
proof (cases "coord_ok s \<and> generations_left s'")
  case False
  with assms(1) show ?thesis by (auto simp: life_def grows_def)
qed (use assms(2) in blast)

lemma grows_core: "co_generations s' = co_generations s \<Longrightarrow> grows s s'"
  by (simp add: grows_def registered_def)

lemma mark_grows:
  assumes "mark_applicability_locked r ap reason at s = (Inr x, s')"
  shows "grows s s'"
proof (cases "rv_applicability r = ap \<and> rv_applicability_reason r = reason")
  case True
  with assms show ?thesis by (simp add: mark_applicability_locked_def grows_core)
next
  case False
  from mark_effect [OF assms False] show ?thesis by (auto simp: core_def intro!: grows_core)
qed

lemma commit_successor_grows:
  assumes "commit_successor cx now policy b r s = (Inr x, s')"
  shows "grows s s'"
proof -
  from commit_successor_effect [OF assms] obtain old r' where
    core: "core s' = core (sync_queues_locked r' (register_record_locked r'
      (sync_queues_locked old (put_record old (count_move (rv_state r) RsSuperseded s)))))" by blast
  show ?thesis
    using registered_core [OF core] registered_register [of r' "sync_queues_locked old (put_record old (count_move (rv_state r) RsSuperseded s))"]
    by (auto simp: grows_def registered_def)
qed

text \<open>A successful revalidation either left the core alone or committed a successor.\<close>

lemma auto_revalidate_cases:
  assumes run: "auto_revalidate_record_locked r now cx s = (Inr x, s')"
  obtains (same) "core s' = core s"
    | (succeeded) s1 b policy y where "core s1 = core s" "commit_successor cx now policy b r s1 = (Inr y, s')"
proof (cases "resolve_binding_locked s (rv_terms r)")
  case (Inl e)
  with run same show ?thesis by (simp add: auto_revalidate_record_locked_def)
next
  case (Inr b)
  obtain st taken s1 where susp: "suspend r [] s = ((st, taken), s1)" by (metis surj_pair)
  have core: "core s1 = core s" using core_suspend(1) [of r "[]" s] susp by simp
  define policy where "policy = policy_for_locked s
    (if av_policy (rv_authority r) = [] then tm_policy (rv_terms r) else av_policy (rv_authority r))"
  note run' = run [unfolded auto_revalidate_record_locked_def Inr sum.case Let_def, folded policy_def, unfolded susp, simplified]
  show ?thesis
  proof (cases "is_ok st \<and> as_outcome (assess_locked s1 (rv_terms r) b policy (unat (pl_max_conflict_set policy))) = AoCommittable")
    case False
    with run' have "s' = restore taken s1" by (cases st) (auto split: if_splits)
    with core same show ?thesis by (simp add: core_simps)
  next
    case True
    with run' obtain y where "commit_successor cx now policy b r s1 = (Inr y, s')"
      by (cases st) (auto split: prod.splits sum.splits)
    with core succeeded show ?thesis by blast
  qed
qed

lemma auto_revalidate_grows:
  assumes "auto_revalidate_record_locked r now cx s = (Inr x, s')"
  shows "grows s s'"
  using assms
proof (cases rule: auto_revalidate_cases)
  case same
  then show ?thesis by (auto simp: core_def intro: grows_core)
next
  case (succeeded s1 b policy y)
  then show ?thesis using commit_successor_grows [OF succeeded(2)] registered_core [OF succeeded(1)]
    by (simp add: grows_def)
qed

text \<open>What a revalidation or a mark may do to the records under other keys: nothing, or add a live one.\<close>

definition others_kept :: "reservation_key \<Rightarrow> coordinator \<Rightarrow> coordinator \<Rightarrow> bool" where
  "others_kept k s s' \<longleftrightarrow> (\<forall>k'. k' \<noteq> k \<longrightarrow> om_find (co_records s') k' = om_find (co_records s) k' \<or>
     (\<exists>r'. om_find (co_records s') k' = Some r' \<and> \<not> is_terminal (rv_state r')))"

lemma mark_others:
  assumes "mark_applicability_locked r ap reason at s = (Inr x, s')"
  shows "others_kept (record_key r) s s'"
proof (cases "rv_applicability r = ap \<and> rv_applicability_reason r = reason")
  case True
  with assms show ?thesis by (simp add: mark_applicability_locked_def others_kept_def)
next
  case False
  from mark_effect [OF assms False] show ?thesis by (auto simp: others_kept_def core_def)
qed

lemma auto_revalidate_others:
  assumes "auto_revalidate_record_locked r now cx s = (Inr x, s')"
  shows "others_kept (record_key r) s s'"
  using assms
proof (cases rule: auto_revalidate_cases)
  case same
  then show ?thesis by (simp add: others_kept_def core_def)
next
  case (succeeded s1 b policy y)
  have "\<not> is_terminal (rv_state (successor_of s1 cx now policy b n r))" for n
    by (simp add: successor_of_def Let_def)
  moreover from commit_successor_effect [OF succeeded(2)] obtain old r' where "record_key old = record_key r"
    and "r' = successor_of s1 cx now policy b (st_last_sequence (co_store s1) + 1) r"
    and "co_records s' = om_put (record_key r') r' (om_put (record_key old) old (co_records s1))"
    by (auto simp: core_def)
  moreover have "co_records s1 = co_records s" using succeeded(1) by (simp add: core_def)
  ultimately show ?thesis by (auto simp: others_kept_def)
qed

lemma others_kept_trans: "others_kept k s s' \<Longrightarrow> others_kept k s' s'' \<Longrightarrow> others_kept k s s''"
  unfolding others_kept_def by metis

text \<open>The two ways a refresh of one record goes on after the reason for its staleness is known.\<close>

lemma refresh_record_cases:
  assumes run: "refresh_record now auto k s = (Inr x, s')"
  obtains (unchanged) "s' = s"
    | (marked) r ap reason where "om_find (co_records s) k = Some r" "mark_applicability_locked r ap reason now s = (Inr x, s')"
    | (revalidated) r cx y s1 where "om_find (co_records s) k = Some r" "auto_revalidate_record_locked r now cx s = (Inr y, s1)"
        "s' = s1 \<or> (\<exists>r1 reason. om_find (co_records s1) k = Some r1 \<and>
           mark_applicability_locked r1 ApRevalidationRequired reason now s1 = (Inr x, s'))"
proof (cases "om_find (co_records s) k")
  case None
  with run unchanged show ?thesis by (simp add: refresh_record_def)
next
  case (Some r)
  show ?thesis
  proof (cases "stale_reason s r")
    case None
    show ?thesis
    proof (cases "rv_applicability r = ApCurrent")
      case True
      with run Some None have "s' = s" by (simp add: refresh_record_def)
      then show ?thesis by (rule unchanged)
    next
      case False
      with run Some None have "mark_applicability_locked r ApCurrent ArCurrent now s = (Inr x, s')"
        by (simp add: refresh_record_def)
      with Some show ?thesis by (rule marked)
    qed
  next
    case (Some reason)
    define attempt where "attempt = (auto \<and>
      pl_auto_revalidate_on_generation_change (policy_for_locked s (av_policy (rv_authority r))))"
    define cx where "cx = coordinator_context s ''policy-permitted revalidation''"
    note run' = run [unfolded refresh_record_def \<open>om_find (co_records s) k = Some r\<close> option.case Some Let_def,
        folded attempt_def, folded cx_def, unfolded andThen_Inr]
    show ?thesis
    proof (cases attempt)
      case False
      with run' \<open>om_find (co_records s) k = Some r\<close> marked show ?thesis by (auto simp: ret_def)
    next
      case True
      from run' [unfolded eqTrueI [OF True] if_True simp_thms(22)] obtain y s1 where "auto_revalidate_record_locked r now cx s = (Inr y, s1)"
        and "(case om_find (co_records s1) k of None \<Rightarrow> (Inr (), s1)
          | Some r1 \<Rightarrow> if rv_applicability r1 = ApCurrent then (Inr (), s1)
              else mark_applicability_locked r1 ApRevalidationRequired reason now s1) = (Inr x, s')"
        by blast
      then have "s' = s1 \<or> (\<exists>r1 reason. om_find (co_records s1) k = Some r1 \<and>
          mark_applicability_locked r1 ApRevalidationRequired reason now s1 = (Inr x, s'))"
        by (auto split: option.splits if_splits)
      with \<open>om_find (co_records s) k = Some r\<close> \<open>auto_revalidate_record_locked r now cx s = (Inr y, s1)\<close>
      show ?thesis by (rule revalidated)
    qed
  qed
qed

lemma refresh_record_grows: "ends_in grows (refresh_record now auto k)"
proof (rule ends_inI)
  fix s x s' assume "refresh_record now auto k s = (Inr x, s')"
  then show "grows s s'"
  proof (cases rule: refresh_record_cases)
    case unchanged
    then show ?thesis by (simp add: grows.R_refl)
  next
    case (marked r ap reason)
    then show ?thesis by (simp add: mark_grows)
  next
    case (revalidated r cx y s1)
    then show ?thesis using auto_revalidate_grows mark_grows grows.R_trans by metis
  qed
qed

lemma refresh_record_life:
  assumes run: "refresh_record now auto k s = (Inr x, s')"
    and live: "\<And>r. om_find (co_records s) k = Some r \<Longrightarrow> \<not> is_terminal (rv_state r)"
  shows "life s s'"
  using run
proof (cases rule: refresh_record_cases)
  case unchanged
  then show ?thesis by (simp add: life_refl)
next
  case (marked r ap reason)
  then show ?thesis by (rule mark_life_at)
next
  case (revalidated r cx y s1)
  have "life s s1" using auto_revalidate_life_at revalidated(1,2) live by blast
  moreover have "life s1 s'" using revalidated(3) mark_life_at life_refl by metis
  ultimately show ?thesis by (rule life_trans)
qed

lemma refresh_record_others:
  assumes ok: "coord_ok s" and run: "refresh_record now auto k s = (Inr x, s')"
    and live: "\<And>r. om_find (co_records s) k = Some r \<Longrightarrow> \<not> is_terminal (rv_state r)" and left: "generations_left s'"
  shows "others_kept k s s'"
  using run
proof (cases rule: refresh_record_cases)
  case unchanged
  then show ?thesis by (simp add: others_kept_def)
next
  case (marked r ap reason)
  with mark_others coord_ok_keyed [OF ok] show ?thesis by metis
next
  case (revalidated r cx y s1)
  have "others_kept k s s1" using auto_revalidate_others revalidated(1,2) coord_ok_keyed [OF ok] by metis
  moreover have "others_kept k s1 s'"
  proof -
    have "life s s1" using auto_revalidate_life_at revalidated(1,2) live by blast
    moreover have "grows s1 s'" using revalidated(3) mark_grows grows.R_refl by metis
    ultimately have "coord_ok s1" using ok left grows_left lifeD(2) by blast
    with revalidated(3) mark_others coord_ok_keyed show ?thesis
      by (metis others_kept_def)
  qed
  ultimately show ?thesis by (rule others_kept_trans)
qed

lemma each_refresh_life:
  assumes "each (refresh_record now auto) ks s = (Inr x, s')" and "distinct ks"
    and "\<And>k r. k \<in> set ks \<Longrightarrow> om_find (co_records s) k = Some r \<Longrightarrow> \<not> is_terminal (rv_state r)"
    and "coord_ok s" and "generations_left s'"
  shows "life s s'"
  using assms
proof (induction ks arbitrary: s)
  case Nil
  then show ?case by (simp add: life_refl)
next
  case (Cons k ks)
  from Cons.prems(1) obtain u s1 where first: "refresh_record now auto k s = (Inr u, s1)"
    and rest: "each (refresh_record now auto) ks s1 = (Inr x, s')" by (auto simp: andThen_Inr)
  have "grows s1 s'" by (rule ends_inD [OF grows.ends_each rest]) (rule refresh_record_grows)
  with Cons.prems(5) have left: "generations_left s1" by (rule grows_left [rotated])
  have live: "om_find (co_records s) k = Some r \<Longrightarrow> \<not> is_terminal (rv_state r)" for r
    using Cons.prems(3) [of k] by simp
  have step: "life s s1" using refresh_record_life [OF first live] .
  then have ok1: "coord_ok s1" using lifeD(2) Cons.prems(4) left by blast
  have "others_kept k s s1" using refresh_record_others [OF Cons.prems(4) first live left] .
  then have "\<not> is_terminal (rv_state r)" if "k' \<in> set ks" "om_find (co_records s1) k' = Some r" for k' r
    using that Cons.prems(2,3) unfolding others_kept_def by (metis distinct.simps(2) list.set_intros(2) option.inject)
  then have "life s1 s'" using Cons.IH [OF rest] Cons.prems(2,5) ok1 by simp
  with step show ?case by (rule life_trans)
qed

lemma refresh_life: "ends_in life (refresh_applicability_locked now auto)"
proof (rule ends_inI)
  fix s x s' assume run: "refresh_applicability_locked now auto s = (Inr x, s')"
  let ?ks = "map fst (filter (\<lambda>(_, r). \<not> is_terminal (rv_state r)) (co_records s))"
  have each: "each (refresh_record now auto) ?ks s = (Inr x, s')"
    using run by (simp add: refresh_applicability_locked_def)
  show "life s s'"
  proof (rule life_if)
    show "grows s s'" by (rule ends_inD [OF grows.ends_each each]) (rule refresh_record_grows)
    assume ok: "coord_ok s" and left: "generations_left s'"
    then have m: "om_ok (co_records s)" by (simp add: coord_ok_def records_ok_def)
    have "distinct ?ks" using om_distinct [OF m] by (rule distinct_map_filter)
    moreover have "\<not> is_terminal (rv_state r)" if "k \<in> set ?ks" "om_find (co_records s) k = Some r" for k r
      using that om_find_iff [OF m] by fastforce
    ultimately show "life s s'" using each_refresh_life [OF each] ok left by blast
  qed
qed

subsection \<open>The requests\<close>

lemma quiet_requests:
  "quiet (validate_context_locked cx att)" "quiet (record_now i gen f)" "quiet (modify (bump u))"
  "quiet (modify (enter_overcommit m))"
  by (simp_all add: quiet_def validate_context_locked_def op_defs record_now_def core_simps)
    (simp add: core_def enter_overcommit_def)

lemma with_record_life:
  assumes "\<And>s r x s'. om_find (co_records s) (i, gen) = Some r \<Longrightarrow> f r s = (Inr x, s') \<Longrightarrow> life s s'"
  shows "ends_in life (with_record i gen f)"
  by (rule ends_inI) (auto simp: with_record_def find_record_locked_def split: option.splits intro: assms)

lemma with_any_record_life: "(\<And>r. ends_in life (f r)) \<Longrightarrow> ends_in life (with_record i gen f)"
  by (rule with_record_life) (rule ends_inD)

lemmas life_utils [THEN life_quiet] = quiet_ops(1,5,7) quiet_requests

lemma remember_life:
  "ends_in life (modify (\<lambda>s. bump u (remember_attempt_locked a s)))" "ends_in life (modify (remember_attempt_locked a))"
  by (auto intro!: life.ends_modify life_trans [OF life_remember life_bump] life_remember)

lemmas life_rules = life.ends_andThen life.ends_pure life_utils remember_life reconcile_life refresh_life
  release_terminal_history_life count_revocation_life with_any_record_life

text \<open>A transition out of a live record, followed by bookkeeping.\<close>

lemma transition_then_life:
  assumes "om_find (co_records s) k = Some r" and "moves (rv_state r) target"
    and "andThen (transition_locked r target at reason cx effect) f s = (Inr x, s')"
    and "\<And>a. ends_in life (f a)"
  shows "life s s'"
  using assms(3) transition_life_at [OF assms(1,2)] assms(4) unfolding andThen_Inr
  by (metis ends_inD life_trans)

lemma release_record_life: "ends_in life (with_record i gen (release_record cx i gen now))"
proof (rule with_record_life)
  fix s r x s' assume found: "om_find (co_records s) (i, gen) = Some r" and run: "release_record cx i gen now r s = (Inr x, s')"
  show "life s s'"
  proof (cases "is_terminal (rv_state r)")
    case True
    with run show ?thesis by (auto simp: release_record_def ret_def fail_def life_refl split: if_splits)
  next
    case False
    with run show ?thesis
      by (auto simp: release_record_def split: if_splits
          intro!: transition_then_life [OF found moves_of(1)] life_rules)
  qed
qed

lemma release_life: "ends_in life (release_locked cx i gen)"
  unfolding release_locked_def by (auto intro!: life_rules release_record_life)

lemma recall_pending_life:
  assumes found: "om_find (co_records s) k = Some r" and key: "k = (i, gen)" and "consumes r"
    and run: "andThen (transition_locked r RsRecallPending now reason cx effect) (\<lambda>attempt.
      with_record i gen (\<lambda>r1.
        let r2 = r1\<lparr>rv_recall_grace := g\<rparr>
        in andThen (modify (put_record r2)) (\<lambda>_. andThen (update_index_locked r2) (\<lambda>_.
           andThen (modify (\<lambda>s. bump cst_recalls_update (remember_attempt_locked attempt (sync_queues_locked r2 s)))) (\<lambda>_.
             record_now i gen f))))) s = (Inr x, s')"
  shows "life s s'"
proof (rule transition_then_life [OF found _ run])
  show "moves (rv_state r) RsRecallPending" using \<open>consumes r\<close> by (simp add: moves_of consumes_state)
  fix attempt
  show "ends_in life (with_record i gen (\<lambda>r1.
        let r2 = r1\<lparr>rv_recall_grace := g\<rparr>
        in andThen (modify (put_record r2)) (\<lambda>_. andThen (update_index_locked r2) (\<lambda>_.
           andThen (modify (\<lambda>s. bump cst_recalls_update (remember_attempt_locked attempt (sync_queues_locked r2 s)))) (\<lambda>_.
             record_now i gen f)))))"
  proof (rule with_record_life)
    fix s r1 x s' assume at: "om_find (co_records s) (i, gen) = Some r1"
      and run1: "(let r2 = r1\<lparr>rv_recall_grace := g\<rparr>
        in andThen (modify (put_record r2)) (\<lambda>_. andThen (update_index_locked r2) (\<lambda>_.
           andThen (modify (\<lambda>s. bump cst_recalls_update (remember_attempt_locked attempt (sync_queues_locked r2 s)))) (\<lambda>_.
             record_now i gen f)))) s = (Inr x, s')"
    define r2 where "r2 = r1\<lparr>rv_recall_grace := g\<rparr>"
    from run1 [unfolded Let_def, folded r2_def] obtain u s1 where idx: "update_index_locked r2 (put_record r2 s) = (Inr u, s1)"
      and s': "s' = bump cst_recalls_update (remember_attempt_locked attempt (sync_queues_locked r2 s1))"
      by (auto simp: andThen_Inr modify_def record_now_def)
    have core: "core (sync_queues_locked r2 s1) = core (sync_queues_locked r2 (put_record r2 s))"
      by (rule core_sync_queues_cong) (rule quiet_Inr [OF quiet_ops(3) idx])
    have "life s (sync_queues_locked r2 s1)"
    proof (rule life_if_ok)
      from core have "co_generations (sync_queues_locked r2 s1) = co_generations s" by (simp add: core_def)
      then show "registered (sync_queues_locked r2 s1) j h" if "registered s j h" for j h
        using that by (simp add: registered_def)
      assume "coord_ok s"
      then have "record_key r2 = (i, gen)" using coord_ok_keyed [OF _ at] by (simp add: r2_def record_key_def)
      then have "life s (sync_queues_locked r2 (put_record r2 (count_move (rv_state r1) (rv_state r2) s)))"
        using at by (intro life_restate) (simp_all add: r2_def)
      then show "life s (sync_queues_locked r2 s1)"
        using life_core [OF core [symmetric]] by (auto simp: r2_def intro: life_trans)
    qed
    then show "life s s'" unfolding s' by (blast intro: life_trans life_remember life_bump)
  qed
qed

lemma recall_record_life: "ends_in life (with_record i gen (recall_record cx i gen effective_at grace force now))"
proof (rule with_record_life)
  fix s r x s' assume found: "om_find (co_records s) (i, gen) = Some r"
    and run: "recall_record cx i gen effective_at grace force now r s = (Inr x, s')"
  from run have "consumes r"
    and effect: "recall_effect cx i gen effective_at grace force now (policy_for_locked s (av_policy (rv_authority r))) r s = (Inr x, s')"
    by (auto simp: recall_record_def Let_def split: if_splits)
  define policy where "policy = policy_for_locked s (av_policy (rv_authority r))"
  define effect0 where "effect0 = (if force \<or> effective_at = 0 then now else effective_at)"
  define eff where "eff = (if iv_end (tm_interval (rv_terms r)) < effect0 then iv_end (tm_interval (rv_terms r)) else effect0)"
  define g where "g = (if grace = 0 then pl_default_recall_grace policy else grace)"
  note effect' = effect [folded policy_def, unfolded recall_effect_def Let_def, folded effect0_def, folded eff_def, folded g_def]
  have mv: "moves (rv_state r) RsRevoked" using \<open>consumes r\<close> by (simp add: moves_of consumes_state)
  have "life s s'" if "andThen (transition_locked r RsRevoked now (reason_or cx ''recalled with immediate effect'') cx 0) (\<lambda>attempt.
      andThen (modify (remember_attempt_locked attempt)) (\<lambda>_. andThen count_revocation (\<lambda>_. record_now i gen one_transition))) s =
      (Inr x, s')"
    by (rule transition_then_life [OF found mv that]) (auto intro!: life_rules)
  then show "life s s'"
    using effect' recall_pending_life [OF found refl \<open>consumes r\<close>, unfolded Let_def]
    by (auto simp: ret_def fail_def life_refl split: if_splits)
qed

lemma recall_life: "ends_in life (recall_locked cx i gen effective_at grace force)"
  unfolding recall_locked_def
  by (auto intro!: life_rules recall_record_life split: option.splits)

lemma revoke_record_life: "ends_in life (with_record i gen (revoke_record cx i gen now))"
proof (rule with_record_life)
  fix s r x s' assume found: "om_find (co_records s) (i, gen) = Some r" and run: "revoke_record cx i gen now r s = (Inr x, s')"
  show "life s s'"
  proof (cases "find_attempt_locked s (cx_attempt cx) = None \<and> rv_state r \<noteq> RsRevoked \<and> consumes r")
    case True
    then have "moves (rv_state r) RsRevoked" by (simp add: moves_of consumes_state)
    with True run show ?thesis
      by (auto simp: revoke_record_def intro!: transition_then_life [OF found] life_rules)
  next
    case False
    with run show ?thesis by (auto simp: revoke_record_def life_refl life_bump split: if_splits)
  qed
qed

lemma revoke_life: "ends_in life (revoke_locked cx i gen)"
  unfolding revoke_locked_def by (auto intro!: life_rules revoke_record_life)

lemma revalidate_record_life: "ends_in life (with_record i gen (revalidate_record cx i gen mark_stale now))"
proof (rule with_record_life)
  fix s r x s' assume found: "om_find (co_records s) (i, gen) = Some r"
    and run: "revalidate_record cx i gen mark_stale now r s = (Inr x, s')"
  then show "life s s'"
    by (auto simp: revalidate_record_def andThen_Inr ret_def fail_def record_now_def life_refl
        split: if_splits option.splits intro: mark_life_at auto_revalidate_life_at)
qed

lemma revalidate_life: "ends_in life (revalidate_locked cx i gen mark_stale)"
  unfolding revalidate_locked_def by (auto intro!: life_rules revalidate_record_life)

lemma compact_life: "ends_in life compact_if_due"
proof (rule life_quiet)
  have "quiet compact_locked"
    by (auto simp: quiet_def compact_locked_def Let_def core_def split: prod.splits sum.splits)
  then show "quiet compact_if_due" by (simp add: quiet_def compact_if_due_def)
qed

lemma reconcile_lifecycle_life: "ends_in life (reconcile_lifecycle_locked cx)"
  unfolding reconcile_lifecycle_locked_def by (auto intro!: life_rules compact_life)

lemma detect_overcommit_life: "ends_in life (detect_overcommit_locked resource now)"
proof (rule life_quiet)
  have "quiet (andThen (append_locked (DrOvercommit m)) (\<lambda>_. modify (enter_overcommit m)))"
    "quiet (andThen (append_locked (DrOvercommit m)) (\<lambda>_. modify (\<lambda>s. bump u (enter_overcommit m s))))" for m u
    by (auto intro!: quiet_andThen quiet_ops quiet_requests)
      (simp add: quiet_def modify_def core_simps, simp add: core_def enter_overcommit_def)
  then show "quiet (detect_overcommit_locked resource now)"
    by (simp add: quiet_def detect_overcommit_locked_def Let_def split: option.splits)
qed

subsection \<open>Settling\<close>

definition overdue :: "timestamp \<Rightarrow> reservation_record \<Rightarrow> bool" where
  "overdue now r \<longleftrightarrow>
     (\<exists>t \<le> now. activation_deadline r = Some t \<or> expiry_deadline r = Some t \<or> recall_deadline r = Some t)"

lemma overdue_consumes: "overdue now r \<Longrightarrow> consumes r"
  by (auto simp: overdue_def activation_deadline_def expiry_deadline_def recall_deadline_def split: if_splits)

lemma terminal_not_overdue: "is_terminal (rv_state r) \<Longrightarrow> \<not> overdue now r"
  using overdue_consumes consumes_state consumes_not_terminal by blast

lemma consuming_end: "iv_end (consuming_interval r) \<le> iv_end (tm_interval (rv_terms r)) \<or> iv_empty (consuming_interval r)"
  by (auto simp: consuming_interval_def Let_def iv_empty_def)

text \<open>An operation that rewrites only the record filed under one key.\<close>

definition only_at :: "reservation_key \<Rightarrow> coordinator \<Rightarrow> coordinator \<Rightarrow> bool" where
  "only_at k s s' \<longleftrightarrow> (\<forall>k'. k' \<noteq> k \<longrightarrow> om_find (co_records s') k' = om_find (co_records s) k')"

lemma transition_then_records:
  assumes "andThen (transition_locked r target at reason cx effect) (\<lambda>_. m) s = (Inr x, s')" and "quiet m"
  shows "\<exists>r'. transitioned target effect r r' \<and> co_records s' = om_put (record_key r) r' (co_records s)"
proof -
  from assms(1) obtain a s1 where run: "transition_locked r target at reason cx effect s = (Inr a, s1)"
    and "m s1 = (Inr x, s')" by (auto simp: andThen_Inr)
  from this(2) have "co_records s' = co_records s1" using quiet_Inr [OF assms(2)] by (auto simp: core_def)
  with transition_records [OF run] show ?thesis by simp
qed

definition elapsed :: "timestamp \<Rightarrow> reservation_record \<Rightarrow> bool" where
  "elapsed now r \<longleftrightarrow> consumes r \<and> (iv_empty (consuming_interval r) \<or> \<not> now < iv_end (consuming_interval r))"

lemma reconcile_expiry_post:
  assumes run: "reconcile_expiry now cx k s = (Inr x, s')" and found: "om_find (co_records s) k = Some r"
    and key: "record_key r = k"
  shows "only_at k s s' \<and> (\<exists>r'. om_find (co_records s') k = Some r' \<and> record_key r' = k \<and>
    (is_terminal (rv_state r') \<or> (r' = r \<and> \<not> elapsed now r)))"
proof (cases "elapsed now r")
  case False
  with run found have "s' = s" by (auto simp: reconcile_expiry_def Let_def elapsed_def)
  with False found key show ?thesis by (simp add: only_at_def)
next
  case True
  have "\<exists>target m reason. is_terminal target \<and> quiet m \<and>
      andThen (transition_locked r target now reason cx 0) (\<lambda>_. m) s = (Inr x, s')"
  proof (cases "rv_state r = RsRecallPending")
    case True
    with run found \<open>elapsed now r\<close> quiet_counts(1) show ?thesis
      by (intro exI [of _ RsRevoked] exI [of _ count_revocation]) (auto simp: reconcile_expiry_def Let_def elapsed_def)
  next
    case False
    with run found \<open>elapsed now r\<close> quiet_counts(2) show ?thesis
      by (intro exI [of _ RsExpired] exI [of _ "modify (bump cst_expiries_update)"])
        (auto simp: reconcile_expiry_def Let_def elapsed_def)
  qed
  then obtain r' target where "is_terminal target" "transitioned target 0 r r'" "co_records s' = om_put k r' (co_records s)"
    using transition_then_records key by metis
  with key show ?thesis by (auto simp: only_at_def transitioned_def)
qed

lemma not_overdue:
  assumes "\<not> elapsed now r" and "\<not> (rv_state r = RsRecallPending \<and> rv_recall_effective_at r > 0 \<and> \<not> now < rv_recall_effective_at r)"
    and "\<not> (rv_state r = RsCommitted \<and> \<not> now < iv_start (tm_interval (rv_terms r)) \<and> now < iv_end (tm_interval (rv_terms r)))"
  shows "\<not> overdue now r"
  using assms consuming_end [of r]
  by (auto simp: overdue_def elapsed_def activation_deadline_def expiry_deadline_def recall_deadline_def split: if_splits)

lemma reconcile_record_post:
  assumes run: "reconcile_record now cx k s = (Inr x, s')" and found: "om_find (co_records s) k = Some r"
    and key: "record_key r = k"
  shows "only_at k s s' \<and> (\<exists>r'. om_find (co_records s') k = Some r' \<and> record_key r' = k \<and> \<not> overdue now r')"
proof (cases "rv_state r = RsRecallPending \<and> rv_recall_effective_at r > 0 \<and> \<not> now < rv_recall_effective_at r")
  case True
  with run found have "andThen (transition_locked r RsRevoked now ''recall effect reached'' cx 0) (\<lambda>_. count_revocation) s = (Inr x, s')"
    by (simp add: reconcile_record_def)
  from transition_then_records [OF this quiet_counts(1)] obtain r' where "transitioned RsRevoked 0 r r'"
    "co_records s' = om_put k r' (co_records s)" using key by auto
  then show ?thesis using terminal_not_overdue [of r'] key by (auto simp: only_at_def transitioned_def)
next
  case False
  let ?opens = "rv_state r = RsCommitted \<and> \<not> now < iv_start (tm_interval (rv_terms r)) \<and> now < iv_end (tm_interval (rv_terms r))"
  obtain s1 r1 where r1: "om_find (co_records s1) k = Some r1" "record_key r1 = k" "only_at k s s1"
    and rest: "reconcile_expiry now cx k s1 = (Inr x, s')"
    and cases: "r1 = r \<and> \<not> ?opens \<or> rv_state r1 = RsActive"
  proof (cases ?opens)
    case True
    with False run found obtain s1 where open': "andThen (transition_locked r RsActive now ''interval opened'' cx 0) (\<lambda>_. ret ()) s = (Inr (), s1)"
      and rest: "reconcile_expiry now cx k s1 = (Inr x, s')" by (auto simp: reconcile_record_def andThen_Inr)
    from transition_then_records [OF open' quiet_counts(3)] obtain r' where "transitioned RsActive 0 r r'"
      "co_records s1 = om_put k r' (co_records s)" using key by auto
    then show thesis using that [of s1 r'] rest key by (auto simp: only_at_def transitioned_def)
  next
    case not_open: False
    have "reconcile_expiry now cx k s = (Inr x, s')"
      using run found not_open unfolding reconcile_record_def option.case if_not_P [OF False] if_not_P [OF not_open]
      by (auto simp: andThen_Inr ret_def found if_not_P [OF False] if_not_P [OF not_open])
    then show thesis using that [of s r] found key not_open by (simp add: only_at_def)
  qed
  from reconcile_expiry_post [OF rest r1(1,2)] obtain r' where other: "only_at k s1 s'"
    and r': "om_find (co_records s') k = Some r'" "record_key r' = k"
      "is_terminal (rv_state r') \<or> (r' = r1 \<and> \<not> elapsed now r1)" by blast
  have "\<not> overdue now r1" if "\<not> elapsed now r1"
    using cases
  proof
    assume "r1 = r \<and> \<not> ?opens"
    with that False show ?thesis by (intro not_overdue) simp_all
  next
    assume "rv_state r1 = RsActive"
    with that show ?thesis by (intro not_overdue) simp_all
  qed
  with r' terminal_not_overdue have "\<not> overdue now r'" by blast
  with r' other r1(3) show ?thesis unfolding only_at_def by metis
qed

lemma each_reconcile_post:
  assumes "each (reconcile_record now cx) ks s = (Inr x, s')"
    and "\<And>k r. om_find (co_records s) k = Some r \<Longrightarrow> record_key r = k"
    and "\<And>k r. om_find (co_records s) k = Some r \<Longrightarrow> k \<notin> set ks \<Longrightarrow> \<not> overdue now r"
    and "om_find (co_records s') k = Some r'"
  shows "\<not> overdue now r'"
  using assms(1-3)
proof (induction ks arbitrary: s)
  case Nil
  with assms(4) show ?case by simp
next
  case (Cons a ks)
  from Cons.prems(1) obtain u s1 where first: "reconcile_record now cx a s = (Inr u, s1)"
    and rest: "each (reconcile_record now cx) ks s1 = (Inr x, s')" by (auto simp: andThen_Inr)
  have post: "record_key v = b \<and> (b \<notin> set ks \<longrightarrow> \<not> overdue now v)" if v: "om_find (co_records s1) b = Some v" for b v
  proof (cases "om_find (co_records s) a")
    case None
    with first have "s1 = s" by (simp add: reconcile_record_def)
    with v Cons.prems(2,3) None show ?thesis by (metis option.distinct(1) set_ConsD)
  next
    case (Some r)
    note p = reconcile_record_post [OF first Some Cons.prems(2) [OF Some]]
    show ?thesis
    proof (cases "b = a")
      case True
      with p v show ?thesis by auto
    next
      case False
      from p have "only_at a s s1" by blast
      with v False have "om_find (co_records s) b = Some v" unfolding only_at_def by metis
      with False Cons.prems(2,3) show ?thesis by (metis set_ConsD)
    qed
  qed
  show ?case using Cons.IH [OF rest] post by blast
qed

lemma set_due_prefix:
  "sorted (map fst q) \<Longrightarrow> set (takeWhile (\<lambda>(t, _). \<not> now < t) q) = {p \<in> set q. fst p \<le> (now :: timestamp)}"
  by (induction q) (auto simp: not_less)

lemma due_queued:
  assumes "mm_ok q"
  shows "k \<in> set (due now q) \<longleftrightarrow> (\<exists>t \<le> now. (t, k) \<in> set q)"
proof -
  have "set (due now q) = snd ` {p \<in> set q. fst p \<le> now}"
    unfolding due_def using set_due_prefix [of q now] assms by (simp add: mm_ok_def)
  then show ?thesis by (simp add: image_iff Bex_def conj_commute)
qed

lemma due_iff:
  assumes "queue_exact deadline q m"
  shows "k \<in> set (due now q) \<longleftrightarrow> (\<exists>r t. om_find m k = Some r \<and> deadline r = Some t \<and> t \<le> now)"
proof -
  from assms have "mm_ok q" and "\<And>t. (t, k) \<in> set q \<longleftrightarrow> (\<exists>r. om_find m k = Some r \<and> deadline r = Some t)"
    unfolding queue_exact_def by blast+
  then show ?thesis using due_queued [of q k now] by blast
qed

lemma reconcile_work_iff:
  assumes "coord_ok s"
  shows "k \<in> set (reconcile_work now s) \<longleftrightarrow> (\<exists>r. om_find (co_records s) k = Some r \<and> overdue now r)"
proof -
  have "k \<in> set (reconcile_work now s) \<longleftrightarrow> k \<in> set (due now (co_activation_queue s)) \<or> k \<in> set (due now (co_expiry_queue s)) \<or>
      k \<in> set (due now (co_recall_queue s))"
    by (auto simp: reconcile_work_def set_unique_by_eq)
  moreover have "queue_exact activation_deadline (co_activation_queue s) (co_records s)"
    "queue_exact expiry_deadline (co_expiry_queue s) (co_records s)"
    "queue_exact recall_deadline (co_recall_queue s) (co_records s)"
    using assms by (simp_all add: coord_ok_def queues_ok_def)
  note this [THEN due_iff]
  ultimately show ?thesis unfolding overdue_def by blast
qed

lemma quiet_release_each: "quiet (each (\<lambda>i. release_hold_locked i reason fenced) ids)"
proof (induction ids)
  case Nil
  then show ?case by (simp add: quiet_def)
next
  case (Cons i ids)
  then show ?case by (simp add: quiet_andThen quiet_ops)
qed

text \<open>C7: Time reconciliation settles every deadline. When it succeeds at an instant, no record is left behind with
  a deadline that has passed: no committed record whose window has opened, no consuming record whose
  consuming interval has ended, no pending recall whose effect is due.
\<close>

theorem reconcile_settles:
  assumes "coord_ok s" and "reconcile_locked now s = (Inr x, s')" and "om_find (co_records s') k = Some r"
  shows "\<not> overdue now r"
proof -
  from assms(2) obtain s1 where work: "each (reconcile_record now (coordinator_context s ''time reconciliation''))
      (reconcile_work now s) s = (Inr (), s1)"
    and holds: "each (\<lambda>i. release_hold_locked i ''hold deadline reached'' False) (expired_holds now s1) s1 = (Inr x, s')"
    by (auto simp: reconcile_locked_def andThen_Inr)
  have "core s' = core s1" by (rule quiet_Inr [OF quiet_release_each holds])
  then have "co_records s' = co_records s1" by (simp add: core_def)
  then show ?thesis
    using each_reconcile_post [OF work] coord_ok_keyed [OF assms(1)] reconcile_work_iff [OF assms(1)] assms(3) by metis
qed

definition booked :: coordinator where
  "booked = (let r = sample_record (mk_iv 10 20) 5 in
     sync_queues_locked r (register_record_locked r (sample_coordinator 10)))"

definition claimant_context :: request_context where
  "claimant_context = \<lparr>cx_actor = ''c'', cx_publisher = 7, cx_publisher_boot = 3, cx_session = 0,
      cx_attempt = 4, cx_claimant = 0, cx_claimant_generation = 0, cx_asserted_epoch = 1, cx_reason = ''done''\<rparr>"

lemma coord_ok_sample: "coord_ok (sample_coordinator bw)"
  by (simp add: coord_ok_def records_ok_def generations_ok_def attempts_ok_def queues_ok_def queue_exact_def
      sample_coordinator_def fresh_coordinator_def om_find_def live_records_def history_records_def mm_ok_def registered_def om_ok_def)

lemma coord_ok_booked: "coord_ok booked"
  unfolding booked_def Let_def
  by (rule coord_ok_register [OF coord_ok_sample])
    (simp_all add: history_of_def sample_coordinator_def fresh_coordinator_def om_find_def)


lemma transition_runs:
  assumes "st_open (co_store s)" "co_io s = []" "co_index s = ci_empty" "\<not> consumes_capacity target" "target \<noteq> RsRecallPending"
    "length (encode_record (DrReservationState (state_record cx r target at reason effect)))
       \<le> so_max_record_payload (st_options (co_store s))"
  shows "\<exists>a s'. transition_locked r target at reason cx effect s = (Inr a, s') \<and> co_holds s' = co_holds s"
proof -
  have out: "\<not> indexable_locked s' (stated target at reason pv r'\<lparr>rv_sequence := seq\<rparr>)" for s' pv r' seq
    using assms(4) by (simp add: indexable_locked_def consumes_def stated_def Let_def)
  have none: "\<not> index_holds_locked s' r'" if "co_index s' = ci_empty" for s' r'
    using that by (simp add: index_holds_locked_def ci_find_all_def ci_empty_def)
  show ?thesis
    using assms out
    by (auto simp: transition_locked_def andThen_def append_locked_def next_io_def store_append_def Let_def bump_def
        sync_index_locked_def none put_record_def set_state_locked_def count_move_def sync_queues_locked_def)
qed

lemma booked_fields:
  "co_activation_queue booked = [(10, 1, 1)]" "co_expiry_queue booked = [(20, 1, 1)]" "co_recall_queue booked = []"
  "om_find (co_records booked) (1, 1) = Some (sample_record (mk_iv 10 20) 5)" "co_holds booked = []" "co_index booked = ci_empty"
  "co_io booked = []" "st_open (co_store booked)" "so_max_record_payload (st_options (co_store booked)) = 4194304" 
  "co_boot booked = 9" "co_epoch booked = 1"
  by (simp_all add: booked_def Let_def sync_queues_locked_def register_record_locked_def sample_coordinator_def fresh_coordinator_def om_find_def put_record_def record_key_def sample_record_def consumes_def sample_terms_def consuming_interval_def iv_empty_def mk_iv_def unqueue_def empty_store_def sample_options_def)

lemma booked_work: "reconcile_work 25 booked = [(1, 1)]" "reconcile_work 5 booked = []"
  by (simp_all add: reconcile_work_def due_def booked_fields)

lemma booked_expiry_fits: "length (encode_record (DrReservationState (state_record (coordinator_context booked ''time reconciliation'')
   (sample_record (mk_iv 10 20) 5) RsExpired 25 ''committed interval elapsed'' 0))) < 1000"
  unfolding coordinator_context_def booked_fields by code_simp
lemma booked_release_fits: "length (encode_record (DrReservationState (state_record claimant_context
   (sample_record (mk_iv 10 20) 5) RsReleased 5 ''done'' 0))) < 1000"
  by code_simp

lemma transition_booked:
  assumes "\<not> consumes_capacity target" "target \<noteq> RsRecallPending"
    "length (encode_record (DrReservationState (state_record cx (sample_record (mk_iv 10 20) 5) target at reason 0))) < 1000"
  shows "\<exists>a s' r'. transition_locked (sample_record (mk_iv 10 20) 5) target at reason cx 0 booked = (Inr a, s') \<and>
    co_holds s' = [] \<and> rv_state r' = target \<and> co_records s' = [((1, 1), r')] \<and> co_generations s' = [(1, [1])]"
proof -
  let ?r = "sample_record (mk_iv 10 20) 5"
  from transition_runs [of booked target cx ?r at reason 0] assms obtain a s' where
    run: "transition_locked ?r target at reason cx 0 booked = (Inr a, s')" and "co_holds s' = []"
    by (auto simp: booked_fields)
  moreover from transition_effect [OF run] obtain r' where "transitioned target 0 ?r r'"
    and core: "core s' = core (sync_queues_locked r' (put_record r' (count_move (rv_state ?r) target booked)))" by blast
  moreover from core have "co_records s' = om_put (record_key r') r' (co_records booked)" "co_generations s' = co_generations booked"
    by (auto simp: core_def sync_queues_locked_def put_record_def count_move_def Let_def split: if_splits)
  moreover have "co_records booked = [((1, 1), ?r)]" "co_generations booked = [(1, [1])]"
    by (simp_all add: booked_def Let_def sync_queues_locked_def register_record_locked_def sample_coordinator_def
        fresh_coordinator_def om_find_def put_record_def record_key_def sample_record_def)
  moreover have "record_key ?r = (1, 1)" by (simp add: record_key_def sample_record_def)
  ultimately show ?thesis by (auto simp: transitioned_def)
qed

theorem reconcile_settles_witness:
  "overdue 25 (sample_record (mk_iv 10 20) 5) \<and>
   (\<exists>s' r'. reconcile_locked 25 booked = (Inr (), s') \<and> om_find (co_records s') (1, 1) = Some r' \<and> \<not> overdue 25 r')"
proof -
  obtain a s' r' where run: "transition_locked (sample_record (mk_iv 10 20) 5) RsExpired 25 ''committed interval elapsed''
      (coordinator_context booked ''time reconciliation'') 0 booked = (Inr a, s')"
    and s': "co_holds s' = []" "co_records s' = [((1, 1), r')]"
    using transition_booked [OF _ _ booked_expiry_fits] by auto
  have "reconcile_locked 25 booked = (Inr (), bump cst_expiries_update s')"
    using run s'(1)
    by (simp add: reconcile_locked_def booked_work reconcile_record_def booked_fields andThen_def ret_def reconcile_expiry_def
        sample_record_def sample_terms_def consumes_def consuming_interval_def iv_empty_def mk_iv_def modify_def
        expired_holds_def bump_def)
  moreover from s'(2) have found: "om_find (co_records (bump cst_expiries_update s')) (1, 1) = Some r'"
    by (simp add: bump_def om_find_def)
  ultimately have "\<not> overdue 25 r'" by (rule reconcile_settles [OF coord_ok_booked])
  moreover have "overdue 25 (sample_record (mk_iv 10 20) 5)"
    unfolding overdue_def
    by (rule exI [of _ 10]) (simp add: activation_deadline_def sample_record_def sample_terms_def consumes_def mk_iv_def)
  ultimately show ?thesis using \<open>reconcile_locked 25 booked = _\<close> found by blast
qed

lemma booked_clock: "co_clock booked = 5" "co_ticks booked = []" "\<not> co_stopping booked" "co_fenced_boots booked = []"
  by (simp_all add: booked_def Let_def sync_queues_locked_def register_record_locked_def sample_coordinator_def
      fresh_coordinator_def put_record_def)

lemma sample_record_state: "rv_state (sample_record w a) = RsCommitted" "tm_claimant (rv_terms (sample_record w a)) = 7"
  by (simp_all add: sample_record_def sample_terms_def)

lemma booked_release:
  "\<exists>x s' r'. release_locked claimant_context 1 1 booked = (Inr x, s') \<and> generations_left s' \<and>
     om_find (co_records s') (1, 1) = Some r' \<and> rv_state r' = RsReleased"
proof -
  obtain a s' r' where run: "transition_locked (sample_record (mk_iv 10 20) 5) RsReleased 5 ''done'' claimant_context 0 booked = (Inr a, s')"
    and s': "rv_state r' = RsReleased" "co_records s' = [((1, 1), r')]" "co_generations s' = [(1, [1])]"
    using transition_booked [OF _ _ booked_release_fits] by auto
  let ?s = "bump cst_releases_update (remember_attempt_locked a s')"
  have "release_locked claimant_context 1 1 booked = (Inr (one_transition (find_record_locked ?s 1 1)), ?s)"
    using run
    by (simp add: release_locked_def release_record_def andThen_def now_locked_def validate_context_locked_def claimant_context_def
        with_record_def find_record_locked_def booked_fields booked_clock guard_op_def ret_def reconcile_locked_def
        booked_work expired_holds_def sample_record_state modify_def record_now_def reason_or_def is_nil_def nil_id_def)
  moreover have "co_records ?s = co_records s'" "co_generations ?s = co_generations s'"
    by (simp_all add: bump_def remember_attempt_locked_def Let_def split: prod.splits)
  then have "generations_left ?s" "om_find (co_records ?s) (1, 1) = Some r'"
    using s' by (simp_all add: generations_left_def registered_def om_find_def)
  ultimately show ?thesis using s'(1) by blast
qed

end
