(* ===== verification/Brf_Commit.thy ===== *)
theory Brf_Commit
  imports Brf_Lifecycle_Proofs
begin

text \<open>
  Commit and amendment (\<^verbatim>\<open>src/coordinator_admission.cpp\<close>): the duplicate-safe creation of a
  reservation or a series, with preemption, and the lineage-preserving amendment, together with the
  reconciliation of an attempt. Explanation texts are left out.
\<close>

subsection \<open>Suspension scopes\<close>

text \<open>
  The code that runs while a \<^verbatim>\<open>Suspension\<close> is alive works on the coordinator and the list of entries
  the suspension took. When the scope is left the entries go back into the index, unless the operation
  committed; the flag of the result says whether it did.
\<close>

type_synonym 'a scope_op = "(coordinator \<times> index_entry list, error_code, 'a) op"

definition inside :: "'a coord_op \<Rightarrow> 'a scope_op" where
  "inside m st = (case st of (s, taken) \<Rightarrow> (case m s of (r, s') \<Rightarrow> (r, (s', taken))))"

definition suspending ::
  "(index_entry list \<Rightarrow> coordinator \<Rightarrow> (status \<times> index_entry list) \<times> coordinator) \<Rightarrow> unit scope_op" where
  "suspending f st = (case st of (s, taken) \<Rightarrow> (case f taken s of ((r, taken'), s') \<Rightarrow> (r, (s', taken'))))"

definition scoped :: "('a \<times> bool) scope_op \<Rightarrow> ('a \<times> bool) coord_op" where
  "scoped m s =
     (case m (s, []) of
        (Inl e, (s', taken)) \<Rightarrow> (Inl e, restore taken s')
      | (Inr (x, kept), (s', taken)) \<Rightarrow> (Inr (x, kept), if kept then s' else restore taken s'))"

subsection \<open>Results\<close>

text \<open>A result field the source leaves default-constructed is \<open>None\<close>.\<close>

record commit_result =
  cr_record :: "reservation_record option"
  cr_has_series :: bool
  cr_series :: "reservation_series option"
  cr_members :: "reservation_record list"
  cr_report :: admission_report
  cr_replayed :: bool
  cr_attempt :: identity
  cr_sequence :: counter

record amendment_result =
  ad_predecessor :: "reservation_record option"
  ad_successor :: "reservation_record option"
  ad_has_series :: bool
  ad_series :: "reservation_series option"
  ad_members :: "reservation_record list"
  ad_report :: admission_report
  ad_replayed :: bool

definition blank_assessment :: assessment where
  "blank_assessment = assessed AoCommittable [] empty_conflicts ArCurrent"

definition rejected_commit :: "request_context \<Rightarrow> counter \<Rightarrow> assessment \<Rightarrow> commit_result" where
  "rejected_commit cx sequence a =
     \<lparr>cr_record = None, cr_has_series = False, cr_series = None, cr_members = [], cr_report = to_report a,
      cr_replayed = False, cr_attempt = cx_attempt cx, cr_sequence = sequence\<rparr>"

definition rejected_amendment :: "reservation_record \<Rightarrow> assessment \<Rightarrow> amendment_result" where
  "rejected_amendment predecessor a =
     \<lparr>ad_predecessor = Some predecessor, ad_successor = None, ad_has_series = False, ad_series = None,
      ad_members = [], ad_report = to_report a, ad_replayed = False\<rparr>"

subsection \<open>Fingerprints\<close>

definition request_fingerprint :: "reservation_terms \<Rightarrow> identity \<Rightarrow> identity list \<Rightarrow> identity" where
  "request_fingerprint t i holds =
     fingerprint128 (enc_terms t @ w_fixed128 i @ w_count (length holds) @ concat (map w_fixed128 holds))"

definition amendment_fingerprint :: "identity \<Rightarrow> counter \<Rightarrow> reservation_terms \<Rightarrow> identity" where
  "amendment_fingerprint target gen t = fingerprint128 (w_fixed128 target @ w_u64 gen @ enc_terms t)"

subsection \<open>Series lookup\<close>

text \<open>
  \<^verbatim>\<open>current_series[id]\<close> enters generation zero when the series is unknown.
\<close>

definition current_series_locked :: "identity \<Rightarrow> reservation_series option coord_op" where
  "current_series_locked i s =
     (case om_find (co_current_series s) i of
        Some g \<Rightarrow> (Inr (om_find (co_series_records s) (i, g)), s)
      | None \<Rightarrow>
          let s1 = s\<lparr>co_current_series := om_put i 0 (co_current_series s)\<rparr>
          in (Inr (om_find (co_series_records s1) (i, 0)), s1))"

definition live_members :: "coordinator \<Rightarrow> reservation_series option \<Rightarrow> reservation_record list" where
  "live_members s series =
     (case series of None \<Rightarrow> [] | Some v \<Rightarrow> List.map_filter (current_record_locked s) (sr_members v))"

text \<open>The series part of a replayed answer.\<close>

definition replayed_series ::
  "reservation_record option \<Rightarrow> (reservation_series option \<times> reservation_record list) coord_op" where
  "replayed_series r =
     (case r of
        None \<Rightarrow> ret (None, [])
      | Some v \<Rightarrow>
          if rv_series_member v
          then andThen (current_series_locked (rv_series v)) (\<lambda>series. gets (\<lambda>s. (series, live_members s series)))
          else ret (None, []))"

subsection \<open>Evaluation of all members\<close>

definition assess_for :: "coordinator \<Rightarrow> reservation_terms \<Rightarrow> resolved_binding \<Rightarrow> policy_record \<Rightarrow> interval \<Rightarrow> assessment" where
  "assess_for s t b policy w =
     assess_locked s (t\<lparr>tm_interval := w\<rparr>) b policy (unat (pl_max_conflict_set policy))"

text \<open>All assessments, or the index and the assessment of the first member that fails.\<close>

fun evaluate ::
  "coordinator \<Rightarrow> reservation_terms \<Rightarrow> resolved_binding \<Rightarrow> policy_record \<Rightarrow> nat \<Rightarrow> interval list \<Rightarrow>
   (nat \<times> assessment) + assessment list" where
  "evaluate s t b policy i [] = Inr []"
| "evaluate s t b policy i (w # ws) =
     (let a = assess_for s t b policy w
      in if as_outcome a \<noteq> AoCommittable then Inl (i, a)
         else bindE (evaluate s t b policy (Suc i) ws) (\<lambda>as. Inr (a # as)))"

subsection \<open>Preemption\<close>

text \<open>
  The victims are suspended one by one, weakest first, until every member of the request is committable.
  The loops return the evaluations in that case, and the victims so far.
\<close>

fun preempt_candidates ::
  "reservation_terms \<Rightarrow> resolved_binding \<Rightarrow> policy_record \<Rightarrow> interval list \<Rightarrow> index_entry list \<Rightarrow> index_entry list \<Rightarrow>
   coordinator \<times> index_entry list \<Rightarrow> (assessment list option \<times> index_entry list) \<times> (coordinator \<times> index_entry list)" where
  "preempt_candidates t b policy ws [] victims st = ((None, victims), st)"
| "preempt_candidates t b policy ws (c # cs) victims st =
     (if length victims \<ge> unat (pl_max_preemption_victims policy) then ((None, victims), st)
      else case find_record_locked (fst st) (ie_id c) (ie_holder_generation c) of
             None \<Rightarrow> preempt_candidates t b policy ws cs victims st
           | Some r \<Rightarrow>
               (case suspending (suspend r) st of
                  (Inl _, st1) \<Rightarrow> preempt_candidates t b policy ws cs victims st1
                | (Inr _, st1) \<Rightarrow>
                    (case evaluate (fst st1) t b policy 0 ws of
                       Inr as \<Rightarrow> ((Some as, victims @ [c]), st1)
                     | Inl _ \<Rightarrow> preempt_candidates t b policy ws cs (victims @ [c]) st1)))"

fun preempt_resources ::
  "reservation_terms \<Rightarrow> resolved_binding \<Rightarrow> policy_record \<Rightarrow> interval list \<Rightarrow> interval \<Rightarrow> identity \<Rightarrow> resource_ref list \<Rightarrow>
   index_entry list \<Rightarrow> coordinator \<times> index_entry list \<Rightarrow>
   (assessment list option \<times> index_entry list) \<times> (coordinator \<times> index_entry list)" where
  "preempt_resources t b policy ws window self [] victims st = ((None, victims), st)"
| "preempt_resources t b policy ws window self (ref # refs) victims st =
     (if length victims \<ge> unat (pl_max_preemption_victims policy) then ((None, victims), st)
      else case preempt_candidates t b policy ws
               (preemption_candidates_locked (fst st) (rr_resource ref) window (tm_guarantee t) policy self) victims st of
             ((Some as, v), st1) \<Rightarrow> ((Some as, v), st1)
           | ((None, v), st1) \<Rightarrow> preempt_resources t b policy ws window self refs v st1)"

definition may_preempt :: "coordinator \<Rightarrow> reservation_terms \<Rightarrow> policy_record \<Rightarrow> timestamp \<Rightarrow> bool" where
  "may_preempt s t policy now \<longleftrightarrow>
     pl_allow_preemption_on_commit policy \<and> cfg_enable_preemption (co_config s) \<and>
     \<not> iv_start (tm_interval t) < now \<and> pl_max_preemption_victims policy > 0"

text \<open>The evaluation with preemption: the failure, or the evaluations and the victims.\<close>

definition plan_commit ::
  "reservation_terms \<Rightarrow> resolved_binding \<Rightarrow> policy_record \<Rightarrow> interval list \<Rightarrow> identity \<Rightarrow> timestamp \<Rightarrow>
   (assessment + assessment list \<times> index_entry list) scope_op" where
  "plan_commit t b policy ws self now st =
     (case evaluate (fst st) t b policy 0 ws of
        Inr as \<Rightarrow> (Inr (Inr (as, [])), st)
      | Inl (i, failure) \<Rightarrow>
          if may_preempt (fst st) t policy now
          then (case preempt_resources t b policy ws (ws ! i) self (rb_resources b) [] st of
                  ((Some as, victims), st1) \<Rightarrow> (Inr (Inr (as, victims)), st1)
                | ((None, _), st1) \<Rightarrow> (Inr (Inl failure), st1))
          else (Inr (Inl failure), st))"

definition accepted :: "assessment list \<Rightarrow> index_entry list \<Rightarrow> assessment" where
  "accepted as victims =
     (if as = [] then blank_assessment else hd as)
       \<lparr>as_victims := map ie_id victims, as_victim_generations := map ie_holder_generation victims,
        as_preemption_planned := (victims \<noteq> [])\<rparr>"

subsection \<open>Refusals\<close>

definition attempt_of ::
  "request_context \<Rightarrow> identity \<Rightarrow> admission_outcome \<Rightarrow> identity \<Rightarrow> counter \<Rightarrow> counter \<Rightarrow> identity \<Rightarrow> timestamp \<Rightarrow> attempt_mutation" where
  "attempt_of cx fingerprint outcome i gen sequence claimant now =
     \<lparr>at_attempt = cx_attempt cx, at_fingerprint = fingerprint, at_outcome = outcome, at_reservation = i,
      at_generation = gen, at_result_sequence = sequence, at_claimant = claimant, at_at = now\<rparr>"

text \<open>The refusal is durable and remembered; the remembered attempt carries the sequence of the append.\<close>

definition record_refusal ::
  "request_context \<Rightarrow> identity \<Rightarrow> admission_outcome \<Rightarrow> identity \<Rightarrow> counter \<Rightarrow> identity \<Rightarrow> timestamp \<Rightarrow> counter coord_op" where
  "record_refusal cx fingerprint outcome i gen claimant now =
     andThen (append_locked (DrAttemptOutcome (attempt_of cx fingerprint outcome i gen 0 claimant now))) (\<lambda>sequence.
     andThen (modify (\<lambda>s. bump cst_commit_rejections_update
                (remember_attempt_locked (attempt_of cx fingerprint outcome i gen sequence claimant now) s))) (\<lambda>_.
       ret sequence))"

subsection \<open>Commit\<close>

definition policy_gate :: "policy_record \<Rightarrow> reservation_terms \<Rightarrow> timestamp \<Rightarrow> status" where
  "policy_gate policy t now =
     (if \<not> pl_allow_past_start policy \<and> iv_start (tm_interval t) < now then Inl EPolicyRejected
      else if pl_max_future_horizon policy > 0 \<and> iv_start (tm_interval t) - now > pl_max_future_horizon policy
      then Inl EPolicyRejected
      else if pl_minimum_reservation_amount policy > 0 \<and> tm_amount t < pl_minimum_reservation_amount policy
      then Inl EPolicyRejected
      else if pl_max_extra_headroom policy > 0 \<and> tm_headroom_requirement t > pl_max_extra_headroom policy
      then Inl EPolicyRejected
      else if rs_enabled (tm_recurrence t) \<and> rs_count (tm_recurrence t) > pl_max_series_members policy
      then Inl EPolicyRejected
      else Inr ())"

text \<open>The answer for an attempt that already has a durable outcome.\<close>

definition build_replay_result ::
  "attempt_record \<Rightarrow> identity \<Rightarrow> reservation_record option \<Rightarrow> reservation_series option \<Rightarrow> reservation_record list \<Rightarrow> commit_result" where
  "build_replay_result a attempt r series members =
     \<lparr>cr_record = r, cr_has_series = (case r of None \<Rightarrow> False | Some v \<Rightarrow> rv_series_member v), cr_series = series,
      cr_members = members, cr_report = (to_report blank_assessment)\<lparr>ar_outcome := at_outcome a\<rparr>,
      cr_replayed = True, cr_attempt = attempt, cr_sequence = at_result_sequence a\<rparr>"

definition replay_commit :: "request_context \<Rightarrow> attempt_record \<Rightarrow> commit_result coord_op" where
  "replay_commit cx previous =
     andThen (modify (bump cst_replayed_attempts_update)) (\<lambda>_.
     andThen (gets (\<lambda>s. find_record_locked s (at_reservation previous) (at_generation previous))) (\<lambda>r.
     andThen (replayed_series r) (\<lambda>(series, members).
       ret (build_replay_result previous (cx_attempt cx) r series members))))"

definition authority_for ::
  "coordinator \<Rightarrow> reservation_terms \<Rightarrow> policy_record \<Rightarrow> resolved_binding \<Rightarrow> counter \<Rightarrow> authority_vector" where
  "authority_for s t policy b gen =
     \<lparr>av_fabric_epoch = co_epoch s, av_reservation_generation = gen, av_claimant = tm_claimant t,
      av_claimant_generation = tm_claimant_generation t, av_capacity_snapshot = co_last_capacity_snapshot s,
      av_capacity_generation = co_last_capacity_generation s, av_policy = pl_name policy,
      av_policy_generation = pl_generation policy, av_path_generation = rb_path_generation b,
      av_resources = rb_resources b, av_failure_domains = rb_failure_domains b\<rparr>"

definition make_record ::
  "reservation_terms \<Rightarrow> authority_vector \<Rightarrow> provenance \<Rightarrow> counter \<Rightarrow> identity \<Rightarrow> timestamp \<Rightarrow> identity \<Rightarrow> interval \<Rightarrow>
   counter \<Rightarrow> bool \<Rightarrow> reservation_record" where
  "make_record t authority pv predicted series now i w index is_member =
     (let state = (if commits_as_active now w then RsActive else RsCommitted)
      in \<lparr>rv_id = i, rv_generation = 1, rv_series_member = is_member, rv_series = series, rv_series_index = index,
          rv_terms = t\<lparr>tm_interval := w\<rparr>, rv_authority = authority, rv_state = state,
          rv_applicability = ApCurrent, rv_applicability_reason = ArCurrent, rv_declared_at = now,
          rv_committed_at = now, rv_activated_at = (if state = RsActive then now else 0),
          rv_state_changed_at = now, rv_recall_effective_at = 0, rv_recall_grace = 0, rv_terminated_at = 0,
          rv_predecessor = 0, rv_predecessor_generation = 0, rv_state_reason = [], rv_last_provenance = pv,
          rv_sequence = predicted\<rparr>)"

definition member_ids :: "identity \<Rightarrow> nat \<Rightarrow> identity list" where
  "member_ids series n = map (\<lambda>i. derive_member_id series (of_nat i)) [0..<n]"

definition all_members ::
  "reservation_terms \<Rightarrow> authority_vector \<Rightarrow> provenance \<Rightarrow> counter \<Rightarrow> identity \<Rightarrow> identity \<Rightarrow> timestamp \<Rightarrow> interval list \<Rightarrow>
   reservation_record list" where
  "all_members t authority pv predicted i series now ws =
     (if rs_enabled (tm_recurrence t)
      then map (\<lambda>(n, w). make_record t authority pv predicted series now (derive_member_id series (of_nat n)) w (of_nat n) True)
             (enumerate 0 ws)
      else [make_record t authority pv predicted series now i (hd ws) 0 False])"

definition new_series ::
  "reservation_terms \<Rightarrow> provenance \<Rightarrow> counter \<Rightarrow> identity \<Rightarrow> timestamp \<Rightarrow> interval \<Rightarrow> reservation_record list \<Rightarrow> reservation_series" where
  "new_series t pv predicted series now first members =
     \<lparr>sr_id = series, sr_generation = 1, sr_claimant = tm_claimant t, sr_claimant_generation = tm_claimant_generation t,
      sr_spec = tm_recurrence t, sr_first_interval = first, sr_amount = tm_amount t, sr_state = RsCommitted,
      sr_created_at = now, sr_state_changed_at = now, sr_predecessor_series_generation = 0,
      sr_predecessor_generation = 0, sr_members = map rv_id members, sr_last_provenance = pv, sr_sequence = predicted\<rparr>"

definition companion ::
  "reservation_record \<Rightarrow> reservation_state \<Rightarrow> timestamp \<Rightarrow> string \<Rightarrow> provenance \<Rightarrow> state_mutation" where
  "companion r target now reason pv =
     \<lparr>sm_id = rv_id r, sm_generation = rv_generation r, sm_from_state = rv_state r, sm_to_state = target,
      sm_at = now, sm_reason = reason, sm_provenance = pv, sm_recall_effective_at = 0, sm_attempt = None\<rparr>"

definition preempted :: "coordinator \<Rightarrow> index_entry list \<Rightarrow> reservation_record list" where
  "preempted s victims = List.map_filter (\<lambda>v. find_record_locked s (ie_id v) (ie_holder_generation v)) victims"

definition commit_mutation ::
  "coordinator \<Rightarrow> request_context \<Rightarrow> reservation_terms \<Rightarrow> policy_record \<Rightarrow> resolved_binding \<Rightarrow> interval list \<Rightarrow>
   identity \<Rightarrow> identity \<Rightarrow> identity \<Rightarrow> index_entry list \<Rightarrow> timestamp \<Rightarrow> reservation_mutation" where
  "commit_mutation s cx t policy b ws i series fingerprint victims now =
     (let predicted = st_last_sequence (co_store s) + 1;
          pv = make_provenance_locked s cx predicted now;
          members = all_members t (authority_for s t policy b 1) pv predicted i series now ws;
          first = hd members
      in \<lparr>mu_record = first,
          mu_series = (if rs_enabled (tm_recurrence t)
                       then Some (new_series t pv predicted series now (hd ws) members) else None),
          mu_members = tl members, mu_edge = None, mu_supersede_record = False,
          mu_companions = map (\<lambda>r. companion r RsRevoked now (''preempted by reservation '' @ to_hex i) pv) (preempted s victims),
          mu_attempt = Some (attempt_of cx fingerprint AoCommittable (rv_id first) (rv_generation first) predicted
            (tm_claimant t) now)\<rparr>)"

definition apply_companion :: "state_mutation \<Rightarrow> unit coord_op" where
  "apply_companion m s =
     (case find_record_locked s (sm_id m) (sm_generation m) of
        None \<Rightarrow> (Inr (), s)
      | Some r \<Rightarrow>
          let r' = stated (sm_to_state m) (sm_at m) (sm_reason m) (sm_provenance m) r
          in andThen (sync_index_locked r')
               (\<lambda>_. modify (\<lambda>s. bump cst_recalls_update (sync_queues_locked r' s)))
               (set_state_locked r (sm_to_state m) (sm_at m) (sm_reason m) (sm_provenance m) s))"

definition enter_record :: "reservation_record \<Rightarrow> unit coord_op" where
  "enter_record r =
     andThen (modify (register_record_locked r)) (\<lambda>_.
     andThen (sync_index_locked r) (\<lambda>_.
       modify (sync_queues_locked r)))"

definition enter_series :: "reservation_series option \<Rightarrow> coordinator \<Rightarrow> coordinator" where
  "enter_series series s =
     (case series of
        None \<Rightarrow> s
      | Some v \<Rightarrow> s\<lparr>co_series_records := om_put (sr_id v, sr_generation v) v (co_series_records s),
                    co_current_series := om_put (sr_id v) (sr_generation v) (co_current_series s)\<rparr>)"

definition consume_hold :: "identity \<Rightarrow> timestamp \<Rightarrow> identity \<Rightarrow> coordinator \<Rightarrow> coordinator" where
  "consume_hold i now hold s =
     (case om_find (co_holds s) hold of
        None \<Rightarrow> s
      | Some h \<Rightarrow> s\<lparr>co_holds := om_put hold (h\<lparr>hd_released := True, hd_released_at := now,
                    hd_release_reason := ''consumed by reservation '' @ to_hex i\<rparr>) (co_holds s)\<rparr>)"

text \<open>The projection of a durable commit into memory.\<close>

definition project_commit :: "reservation_mutation \<Rightarrow> identity \<Rightarrow> identity list \<Rightarrow> timestamp \<Rightarrow> unit coord_op" where
  "project_commit m i holds now =
     andThen (each apply_companion (mu_companions m)) (\<lambda>_.
     andThen (each enter_record (mu_record m # mu_members m)) (\<lambda>_.
       modify (\<lambda>s. bump cst_commits_update (fold (consume_hold i now) holds
         (replay_attempt (mu_attempt m) (enter_series (mu_series m) s))))))"

definition commit_result_of :: "request_context \<Rightarrow> reservation_mutation \<Rightarrow> assessment \<Rightarrow> counter \<Rightarrow> commit_result" where
  "commit_result_of cx m a sequence =
     \<lparr>cr_record = Some (mu_record m), cr_has_series = (mu_series m \<noteq> None), cr_series = mu_series m,
      cr_members = mu_record m # mu_members m, cr_report = to_report a, cr_replayed = False,
      cr_attempt = cx_attempt cx, cr_sequence = sequence\<rparr>"

definition commit_locked ::
  "request_context \<Rightarrow> reservation_terms \<Rightarrow> policy_record \<Rightarrow> resolved_binding \<Rightarrow> interval list \<Rightarrow> identity \<Rightarrow> identity \<Rightarrow>
   identity \<Rightarrow> identity list \<Rightarrow> assessment \<Rightarrow> index_entry list \<Rightarrow> timestamp \<Rightarrow> commit_result coord_op" where
  "commit_locked cx t policy b ws i series fingerprint holds a victims now s =
     (let m = commit_mutation s cx t policy b ws i series fingerprint victims now
      in andThen (append_locked (DrReservationCommit m)) (\<lambda>appended.
         andThen (guard_op (appended = st_last_sequence (co_store s) + 1) EInternal) (\<lambda>_.
         andThen (project_commit m i holds now) (\<lambda>_.
           ret (commit_result_of cx m a appended)))) s)"

text \<open>The part of \<^verbatim>\<open>create_locked\<close> under the suspension: holds, evaluation, refusal, preview or commit.\<close>

definition suspend_named_hold :: "request_context \<Rightarrow> identity \<Rightarrow> unit scope_op" where
  "suspend_named_hold cx i st =
     (case om_find (co_holds (fst st)) i of
        None \<Rightarrow> (Inl ENotFound, st)
      | Some h \<Rightarrow>
          if hd_released h then (Inl ENotFound, st)
          else if hd_session h \<noteq> cx_session cx then (Inl EAuthorityRequired, st)
          else suspending (suspend_hold i) st)"

definition create_scope ::
  "request_context \<Rightarrow> reservation_terms \<Rightarrow> policy_record \<Rightarrow> resolved_binding \<Rightarrow> interval list \<Rightarrow> identity \<Rightarrow> identity \<Rightarrow>
   identity \<Rightarrow> bool \<Rightarrow> identity list \<Rightarrow> timestamp \<Rightarrow> (commit_result \<times> bool) scope_op" where
  "create_scope cx t policy b ws i series fingerprint dry_run holds now =
     andThen (each (suspend_named_hold cx) holds) (\<lambda>_.
     andThen (plan_commit t b policy ws i now) (\<lambda>plan.
       case plan of
         Inl failure \<Rightarrow>
           if dry_run then ret (rejected_commit cx 0 failure, False)
           else andThen (inside (record_refusal cx fingerprint (as_outcome failure) i 0 (tm_claimant t) now))
                  (\<lambda>sequence. ret (rejected_commit cx sequence failure, False))
       | Inr (as, victims) \<Rightarrow>
           let a = accepted as victims
           in if dry_run then ret (rejected_commit cx 0 a, False)
              else andThen (inside (commit_locked cx t policy b ws i series fingerprint holds a victims now))
                     (\<lambda>result. ret (result, True))))"

definition identity_bound :: "coordinator \<Rightarrow> identity \<Rightarrow> bool" where
  "identity_bound s i \<longleftrightarrow> om_find (co_current_generation s) i \<noteq> None"

text \<open>The steps that follow a commit or an amendment.\<close>

definition settle :: "timestamp \<Rightarrow> 'a \<times> bool \<Rightarrow> 'a coord_op" where
  "settle now r =
     (case r of (x, committed) \<Rightarrow>
        if committed
        then andThen (release_terminal_history_locked now) (\<lambda>_. andThen compact_if_due (\<lambda>_. ret x))
        else ret x)"

definition create_fresh ::
  "request_context \<Rightarrow> reservation_terms \<Rightarrow> policy_record \<Rightarrow> identity \<Rightarrow> identity \<Rightarrow> identity \<Rightarrow> bool \<Rightarrow> identity list \<Rightarrow>
   timestamp \<Rightarrow> commit_result coord_op" where
  "create_fresh cx t policy i series fingerprint dry_run holds now s =
     (if identity_bound s i then (Inl EConflict, s)
      else if rs_enabled (tm_recurrence t) \<and>
              list_ex (identity_bound s) (member_ids series (unat (rs_count (tm_recurrence t))))
      then (Inl EConflict, s)
      else if \<not> dry_run \<and> co_live_count s \<ge> cfg_max_live_reservations (co_config s) then (Inl EResourceExhausted, s)
      else (case resolve_binding_locked s t of
              Inl e \<Rightarrow> (Inl e, s)
            | Inr b \<Rightarrow>
                (case expand_series (tm_interval t) (tm_recurrence t) (pl_max_series_members policy) of
                   Inl e \<Rightarrow> (Inl e, s)
                 | Inr ws \<Rightarrow>
                     andThen (scoped (create_scope cx t policy b ws i series fingerprint dry_run holds now))
                       (settle now) s)))"

definition create_locked ::
  "request_context \<Rightarrow> reservation_terms \<Rightarrow> identity \<Rightarrow> bool \<Rightarrow> identity list \<Rightarrow> commit_result coord_op" where
  "create_locked cx t requested_id dry_run holds =
     andThen now_locked (\<lambda>now.
     andThen (validate_context_locked cx True) (\<lambda>_.
     andThen (lift (validate_terms t)) (\<lambda>_.
     andThen (guard_op (is_nil (cx_claimant cx) \<or> cx_claimant cx = tm_claimant t) EAuthorityRequired) (\<lambda>_.
     andThen (ensure_claimant_locked (tm_claimant t) (tm_claimant_generation t) now) (\<lambda>_.
     andThen (reconcile_locked now) (\<lambda>_.
     andThen (gets (\<lambda>s. policy_for_locked s (tm_policy t))) (\<lambda>policy.
     andThen (lift (policy_gate policy t now)) (\<lambda>_.
       let i = (if is_nil requested_id then derive_series_id (tm_claimant t) (cx_attempt cx) 1 else requested_id);
           series = (if rs_enabled (tm_recurrence t) then derive_series_id (tm_claimant t) (cx_attempt cx) 2 else 0);
           fingerprint = request_fingerprint t i holds
       in andThen (gets (\<lambda>s. find_attempt_locked s (cx_attempt cx))) (\<lambda>found.
            case found of
              Some previous \<Rightarrow>
                if at_fingerprint previous \<noteq> fingerprint then fail EConflict else replay_commit cx previous
            | None \<Rightarrow> create_fresh cx t policy i series fingerprint dry_run holds now)))))))))"

subsection \<open>Amendment\<close>

definition replay_amendment :: "reservation_record \<Rightarrow> attempt_record \<Rightarrow> amendment_result coord_op" where
  "replay_amendment predecessor previous =
     andThen (modify (bump cst_replayed_attempts_update)) (\<lambda>_.
     andThen (gets (\<lambda>s. find_record_locked s (at_reservation previous) (at_generation previous))) (\<lambda>successor.
     andThen (replayed_series successor) (\<lambda>(series, members).
       ret \<lparr>ad_predecessor = Some predecessor, ad_successor = successor,
            ad_has_series = (case successor of None \<Rightarrow> False | Some v \<Rightarrow> rv_series_member v), ad_series = series,
            ad_members = members, ad_report = (to_report blank_assessment)\<lparr>ar_outcome := at_outcome previous\<rparr>,
            ad_replayed = True\<rparr>)))"

text \<open>The live members of the series are superseded together with the record the request names.\<close>

fun suspend_members :: "identity list \<Rightarrow> reservation_record list \<Rightarrow> reservation_record list scope_op" where
  "suspend_members [] superseded st = (Inr superseded, st)"
| "suspend_members (i # ids) superseded st =
     (case current_record_locked (fst st) i of
        None \<Rightarrow> suspend_members ids superseded st
      | Some member \<Rightarrow>
          if is_terminal (rv_state member) then suspend_members ids superseded st
          else andThen (suspending (suspend member)) (\<lambda>_. suspend_members ids (superseded @ [member])) st)"

definition superseded_by_amendment :: "reservation_record \<Rightarrow> reservation_record list scope_op" where
  "superseded_by_amendment predecessor =
     (if rv_series_member predecessor
      then andThen (inside (current_series_locked (rv_series predecessor))) (\<lambda>series.
             case series of
               None \<Rightarrow> fail ECorrupt
             | Some v \<Rightarrow> suspend_members (sr_members v) [])
      else andThen (suspending (suspend predecessor)) (\<lambda>_. ret [predecessor]))"

definition make_successor ::
  "reservation_terms \<Rightarrow> authority_vector \<Rightarrow> provenance \<Rightarrow> counter \<Rightarrow> timestamp \<Rightarrow> reservation_record \<Rightarrow> interval \<Rightarrow> reservation_record" where
  "make_successor t authority pv predicted now previous w =
     (let state = (if commits_as_active now w then RsActive else RsCommitted)
      in previous\<lparr>rv_generation := rv_generation previous + 1, rv_terms := t\<lparr>tm_interval := w\<rparr>,
           rv_authority := authority, rv_predecessor := rv_id previous,
           rv_predecessor_generation := rv_generation previous, rv_applicability := ApCurrent,
           rv_applicability_reason := ArCurrent, rv_state := state,
           rv_activated_at := (if state = RsActive then now else 0), rv_committed_at := now,
           rv_state_changed_at := now, rv_recall_effective_at := 0, rv_terminated_at := 0,
           rv_state_reason := [], rv_last_provenance := pv, rv_sequence := predicted\<rparr>)"

definition amended_authority ::
  "coordinator \<Rightarrow> reservation_terms \<Rightarrow> policy_record \<Rightarrow> resolved_binding \<Rightarrow> counter \<Rightarrow> authority_vector" where
  "amended_authority s t policy b target_generation = authority_for s t policy b (target_generation + 1)"

definition series_successor ::
  "(reservation_record \<Rightarrow> interval \<Rightarrow> reservation_record) \<Rightarrow> reservation_record \<Rightarrow> reservation_record list \<Rightarrow> nat \<Rightarrow> interval \<Rightarrow>
   reservation_record" where
  "series_successor successor predecessor superseded n w =
     (if n < length superseded then successor (superseded ! n) w
      else (successor predecessor w)\<lparr>rv_id := derive_member_id (rv_series predecessor) (of_nat n),
             rv_generation := 1, rv_predecessor := 0, rv_predecessor_generation := 0\<rparr>)
       \<lparr>rv_series_member := True, rv_series := rv_series predecessor, rv_series_index := of_nat n\<rparr>"

definition amendment_edge ::
  "request_context \<Rightarrow> reservation_record \<Rightarrow> reservation_record \<Rightarrow> timestamp \<Rightarrow> counter \<Rightarrow> supersession_edge" where
  "amendment_edge cx predecessor successor now predicted =
     \<lparr>se_predecessor = rv_id predecessor, se_predecessor_generation = rv_generation predecessor,
      se_successor = rv_id successor, se_successor_generation = rv_generation successor, se_recorded_at = now,
      se_sequence = predicted, se_reason = sanitize_reason (reason_or cx ''amendment'')\<rparr>"

definition amended_series ::
  "reservation_terms \<Rightarrow> provenance \<Rightarrow> counter \<Rightarrow> timestamp \<Rightarrow> interval \<Rightarrow> reservation_record list \<Rightarrow> reservation_series \<Rightarrow>
   reservation_series" where
  "amended_series t pv predicted now first successors v =
     v\<lparr>sr_generation := sr_generation v + 1, sr_spec := tm_recurrence t, sr_first_interval := first,
       sr_amount := tm_amount t, sr_created_at := now, sr_state_changed_at := now,
       sr_predecessor_series_generation := sr_id v, sr_predecessor_generation := sr_generation v,
       sr_members := map rv_id successors, sr_last_provenance := pv, sr_sequence := predicted\<rparr>"

text \<open>The mutation of an amendment and its successors: of one record, and of a series.\<close>

definition amendment_mutation ::
  "request_context \<Rightarrow> identity \<Rightarrow> reservation_terms \<Rightarrow> timestamp \<Rightarrow> counter \<Rightarrow> reservation_record \<Rightarrow> reservation_record \<Rightarrow>
   reservation_series option \<Rightarrow> reservation_record list \<Rightarrow> state_mutation list \<Rightarrow> reservation_mutation" where
  "amendment_mutation cx fingerprint t now predicted predecessor successor series others companions =
     \<lparr>mu_record = successor, mu_series = series, mu_members = others,
      mu_edge = Some (amendment_edge cx predecessor successor now predicted), mu_supersede_record = True,
      mu_companions = companions,
      mu_attempt = Some (attempt_of cx fingerprint AoCommittable (rv_id successor) (rv_generation successor) predicted
        (tm_claimant t) now)\<rparr>"

definition target_index :: "reservation_record \<Rightarrow> reservation_record list \<Rightarrow> nat option" where
  "target_index predecessor superseded =
     (let n = length (takeWhile (\<lambda>r. rv_id r \<noteq> rv_id predecessor) superseded)
      in if n < length superseded then Some n else None)"

definition series_companion :: "reservation_record \<Rightarrow> timestamp \<Rightarrow> provenance \<Rightarrow> reservation_record list \<Rightarrow> reservation_record \<Rightarrow> state_mutation" where
  "series_companion predecessor now pv successors r =
     companion r RsSuperseded now
       (''superseded by series generation '' @
        to_decimal ((if successors = [] then 0 else 1) + rv_generation predecessor)) pv"

text \<open>
  An amendment to fewer members than the index of the record it names reads \<^verbatim>\<open>successors[target_index]\<close>
  beyond the end of the vector, which C++ leaves undefined; the model stops there with an error.
\<close>

definition plan_amendment ::
  "request_context \<Rightarrow> identity \<Rightarrow> counter \<Rightarrow> reservation_terms \<Rightarrow> policy_record \<Rightarrow> resolved_binding \<Rightarrow> interval list \<Rightarrow>
   reservation_record \<Rightarrow> reservation_record list \<Rightarrow> timestamp \<Rightarrow> (reservation_mutation \<times> reservation_record list) coord_op" where
  "plan_amendment cx fingerprint target_generation t policy b ws predecessor superseded now s =
     (let predicted = st_last_sequence (co_store s) + 1;
          pv = make_provenance_locked s cx predicted now;
          successor = make_successor t (amended_authority s t policy b target_generation) pv predicted now;
          mutation = amendment_mutation cx fingerprint t now predicted predecessor
      in if \<not> rv_series_member predecessor
         then let r = successor predecessor (hd ws) in (Inr (mutation r None [] [], [r]), s)
         else andThen (current_series_locked (rv_series predecessor)) (\<lambda>series.
                case (series, target_index predecessor superseded) of
                  (None, _) \<Rightarrow> fail ECorrupt
                | (Some v, None) \<Rightarrow> fail ECorrupt
                | (Some v, Some n) \<Rightarrow>
                    let successors = map (\<lambda>(i, w). series_successor successor predecessor superseded i w) (enumerate 0 ws);
                        others = map snd (filter (\<lambda>(i, _). i \<noteq> n) (enumerate 0 successors));
                        companions = map (series_companion predecessor now pv successors)
                          (filter (\<lambda>r. rv_id r \<noteq> rv_id predecessor) superseded)
                    in if length successors \<le> n then fail EInternal
                       else ret (mutation (successors ! n) (Some (amended_series t pv predicted now (hd ws) successors v))
                              others companions, successors)) s)"

definition supersede :: "provenance \<Rightarrow> timestamp \<Rightarrow> reservation_record \<Rightarrow> unit coord_op" where
  "supersede pv now previous s =
     (case find_record_locked s (rv_id previous) (rv_generation previous) of
        None \<Rightarrow> (Inr (), s)
      | Some r \<Rightarrow>
          let reason = ''superseded by generation '' @ to_decimal (rv_generation r + 1);
              r' = stated RsSuperseded now reason pv r
          in andThen (index_erase_locked r') (\<lambda>_. modify (sync_queues_locked r'))
               (set_state_locked r RsSuperseded now reason pv s))"

definition enter_successor :: "reservation_record \<Rightarrow> unit coord_op" where
  "enter_successor r =
     andThen (modify (register_record_locked r)) (\<lambda>_.
     andThen (update_index_locked r) (\<lambda>_.
       modify (sync_queues_locked r)))"

definition project_amendment :: "reservation_mutation \<Rightarrow> reservation_record list \<Rightarrow> reservation_record list \<Rightarrow> timestamp \<Rightarrow> unit coord_op" where
  "project_amendment m superseded successors now =
     andThen (each (supersede (rv_last_provenance (mu_record m)) now) superseded) (\<lambda>_.
     andThen (modify (\<lambda>s. case mu_edge m of None \<Rightarrow> s | Some e \<Rightarrow> s\<lparr>co_edges := co_edges s @ [e]\<rparr>)) (\<lambda>_.
     andThen (each enter_successor successors) (\<lambda>_.
       modify (\<lambda>s. bump cst_amendments_update (replay_attempt (mu_attempt m) (enter_series (mu_series m) s))))))"

definition commit_amendment ::
  "request_context \<Rightarrow> identity \<Rightarrow> counter \<Rightarrow> reservation_terms \<Rightarrow> policy_record \<Rightarrow> resolved_binding \<Rightarrow> interval list \<Rightarrow>
   reservation_record \<Rightarrow> reservation_record list \<Rightarrow> assessment \<Rightarrow> timestamp \<Rightarrow> amendment_result coord_op" where
  "commit_amendment cx fingerprint target_generation t policy b ws predecessor superseded a now =
     andThen (gets (\<lambda>s. st_last_sequence (co_store s) + 1)) (\<lambda>predicted.
     andThen (plan_amendment cx fingerprint target_generation t policy b ws predecessor superseded now) (\<lambda>(m, successors).
     andThen (append_locked (DrReservationAmend m)) (\<lambda>appended.
     andThen (guard_op (appended = predicted) EInternal) (\<lambda>_.
     andThen (project_amendment m superseded successors now) (\<lambda>_.
       gets (\<lambda>s. \<lparr>ad_predecessor = find_record_locked s (rv_id predecessor) (rv_generation predecessor),
                  ad_successor = Some (mu_record m), ad_has_series = (mu_series m \<noteq> None), ad_series = mu_series m,
                  ad_members = successors, ad_report = to_report a, ad_replayed = False\<rparr>))))))"

definition amend_scope ::
  "request_context \<Rightarrow> identity \<Rightarrow> identity \<Rightarrow> counter \<Rightarrow> reservation_terms \<Rightarrow> policy_record \<Rightarrow> resolved_binding \<Rightarrow> interval list \<Rightarrow>
   reservation_record \<Rightarrow> bool \<Rightarrow> timestamp \<Rightarrow> (amendment_result \<times> bool) scope_op" where
  "amend_scope cx fingerprint target target_generation t policy b ws predecessor dry_run now =
     andThen (superseded_by_amendment predecessor) (\<lambda>superseded.
     andThen (gets (\<lambda>st. evaluate (fst st) t b policy 0 ws)) (\<lambda>evaluation.
       case evaluation of
         Inl (_, failure) \<Rightarrow>
           if dry_run then ret (rejected_amendment predecessor failure, False)
           else andThen (inside (record_refusal cx fingerprint (as_outcome failure) target target_generation (tm_claimant t) now))
                  (\<lambda>_. ret (rejected_amendment predecessor failure, False))
       | Inr as \<Rightarrow>
           if dry_run then ret (rejected_amendment predecessor (hd as), False)
           else andThen (inside (commit_amendment cx fingerprint target_generation t policy b ws predecessor superseded (hd as) now))
                  (\<lambda>result. ret (result, True))))"

text \<open>The part after the time is reconciled: the predecessor is read again, as the reference of the source.\<close>

definition amend_current ::
  "request_context \<Rightarrow> identity \<Rightarrow> identity \<Rightarrow> counter \<Rightarrow> reservation_terms \<Rightarrow> bool \<Rightarrow> timestamp \<Rightarrow> reservation_record \<Rightarrow>
   amendment_result coord_op" where
  "amend_current cx fingerprint target target_generation t dry_run now predecessor s =
     (let policy = policy_for_locked s (tm_policy t)
      in case resolve_binding_locked s t of
           Inl e \<Rightarrow> (Inl e, s)
         | Inr b \<Rightarrow>
             (case expand_series (tm_interval t) (tm_recurrence t) (pl_max_series_members policy) of
                Inl e \<Rightarrow> (Inl e, s)
              | Inr ws \<Rightarrow>
                  andThen (scoped (amend_scope cx fingerprint target target_generation t policy b ws predecessor dry_run now))
                    (settle now) s))"

definition amend_named ::
  "request_context \<Rightarrow> identity \<Rightarrow> counter \<Rightarrow> reservation_terms \<Rightarrow> bool \<Rightarrow> timestamp \<Rightarrow> reservation_record \<Rightarrow> amendment_result coord_op" where
  "amend_named cx target target_generation t dry_run now predecessor s =
     (let fingerprint = amendment_fingerprint target target_generation t
      in case find_attempt_locked s (cx_attempt cx) of
           Some previous \<Rightarrow>
             if at_fingerprint previous \<noteq> fingerprint then (Inl EConflict, s) else replay_amendment predecessor previous s
         | None \<Rightarrow>
             if is_terminal (rv_state predecessor) then (Inl EIllegalTransition, s)
             else if tm_claimant t \<noteq> tm_claimant (rv_terms predecessor) then (Inl EAuthorityRequired, s)
             else if tm_claimant_generation t < tm_claimant_generation (rv_terms predecessor) then (Inl EFencedClaimant, s)
             else andThen (ensure_claimant_locked (tm_claimant t) (tm_claimant_generation t) now) (\<lambda>_.
                  andThen (reconcile_locked now) (\<lambda>_.
                    with_record target target_generation
                      (amend_current cx fingerprint target target_generation t dry_run now))) s)"

definition amend_locked ::
  "request_context \<Rightarrow> identity \<Rightarrow> counter \<Rightarrow> reservation_terms \<Rightarrow> bool \<Rightarrow> amendment_result coord_op" where
  "amend_locked cx target target_generation t dry_run =
     andThen now_locked (\<lambda>now.
     andThen (validate_context_locked cx True) (\<lambda>_.
     andThen (lift (validate_terms t)) (\<lambda>_.
       with_record target target_generation (amend_named cx target target_generation t dry_run now))))"

subsection \<open>Reconciliation of an attempt\<close>

record attempt_reconciliation =
  rn_attempt :: identity
  rn_known :: bool
  rn_outcome :: admission_outcome
  rn_reservation :: identity
  rn_generation :: counter
  rn_sequence :: counter
  rn_committed :: bool

definition reconcile_attempt_locked :: "request_context \<Rightarrow> identity \<Rightarrow> attempt_reconciliation coord_op" where
  "reconcile_attempt_locked cx attempt =
     andThen (validate_context_locked cx False) (\<lambda>_.
       gets (\<lambda>s. case find_attempt_locked s attempt of
          None \<Rightarrow> \<lparr>rn_attempt = attempt, rn_known = False, rn_outcome = AoInvalidRequest, rn_reservation = 0,
                   rn_generation = 0, rn_sequence = 0, rn_committed = False\<rparr>
        | Some a \<Rightarrow> \<lparr>rn_attempt = attempt, rn_known = True, rn_outcome = at_outcome a,
                     rn_reservation = at_reservation a, rn_generation = at_generation a,
                     rn_sequence = at_result_sequence a,
                     rn_committed = (outcome_is_acceptance (at_outcome a) \<and>
                       find_record_locked s (at_reservation a) (at_generation a) \<noteq> None)\<rparr>))"

end
