(* ===== verification/Brf_Ops.thy ===== *)
theory Brf_Ops
  imports Brf_Commit
begin

text \<open>
  Authority ingestion, fencing, provisional holds and shutdown: \<^verbatim>\<open>ingest_capacity_locked\<close> of
  \<^verbatim>\<open>src/coordinator_core.cpp\<close> and the operations of \<^verbatim>\<open>src/coordinator_ops.cpp\<close>. The public
  entry points take the mutex and call these operations.
\<close>

subsection \<open>Capacity ingestion\<close>

definition snapshot_gate :: "coordinator \<Rightarrow> identity \<Rightarrow> counter \<Rightarrow> counter \<Rightarrow> nat \<Rightarrow> status" where
  "snapshot_gate s i gen epoch n =
     (if is_nil i then Inl EInvalidIdentity
      else if gen = 0 then Inl EInvalidArgument
      else if epoch \<noteq> 0 \<and> epoch \<noteq> co_epoch s then Inl EStaleEpoch
      else if n > kMaxResourcesPerSnapshot then Inl EResourceExhausted
      else Inr ())"

text \<open>The statements that changed the ledger, in the order of the snapshot.\<close>

fun apply_capacities ::
  "identity \<Rightarrow> timestamp \<Rightarrow> resource_capacity list \<Rightarrow> resource_capacity list \<Rightarrow> resource_capacity list coord_op" where
  "apply_capacities snapshot now [] applied s = (Inr applied, s)"
| "apply_capacities snapshot now (c # cs) applied s =
     (let before' = (case ledger_find (co_ledger s) (rc_resource c) of None \<Rightarrow> 0 | Some e \<Rightarrow> rc_generation (le_capacity e))
      in andThen (on_ledger (ledger_apply snapshot now c)) (\<lambda>changed.
           if changed
           then andThen (if before' \<noteq> 0 \<and> rc_generation c > before'
                         then modify (bump cst_generation_advances_update) else ret ())
                  (\<lambda>_. apply_capacities snapshot now cs (applied @ [c]))
           else apply_capacities snapshot now cs applied) s)"

fun apply_withdrawals :: "timestamp \<Rightarrow> name list \<Rightarrow> name list \<Rightarrow> name list coord_op" where
  "apply_withdrawals now [] withdrawn s = (Inr withdrawn, s)"
| "apply_withdrawals now (n # ns) withdrawn s =
     (case on_ledger (ledger_withdraw n now) s of
        (Inl e, s1) \<Rightarrow> if e = ENotFound then apply_withdrawals now ns withdrawn s1 else (Inl e, s1)
      | (Inr _, s1) \<Rightarrow> apply_withdrawals now ns (withdrawn @ [n]) s1)"

definition note_capacity :: "capacity_snapshot \<Rightarrow> coordinator \<Rightarrow> coordinator" where
  "note_capacity v s =
     s\<lparr>co_last_capacity_snapshot := cs_id v, co_last_capacity_generation := cs_generation v\<rparr>"

text \<open>
  Holds whose resources or path moved are fenced; the errors of the releases are discarded.
\<close>

definition fence_holds_on :: "name list \<Rightarrow> coordinator \<Rightarrow> coordinator" where
  "fence_holds_on names =
     release_holds (\<lambda>h. list_ex (\<lambda>r. r \<in> set names) (hd_resources h)) ''resource generation changed under a provisional hold'' True"

definition publish_capacity :: "capacity_snapshot \<Rightarrow> resource_capacity list \<Rightarrow> name list \<Rightarrow> timestamp \<Rightarrow> unit coord_op" where
  "publish_capacity v applied withdrawn now =
     andThen (append_locked (DrCapacitySnapshot
       \<lparr>ca_snapshot = v\<lparr>cs_ingested_at := now\<rparr>, ca_withdrawals = withdrawn\<rparr>)) (\<lambda>_.
     andThen (modify (\<lambda>s. bump cst_capacity_ingestions_update (note_capacity v s))) (\<lambda>_.
     andThen (refresh_applicability_locked now True) (\<lambda>_.
     andThen (modify (fence_holds_on (map rc_resource applied @ withdrawn))) (\<lambda>_.
     andThen (each (\<lambda>n. detect_overcommit_locked n now) (map rc_resource applied @ withdrawn)) (\<lambda>_.
       release_terminal_history_locked now)))))"

definition ingest_new_capacity :: "capacity_snapshot \<Rightarrow> name list \<Rightarrow> timestamp \<Rightarrow> unit coord_op" where
  "ingest_new_capacity v withdrawals now =
     andThen (guard_op (\<not> has_adjacent_dup (sort_by (<) (map rc_resource (cs_resources v)))) EConflict) (\<lambda>_.
     andThen (apply_capacities (cs_id v) now (cs_resources v) []) (\<lambda>applied.
     andThen (apply_withdrawals now withdrawals []) (\<lambda>withdrawn.
       if applied = [] \<and> withdrawn = [] then modify (note_capacity v)
       else publish_capacity v applied withdrawn now)))"

definition ingest_capacity_locked :: "capacity_snapshot \<Rightarrow> name list \<Rightarrow> request_context \<Rightarrow> unit coord_op" where
  "ingest_capacity_locked v withdrawals cx =
     andThen now_locked (\<lambda>now.
     andThen (validate_context_locked cx False) (\<lambda>_.
     andThen (\<lambda>s. (snapshot_gate s (cs_id v) (cs_generation v) (cs_fabric_epoch v) (length (cs_resources v)), s)) (\<lambda>_ s.
       if cs_generation v \<le> co_last_capacity_generation s \<and> \<not> is_nil (co_last_capacity_snapshot s)
       then if cs_id v = co_last_capacity_snapshot s then (Inr (), s) else (Inl EStaleGeneration, s)
       else ingest_new_capacity v withdrawals now s)))"

subsection \<open>Path and policy ingestion\<close>

fun apply_paths :: "identity \<Rightarrow> timestamp \<Rightarrow> path_authority list \<Rightarrow> name list \<Rightarrow> name list coord_op" where
  "apply_paths snapshot now [] changed s = (Inr changed, s)"
| "apply_paths snapshot now (p # ps) changed s =
     andThen (on_paths (path_apply snapshot now p)) (\<lambda>applied.
       apply_paths snapshot now ps (if applied then changed @ [pa_path p] else changed)) s"

definition publish_paths :: "path_authority_snapshot \<Rightarrow> name list \<Rightarrow> timestamp \<Rightarrow> unit coord_op" where
  "publish_paths v changed now =
     andThen (append_locked (DrPathSnapshot (v\<lparr>ps_ingested_at := now\<rparr>))) (\<lambda>_.
     andThen (modify (\<lambda>s. s\<lparr>co_last_path_snapshot := ps_id v, co_last_path_generation := ps_generation v\<rparr>)) (\<lambda>_.
     andThen (refresh_applicability_locked now True) (\<lambda>_.
       modify (release_holds (\<lambda>h. hd_path h \<noteq> [] \<and> hd_path h \<in> set changed)
         ''path authority changed under a provisional hold'' True))))"

definition ingest_paths_locked :: "path_authority_snapshot \<Rightarrow> request_context \<Rightarrow> unit coord_op" where
  "ingest_paths_locked v cx =
     andThen now_locked (\<lambda>now.
     andThen (validate_context_locked cx False) (\<lambda>_.
     andThen (\<lambda>s. (snapshot_gate s (ps_id v) (ps_generation v) (ps_fabric_epoch v) (length (ps_paths v)), s)) (\<lambda>_.
     andThen (guard_op (\<not> has_adjacent_dup (sort_by (<) (map pa_path (ps_paths v)))) EConflict) (\<lambda>_.
     andThen (apply_paths (ps_id v) now (ps_paths v) []) (\<lambda>changed.
       if changed = [] then ret () else publish_paths v changed now)))))"

definition bound_to_old_policy :: "policy_record \<Rightarrow> reservation_record \<Rightarrow> bool" where
  "bound_to_old_policy p r \<longleftrightarrow> \<not> is_terminal (rv_state r) \<and> av_policy (rv_authority r) = pl_name p \<and>
     av_policy_generation (rv_authority r) \<noteq> pl_generation p"

definition mark_policy_change :: "timestamp \<Rightarrow> reservation_key \<Rightarrow> unit coord_op" where
  "mark_policy_change now k s =
     (case om_find (co_records s) k of
        None \<Rightarrow> (Inr (), s)
      | Some r \<Rightarrow> mark_applicability_locked r ApRevalidationRequired ArPolicyMaterialChange now s)"

definition publish_policy :: "policy_record \<Rightarrow> bool \<Rightarrow> timestamp \<Rightarrow> unit coord_op" where
  "publish_policy p material now =
     andThen (append_locked (DrPolicyRecord (p\<lparr>pl_ingested_at := now\<rparr>))) (\<lambda>_ s.
       if material
       then each (mark_policy_change now) (map fst (filter (\<lambda>(_, r). bound_to_old_policy p r) (co_records s))) s
       else (Inr (), s))"

definition ingest_policy_locked :: "policy_record \<Rightarrow> request_context \<Rightarrow> unit coord_op" where
  "ingest_policy_locked p cx =
     andThen now_locked (\<lambda>now.
     andThen (validate_context_locked cx False) (\<lambda>_.
     andThen (gets (\<lambda>s. policy_find (co_policies s) (pl_name p))) (\<lambda>previous.
     andThen (on_policies (policy_apply p)) (\<lambda>applied.
       if applied
       then publish_policy p (case previous of None \<Rightarrow> True | Some e \<Rightarrow> materially_differs p (pe_record e)) now
       else ret ()))))"

subsection \<open>Claimants and fences\<close>

definition register_claimant_locked :: "identity \<Rightarrow> counter \<Rightarrow> request_context \<Rightarrow> unit coord_op" where
  "register_claimant_locked claimant gen cx =
     andThen (validate_context_locked cx False) (\<lambda>_.
     andThen (guard_op (gen \<noteq> 0) EInvalidIdentity) (\<lambda>_.
     andThen now_locked (\<lambda>now.
       ensure_claimant_locked claimant gen now)))"

definition fence_of :: "request_context \<Rightarrow> identity \<Rightarrow> counter \<Rightarrow> identity \<Rightarrow> identity \<Rightarrow> bool \<Rightarrow> timestamp \<Rightarrow> fence_mutation" where
  "fence_of cx claimant gen boot session claimant_wide now =
     \<lparr>fm_claimant = claimant, fm_claimant_generation = gen, fm_boot = boot, fm_session = session, fm_at = now,
      fm_reason = sanitize_reason (cx_reason cx), fm_claimant_wide = claimant_wide\<rparr>"

definition fence_holds :: "fence_mutation \<Rightarrow> coordinator \<Rightarrow> coordinator" where
  "fence_holds f s =
     (let s1 = (if is_nil (fm_boot f) then s else fence_holds_for_boot_locked (fm_boot f) (fm_reason f) s);
          s2 = (if is_nil (fm_session f) then s1 else fence_holds_for_session_locked (fm_session f) (fm_reason f) s1)
      in if fm_claimant_wide f \<and> \<not> is_nil (fm_claimant f)
         then fence_holds_for_claimant_locked (fm_claimant f) (fm_claimant_generation f) (fm_reason f) s2 else s2)"

definition fence_locked ::
  "request_context \<Rightarrow> identity \<Rightarrow> counter \<Rightarrow> identity \<Rightarrow> identity \<Rightarrow> bool \<Rightarrow> unit coord_op" where
  "fence_locked cx claimant gen boot session claimant_wide =
     andThen now_locked (\<lambda>now.
     andThen (validate_context_locked cx False) (\<lambda>_.
     andThen (guard_op (\<not> (is_nil claimant \<and> is_nil boot \<and> is_nil session)) EInvalidArgument) (\<lambda>_.
       let f = fence_of cx claimant gen boot session claimant_wide now
       in andThen (append_locked (DrFence f)) (\<lambda>_.
            modify (\<lambda>s. fence_holds f (enter_fence f s))))))"

subsection \<open>Holds\<close>

definition session_holds :: "coordinator \<Rightarrow> identity \<Rightarrow> hold_record list" where
  "session_holds s session =
     filter (\<lambda>h. \<not> hd_released h \<and> hd_session h = session) (map snd (co_holds s))"

definition hold_gate :: "coordinator \<Rightarrow> policy_record \<Rightarrow> request_context \<Rightarrow> reservation_terms \<Rightarrow> timestamp \<Rightarrow> timestamp \<Rightarrow> status" where
  "hold_gate s policy cx t expires_at now =
     (let mine = session_holds s (cx_session cx);
          bandwidth = sum_list (map hd_amount mine)
      in if pl_max_hold_ttl policy > 0 \<and> expires_at - now > pl_max_hold_ttl policy then Inl EPolicyRejected
         else if \<not> now < expires_at then Inl EInvalidInterval
         else if pl_max_holds_per_session policy \<noteq> 0 \<and> length mine \<ge> unat (pl_max_holds_per_session policy)
         then Inl EResourceExhausted
         else if pl_max_hold_bandwidth policy > 0 \<and> bandwidth + tm_amount t > pl_max_hold_bandwidth policy
         then Inl EResourceExhausted
         else Inr ())"

definition new_hold ::
  "coordinator \<Rightarrow> request_context \<Rightarrow> reservation_terms \<Rightarrow> resolved_binding \<Rightarrow> timestamp \<Rightarrow> timestamp \<Rightarrow> hold_record" where
  "new_hold s cx t b expires_at now =
     \<lparr>hd_id = derive (cx_attempt cx) 0x484F4C44, hd_generation = 1, hd_claimant = tm_claimant t,
      hd_claimant_generation = tm_claimant_generation t, hd_session = cx_session cx, hd_boot = cx_publisher_boot cx,
      hd_epoch = co_epoch s, hd_binding_kind = rb_kind b, hd_resources = map rr_resource (rb_resources b),
      hd_path = rb_path b, hd_path_generation = rb_path_generation b, hd_interval = tm_interval t,
      hd_amount = tm_amount t, hd_guarantee = tm_guarantee t, hd_created_at = now, hd_expires_at = expires_at,
      hd_released = False, hd_released_at = 0, hd_release_reason = []\<rparr>"

definition hold_entry :: "hold_record \<Rightarrow> resource_ref \<Rightarrow> index_entry" where
  "hold_entry h ref =
     \<lparr>ie_kind = HkHold, ie_id = hd_id h, ie_holder_generation = hd_generation h, ie_resource = rr_resource ref,
      ie_interval = hd_interval h, ie_amount = hd_amount h, ie_guarantee = hd_guarantee h, ie_state = RsPending\<rparr>"

text \<open>The entries go in one by one; when one is refused, all entries of the holder are taken out again.\<close>

fun index_hold :: "hold_record \<Rightarrow> resource_ref list \<Rightarrow> unit coord_op" where
  "index_hold h [] s = (Inr (), s)"
| "index_hold h (ref # refs) s =
     (case on_index (ci_insert (hold_entry h ref)) s of
        (Inl e, s1) \<Rightarrow> (Inl e, snd (on_index (ci_erase_all HkHold (hd_id h) (hd_generation h)) s1))
      | (Inr _, s1) \<Rightarrow> index_hold h refs s1)"

definition grant_hold :: "request_context \<Rightarrow> reservation_terms \<Rightarrow> timestamp \<Rightarrow> timestamp \<Rightarrow> hold_record coord_op" where
  "grant_hold cx t expires_at now s =
     (let policy = policy_for_locked s (tm_policy t)
      in case bindE (hold_gate s policy cx t expires_at now) (\<lambda>_. resolve_binding_locked s t) of
           Inl e \<Rightarrow> (Inl e, s)
         | Inr b \<Rightarrow>
             let a = assess_locked s t b policy (unat (pl_max_conflict_set policy));
                 h = new_hold s cx t b expires_at now
             in if as_outcome a \<noteq> AoCommittable then (Inl (outcome_to_error_code (as_outcome a)), s)
                else andThen (index_hold h (rb_resources b)) (\<lambda>_.
                     andThen (modify (\<lambda>s. s\<lparr>co_holds := om_put (hd_id h) h (co_holds s)\<rparr>)) (\<lambda>_.
                       ret h)) s)"

definition acquire_hold :: "request_context \<Rightarrow> reservation_terms \<Rightarrow> timestamp \<Rightarrow> hold_record coord_op" where
  "acquire_hold cx t expires_at =
     andThen now_locked (\<lambda>now.
     andThen (validate_context_locked cx True) (\<lambda>_.
     andThen (lift (validate_terms t)) (\<lambda>_.
     andThen (ensure_claimant_locked (tm_claimant t) (tm_claimant_generation t) now) (\<lambda>_.
     andThen (reconcile_locked now) (\<lambda>_.
       grant_hold cx t expires_at now)))))"

definition release_hold :: "request_context \<Rightarrow> identity \<Rightarrow> counter \<Rightarrow> hold_record option coord_op" where
  "release_hold cx i gen =
     andThen (validate_context_locked cx False) (\<lambda>_ s.
       case om_find (co_holds s) i of
         None \<Rightarrow> (Inl ENotFound, s)
       | Some h \<Rightarrow>
           if hd_generation h \<noteq> gen then (Inl EGenerationMismatch, s)
           else if hd_boot h \<noteq> cx_publisher_boot cx \<and> \<not> is_nil (cx_publisher_boot cx) then (Inl EAuthorityRequired, s)
           else andThen (if hd_released h then ret () else release_hold_locked i (cx_reason cx) False)
                  (\<lambda>_. gets (\<lambda>s. om_find (co_holds s) i)) s)"

definition release_session :: "request_context \<Rightarrow> unit coord_op" where
  "release_session cx =
     andThen now_locked (\<lambda>now.
     andThen (validate_context_locked cx False) (\<lambda>_.
     andThen (reconcile_locked now) (\<lambda>_.
       modify (fence_holds_for_session_locked (cx_session cx) ''session released''))))"

subsection \<open>Shutdown\<close>

text \<open>The flush at the end writes nothing the model keeps apart from the file.\<close>

definition begin_shutdown :: "coordinator \<Rightarrow> coordinator" where
  "begin_shutdown s =
     release_holds (\<lambda>_. True) ''coordinator shutdown'' False
       (fence_holds_for_session_locked 0 ''coordinator shutdown'' (s\<lparr>co_stopping := True\<rparr>))"

end
