(* ===== verification/Brf_Query.thy ===== *)
theory Brf_Query
  imports Brf_Ops
begin

text \<open>
  The queries and the invariant audit of \<^verbatim>\<open>src/coordinator_query.cpp\<close>. A violation is a value
  naming the rule it breaks; the source reports the same cases as texts.
\<close>

definition kMaxQueryResults :: nat where
  "kMaxQueryResults = 4096"

definition binding_contains :: "reservation_record \<Rightarrow> name \<Rightarrow> bool" where
  "binding_contains r resource \<longleftrightarrow> list_ex (\<lambda>ref. rr_resource ref = resource) (av_resources (rv_authority r))"

subsection \<open>Audit\<close>

datatype violation =
    VLiveGenerations identity
  | VNotIndexed reservation_key
  | VIndexed reservation_key
  | VAccounting name
  | VCeiling name
  | VHoldUnindexed identity
  | VHoldLeaked identity
  | VPredecessor reservation_key
  | VLineageBound reservation_key
  | VLineageCycle reservation_key
  | VSequence reservation_key
  | VQueueUnknown reservation_key
  | VQueueIdle reservation_key
  | VQueueDeadline reservation_key
  | VAttempt identity

definition audit_generations :: "coordinator \<Rightarrow> violation list" where
  "audit_generations s =
     (let live = map (\<lambda>(k, _). fst k) (filter (\<lambda>(_, r). \<not> is_terminal (rv_state r)) (co_records s))
      in map VLiveGenerations (filter (\<lambda>i. length (filter ((=) i) live) > 1) (remdups live)))"

definition is_current_generation :: "coordinator \<Rightarrow> reservation_record \<Rightarrow> bool" where
  "is_current_generation s r \<longleftrightarrow> om_find (co_current_generation s) (rv_id r) = Some (rv_generation r)"

definition audit_index :: "coordinator \<Rightarrow> violation list" where
  "audit_index s =
     concat (map (\<lambda>(_, r).
       let indexed = ci_contains HkReservation (rv_id r) (co_index s) \<and> index_holds_locked s r;
           should_index = indexable_locked s r
       in (if should_index \<and> (\<not> indexed \<or> \<not> is_current_generation s r) then [VNotIndexed (record_key r)] else []) @
          (if indexed \<and> \<not> should_index then [VIndexed (record_key r)] else [])) (co_records s))"

text \<open>What the records and the holds contribute to a resource, and the brute-force peak over it.\<close>

definition contributions :: "coordinator \<Rightarrow> name \<Rightarrow> (interval \<times> bandwidth) list" where
  "contributions s resource =
     map (\<lambda>r. (consuming_interval r, tm_amount (rv_terms r)))
       (filter (\<lambda>r. is_current_generation s r \<and> indexable_locked s r \<and> binding_contains r resource) (map snd (co_records s))) @
     map (\<lambda>h. (hd_interval h, hd_amount h))
       (filter (\<lambda>h. \<not> hd_released h \<and> resource \<in> set (hd_resources h)) (map snd (co_holds s)))"

definition brute_peak :: "(interval \<times> bandwidth) list \<Rightarrow> bandwidth" where
  "brute_peak cs =
     fold (\<lambda>t brute. max brute (sum_list (map snd (filter (\<lambda>(w, _). contains_ts w t) cs))))
       (unique_by (=) (sort_by (<) (map (\<lambda>(w, _). iv_start w) cs))) 0"

definition audit_accounting :: "coordinator \<Rightarrow> violation list" where
  "audit_accounting s =
     concat (map (\<lambda>(resource, e).
       let indexed = peak_combined (co_index s) resource horizon
       in (if brute_peak (contributions s resource) \<noteq> indexed then [VAccounting resource] else []) @
          (if \<not> le_withdrawn e \<and> indexed > committable_ceiling (le_capacity e) \<and> \<not> in_emergency s resource
           then [VCeiling resource] else [])) (co_ledger s))"

definition audit_holds :: "coordinator \<Rightarrow> violation list" where
  "audit_holds s =
     concat (map (\<lambda>(_, h).
       let indexed = ci_contains HkHold (hd_id h) (co_index s)
       in if \<not> hd_released h \<and> \<not> indexed then [VHoldUnindexed (hd_id h)]
          else if hd_released h \<and> indexed then [VHoldLeaked (hd_id h)] else []) (co_holds s))"

text \<open>The walk along the predecessors, with the hops it may still make: the source gives up after 4096.\<close>

fun lineage_walk :: "coordinator \<Rightarrow> reservation_record \<Rightarrow> nat \<Rightarrow> identity \<Rightarrow> counter \<Rightarrow> violation list" where
  "lineage_walk s r 0 i gen = (if is_nil i then [] else [VLineageBound (record_key r)])"
| "lineage_walk s r (Suc n) i gen =
     (if is_nil i then []
      else case om_find (co_records s) (i, gen) of
             None \<Rightarrow> []
           | Some p \<Rightarrow>
               if rv_predecessor p = rv_id r then [VLineageCycle (record_key r)]
               else lineage_walk s r n (rv_predecessor p) (rv_predecessor_generation p))"

definition audit_lineage :: "coordinator \<Rightarrow> violation list" where
  "audit_lineage s =
     concat (map (\<lambda>(_, r).
       if is_nil (rv_predecessor r) then []
       else (if \<not> rv_predecessor_generation r < rv_generation r then [VPredecessor (record_key r)] else []) @
            lineage_walk s r 4096 (rv_predecessor r) (rv_predecessor_generation r)) (co_records s))"

definition audit_sequences :: "coordinator \<Rightarrow> violation list" where
  "audit_sequences s =
     map (\<lambda>(k, _). VSequence k) (filter (\<lambda>(_, r). rv_sequence r > st_last_sequence (co_store s)) (co_records s))"

definition audit_queue :: "coordinator \<Rightarrow> violation list" where
  "audit_queue s =
     concat (map (\<lambda>(t, k).
       case om_find (co_records s) k of
         None \<Rightarrow> [VQueueUnknown k]
       | Some r \<Rightarrow>
           if \<not> consumes r then [VQueueIdle k]
           else if iv_end (consuming_interval r) \<noteq> t then [VQueueDeadline k] else []) (co_expiry_queue s))"

definition audit_attempts :: "coordinator \<Rightarrow> violation list" where
  "audit_attempts s =
     map (\<lambda>(i, _). VAttempt i) (filter (\<lambda>(_, a).
       outcome_is_acceptance (at_outcome a) \<and> \<not> is_nil (at_reservation a) \<and>
       find_record_locked s (at_reservation a) (at_generation a) = None \<and>
       om_find (co_retired s) (at_reservation a) = None) (co_attempts s))"

definition audit_locked :: "coordinator \<Rightarrow> violation list" where
  "audit_locked s =
     audit_generations s @ audit_index s @ audit_accounting s @ audit_holds s @ audit_lineage s @
     audit_sequences s @ audit_queue s @ audit_attempts s"

subsection \<open>Record queries\<close>

definition reconciled :: "(timestamp \<Rightarrow> 'a coord_op) \<Rightarrow> 'a coord_op" where
  "reconciled f = andThen now_locked (\<lambda>now. andThen (reconcile_locked now) (\<lambda>_. f now))"

definition get_reservation :: "identity \<Rightarrow> counter \<Rightarrow> reservation_record coord_op" where
  "get_reservation i gen = reconciled (\<lambda>_ s.
     case (if gen = 0 then current_record_locked s i else find_record_locked s i gen) of
       Some r \<Rightarrow> (Inr r, s)
     | None \<Rightarrow> (case om_find (co_retired s) i of Some r \<Rightarrow> (Inr r, s) | None \<Rightarrow> (Inl ENotFound, s)))"

definition sorted_records :: "reservation_record list \<Rightarrow> reservation_record list" where
  "sorted_records rs = sort_by (\<lambda>a b. record_key a < record_key b) (take kMaxQueryResults rs)"

definition query_claimant :: "identity \<Rightarrow> bool \<Rightarrow> reservation_record list coord_op" where
  "query_claimant claimant include_terminal = reconciled (\<lambda>_. gets (\<lambda>s.
     sorted_records (filter (\<lambda>r. tm_claimant (rv_terms r) = claimant \<and> (include_terminal \<or> \<not> is_terminal (rv_state r)))
       (map snd (co_records s)))))"

definition query_resource :: "name \<Rightarrow> interval \<Rightarrow> bool \<Rightarrow> reservation_record list coord_op" where
  "query_resource resource w include_terminal = reconciled (\<lambda>_. gets (\<lambda>s.
     sorted_records (filter (\<lambda>r. (include_terminal \<or> is_current_generation s r) \<and> binding_contains r resource \<and>
         (iv_empty w \<or> overlaps (tm_interval (rv_terms r)) w)) (map snd (co_records s)))))"

subsection \<open>Capacity queries\<close>

definition remaining_of :: "coordinator \<Rightarrow> name \<Rightarrow> interval \<Rightarrow> ledger_entry \<Rightarrow> remaining_capacity" where
  "remaining_of s resource w e =
     (let ceiling = ledger_ceiling e;
          left = ceiling - peak_combined (co_index s) resource w
      in \<lparr>rm_resource = resource, rm_generation = rc_generation (le_capacity e), rm_window = w,
          rm_committable_ceiling = ceiling, rm_committed_peak = peak_committed (co_index s) resource w,
          rm_holds_peak = peak_holds (co_index s) resource w, rm_remaining = (if left > 0 then left else 0),
          rm_maintenance_covers = (\<not> le_withdrawn e \<and> maintenance_covers (le_capacity e) w \<noteq> None),
          rm_overcommit_emergency = in_emergency s resource\<rparr>)"

definition query_remaining :: "name \<Rightarrow> interval \<Rightarrow> remaining_capacity list coord_op" where
  "query_remaining resource w = reconciled (\<lambda>_.
     andThen (lift (validate_interval w)) (\<lambda>_ s.
       case ledger_find (co_ledger s) resource of
         None \<Rightarrow> (Inl ENotFound, s)
       | Some e \<Rightarrow> (Inr [remaining_of s resource w e], s)))"

record capacity_timeline =
  ct_resource :: name
  ct_window :: interval
  ct_points :: "change_point list"
  ct_truncated :: bool

definition query_timeline :: "name \<Rightarrow> interval \<Rightarrow> nat \<Rightarrow> capacity_timeline coord_op" where
  "query_timeline resource w max_points = reconciled (\<lambda>_.
     andThen (lift (validate_interval w)) (\<lambda>_.
     andThen (guard_op (\<not> (max_points = 0 \<or> max_points > 4096)) EInvalidArgument) (\<lambda>_.
       gets (\<lambda>s. case timeline (co_index s) resource w max_points of (points, truncated) \<Rightarrow>
         \<lparr>ct_resource = resource, ct_window = w, ct_points = points, ct_truncated = truncated\<rparr>))))"

definition explain_conflicts :: "reservation_terms \<Rightarrow> identity \<Rightarrow> admission_report coord_op" where
  "explain_conflicts t candidate =
     andThen now_locked (\<lambda>now.
     andThen (lift (validate_terms t)) (\<lambda>_.
     andThen (reconcile_locked now) (\<lambda>_ s.
       let policy = policy_for_locked s (tm_policy t)
       in case resolve_binding_locked s t of
            Inl e \<Rightarrow> (Inl e, s)
          | Inr b \<Rightarrow>
              andThen (scoped (andThen
                (case (if is_nil candidate then None else current_record_locked s candidate) of
                   None \<Rightarrow> ret ()
                 | Some r \<Rightarrow> suspending (suspend r))
                (\<lambda>_. gets (\<lambda>st. (to_report (assess_locked (fst st) t b policy (unat (pl_max_conflict_set policy))), False)))))
                (\<lambda>(report, _). ret report) s)))"

record overcommit_entry =
  oe_resource :: name
  oe_generation :: counter
  oe_committed_peak :: bandwidth
  oe_committable_ceiling :: bandwidth
  oe_window :: interval
  oe_detected_at :: timestamp

definition overcommit_report :: "coordinator \<Rightarrow> overcommit_entry list \<times> bool" where
  "overcommit_report s =
     (let entries = map (\<lambda>(_, o').
            let m = os_mutation o'
            in \<lparr>oe_resource = oc_resource m, oe_generation = oc_generation m, oe_committed_peak = oc_committed_peak m,
                oe_committable_ceiling = oc_ceiling m, oe_window = oc_window m, oe_detected_at = oc_at m\<rparr>)
            (filter (\<lambda>(_, o'). \<not> os_resolved o') (co_overcommit s))
      in (sort_by (\<lambda>a b. oe_resource a < oe_resource b) entries, entries \<noteq> []))"

subsection \<open>Lineage\<close>

record lineage_view =
  lv_id :: identity
  lv_generation :: counter
  lv_ancestry :: "supersession_edge list"
  lv_descendants :: "supersession_edge list"
  lv_truncated :: bool

text \<open>
  Both walks stop after 4096 hops. The edges of the ancestry are collected from the requested generation to
  the root and reversed at the end; the second component tells whether the bound was reached.
\<close>

definition ancestor_edge :: "reservation_record \<Rightarrow> identity \<Rightarrow> counter \<Rightarrow> supersession_edge" where
  "ancestor_edge p i gen =
     \<lparr>se_predecessor = i, se_predecessor_generation = gen, se_successor = rv_id p,
      se_successor_generation = rv_generation p + 1, se_recorded_at = rv_state_changed_at p, se_sequence = 0,
      se_reason = rv_state_reason p\<rparr>"

fun ancestry :: "coordinator \<Rightarrow> nat \<Rightarrow> identity \<Rightarrow> counter \<Rightarrow> supersession_edge list \<times> bool" where
  "ancestry s 0 i gen = ([], True)"
| "ancestry s (Suc n) i gen =
     (if is_nil i then ([], False)
      else case find_record_locked s i gen of
             None \<Rightarrow> ([], False)
           | Some p \<Rightarrow>
               (case ancestry s n (rv_predecessor p) (rv_predecessor_generation p) of
                  (edges, full) \<Rightarrow> (ancestor_edge p i gen # edges, full)))"

definition next_edge :: "coordinator \<Rightarrow> identity \<Rightarrow> counter \<Rightarrow> supersession_edge option" where
  "next_edge s i gen =
     (case find (\<lambda>e. se_predecessor e = i \<and> se_predecessor_generation e = gen) (co_edges s) of
        Some e \<Rightarrow> Some e
      | None \<Rightarrow>
          map_option (\<lambda>r. \<lparr>se_predecessor = i, se_predecessor_generation = gen, se_successor = rv_id r,
              se_successor_generation = rv_generation r, se_recorded_at = rv_state_changed_at r, se_sequence = 0,
              se_reason = rv_state_reason r\<rparr>)
            (find (\<lambda>r. rv_predecessor r = i \<and> rv_predecessor_generation r = gen) (map snd (co_records s))))"

fun descendants :: "coordinator \<Rightarrow> nat \<Rightarrow> identity \<Rightarrow> counter \<Rightarrow> supersession_edge list \<times> bool" where
  "descendants s 0 i gen = ([], True)"
| "descendants s (Suc n) i gen =
     (case next_edge s i gen of
        None \<Rightarrow> ([], False)
      | Some e \<Rightarrow>
          (case descendants s n (se_successor e) (se_successor_generation e) of
             (edges, full) \<Rightarrow> (e # edges, full)))"

definition query_lineage :: "coordinator \<Rightarrow> identity \<Rightarrow> counter \<Rightarrow> lineage_view result" where
  "query_lineage s i gen =
     bindE (if gen \<noteq> 0 then Inr gen
            else case om_find (co_current_generation s) i of None \<Rightarrow> Inl ENotFound | Some g \<Rightarrow> Inr g) (\<lambda>effective.
       case find_record_locked s i effective of
         None \<Rightarrow> Inl ENotFound
       | Some r \<Rightarrow>
           (case (ancestry s 4096 (rv_predecessor r) (rv_predecessor_generation r), descendants s 4096 i effective) of
              ((up, full_up), (down, full_down)) \<Rightarrow>
                Inr \<lparr>lv_id = i, lv_generation = effective, lv_ancestry = rev up, lv_descendants = down,
                     lv_truncated = (full_up \<or> full_down)\<rparr>))"

subsection \<open>Statistics and holds\<close>

record stats_view =
  sv_stats :: coordinator_stats
  sv_epoch :: counter
  sv_coordinator_boot :: identity
  sv_tracked_reservations :: nat
  sv_tracked_series :: nat
  sv_live_holds :: nat
  sv_index_entries :: nat
  sv_journal_bytes :: nat

definition stats :: "coordinator \<Rightarrow> stats_view" where
  "stats s =
     \<lparr>sv_stats = (co_stats s)\<lparr>cst_snapshot_sequence := st_snapshot_sequence (co_store s)\<rparr>,
      sv_epoch = co_epoch s, sv_coordinator_boot = co_boot s, sv_tracked_reservations = length (co_records s),
      sv_tracked_series = length (co_series_records s),
      sv_live_holds = length (filter (\<lambda>(_, h). \<not> hd_released h) (co_holds s)),
      sv_index_entries = ci_entry_count (co_index s), sv_journal_bytes = st_journal_bytes (co_store s)\<rparr>"

definition holds_view :: "coordinator \<Rightarrow> hold_record list" where
  "holds_view s = sort_by (\<lambda>a b. (hd_created_at a, hd_id a) < (hd_created_at b, hd_id b)) (map snd (co_holds s))"

end
