(* ===== verification/Brf_Closure.thy ===== *)
theory Brf_Closure
  imports Brf_Query
begin

text \<open>
  Capacity closure of a commit. A binding is well-formed; the index operations change the load of a resource by
  exactly what they insert and never raise it otherwise (\<open>shrinks\<close>); the members of a commit enter the
  index one by one within the limit the evaluation established for each.
\<close>

subsection \<open>Well-formed bindings\<close>

definition bound_names :: "coordinator \<Rightarrow> reservation_terms \<Rightarrow> name list" where
  "bound_names s t =
     (if tm_binding_kind t = BkResources then tm_resources t
      else case path_find (co_paths s) (tm_path t) of None \<Rightarrow> [] | Some e \<Rightarrow> pa_components (pt_path e))"

definition domain_backed :: "ledger \<Rightarrow> resource_ref list \<Rightarrow> failure_domain_ref \<Rightarrow> bool" where
  "domain_backed m refs d \<longleftrightarrow>
     (\<exists>ref \<in> set refs. \<exists>e. ledger_find m (rr_resource ref) = Some e \<and> fr_domain d \<noteq> [] \<and>
        rc_failure_domain (le_capacity e) = fr_domain d \<and> rc_failure_domain_generation (le_capacity e) = fr_generation d)"

lemma bind_resources_ok:
  "bind_resources m ns = Inr (refs, domains) \<Longrightarrow>
     map rr_resource refs = ns \<and> list_all (ledger_is_current m) refs \<and> list_all (domain_backed m refs) domains"
proof (induction ns arbitrary: refs domains)
  case (Cons n ns)
  from Cons.prems obtain e refs' domains' where e: "ledger_find m n = Some e" "\<not> le_withdrawn e"
    and rest: "bind_resources m ns = Inr (refs', domains')"
    and refs: "refs = \<lparr>rr_resource = n, rr_generation = rc_generation (le_capacity e)\<rparr> # refs'"
    and domains: "domains = (if rc_failure_domain (le_capacity e) \<noteq> []
       then \<lparr>fr_domain = rc_failure_domain (le_capacity e), fr_generation = rc_failure_domain_generation (le_capacity e)\<rparr> # domains'
       else domains')"
    by (auto simp: bindE_def Let_def split: option.splits sum.splits if_splits prod.splits)
  have "domain_backed m refs d" if "domain_backed m refs' d" for d
    using that by (auto simp: domain_backed_def refs)
  moreover have "domain_backed m refs \<lparr>fr_domain = rc_failure_domain (le_capacity e), fr_generation = rc_failure_domain_generation (le_capacity e)\<rparr>"
    if "rc_failure_domain (le_capacity e) \<noteq> []"
    using that e by (auto simp: domain_backed_def refs)
  ultimately show ?case
    using Cons.IH [OF rest] e by (auto simp: refs domains ledger_is_current_def list_all_iff)
qed simp

lemma canonicalize_domains_cases:
  "canonicalize_failure_domains refs = Inr rs \<longleftrightarrow>
      length refs \<le> kMaxBindingResources \<and> \<not> contradictory fr_domain fr_generation refs \<and>
      sorted_wrt (<) (map fr_domain rs) \<and> set rs = set refs"
proof -
  have "\<forall>a b. fr_domain a = fr_domain b \<and> fr_generation a = fr_generation b \<longrightarrow> (a :: failure_domain_ref) = b"
    by auto
  moreover have "fr_key = (\<lambda>a. (fr_domain a, fr_generation a))"
    by (simp add: fr_key_def fun_eq_iff)
  ultimately have "canon_scan fr_domain fr_generation (sort_by (\<lambda>a b. fr_key a < fr_key b) refs) = Inr rs \<longleftrightarrow>
      \<not> contradictory fr_domain fr_generation refs \<and> sorted_wrt (<) (map fr_domain rs) \<and> set rs = set refs"
    using canon_sorted_spec by blast
  then show ?thesis by (auto simp: canonicalize_failure_domains_def)
qed

lemma distinct_set_length: "distinct xs \<Longrightarrow> set xs = set ys \<Longrightarrow> length xs \<le> length ys"
  by (metis card_length distinct_card)

lemma resolve_binding_bound:
  assumes "resolve_binding_locked s t = Inr b"
  shows "\<exists>refs domains. bind_resources (co_ledger s) (bound_names s t) = Inr (refs, domains) \<and>
    canonicalize_resources refs = Inr (rb_resources b) \<and> canonicalize_failure_domains domains = Inr (rb_failure_domains b)"
  using assms
  by (auto simp: resolve_binding_locked_def bound_names_def canonical_binding_def bindE_def
      split: option.splits sum.splits if_splits prod.splits)

definition binding_typed :: "coordinator \<Rightarrow> name list \<Rightarrow> resolved_binding \<Rightarrow> bool" where
  "binding_typed s names b \<longleftrightarrow>
     sorted_wrt (<) (map rr_resource (rb_resources b)) \<and> length (rb_resources b) \<le> kMaxBindingResources \<and>
     set (map rr_resource (rb_resources b)) = set names \<and> list_all (ledger_is_current (co_ledger s)) (rb_resources b) \<and>
     sorted_wrt (<) (map fr_domain (rb_failure_domains b)) \<and> length (rb_failure_domains b) \<le> kMaxBindingResources \<and>
     list_all (domain_backed (co_ledger s) (rb_resources b)) (rb_failure_domains b)"

lemma strict_sorted_short:
  fixes f :: "'a \<Rightarrow> 'b :: linorder"
  assumes "sorted_wrt (<) (map f xs)" "set xs = set ys" "length ys \<le> n"
  shows "length xs \<le> n"
proof -
  have "distinct xs" using assms(1) by (auto simp: strict_sorted_iff distinct_map)
  then show ?thesis using distinct_set_length assms(2,3) order_trans by blast
qed

lemma resolve_binding_typed:
  assumes "resolve_binding_locked s t = Inr b"
  shows "binding_typed s (bound_names s t) b"
proof -
  obtain refs domains where bind: "bind_resources (co_ledger s) (bound_names s t) = Inr (refs, domains)"
    and canon: "canonicalize_resources refs = Inr (rb_resources b)" "canonicalize_failure_domains domains = Inr (rb_failure_domains b)"
    using resolve_binding_bound [OF assms] by blast
  note r = canon(1) [unfolded canonicalize_resources_cases [THEN conjunct2]]
    and d = canon(2) [unfolded canonicalize_domains_cases]
    and b = bind_resources_ok [OF bind]
  have "list_all (domain_backed (co_ledger s) (rb_resources b)) (rb_failure_domains b)"
    using b d r by (simp add: domain_backed_def list_all_iff)
  moreover have "set (map rr_resource (rb_resources b)) = set (bound_names s t)"
    using b r by (metis list.set_map)
  ultimately show ?thesis
    using r d b strict_sorted_short [of rr_resource "rb_resources b" refs] strict_sorted_short [of fr_domain "rb_failure_domains b" domains]
    by (simp add: binding_typed_def list_all_iff)
qed

text \<open>C16: A resolved binding is well-formed: its resources are exactly the names the request binds (the listed resources or
  the components of the path), in strictly ascending order and at most 64 of them, each at the generation the
  ledger holds now and not withdrawn; its failure domains are in strictly ascending order and each is the domain,
  at its current generation, of one of the bound resources.
\<close>

theorem binding_well_formed:
  assumes "resolve_binding_locked s t = Inr b"
  shows "binding_typed s (bound_names s t) b"
  using assms by (rule resolve_binding_typed)

theorem binding_well_formed_witness:
  "resolve_binding_locked (sample_coordinator 10) (sample_terms (mk_iv 10 20) 5) = Inr sample_binding \<and>
   binding_typed (sample_coordinator 10) [''link''] sample_binding"
proof -
  have r: "resolve_binding_locked (sample_coordinator 10) (sample_terms (mk_iv 10 20) 5) = Inr sample_binding"
    by (simp add: resolve_binding_locked_def sample_terms_def sample_ledger bindE_def sample_binding_def)
      (simp add: canonical_binding_def bindE_def sample_capacity_def canonicalize_resources_def canonicalize_failure_domains_def kMaxBindingResources_def)
  moreover have "bound_names (sample_coordinator 10) (sample_terms (mk_iv 10 20) 5) = [''link'']"
    by (simp add: bound_names_def sample_terms_def)
  ultimately show ?thesis using binding_well_formed [OF r] by simp
qed

subsection \<open>Loads under the index operations\<close>

definition load_at :: "capacity_index \<Rightarrow> name \<Rightarrow> timestamp \<Rightarrow> bandwidth" where
  "load_at ix r x = load (spec_loads (index_abs ix) r (\<lambda>_. True)) x"

lemma load_at_contents: "ci_ok ix \<Longrightarrow> load_at ix r x = load (axis_loads (\<lambda>_. True) (contents ix r)) x"
  by (simp add: load_at_def axis_spec)

lemma contents_loads_ok: "ci_ok ix \<Longrightarrow> loads_ok (axis_loads (\<lambda>_. True) (contents ix r))"
  using ci_contents_accounted [of ix r] by (auto simp: accounted_def ici_rep_def)

lemma load_at_bound: "ci_ok ix \<Longrightarrow> on_timeline x \<Longrightarrow> load_at ix r x \<le> load_bound"
  using contents_loads_ok [of ix r] by (simp add: load_at_contents loads_ok_def)

lemma contents_iff: "ci_ok ix \<Longrightarrow> e \<in> set (contents ix r) \<longleftrightarrow> index_abs ix (ie_kind e, ie_id e, r) = Some e"
  by (simp add: index_abs_def entry_of_iff belongs_def)

lemma index_abs_SomeD: "ci_ok ix \<Longrightarrow> index_abs ix (k, i, r) = Some e \<Longrightarrow> entry_key e = (k, i, r)"
  using rs_entries(2) [of ix r] by (auto simp: index_abs_def entry_of_iff belongs_def entry_key_def)

lemma load_mono: "es \<subseteq># es' \<Longrightarrow> loads_ok es' \<Longrightarrow> load es x \<le> load es' x"
proof -
  assume sub: "es \<subseteq># es'" and ok: "loads_ok es'"
  have "\<forall>(i, a) \<in># es' - es. 0 < a" using ok by (auto simp: loads_ok_def dest: in_diffD)
  then have "0 \<le> load (es' - es) x" by (rule load_nonneg)
  moreover have "load es' x = load es x + load (es' - es) x" using sub load_union [of es "es' - es" x] by simp
  ultimately show ?thesis by simp
qed

lemma load_at_mono:
  assumes "ci_ok ix" "ci_ok ix'" "index_abs ix' \<subseteq>\<^sub>m index_abs ix"
  shows "load_at ix' r x \<le> load_at ix r x"
proof -
  have "set (contents ix' r) \<subseteq> set (contents ix r)"
    using assms by (auto simp: contents_iff map_le_def dom_def)
  moreover have "distinct (contents ix' r)" "distinct (contents ix r)"
    using rs_entries(1) [OF assms(1)] rs_entries(1) [OF assms(2)] by (simp_all add: distinct_map)
  ultimately have "mset (contents ix' r) \<subseteq># mset (contents ix r)"
    by (metis mset_set_set msubset_mset_set_iff finite_set)
  then have "axis_loads (\<lambda>_. True) (contents ix' r) \<subseteq># axis_loads (\<lambda>_. True) (contents ix r)"
    by (simp add: axis_loads_def image_mset_subseteq_mono)
  then show ?thesis
    using load_mono contents_loads_ok [OF assms(1)] by (simp add: load_at_contents assms(1,2))
qed

lemma insert_load:
  assumes ok: "ci_ok ix" and run: "ci_insert e ix = (Inr (), ix')"
    and room: "\<And>x. x \<in> window_points (ie_interval e) \<Longrightarrow> load_at ix (ie_resource e) x + ie_amount e \<le> load_bound"
  shows "ci_ok ix'" and "index_abs ix' = (index_abs ix)(entry_key e \<mapsto> e)" and "index_abs ix (entry_key e) = None"
    and "load_at ix' r x = load_at ix r x + (if r = ie_resource e \<and> contains_ts (ie_interval e) x then ie_amount e else 0)"
proof -
  from run have iok: "ci_insert_ok ix e" using ci_insert_result(1) [of e ix] by simp
  have "fits ix e"
    unfolding fits_def axis_loads_Cons
    using room load_at_bound [OF ok] by (auto simp: load_at_contents [OF ok] window_points_def add.commute)
  note keeps = ci_insert_keeps [OF ok iok this]
  from \<open>fits ix e\<close> have "event_fits (IxInsert e) (index_abs ix)" using fits_spec [OF ok] by blast
  note ref = insert_refines [OF ok this]
  show ok': "ci_ok ix'" using keeps(1) run by simp
  show "index_abs ix' = (index_abs ix)(entry_key e \<mapsto> e)" "index_abs ix (entry_key e) = None"
    using ref run by (auto split: if_splits)
  show "load_at ix' r x = load_at ix r x + (if r = ie_resource e \<and> contains_ts (ie_interval e) x then ie_amount e else 0)"
    using keeps(2,3) run axis_loads_cong [of "contents ix' r" "e # contents ix r" "\<lambda>_. True"]
    by (cases "r = ie_resource e") (simp_all add: load_at_contents ok ok' axis_loads_Cons)
qed

text \<open>The entries of one holder, inserted resource by resource.\<close>

lemma inserts_load:
  assumes "each ci_insert es ix = (Inr (), ix')" and "ci_ok ix" and "distinct (map ie_resource es)"
    and "\<And>e x. e \<in> set es \<Longrightarrow> x \<in> window_points (ie_interval e) \<Longrightarrow> load_at ix (ie_resource e) x + ie_amount e \<le> load_bound"
  shows "ci_ok ix' \<and> index_abs ix' = index_abs ix ++ map_of (map (\<lambda>e. (entry_key e, e)) es) \<and>
    (\<forall>r x. load_at ix' r x = load_at ix r x +
       (\<Sum>e\<leftarrow>es. if r = ie_resource e \<and> contains_ts (ie_interval e) x then ie_amount e else 0))"
  using assms
proof (induction es arbitrary: ix)
  case (Cons e es)
  from Cons.prems(1) obtain ix1 where first: "ci_insert e ix = (Inr (), ix1)" and rest: "each ci_insert es ix1 = (Inr (), ix')"
    by (auto simp: andThen_Inr)
  note one = insert_load [OF Cons.prems(2) first Cons.prems(4)]
  have apart: "ie_resource e' \<noteq> ie_resource e" if "e' \<in> set es" for e'
    using that Cons.prems(3) by (metis distinct.simps(2) image_eqI list.set_map list.simps(9))
  have "load_at ix1 (ie_resource e') x + ie_amount e' \<le> load_bound"
    if "e' \<in> set es" "x \<in> window_points (ie_interval e')" for e' x
    using that apart [OF that(1)] Cons.prems(4) [of e' x] one(4) [of "ie_resource e'" x] by simp
  from Cons.IH [OF rest one(1) _ this] Cons.prems(3)
  have IH: "ci_ok ix'" "index_abs ix' = index_abs ix1 ++ map_of (map (\<lambda>e. (entry_key e, e)) es)"
    "\<And>r x. load_at ix' r x = load_at ix1 r x +
       (\<Sum>e\<leftarrow>es. if r = ie_resource e \<and> contains_ts (ie_interval e) x then ie_amount e else 0)" by auto
  have "entry_key e \<notin> dom (map_of (map (\<lambda>e. (entry_key e, e)) es))"
  proof
    assume "entry_key e \<in> dom (map_of (map (\<lambda>e. (entry_key e, e)) es))"
    then obtain e' where "e' \<in> set es" "entry_key e' = entry_key e" by (auto simp: dom_map_of_conv_image_fst)
    with apart [of e'] show False by (simp add: entry_key_def)
  qed
  then have "index_abs ix' = index_abs ix ++ map_of (map (\<lambda>e. (entry_key e, e)) (e # es))"
    by (simp add: IH(2) one(2) map_add_upd_left)
  moreover have "load_at ix' r x = load_at ix r x +
       (\<Sum>e\<leftarrow>e # es. if r = ie_resource e \<and> contains_ts (ie_interval e) x then ie_amount e else 0)" for r x
    using IH(3) one(4) by simp
  ultimately show ?case using IH(1) by blast
qed simp

subsection \<open>Operations that only take entries out of the index\<close>

definition shrinks :: "coordinator \<Rightarrow> coordinator \<Rightarrow> bool" where
  "shrinks s s' \<longleftrightarrow> co_ledger s' = co_ledger s \<and>
     (ci_ok (co_index s) \<longrightarrow> ci_ok (co_index s') \<and> index_abs (co_index s') \<subseteq>\<^sub>m index_abs (co_index s))"

interpretation shrinks: step_preorder shrinks
  by unfold_locales (auto simp: shrinks_def intro: map_le_trans)

lemma shrinks_same: "co_ledger s' = co_ledger s \<Longrightarrow> co_index s' = co_index s \<Longrightarrow> shrinks s s'"
  by (simp add: shrinks_def)

lemma shrinks_load: "shrinks s s' \<Longrightarrow> ci_ok (co_index s) \<Longrightarrow> load_at (co_index s') r x \<le> load_at (co_index s) r x"
  by (auto simp: shrinks_def intro: load_at_mono)

lemma shrinks_ok: "shrinks s s' \<Longrightarrow> ci_ok (co_index s) \<Longrightarrow> ci_ok (co_index s')"
  by (simp add: shrinks_def)

lemma shrinks_ledger: "shrinks s s' \<Longrightarrow> co_ledger s' = co_ledger s"
  by (simp add: shrinks_def)

lemma shrinks_absent:
  "shrinks s s' \<Longrightarrow> ci_ok (co_index s) \<Longrightarrow> index_abs (co_index s) k = None \<Longrightarrow> index_abs (co_index s') k = None"
  unfolding shrinks_def map_le_def by (metis domIff)

lemma shrinks_erase: "shrinks s (snd (on_index (ci_erase kind i gen r) s))"
  using erase_refines [of "co_index s" kind i gen r]
  by (auto simp: shrinks_def on_index_def prod_eq_iff map_le_def split: prod.splits option.splits if_splits)

lemma shrinks_erase_all: "shrinks s (snd (on_index (ci_erase_all kind i gen) s))"
  using erase_all_refines [of "co_index s" kind i gen]
  by (auto simp: shrinks_def on_index_def prod_eq_iff map_le_def split: prod.splits if_splits)

lemma shrinks_append: "shrinks s (snd (append_locked r s))"
  by (rule shrinks_same) (simp_all add: append_locked_def bump_def split: prod.splits sum.splits)

lemma shrinks_suspend_entries: "shrinks s (snd (suspend_entries es taken s))"
proof (induction es taken s rule: suspend_entries.induct)
  case (2 e es taken s)
  let ?m = "ci_erase (ie_kind e) (ie_id e) (ie_holder_generation e) (ie_resource e)"
  obtain x s1 where step: "on_index ?m s = (x, s1)" by force
  with shrinks_erase [of s] have "shrinks s s1" by (metis snd_conv)
  with 2 step show ?case by (cases x) (auto intro: shrinks.R_trans)
qed (simp add: shrinks.R_refl)

lemma shrinks_suspend: "shrinks s (snd (suspend r taken s))" "shrinks s (snd (suspend_hold i taken s))"
  by (simp_all add: suspend_def suspend_hold_def shrinks_suspend_entries)

lemma shrinks_suspending: "shrinks (fst st) (fst (snd (suspending (suspend r) st)))"
  "shrinks (fst st) (fst (snd (suspending (suspend_hold i) st)))"
  using shrinks_suspend [of "fst st"] by (auto simp: suspending_def split: prod.splits) (metis snd_conv)+

lemma shrinks_preempt_candidates: "shrinks (fst st) (fst (snd (preempt_candidates t b policy ws cs victims st)))"
proof (induction cs arbitrary: victims st)
  case (Cons c cs)
  show ?case
  proof (cases "find_record_locked (fst st) (ie_id c) (ie_holder_generation c)")
    case None
    with Cons show ?thesis by (auto intro: shrinks.R_refl)
  next
    case (Some r)
    obtain x st1 where step: "suspending (suspend r) st = (x, st1)" by (cases "suspending (suspend r) st")
    have "shrinks (fst st) (fst st1)" using shrinks_suspending(1) [of st r] step by simp
    moreover from this have "shrinks (fst st) (fst (snd (preempt_candidates t b policy ws cs v st1)))" for v
      by (rule shrinks.R_trans [OF _ Cons.IH])
    ultimately show ?thesis using Some step by (auto simp: shrinks.R_refl split: sum.split)
  qed
qed (simp add: shrinks.R_refl)

lemma preempt_candidates_evaluated:
  "preempt_candidates t b policy ws cs victims st = ((Some as, v), st') \<Longrightarrow> evaluate (fst st') t b policy 0 ws = Inr as"
proof (induction cs arbitrary: victims st)
  case (Cons c cs)
  then show ?case by (auto split: if_splits option.splits prod.splits sum.splits)
qed simp

lemma preempt_resources_evaluated:
  "preempt_resources t b policy ws w self refs victims st = ((Some as, v), st') \<Longrightarrow>
   evaluate (fst st') t b policy 0 ws = Inr as \<and> shrinks (fst st) (fst st')"
proof (induction refs arbitrary: victims st)
  case (Cons ref refs)
  obtain x v1 st1 where step: "preempt_candidates t b policy ws
      (preemption_candidates_locked (fst st) (rr_resource ref) w (tm_guarantee t) policy self) victims st = ((x, v1), st1)"
    by (metis prod.exhaust)
  have sh: "shrinks (fst st) (fst st1)"
    using shrinks_preempt_candidates [of st t b policy ws
      "preemption_candidates_locked (fst st) (rr_resource ref) w (tm_guarantee t) policy self" victims] step by simp
  show ?case
  proof (cases x)
    case None
    with Cons.prems step have "preempt_resources t b policy ws w self refs v1 st1 = ((Some as, v), st')"
      by (auto split: if_splits)
    from Cons.IH [OF this] sh show ?thesis by (auto intro: shrinks.R_trans)
  next
    case (Some a)
    with Cons.prems step have "a = as" "st' = st1" by (auto split: if_splits)
    with Some step sh preempt_candidates_evaluated show ?thesis by blast
  qed
qed simp

lemma plan_commit_evaluated:
  assumes "plan_commit t b policy ws self now st = (Inr (Inr (as, victims)), st')"
  shows "evaluate (fst st') t b policy 0 ws = Inr as \<and> shrinks (fst st) (fst st')"
  using assms preempt_resources_evaluated
  by (auto simp: plan_commit_def shrinks.R_refl split: sum.splits if_splits prod.splits option.splits)

lemma evaluate_committable:
  "evaluate s t b policy i ws = Inr as \<Longrightarrow> w \<in> set ws \<Longrightarrow> as_outcome (assess_for s t b policy w) = AoCommittable"
  by (induction ws arbitrary: i as) (auto simp: Let_def bindE_def split: if_splits sum.splits)

lemma suspend_named_holds_shrinks:
  "each (suspend_named_hold cx) holds st = (Inr (), st') \<Longrightarrow> shrinks (fst st) (fst st')"
proof (induction holds arbitrary: st)
  case (Cons h hs)
  then obtain st1 where first: "suspend_named_hold cx h st = (Inr (), st1)" and rest: "each (suspend_named_hold cx) hs st1 = (Inr (), st')"
    by (auto simp: andThen_Inr)
  from first have "shrinks (fst st) (fst st1)"
    using shrinks_suspending(2) [of st h] by (auto simp: suspend_named_hold_def split: option.splits if_splits)
  with Cons.IH [OF rest] show ?case by (blast intro: shrinks.R_trans)
qed (simp add: shrinks.R_refl)

lemma queues_index [simp]:
  "co_index (sync_queues_locked r s) = co_index s" "co_ledger (sync_queues_locked r s) = co_ledger s"
  by (simp_all add: sync_queues_locked_def Let_def)

lemma register_index [simp]:
  "co_index (register_record_locked r s) = co_index s" "co_ledger (register_record_locked r s) = co_ledger s"
  by (simp_all add: register_record_locked_def put_record_def Let_def)

lemma set_state_index [simp]:
  "co_index (set_state_locked r st at reason pv s) = co_index s" "co_ledger (set_state_locked r st at reason pv s) = co_ledger s"
  by (simp_all add: set_state_locked_def put_record_def count_move_def)

lemma on_index_ledger [simp]: "co_ledger (snd (on_index m s)) = co_ledger s"
  by (simp add: on_index_def split: prod.splits)

lemma shrinks_index_erase: "shrinks s (snd (index_erase_locked r s))"
  by (simp add: index_erase_locked_def shrinks_erase_all shrinks.R_refl)

lemma shrinks_sync_idle: "\<not> indexable_locked s r \<Longrightarrow> shrinks s (snd (sync_index_locked r s))"
  by (simp add: sync_index_locked_def shrinks_index_erase shrinks.R_refl)

lemma shrinks_companion:
  assumes "apply_companion m s = (Inr x, s')" and "\<not> consumes_capacity (sm_to_state m)"
  shows "shrinks s s'"
proof (cases "find_record_locked s (sm_id m) (sm_generation m)")
  case None
  with assms(1) show ?thesis by (simp add: apply_companion_def shrinks.R_refl)
next
  case (Some r)
  define r' where "r' = stated (sm_to_state m) (sm_at m) (sm_reason m) (sm_provenance m) r"
  define s1 where "s1 = set_state_locked r (sm_to_state m) (sm_at m) (sm_reason m) (sm_provenance m) s"
  from assms(1) Some obtain y s2 where sync: "sync_index_locked r' s1 = (Inr y, s2)"
    and s': "s' = bump cst_recalls_update (sync_queues_locked r' s2)"
    by (auto simp: apply_companion_def Let_def r'_def s1_def andThen_Inr modify_def)
  have "rv_state r' = sm_to_state m" by (simp add: r'_def stated_def Let_def)
  then have "\<not> indexable_locked s1 r'" using assms(2) by (simp add: indexable_locked_def consumes_def)
  then have "shrinks s1 s2" using shrinks_sync_idle [of s1 r'] sync by simp
  moreover have "shrinks s s1" by (rule shrinks_same) (simp_all add: s1_def)
  moreover have "shrinks s2 s'" by (rule shrinks_same) (simp_all add: s' bump_def)
  ultimately show ?thesis by (blast intro: shrinks.R_trans)
qed

text \<open>The entries of a record entering the index.\<close>

lemma replace_all_load:
  assumes run: "ci_replace_all kind i gen es ix = (Inr (), ix')" and ok: "ci_ok ix" and "distinct (map ie_resource es)"
    and room: "\<And>e x. e \<in> set es \<Longrightarrow> x \<in> window_points (ie_interval e) \<Longrightarrow> load_at ix (ie_resource e) x + ie_amount e \<le> load_bound"
    and own: "\<And>e. e \<in> set es \<Longrightarrow> belongs kind i e"
  shows "ci_ok ix'" and "\<And>e. e \<in> set es \<Longrightarrow> index_abs ix' (entry_key e) = Some e"
    and "\<And>k j r. \<not> (k = kind \<and> j = i) \<Longrightarrow> index_abs ix' (k, j, r) = index_abs ix (k, j, r)"
    and "\<And>r x. load_at ix' r x \<le> load_at ix r x +
       (\<Sum>e\<leftarrow>es. if r = ie_resource e \<and> contains_ts (ie_interval e) x then ie_amount e else 0)"
proof -
  let ?ix = "snd (ci_erase_all kind i gen ix)"
  have spec: "ci_ok ?ix \<and> (fst (ci_erase_all kind i gen ix), index_abs ?ix) = spec_event (IxEraseAll kind i gen) (index_abs ix)"
    by (rule erase_all_refines [OF ok])
  then have abs: "index_abs ?ix (k, j, r) = (if k = kind \<and> j = i then None else index_abs ix (k, j, r))" for k j r
    by (auto split: if_splits)
  have "each ci_insert es ?ix = (Inr (), ix')"
    using run by (auto simp: ci_replace_all_def split: prod.splits sum.splits if_splits)
  moreover have "ci_ok ?ix" using spec by simp
  moreover have le: "load_at ?ix r x \<le> load_at ix r x" for r x
    by (rule load_at_mono [OF ok \<open>ci_ok ?ix\<close>]) (auto simp: map_le_def abs split: if_splits)
  then have "load_at ?ix (ie_resource e) x + ie_amount e \<le> load_bound"
    if "e \<in> set es" "x \<in> window_points (ie_interval e)" for e x
    using room [OF that] le [of "ie_resource e" x] by linarith
  ultimately have new: "ci_ok ix'" "index_abs ix' = index_abs ?ix ++ map_of (map (\<lambda>e. (entry_key e, e)) es)"
    "\<And>r x. load_at ix' r x = load_at ?ix r x +
       (\<Sum>e\<leftarrow>es. if r = ie_resource e \<and> contains_ts (ie_interval e) x then ie_amount e else 0)"
    using inserts_load [of es ?ix ix'] assms(3) by blast+
  show "ci_ok ix'" by (rule new(1))
  show "load_at ix' r x \<le> load_at ix r x +
       (\<Sum>e\<leftarrow>es. if r = ie_resource e \<and> contains_ts (ie_interval e) x then ie_amount e else 0)" for r x
    using new(3) le by simp
  have dist: "distinct (map fst (map (\<lambda>e. (entry_key e, e)) es))"
    using assms(3) by (auto simp: comp_def distinct_map inj_on_def entry_key_def)
  show "index_abs ix' (entry_key e) = Some e" if "e \<in> set es" for e
    unfolding new(2) using map_of_is_SomeI [OF dist, of "entry_key e" e] that by (auto simp: map_add_def)
  show "index_abs ix' (k, j, r) = index_abs ix (k, j, r)" if "\<not> (k = kind \<and> j = i)" for k j r
  proof -
    have "map_of (map (\<lambda>e. (entry_key e, e)) es) (k, j, r) = None"
      using that own by (auto simp: map_of_eq_None_iff entry_key_def belongs_def)
    then have "index_abs ix' (k, j, r) = index_abs ?ix (k, j, r)" unfolding new(2) by (simp add: map_add_def)
    then show ?thesis using abs [of k j r] that by auto
  qed
qed

subsection \<open>Records entering the index\<close>

text \<open>The room a record needs: at every instant of its window its amount fits under the limit of each bound resource.\<close>

definition room_for :: "(name \<Rightarrow> bandwidth) \<Rightarrow> capacity_index \<Rightarrow> reservation_record \<Rightarrow> bool" where
  "room_for limit ix r \<longleftrightarrow>
     (\<forall>ref \<in> set (av_resources (rv_authority r)). \<forall>x \<in> window_points (consuming_interval r).
        load_at ix (rr_resource ref) x + tm_amount (rv_terms r) \<le> limit (rr_resource ref))"

definition indexed_as :: "capacity_index \<Rightarrow> reservation_record \<Rightarrow> bool" where
  "indexed_as ix r \<longleftrightarrow> (\<forall>e \<in> set (index_entries_of r). index_abs ix (entry_key e) = Some e)"

definition unindexed :: "capacity_index \<Rightarrow> identity \<Rightarrow> bool" where
  "unindexed ix i \<longleftrightarrow> (\<forall>r. index_abs ix (HkReservation, i, r) = None)"

lemma unindexed_holds:
  assumes "ci_ok (co_index s)" and "unindexed (co_index s) (rv_id r)"
  shows "\<not> index_holds_locked s r"
proof -
  have "om_find (ci_entries (co_index s)) (HkReservation, rv_id r, n) = None" for n
    using assms entry_absent by (simp add: unindexed_def)
  then have "\<not> key_belongs HkReservation (rv_id r) k" if "k \<in> set (ci_entries (co_index s))" for k
    using that by (cases k) (force simp: key_belongs_def om_find_None_iff)
  then have "ci_find_all HkReservation (rv_id r) (co_index s) = []"
    by (auto simp: ci_find_all_def map_filter_def filter_empty_conv)
  then show ?thesis by (simp add: index_holds_locked_def)
qed

lemma entry_of_record:
  "e \<in> set (index_entries_of r) \<longleftrightarrow>
     (\<exists>ref \<in> set (av_resources (rv_authority r)). e =
        \<lparr>ie_kind = HkReservation, ie_id = rv_id r, ie_holder_generation = rv_generation r,
         ie_resource = rr_resource ref, ie_interval = consuming_interval r, ie_amount = tm_amount (rv_terms r),
         ie_guarantee = tm_guarantee (rv_terms r), ie_state = rv_state r\<rparr>)"
  by (auto simp: index_entries_of_def)

lemma entries_sum:
  assumes "distinct (map rr_resource (av_resources (rv_authority r)))" and "0 \<le> tm_amount (rv_terms r)"
  shows "(\<Sum>e\<leftarrow>index_entries_of r. if n = ie_resource e \<and> contains_ts (ie_interval e) x then ie_amount e else 0) =
    (if contains_ts (consuming_interval r) x \<and> n \<in> rr_resource ` set (av_resources (rv_authority r)) then tm_amount (rv_terms r) else 0)"
proof -
  have sum: "(\<Sum>ref\<leftarrow>refs. if n = rr_resource ref \<and> c then a else 0) = (if c \<and> n \<in> rr_resource ` set refs then a else (0 :: bandwidth))"
    if "distinct (map rr_resource refs)" for refs c a
    using that by (induction refs) (auto simp: image_iff)
  have "(\<Sum>e\<leftarrow>index_entries_of r. if n = ie_resource e \<and> contains_ts (ie_interval e) x then ie_amount e else 0) =
      (\<Sum>ref\<leftarrow>av_resources (rv_authority r). if n = rr_resource ref \<and> contains_ts (consuming_interval r) x then tm_amount (rv_terms r) else 0)"
    by (simp add: index_entries_of_def comp_def cong: if_cong)
  then show ?thesis unfolding sum [OF assms(1)] .
qed

lemma enter_record_index:
  assumes run: "enter_record r s = (Inr (), s')" and ok: "ci_ok (co_index s)" and new: "unindexed (co_index s) (rv_id r)"
    and idx: "indexable_locked s r" and dist: "distinct (map rr_resource (av_resources (rv_authority r)))"
    and pos: "0 \<le> tm_amount (rv_terms r)" and room: "room_for limit (co_index s) r"
    and limit: "\<And>n. limit n \<le> load_bound"
  shows "ci_ok (co_index s')" and "indexed_as (co_index s') r" and "co_ledger s' = co_ledger s"
    and "\<And>j n. j \<noteq> rv_id r \<Longrightarrow> index_abs (co_index s') (HkReservation, j, n) = index_abs (co_index s) (HkReservation, j, n)"
    and "\<And>n x. load_at (co_index s') n x \<le> load_at (co_index s) n x +
      (if contains_ts (consuming_interval r) x \<and> n \<in> rr_resource ` set (av_resources (rv_authority r)) then tm_amount (rv_terms r) else 0)"
proof -
  define s1 where "s1 = register_record_locked r s"
  have s1: "co_index s1 = co_index s" "co_ledger s1 = co_ledger s" by (simp_all add: s1_def)
  from run obtain s2 where sync: "sync_index_locked r s1 = (Inr (), s2)" and s': "s' = sync_queues_locked r s2"
    by (auto simp: enter_record_def andThen_Inr modify_def s1_def)
  have "indexable_locked s1 r" using idx by (simp add: indexable_locked_def s1)
  moreover have "\<not> index_holds_locked s1 r" using unindexed_holds [of s1 r] ok new by (simp add: s1)
  ultimately have "index_insert_locked r s1 = (Inr (), s2)" using sync by (simp add: sync_index_locked_def)
  moreover have "\<not> iv_empty (consuming_interval r)" using idx by (simp add: indexable_locked_def)
  ultimately obtain ix where ix: "ci_replace_all HkReservation (rv_id r) (rv_generation r) (index_entries_of r) (co_index s) = (Inr (), ix)"
    and s2: "s2 = s1\<lparr>co_index := ix\<rparr>"
    by (auto simp: index_insert_locked_def on_index_def s1 split: prod.splits)
  have dist': "distinct (map ie_resource (index_entries_of r))" using dist by (simp add: index_entries_of_def comp_def)
  have room': "load_at (co_index s) (ie_resource e) x + ie_amount e \<le> load_bound"
    if "e \<in> set (index_entries_of r)" "x \<in> window_points (ie_interval e)" for e x
  proof -
    from that(1) obtain ref where ref: "ref \<in> set (av_resources (rv_authority r))" "ie_resource e = rr_resource ref"
      "ie_amount e = tm_amount (rv_terms r)" "ie_interval e = consuming_interval r" by (auto simp: entry_of_record)
    with room that(2) have "load_at (co_index s) (ie_resource e) x + ie_amount e \<le> limit (rr_resource ref)"
      by (simp add: room_for_def)
    also have "\<dots> \<le> load_bound" by (rule limit)
    finally show ?thesis .
  qed
  have own: "belongs HkReservation (rv_id r) e" if "e \<in> set (index_entries_of r)" for e
    using that by (auto simp: entry_of_record belongs_def)
  note out = replace_all_load [OF ix ok dist' room' own]
  have s'_ix: "co_index s' = ix" "co_ledger s' = co_ledger s" by (simp_all add: s' s2 s1)
  show "ci_ok (co_index s')" "indexed_as (co_index s') r" "co_ledger s' = co_ledger s"
    using out(1,2) by (simp_all add: s'_ix indexed_as_def)
  show "index_abs (co_index s') (HkReservation, j, n) = index_abs (co_index s) (HkReservation, j, n)" if "j \<noteq> rv_id r" for j n
    using out(3) that by (simp add: s'_ix)
  show "load_at (co_index s') n x \<le> load_at (co_index s) n x +
      (if contains_ts (consuming_interval r) x \<and> n \<in> rr_resource ` set (av_resources (rv_authority r)) then tm_amount (rv_terms r) else 0)" for n x
    using out(4) [of n x] unfolding entries_sum [OF dist pos] by (simp add: s'_ix)
qed

text \<open>
  The members of a series enter one after the other. They were assessed against the same state, so what keeps
  the sum within the limit is that no two of them overlap.
\<close>

lemma enter_members_index:
  assumes "each enter_record ms s = (Inr (), s')" and "ci_ok (co_index s)" and "distinct (map rv_id ms)"
    and "pairwise (\<lambda>a b. \<forall>x. \<not> (contains_ts (consuming_interval a) x \<and> contains_ts (consuming_interval b) x)) (set ms)"
    and "\<And>m. m \<in> set ms \<Longrightarrow> unindexed (co_index s) (rv_id m) \<and> indexable_locked s m \<and>
      distinct (map rr_resource (av_resources (rv_authority m))) \<and> 0 \<le> tm_amount (rv_terms m) \<and> room_for limit (co_index s) m"
    and limit: "\<And>n. limit n \<le> load_bound"
  shows "ci_ok (co_index s') \<and> co_ledger s' = co_ledger s \<and> (\<forall>m \<in> set ms. indexed_as (co_index s') m) \<and>
    (\<forall>j n. j \<notin> rv_id ` set ms \<longrightarrow> index_abs (co_index s') (HkReservation, j, n) = index_abs (co_index s) (HkReservation, j, n)) \<and>
    (\<forall>n x. (\<forall>m \<in> set ms. \<not> contains_ts (consuming_interval m) x) \<longrightarrow> load_at (co_index s') n x \<le> load_at (co_index s) n x) \<and>
    (\<forall>m \<in> set ms. \<forall>ref \<in> set (av_resources (rv_authority m)). \<forall>x \<in> window_points (consuming_interval m).
       load_at (co_index s') (rr_resource ref) x \<le> limit (rr_resource ref))"
  using assms(1-5)
proof (induction ms arbitrary: s)
  case (Cons m ms)
  from Cons.prems(1) obtain s1 where first: "enter_record m s = (Inr (), s1)" and rest: "each enter_record ms s1 = (Inr (), s')"
    by (auto simp: andThen_Inr)
  from Cons.prems(5) [of m] have m: "unindexed (co_index s) (rv_id m)" "indexable_locked s m"
    "distinct (map rr_resource (av_resources (rv_authority m)))" "0 \<le> tm_amount (rv_terms m)" "room_for limit (co_index s) m" by auto
  note one = enter_record_index [OF first Cons.prems(2) m limit]
  have apart: "\<not> (contains_ts (consuming_interval m) x \<and> contains_ts (consuming_interval m') x)"
    if "m' \<in> set ms" for m' x
  proof -
    have "m' \<noteq> m" using that Cons.prems(3) by auto
    then show ?thesis using that Cons.prems(4) by (auto simp: pairwise_def)
  qed
  have "unindexed (co_index s1) (rv_id m') \<and> indexable_locked s1 m' \<and>
      distinct (map rr_resource (av_resources (rv_authority m'))) \<and> 0 \<le> tm_amount (rv_terms m') \<and> room_for limit (co_index s1) m'"
    if m': "m' \<in> set ms" for m'
  proof -
    have "rv_id m' \<noteq> rv_id m" using Cons.prems(3) m' by (metis distinct.simps(2) image_eqI list.set_map list.simps(9))
    then have "unindexed (co_index s1) (rv_id m')" using Cons.prems(5) [of m'] m' one(4) by (simp add: unindexed_def)
    moreover have "room_for limit (co_index s1) m'"
      unfolding room_for_def
    proof (intro ballI)
      fix ref x assume ref: "ref \<in> set (av_resources (rv_authority m'))" and x: "x \<in> window_points (consuming_interval m')"
      then have "contains_ts (consuming_interval m') x" by (simp add: window_points_def)
      then have "\<not> contains_ts (consuming_interval m) x" using apart [OF m'] by blast
      then have "load_at (co_index s1) (rr_resource ref) x \<le> load_at (co_index s) (rr_resource ref) x"
        using one(5) [of "rr_resource ref" x] by simp
      moreover have "load_at (co_index s) (rr_resource ref) x + tm_amount (rv_terms m') \<le> limit (rr_resource ref)"
        using Cons.prems(5) [of m'] m' ref x by (simp add: room_for_def)
      ultimately show "load_at (co_index s1) (rr_resource ref) x + tm_amount (rv_terms m') \<le> limit (rr_resource ref)" by linarith
    qed
    ultimately show ?thesis using Cons.prems(5) [of m'] m' by (simp add: indexable_locked_def one(3))
  qed
  from Cons.IH [OF rest one(1) _ _ this] Cons.prems(3,4)
  have IH: "ci_ok (co_index s')" "co_ledger s' = co_ledger s1" "\<forall>m \<in> set ms. indexed_as (co_index s') m"
    "\<And>j n. j \<notin> rv_id ` set ms \<Longrightarrow> index_abs (co_index s') (HkReservation, j, n) = index_abs (co_index s1) (HkReservation, j, n)"
    "\<And>n x. \<forall>m \<in> set ms. \<not> contains_ts (consuming_interval m) x \<Longrightarrow> load_at (co_index s') n x \<le> load_at (co_index s1) n x"
    "\<forall>m \<in> set ms. \<forall>ref \<in> set (av_resources (rv_authority m)). \<forall>x \<in> window_points (consuming_interval m).
       load_at (co_index s') (rr_resource ref) x \<le> limit (rr_resource ref)"
    by (auto simp: pairwise_insert)
  have fresh: "rv_id m \<notin> rv_id ` set ms" using Cons.prems(3) by auto
  have "indexed_as (co_index s') m"
    unfolding indexed_as_def
  proof
    fix e assume e: "e \<in> set (index_entries_of m)"
    then have "index_abs (co_index s') (entry_key e) = index_abs (co_index s1) (entry_key e)"
      using IH(4) [OF fresh] by (auto simp: entry_of_record entry_key_def)
    then show "index_abs (co_index s') (entry_key e) = Some e" using one(2) e by (simp add: indexed_as_def)
  qed
  moreover have "load_at (co_index s') (rr_resource ref) x \<le> limit (rr_resource ref)"
    if ref: "ref \<in> set (av_resources (rv_authority m))" and x: "x \<in> window_points (consuming_interval m)" for ref x
  proof -
    have "contains_ts (consuming_interval m) x" using x by (simp add: window_points_def)
    then have "load_at (co_index s') (rr_resource ref) x \<le> load_at (co_index s1) (rr_resource ref) x" using IH(5) apart by blast
    also have "\<dots> \<le> load_at (co_index s) (rr_resource ref) x + tm_amount (rv_terms m)"
      using one(5) [of "rr_resource ref" x] m(4) by (auto split: if_splits)
    also have "\<dots> \<le> limit (rr_resource ref)" using m(5) ref x by (simp add: room_for_def)
    finally show ?thesis .
  qed
  moreover have "load_at (co_index s') n x \<le> load_at (co_index s) n x"
    if "\<forall>m' \<in> set (m # ms). \<not> contains_ts (consuming_interval m') x" for n x
    using IH(5) [of x n] one(5) [of n x] that by auto
  moreover have "index_abs (co_index s') (HkReservation, j, n) = index_abs (co_index s) (HkReservation, j, n)"
    if "j \<notin> rv_id ` set (m # ms)" for j n
    using IH(4) [of j n] one(4) [of j n] that by auto
  ultimately show ?case using IH(1,2,3,6) one(3) by simp
qed simp

subsection \<open>The members of a commit\<close>

definition commit_members :: "coordinator \<Rightarrow> request_context \<Rightarrow> reservation_terms \<Rightarrow> policy_record \<Rightarrow> resolved_binding \<Rightarrow> interval list \<Rightarrow>
   identity \<Rightarrow> identity \<Rightarrow> timestamp \<Rightarrow> reservation_record list" where
  "commit_members s cx t policy b ws i series now =
     (let predicted = st_last_sequence (co_store s) + 1
      in all_members t (authority_for s t policy b 1) (make_provenance_locked s cx predicted now) predicted i series now ws)"

lemma mutation_members:
  assumes "ws \<noteq> []"
  shows "mu_record (commit_mutation s cx t policy b ws i series fingerprint victims now) #
      mu_members (commit_mutation s cx t policy b ws i series fingerprint victims now) =
    commit_members s cx t policy b ws i series now"
proof -
  have "commit_members s cx t policy b ws i series now \<noteq> []"
    using assms by (cases ws) (simp_all add: commit_members_def all_members_def Let_def)
  then show ?thesis by (simp add: commit_mutation_def commit_members_def Let_def)
qed

lemma commit_member_at:
  assumes "k < length (commit_members s cx t policy b ws i series now)" and "\<not> rs_enabled (tm_recurrence t) \<longrightarrow> length ws = 1"
  shows "length (commit_members s cx t policy b ws i series now) = length ws"
    and "let m = commit_members s cx t policy b ws i series now ! k in
      rv_id m = (if rs_enabled (tm_recurrence t) then derive_member_id series (of_nat k) else i) \<and>
      consuming_interval m = ws ! k \<and> rv_terms m = t\<lparr>tm_interval := ws ! k\<rparr> \<and> av_resources (rv_authority m) = rb_resources b \<and>
      consumes m \<and> rv_applicability m = ApCurrent"
proof -
  show "length (commit_members s cx t policy b ws i series now) = length ws"
    using assms(2) by (simp add: commit_members_def all_members_def Let_def)
  have rec: "rv_id m = j \<and> consuming_interval m = w \<and> rv_terms m = t\<lparr>tm_interval := w\<rparr> \<and>
      av_resources (rv_authority m) = rb_resources b \<and> consumes m \<and> rv_applicability m = ApCurrent"
    if "m = make_record t (authority_for s t policy b 1) pv predicted series now j w index flag" for m pv predicted j w index flag
    by (simp add: that make_record_def Let_def consuming_interval_def authority_for_def consumes_def)
  show "let m = commit_members s cx t policy b ws i series now ! k in
      rv_id m = (if rs_enabled (tm_recurrence t) then derive_member_id series (of_nat k) else i) \<and>
      consuming_interval m = ws ! k \<and> rv_terms m = t\<lparr>tm_interval := ws ! k\<rparr> \<and> av_resources (rv_authority m) = rb_resources b \<and>
      consumes m \<and> rv_applicability m = ApCurrent"
  proof (cases "rs_enabled (tm_recurrence t)")
    case True
    then have "commit_members s cx t policy b ws i series now ! k = make_record t (authority_for s t policy b 1)
        (make_provenance_locked s cx (st_last_sequence (co_store s) + 1) now) (st_last_sequence (co_store s) + 1) series now
        (derive_member_id series (of_nat k)) (ws ! k) (of_nat k) True"
      using assms(1) by (simp add: commit_members_def all_members_def Let_def nth_enumerate_eq)
    from rec [OF this] True show ?thesis by (simp add: Let_def)
  next
    case False
    with assms have "k = 0" "hd ws = ws ! 0"
      by (auto simp: commit_members_def all_members_def Let_def intro!: hd_conv_nth)
    with False have "commit_members s cx t policy b ws i series now ! k = make_record t (authority_for s t policy b 1)
        (make_provenance_locked s cx (st_last_sequence (co_store s) + 1) now) (st_last_sequence (co_store s) + 1) series now
        i (ws ! k) 0 False"
      by (simp add: commit_members_def all_members_def Let_def)
    from rec [OF this] False show ?thesis by (simp add: Let_def)
  qed
qed

lemma shrinks_companions:
  "each apply_companion ms s = (Inr x, s') \<Longrightarrow> \<forall>m \<in> set ms. \<not> consumes_capacity (sm_to_state m) \<Longrightarrow> shrinks s s'"
proof (induction ms arbitrary: s)
  case (Cons m ms)
  then obtain y s1 where "apply_companion m s = (Inr y, s1)" "each apply_companion ms s1 = (Inr x, s')"
    by (auto simp: andThen_Inr)
  with Cons shrinks_companion show ?case by (metis list.set_intros shrinks.R_trans)
qed (simp add: shrinks.R_refl)

lemma consume_holds_index [simp]:
  "co_index (fold (consume_hold i now) holds s) = co_index s" "co_ledger (fold (consume_hold i now) holds s) = co_ledger s"
proof -
  have "co_index (consume_hold i now h s) = co_index s" "co_ledger (consume_hold i now h s) = co_ledger s" for h s
    by (simp_all add: consume_hold_def split: option.splits)
  then show "co_index (fold (consume_hold i now) holds s) = co_index s" "co_ledger (fold (consume_hold i now) holds s) = co_ledger s"
    by (induction holds arbitrary: s) simp_all
qed

lemma remember_index [simp]:
  "co_index (remember_attempt_locked a s) = co_index s" "co_ledger (remember_attempt_locked a s) = co_ledger s"
  by (simp_all add: remember_attempt_locked_def Let_def split: prod.splits)

lemma commit_locked_run:
  assumes "commit_locked cx t policy b ws i series fingerprint holds a victims now s = (Inr result, s')" and "ws \<noteq> []"
  shows "cr_members result = commit_members s cx t policy b ws i series now \<and>
    (\<exists>s1 s2. shrinks s s1 \<and> each enter_record (commit_members s cx t policy b ws i series now) s1 = (Inr (), s2) \<and>
       co_index s' = co_index s2 \<and> co_ledger s' = co_ledger s2)"
proof -
  define m where "m = commit_mutation s cx t policy b ws i series fingerprint victims now"
  have members: "mu_record m # mu_members m = commit_members s cx t policy b ws i series now"
    unfolding m_def by (rule mutation_members [OF assms(2)])
  from assms(1) obtain sequence sa sb sc where app: "append_locked (DrReservationCommit m) s = (Inr sequence, sa)"
    and comp: "each apply_companion (mu_companions m) sa = (Inr (), sb)"
    and enter: "each enter_record (mu_record m # mu_members m) sb = (Inr (), sc)"
    and s': "s' = bump cst_commits_update (fold (consume_hold i now) holds
         (replay_attempt (mu_attempt m) (enter_series (mu_series m) sc)))"
    and result: "result = commit_result_of cx m a sequence"
    unfolding commit_locked_def Let_def m_def [symmetric] project_commit_def
    by (auto simp: andThen_Inr guard_op_def modify_def ret_def simp del: each.simps split: if_splits)
  have "shrinks s sa" using shrinks_append [of s "DrReservationCommit m"] app by simp
  moreover have "shrinks sa sb"
    by (rule shrinks_companions [OF comp]) (auto simp: m_def commit_mutation_def Let_def companion_def)
  ultimately have "shrinks s sb" by (rule shrinks.R_trans)
  moreover have "co_index s' = co_index sc" "co_ledger s' = co_ledger sc"
    by (simp_all add: s' bump_def replay_attempt_def enter_series_def split: option.splits)
  ultimately show ?thesis using enter members result by (auto simp: commit_result_of_def)
qed

lemma settle_index:
  assumes "settle now (x, kept) s = (Inr y, s')"
  shows "y = x \<and> co_index s' = co_index s \<and> co_ledger s' = co_ledger s"
proof -
  have retire: "co_index (fold (retire_record now) ks s) = co_index s \<and> co_ledger (fold (retire_record now) ks s) = co_ledger s" for ks s
  proof (induction ks arbitrary: s)
    case (Cons k ks)
    then show ?case by (simp add: retire_record_def Let_def split: option.splits)
  qed simp
  have append: "co_index s' = co_index s \<and> co_ledger s' = co_ledger s" if "append_locked r s = (z, s')" for r s z s'
    using that by (auto simp: append_locked_def bump_def split: prod.splits sum.splits)
  have history: "co_index s' = co_index s \<and> co_ledger s' = co_ledger s" if "release_terminal_history_locked now s = (Inr z, s')" for s z s'
    using that retire by (auto simp: release_terminal_history_locked_def Let_def andThen_Inr modify_def dest!: append split: if_splits)
  have compact: "co_index s' = co_index s \<and> co_ledger s' = co_ledger s" if "compact_if_due s = (Inr z, s')" for s z s'
    using that by (auto simp: compact_if_due_def compact_locked_def Let_def split: if_splits prod.splits sum.splits)
  show ?thesis
    using assms history compact by (auto simp: settle_def andThen_Inr ret_def split: if_splits)
qed

lemma create_scope_run:
  assumes "create_scope cx t policy b ws i series fp False holds now (s, []) = (Inr (result, kept), (s2, taken))"
    and "cr_record result \<noteq> None"
  shows "kept \<and> (\<exists>as victims a s1. shrinks s s1 \<and> evaluate s1 t b policy 0 ws = Inr as \<and>
    commit_locked cx t policy b ws i series fp holds a victims now s1 = (Inr result, s2))"
proof -
  from assms(1) obtain st1 plan st2 where held: "each (suspend_named_hold cx) holds (s, []) = (Inr (), st1)"
    and plan: "plan_commit t b policy ws i now st1 = (Inr plan, st2)"
    and rest: "(case plan of
         Inl failure \<Rightarrow> andThen (inside (record_refusal cx fp (as_outcome failure) i 0 (tm_claimant t) now))
                  (\<lambda>sequence. ret (rejected_commit cx sequence failure, False))
       | Inr (as, victims) \<Rightarrow> andThen (inside (commit_locked cx t policy b ws i series fp holds (accepted as victims) victims now))
                     (\<lambda>result. ret (result, True))) st2 = (Inr (result, kept), (s2, taken))"
    by (auto simp: create_scope_def andThen_Inr Let_def simp del: each.simps)
  show ?thesis
  proof (cases plan)
    case (Inl failure)
    with rest assms(2) show ?thesis by (auto simp: andThen_Inr ret_def rejected_commit_def)
  next
    case (Inr p)
    then obtain as victims where p: "plan = Inr (as, victims)" by (cases p) auto
    with rest have "kept" and run: "commit_locked cx t policy b ws i series fp holds (accepted as victims) victims now (fst st2) = (Inr result, s2)"
      by (auto simp: andThen_Inr ret_def inside_def split: prod.splits)
    moreover have "shrinks s (fst st1)" using suspend_named_holds_shrinks [OF held] by simp
    moreover have "evaluate (fst st2) t b policy 0 ws = Inr as" "shrinks (fst st1) (fst st2)"
      using plan_commit_evaluated [OF plan [unfolded p]] by simp_all
    ultimately show ?thesis by (blast intro: shrinks.R_trans)
  qed
qed

lemma create_fresh_run:
  assumes "create_fresh cx t policy i series fp False holds now s = (Inr result, s')" and "cr_record result \<noteq> None"
  shows "\<not> identity_bound s i \<and>
    (rs_enabled (tm_recurrence t) \<longrightarrow> \<not> list_ex (identity_bound s) (member_ids series (unat (rs_count (tm_recurrence t))))) \<and>
    (\<exists>b ws as victims a s1 s2. resolve_binding_locked s t = Inr b \<and>
       expand_series (tm_interval t) (tm_recurrence t) (pl_max_series_members policy) = Inr ws \<and>
       shrinks s s1 \<and> evaluate s1 t b policy 0 ws = Inr as \<and>
       commit_locked cx t policy b ws i series fp holds a victims now s1 = (Inr result, s2) \<and>
       co_index s' = co_index s2 \<and> co_ledger s' = co_ledger s2)"
proof -
  from assms(1) obtain b ws x kept s3 where free: "\<not> identity_bound s i"
      "rs_enabled (tm_recurrence t) \<longrightarrow> \<not> list_ex (identity_bound s) (member_ids series (unat (rs_count (tm_recurrence t))))"
    and b: "resolve_binding_locked s t = Inr b"
    and ws: "expand_series (tm_interval t) (tm_recurrence t) (pl_max_series_members policy) = Inr ws"
    and scope: "scoped (create_scope cx t policy b ws i series fp False holds now) s = (Inr (x, kept), s3)"
    and settle: "settle now (x, kept) s3 = (Inr result, s')"
    by (auto simp: create_fresh_def andThen_Inr split: if_splits sum.splits)
  from scope obtain s2 taken where run: "create_scope cx t policy b ws i series fp False holds now (s, []) = (Inr (x, kept), (s2, taken))"
    and s3: "s3 = (if kept then s2 else restore taken s2)"
    by (auto simp: scoped_def split: prod.splits sum.splits)
  note end' = settle_index [OF settle]
  with run assms(2) create_scope_run [of cx t policy b ws i series fp holds now s result kept s2 taken]
  have "kept" and "\<exists>as victims a s1. shrinks s s1 \<and> evaluate s1 t b policy 0 ws = Inr as \<and>
    commit_locked cx t policy b ws i series fp holds a victims now s1 = (Inr result, s2)" by simp_all
  moreover have "co_index s' = co_index s2 \<and> co_ledger s' = co_ledger s2" using end' s3 \<open>kept\<close> by simp
  ultimately show ?thesis using free b ws by blast
qed

text \<open>Every reservation the index accounts for has an identity the coordinator knows.\<close>

definition index_known :: "coordinator \<Rightarrow> bool" where
  "index_known s \<longleftrightarrow> (\<forall>i r. index_abs (co_index s) (HkReservation, i, r) \<noteq> None \<longrightarrow> identity_bound s i)"

definition ledger_below_saturation :: "coordinator \<Rightarrow> reservation_terms \<Rightarrow> policy_record \<Rightarrow> bool" where
  "ledger_below_saturation s t policy \<longleftrightarrow>
     (\<forall>n e. ledger_find (co_ledger s) n = Some e \<longrightarrow> admission_limit policy t (le_capacity e) < kMaxBandwidthBps)"

definition resource_limit :: "coordinator \<Rightarrow> reservation_terms \<Rightarrow> policy_record \<Rightarrow> name \<Rightarrow> bandwidth" where
  "resource_limit s t policy n =
     (case ledger_find (co_ledger s) n of None \<Rightarrow> 0 | Some e \<Rightarrow> admission_limit policy t (le_capacity e))"

lemma resource_limit_bound: "ledger_below_saturation s t policy \<Longrightarrow> resource_limit s t policy n \<le> load_bound"
  by (fastforce simp: resource_limit_def ledger_below_saturation_def kMaxBandwidthBps_def load_bound_def split: option.splits)

lemma window_inhabited: "interval_ok w \<Longrightarrow> window_points w \<noteq> {}"
  by (auto simp: window_points_def contains_ts_def on_timeline_def interval_ok_def intro: exI [of _ "iv_start w"])

lemma evaluated_room:
  assumes ok: "ci_ok (co_index s)" and w: "interval_ok w" and t: "0 \<le> tm_amount t" and allowance: "0 \<le> pl_overcommit_allowance policy"
    and below: "ledger_below_saturation s t policy" and pass: "as_outcome (assess_for s t b policy w) = AoCommittable"
    and ref: "ref \<in> set (rb_resources b)"
  shows "ledger_is_current (co_ledger s) ref"
    and "\<And>x. x \<in> window_points w \<Longrightarrow> load_at (co_index s) (rr_resource ref) x + tm_amount t \<le> resource_limit s t policy (rr_resource ref)"
proof -
  let ?t = "t\<lparr>tm_interval := w\<rparr>"
  have limit: "admission_limit policy ?t c = admission_limit policy t c" for c by (simp add: admission_limit_def)
  have "resource_passes s ?t policy ref"
    using pass ref unfolding assess_for_def assess_committable [OF allowance] by blast
  then have "resource_closes s ?t policy ref"
    using resource_passes_closes [OF ok, of ?t ref policy] t window_inhabited [OF w] below
    by (simp add: limit ledger_below_saturation_def)
  then show "ledger_is_current (co_ledger s) ref"
    and "\<And>x. x \<in> window_points w \<Longrightarrow> load_at (co_index s) (rr_resource ref) x + tm_amount t \<le> resource_limit s t policy (rr_resource ref)"
    by (auto simp: resource_closes_def ledger_is_current_def resource_limit_def accounted_at_def load_at_def limit)
qed

lemma unknown_unindexed: "index_known s \<Longrightarrow> \<not> identity_bound s i \<Longrightarrow> unindexed (co_index s) i"
  unfolding unindexed_def index_known_def by blast

lemma commit_members_length:
  "\<not> rs_enabled (tm_recurrence t) \<longrightarrow> length ws = 1 \<Longrightarrow> length (commit_members s cx t policy b ws i series now) = length ws"
  by (simp add: commit_members_def all_members_def Let_def)

lemma commit_members_ids:
  assumes "\<not> rs_enabled (tm_recurrence t) \<longrightarrow> length ws = 1"
  shows "map rv_id (commit_members s cx t policy b ws i series now) =
    (if rs_enabled (tm_recurrence t) then member_ids series (length ws) else [i])"
  using assms commit_members_length [OF assms] commit_member_at(2) [of _ s cx t policy b ws i series now]
  by (auto intro!: nth_equalityI simp: member_ids_def Let_def)

text \<open>What an evaluation grants to each of the members it was made for.\<close>

lemma member_ready:
  assumes s1: "ci_ok (co_index s1)" "evaluate s1 t b policy 0 ws = Inr as" "0 \<le> pl_overcommit_allowance policy"
      "ledger_below_saturation s1 t policy" "0 \<le> tm_amount t" "list_all interval_ok ws"
    and s3: "shrinks s1 s3" and b: "sorted_wrt (<) (map rr_resource (rb_resources b))"
    and m: "consuming_interval m \<in> set ws" "rv_terms m = t\<lparr>tm_interval := consuming_interval m\<rparr>"
      "av_resources (rv_authority m) = rb_resources b" "consumes m" "rv_applicability m = ApCurrent"
  shows "indexable_locked s3 m \<and> distinct (map rr_resource (av_resources (rv_authority m))) \<and> 0 \<le> tm_amount (rv_terms m) \<and>
    room_for (resource_limit s1 t policy) (co_index s3) m"
proof -
  let ?w = "consuming_interval m"
  have w: "interval_ok ?w" using m(1) s1(6) by (simp add: list_all_iff)
  note room = evaluated_room [OF s1(1) w s1(5,3,4) evaluate_committable [OF s1(2) m(1)]]
  have "list_all (ledger_is_current (co_ledger s3)) (rb_resources b)"
    using room(1) shrinks_ledger [OF s3] by (simp add: list_all_iff)
  moreover have "\<not> iv_empty ?w" using w by (simp add: iv_empty_def interval_ok_def)
  moreover have "load_at (co_index s3) (rr_resource ref) x + tm_amount t \<le> resource_limit s1 t policy (rr_resource ref)"
    if "ref \<in> set (rb_resources b)" "x \<in> window_points ?w" for ref x
    using room(2) [OF that] shrinks_load [OF s3 s1(1), of "rr_resource ref" x] by linarith
  moreover have "tm_amount (rv_terms m) = tm_amount t" by (subst m(2)) simp
  ultimately show ?thesis
    using m(3-5) b s1(5) by (simp add: indexable_locked_def room_for_def strict_sorted_iff)
qed

lemma windows_apart:
  assumes "\<forall>j k. j < k \<and> k < length ws \<longrightarrow> \<not> overlaps (ws ! j) (ws ! k)" and "length ms = length ws"
    and "\<And>k. k < length ws \<Longrightarrow> consuming_interval (ms ! k) = ws ! k"
  shows "pairwise (\<lambda>a b. \<forall>x. \<not> (contains_ts (consuming_interval a) x \<and> contains_ts (consuming_interval b) x)) (set ms)"
proof (intro pairwiseI allI)
  fix m m' x assume "m \<in> set ms" "m' \<in> set ms" "m \<noteq> m'"
  then obtain j k where jk: "j < length ws" "k < length ws" "m = ms ! j" "m' = ms ! k" "j \<noteq> k"
    using assms(2) by (metis in_set_conv_nth)
  then have "\<not> overlaps (ws ! j) (ws ! k) \<or> \<not> overlaps (ws ! k) (ws ! j)" using assms(1) by (metis nat_neq_iff)
  then show "\<not> (contains_ts (consuming_interval m) x \<and> contains_ts (consuming_interval m') x)"
    using jk assms(3) by (auto simp: overlaps_def contains_ts_def)
qed

lemma commit_members_facts:
  assumes "m \<in> set (commit_members s cx t policy b ws i series now)" and "\<not> rs_enabled (tm_recurrence t) \<longrightarrow> length ws = 1"
  shows "consuming_interval m \<in> set ws \<and> rv_terms m = t\<lparr>tm_interval := consuming_interval m\<rparr> \<and>
      av_resources (rv_authority m) = rb_resources b \<and> consumes m \<and> rv_applicability m = ApCurrent"
  using assms commit_members_length [OF assms(2), of s cx policy b i series now]
    commit_member_at(2) [of _ s cx t policy b ws i series now] by (auto simp: in_set_conv_nth Let_def)

text \<open>A commit that was evaluated in the state it starts from.\<close>

lemma commit_locked_closes:
  assumes commit: "commit_locked cx t policy b ws i series fp holds a victims now s = (Inr result, s')"
    and ok: "ci_ok (co_index s)" and eval: "evaluate s t b policy 0 ws = Inr as" and allowance: "0 \<le> pl_overcommit_allowance policy"
    and below: "ledger_below_saturation s t policy" and amount: "0 \<le> tm_amount t"
    and binding: "sorted_wrt (<) (map rr_resource (rb_resources b))"
    and one: "\<not> rs_enabled (tm_recurrence t) \<longrightarrow> length ws = 1" and some: "0 < length ws"
    and wins: "list_all interval_ok ws" "\<forall>j k. j < k \<and> k < length ws \<longrightarrow> \<not> overlaps (ws ! j) (ws ! k)"
    and ids: "distinct (if rs_enabled (tm_recurrence t) then member_ids series (length ws) else [i])"
      "\<forall>j \<in> set (if rs_enabled (tm_recurrence t) then member_ids series (length ws) else [i]). unindexed (co_index s) j"
  shows "ci_ok (co_index s') \<and> co_ledger s' = co_ledger s \<and> (\<forall>m \<in> set (cr_members result).
    rv_terms m = t\<lparr>tm_interval := consuming_interval m\<rparr> \<and> av_resources (rv_authority m) = rb_resources b \<and>
    indexed_as (co_index s') m \<and> (\<forall>ref \<in> set (rb_resources b). \<forall>x \<in> window_points (consuming_interval m).
       load_at (co_index s') (rr_resource ref) x \<le> resource_limit s t policy (rr_resource ref)))"
proof -
  define ms where "ms = commit_members s cx t policy b ws i series now"
  from commit_locked_run [OF commit] some obtain s3 s4 where members: "cr_members result = ms"
    and s3: "shrinks s s3" and enter: "each enter_record ms s3 = (Inr (), s4)"
    and s4: "co_index s' = co_index s4" "co_ledger s' = co_ledger s4" unfolding ms_def by auto
  have len: "length ms = length ws" unfolding ms_def by (rule commit_members_length [OF one])
  have m: "consuming_interval m \<in> set ws" "rv_terms m = t\<lparr>tm_interval := consuming_interval m\<rparr>"
      "av_resources (rv_authority m) = rb_resources b" "consumes m" "rv_applicability m = ApCurrent" if "m \<in> set ms" for m
    using commit_members_facts [OF that [unfolded ms_def] one] by simp_all
  have ids': "map rv_id ms = (if rs_enabled (tm_recurrence t) then member_ids series (length ws) else [i])"
    unfolding ms_def by (rule commit_members_ids [OF one])
  have "unindexed (co_index s3) (rv_id m)" if "m \<in> set ms" for m
  proof -
    have "rv_id m \<in> set (map rv_id ms)" using that by simp
    with ids(2) have "unindexed (co_index s) (rv_id m)" unfolding ids' by blast
    then show ?thesis using shrinks_absent [OF s3 ok] by (simp add: unindexed_def)
  qed
  then have "unindexed (co_index s3) (rv_id m) \<and> indexable_locked s3 m \<and> distinct (map rr_resource (av_resources (rv_authority m))) \<and>
      0 \<le> tm_amount (rv_terms m) \<and> room_for (resource_limit s t policy) (co_index s3) m" if "m \<in> set ms" for m
    using member_ready [OF ok eval allowance below amount wins(1) s3 binding m [OF that]] that by blast
  moreover have "distinct (map rv_id ms)" unfolding ids' by (rule ids(1))
  moreover have "consuming_interval (ms ! k) = ws ! k" if "k < length ws" for k
    using commit_member_at(2) [of k s cx t policy b ws i series now] that len one by (simp add: ms_def Let_def)
  note windows_apart [OF wins(2) len this]
  ultimately have final: "ci_ok (co_index s4)" "co_ledger s4 = co_ledger s3" "\<forall>m \<in> set ms. indexed_as (co_index s4) m"
    "\<forall>m \<in> set ms. \<forall>ref \<in> set (av_resources (rv_authority m)). \<forall>x \<in> window_points (consuming_interval m).
       load_at (co_index s4) (rr_resource ref) x \<le> resource_limit s t policy (rr_resource ref)"
    using enter_members_index [OF enter shrinks_ok [OF s3 ok], of "resource_limit s t policy"] resource_limit_bound [OF below] by blast+
  then show ?thesis unfolding s4 members using m shrinks_ledger [OF s3] by simp
qed

lemma indexed_as_entry:
  "indexed_as ix m \<Longrightarrow> ref \<in> set (av_resources (rv_authority m)) \<Longrightarrow>
     \<exists>e. index_abs ix (HkReservation, rv_id m, rr_resource ref) = Some e \<and> ie_interval e = consuming_interval m \<and>
       ie_amount e = tm_amount (rv_terms m)"
  by (auto simp: indexed_as_def index_entries_of_def entry_key_def)

text \<open>C3: When \<open>create_fresh\<close> commits a reservation or a series, each committed member is in the index on
  every resource of its binding, with its own interval and the requested amount, and at every point of that
  interval the whole accounted load of the resource, the new members included, stays within the admission limit
  that the policy and the request set for the resource's capacity. The request may preempt other reservations,
  consume holds and expand a recurrence. The hypotheses: the index is well-formed and its reservation entries
  carry identities the coordinator knows, the terms are valid, the limits stay below the ceiling at which bandwidth sums saturate,
  and the identities derived for the members of the series do not collide.
\<close>

theorem commit_closes:
  assumes ok: "ci_ok (co_index s)" and known: "index_known s" and terms: "validate_terms t = Inr ()"
    and allowance: "0 \<le> pl_overcommit_allowance policy" and below: "ledger_below_saturation s t policy"
    and ids: "rs_enabled (tm_recurrence t) \<longrightarrow> distinct (member_ids series (unat (rs_count (tm_recurrence t))))"
    and run: "create_fresh cx t policy i series fp False holds now s = (Inr result, s')" and committed: "cr_record result \<noteq> None"
  shows "ci_ok (co_index s') \<and> (\<forall>m \<in> set (cr_members result). \<forall>ref \<in> set (av_resources (rv_authority m)).
    (\<exists>e. index_abs (co_index s') (HkReservation, rv_id m, rr_resource ref) = Some e \<and>
       ie_interval e = tm_interval (rv_terms m) \<and> ie_amount e = tm_amount t) \<and>
    (\<exists>e. ledger_find (co_ledger s') (rr_resource ref) = Some e \<and>
       (\<forall>x \<in> window_points (tm_interval (rv_terms m)). accounted_at s' (rr_resource ref) x \<le> admission_limit policy t (le_capacity e))))"
proof -
  have t: "0 \<le> tm_amount t" "interval_ok (tm_interval t)" using terms by (simp_all add: validate_terms_ok terms_ok_def)
  obtain b ws as victims a s1 s2 where b: "resolve_binding_locked s t = Inr b"
    and ws: "expand_series (tm_interval t) (tm_recurrence t) (pl_max_series_members policy) = Inr ws"
    and s1: "shrinks s s1" and eval: "evaluate s1 t b policy 0 ws = Inr as"
    and commit: "commit_locked cx t policy b ws i series fp holds a victims now s1 = (Inr result, s2)"
    and s': "co_index s' = co_index s2" "co_ledger s' = co_ledger s2"
    using create_fresh_run [OF run committed] by blast
  note wins = expand_series_members [OF t(2) ws]
  note typed = resolve_binding_typed [OF b]
  let ?ids = "if rs_enabled (tm_recurrence t) then member_ids series (length ws) else [i]"
  have "\<forall>j \<in> set ?ids. \<not> identity_bound s j"
    using create_fresh_run [OF run committed] wins by (auto simp: list_ex_iff)
  then have unindexed: "\<forall>j \<in> set ?ids. unindexed (co_index s1) j"
    using unknown_unindexed [OF known] shrinks_absent [OF s1 ok] by (simp add: unindexed_def)
  have "distinct ?ids" using ids wins by simp
  moreover have "ledger_below_saturation s1 t policy"
    using below shrinks_ledger [OF s1] by (simp add: ledger_below_saturation_def)
  ultimately have closes: "ci_ok (co_index s2)" "co_ledger s2 = co_ledger s1"
    "\<forall>m \<in> set (cr_members result). rv_terms m = t\<lparr>tm_interval := consuming_interval m\<rparr> \<and> av_resources (rv_authority m) = rb_resources b \<and>
      indexed_as (co_index s2) m \<and> (\<forall>ref \<in> set (rb_resources b). \<forall>x \<in> window_points (consuming_interval m).
       load_at (co_index s2) (rr_resource ref) x \<le> resource_limit s1 t policy (rr_resource ref))"
    using commit_locked_closes [OF commit shrinks_ok [OF s1 ok] eval allowance _ t(1)] unindexed wins typed
    by (simp_all add: binding_typed_def)
  have current: "\<exists>e. ledger_find (co_ledger s1) (rr_resource ref) = Some e \<and>
      resource_limit s1 t policy (rr_resource ref) = admission_limit policy t (le_capacity e)" if "ref \<in> set (rb_resources b)" for ref
    using typed that shrinks_ledger [OF s1]
    by (auto simp: binding_typed_def list_all_iff ledger_is_current_def resource_limit_def dest!: bspec split: option.splits)
  show ?thesis
  proof (intro conjI ballI)
    show "ci_ok (co_index s')" using closes(1) s' by simp
    fix m ref assume m: "m \<in> set (cr_members result)" and ref: "ref \<in> set (av_resources (rv_authority m))"
    have iv: "tm_interval (rv_terms m) = consuming_interval m" "tm_amount (rv_terms m) = tm_amount t"
      using closes(3) m by (metis reservation_terms.select_convs(7,8) reservation_terms.update_convs(7) reservation_terms.surjective)+
    show "\<exists>e. index_abs (co_index s') (HkReservation, rv_id m, rr_resource ref) = Some e \<and>
       ie_interval e = tm_interval (rv_terms m) \<and> ie_amount e = tm_amount t"
      using indexed_as_entry [of "co_index s2" m ref] closes(3) m ref iv s' by simp
    show "\<exists>e. ledger_find (co_ledger s') (rr_resource ref) = Some e \<and>
       (\<forall>x \<in> window_points (tm_interval (rv_terms m)). accounted_at s' (rr_resource ref) x \<le> admission_limit policy t (le_capacity e))"
    proof -
      have ref': "ref \<in> set (rb_resources b)" using closes(3) m ref by auto
      then obtain e where e: "ledger_find (co_ledger s1) (rr_resource ref) = Some e"
        "resource_limit s1 t policy (rr_resource ref) = admission_limit policy t (le_capacity e)" using current by blast
      have "accounted_at s' (rr_resource ref) x \<le> resource_limit s1 t policy (rr_resource ref)"
        if "x \<in> window_points (consuming_interval m)" for x
        using closes(3) m ref' that by (simp add: accounted_at_def load_at_def s')
      with e show ?thesis using closes(2) iv s' by simp
    qed
  qed
qed

subsection \<open>A commit that runs\<close>

definition sample_commit :: reservation_mutation where
  "sample_commit = commit_mutation (sample_coordinator 10) claimant_context (sample_terms (mk_iv 10 20) 5) (strict_default ''p'') sample_binding
     [mk_iv 10 20] 2 0 0 [] 5"

lemma sample_fields:
  "st_last_sequence (co_store (sample_coordinator bw)) = 0" "co_epoch (sample_coordinator bw) = 1" "co_boot (sample_coordinator bw) = 9"
  "co_last_capacity_snapshot (sample_coordinator bw) = 0" "co_last_capacity_generation (sample_coordinator bw) = 0"
  "co_index (sample_coordinator bw) = ci_empty" "co_io (sample_coordinator bw) = []" "co_current_generation (sample_coordinator bw) = []"
  "co_live_count (sample_coordinator bw) = 0" "co_history_count (sample_coordinator bw) = 0" "co_config (sample_coordinator bw) = sample_config"
  "co_paths (sample_coordinator bw) = []" "co_overcommit (sample_coordinator bw) = []" "co_records (sample_coordinator bw) = []"
  "st_open (co_store (sample_coordinator bw))" "st_journal_bytes (co_store (sample_coordinator bw)) = 0"
  "co_generations (sample_coordinator bw) = []"
  "so_max_record_payload (st_options (co_store (sample_coordinator bw))) = 4194304"
  "so_compact_threshold_bytes (st_options (co_store (sample_coordinator bw))) = 8388608"
  by (simp_all add: sample_coordinator_def fresh_coordinator_def empty_store_def sample_options_def nil_id_def)

lemma preempted_none [simp]: "preempted s [] = []"
  by (simp add: preempted_def map_filter_def)

lemma sample_commit_fits: "length (encode_record (DrReservationCommit sample_commit)) < 1000"
  unfolding sample_commit_def commit_mutation_def authority_for_def make_provenance_locked_def preempted_none sample_fields
  by code_simp

lemma sample_append:
  assumes "length (encode_record r) < 1000"
  shows "\<exists>s. append_locked r (sample_coordinator bw) = (Inr 1, s) \<and> co_index s = ci_empty \<and> co_ledger s = co_ledger (sample_coordinator bw) \<and>
    co_config s = sample_config \<and> co_records s = [] \<and> co_history_count s = 0 \<and> st_journal_bytes (co_store s) < 2000 \<and>
    so_compact_threshold_bytes (st_options (co_store s)) = 8388608"
  using assms by (simp add: append_locked_def next_io_def store_append_def Let_def sample_fields bump_def)

lemma enter_first_record:
  assumes s: "co_index s = ci_empty" "co_records s = []" and r: "indexable_locked s r" "av_resources (rv_authority r) = [ref]"
      "0 < tm_amount (rv_terms r)" "rr_resource ref \<noteq> []" "\<not> is_terminal (rv_state r)"
  shows "\<exists>s'. enter_record r s = (Inr (), s') \<and> co_history_count s' = co_history_count s \<and> co_config s' = co_config s \<and> co_store s' = co_store s"
proof -
  let ?s = "register_record_locked r s"
  have none: "\<not> index_holds_locked ?s r"
    by (simp add: index_holds_locked_def s ci_find_all_def ci_empty_def map_filter_def)
  have "indexable_locked ?s r" using r(1) by (simp add: indexable_locked_def)
  moreover obtain ix where "ci_replace_all HkReservation (rv_id r) (rv_generation r) (index_entries_of r) ci_empty = (Inr (), ix)"
  proof -
    have "ci_erase_all HkReservation (rv_id r) (rv_generation r) ci_empty = (Inl ENotFound, ci_empty)"
      by (simp add: ci_erase_all_def ci_empty_def)
    moreover have "\<exists>ix. ci_insert e ci_empty = (Inr (), ix)" if "index_entries_of r = [e]" for e
      using that r(1-4) by (auto simp: index_entries_of_def ci_insert_def indexable_locked_def ci_empty_def om_find_def Let_def)
    moreover have "\<exists>e. index_entries_of r = [e]" using r(2) by (simp add: index_entries_of_def)
    ultimately show thesis using that by (auto simp: ci_replace_all_def andThen_def split: prod.splits sum.splits)
  qed
  ultimately have "sync_index_locked r ?s = (Inr (), ?s\<lparr>co_index := ix\<rparr>)"
    using none by (simp add: sync_index_locked_def index_insert_locked_def on_index_def s) (simp add: indexable_locked_def)
  moreover have "co_history_count ?s = co_history_count s" "co_config ?s = co_config s" "co_store ?s = co_store s"
    using r(5) by (simp_all add: register_record_locked_def s om_find_def put_record_def Let_def)
  moreover have "co_history_count (sync_queues_locked r s') = co_history_count s'" "co_config (sync_queues_locked r s') = co_config s'"
    "co_store (sync_queues_locked r s') = co_store s'" for s'
    by (simp_all add: sync_queues_locked_def Let_def)
  ultimately show ?thesis by (simp add: enter_record_def andThen_def modify_def)
qed

lemma sample_evaluate:
  "\<exists>a. evaluate (sample_coordinator 10) (sample_terms (mk_iv 10 20) 5) sample_binding (strict_default ''p'') 0 [mk_iv 10 20] = Inr [a]"
proof -
  let ?t = "(sample_terms (mk_iv 10 20) 5)\<lparr>tm_interval := mk_iv 10 20\<rparr>"
  have "resource_passes (sample_coordinator 10) ?t (strict_default ''p'') \<lparr>rr_resource = ''link'', rr_generation = 1\<rparr>"
    using sample_limit [of "mk_iv 10 20" 5 10]
    by (simp add: resource_passes_def sample_terms_def sample_ledger sample_fields peak_combined_def state_for_def ci_empty_def om_find_def)
      (simp add: sample_capacity_def maintenance_covers_def in_emergency_def sample_fields om_find_def saturating_add_bandwidth_def kMaxBandwidthBps_def)
  then have "as_outcome (assess_for (sample_coordinator 10) (sample_terms (mk_iv 10 20) 5) sample_binding (strict_default ''p'') (mk_iv 10 20)) = AoCommittable"
    unfolding assess_for_def
    by (subst assess_committable) (simp_all add: strict_default_def stale_path_def sample_terms_def sample_binding_def)
  then show ?thesis by (simp add: Let_def bindE_def)
qed

lemma sample_create:
  "\<exists>result s'. create_fresh claimant_context (sample_terms (mk_iv 10 20) 5) (strict_default ''p'') 2 0 0 False [] 5 (sample_coordinator 10) =
     (Inr result, s') \<and> cr_record result \<noteq> None \<and> cr_members result \<noteq> []"
proof -
  let ?s = "sample_coordinator 10" and ?t = "sample_terms (mk_iv 10 20) 5" and ?p = "strict_default ''p''"
  obtain a where eval: "evaluate ?s ?t sample_binding ?p 0 [mk_iv 10 20] = Inr [a]" using sample_evaluate by blast
  obtain s1 where app: "append_locked (DrReservationCommit sample_commit) ?s = (Inr 1, s1)" and
    s1: "co_index s1 = ci_empty" "co_ledger s1 = co_ledger ?s" "co_config s1 = sample_config" "co_records s1 = []" "co_history_count s1 = 0"
      "st_journal_bytes (co_store s1) < 2000" "so_compact_threshold_bytes (st_options (co_store s1)) = 8388608"
    using sample_append [OF sample_commit_fits] by blast
  define r where "r = mu_record sample_commit"
  have r: "mu_members sample_commit = []" "mu_companions sample_commit = []" "mu_series sample_commit = None"
    by (simp_all add: sample_commit_def commit_mutation_def Let_def all_members_def sample_terms_def)
  have "indexable_locked s1 r" "av_resources (rv_authority r) = [\<lparr>rr_resource = ''link'', rr_generation = 1\<rparr>]" "0 < tm_amount (rv_terms r)" "\<not> is_terminal (rv_state r)"
    by (simp_all add: r_def sample_commit_def commit_mutation_def Let_def all_members_def sample_terms_def make_record_def authority_for_def
        sample_binding_def indexable_locked_def consumes_def consuming_interval_def iv_empty_def mk_iv_def ledger_is_current_def s1 sample_ledger)
      (simp add: sample_capacity_def)
  from enter_first_record [OF s1(1,4) this(1-3) _ this(4)] obtain s2 where enter: "enter_record r s1 = (Inr (), s2)"
    "co_history_count s2 = 0" "co_config s2 = sample_config" "co_store s2 = co_store s1" by (auto simp: s1)
  let ?s3 = "bump cst_commits_update (replay_attempt (mu_attempt sample_commit) s2)"
  let ?result = "commit_result_of claimant_context sample_commit (accepted [a] []) 1"
  have "commit_locked claimant_context ?t ?p sample_binding [mk_iv 10 20] 2 0 0 [] (accepted [a] []) [] 5 ?s = (Inr ?result, ?s3)"
    using app enter(1) r
    by (simp add: commit_locked_def sample_commit_def [symmetric] project_commit_def Let_def andThen_def guard_op_def sample_fields
        r_def modify_def ret_def enter_series_def)
  then have "create_scope claimant_context ?t ?p sample_binding [mk_iv 10 20] 2 0 0 False [] 5 (?s, []) = (Inr (?result, True), (?s3, []))"
    by (simp add: create_scope_def andThen_def plan_commit_def eval Let_def inside_def ret_def del: evaluate.simps)
  moreover have "resolve_binding_locked ?s ?t = Inr sample_binding"
    by (simp add: resolve_binding_locked_def sample_terms_def sample_ledger bindE_def sample_binding_def)
      (simp add: canonical_binding_def bindE_def sample_capacity_def canonicalize_resources_def canonicalize_failure_domains_def kMaxBindingResources_def)
  moreover have "expand_series (tm_interval ?t) (tm_recurrence ?t) (pl_max_series_members ?p) = Inr [mk_iv 10 20]"
    by (simp add: expand_series_def sample_terms_def)
  moreover have "settle 5 (?result, True) ?s3 = (Inr ?result, ?s3)"
    using s1(6,7) enter(2-4)
    by (simp add: settle_def andThen_def release_terminal_history_locked_def compact_if_due_def should_compact_def bump_def
        replay_attempt_def remember_attempt_locked_def ret_def sample_config_def Let_def split: option.splits prod.splits)
  ultimately have "create_fresh claimant_context ?t ?p 2 0 0 False [] 5 ?s = (Inr ?result, ?s3)"
    by (simp add: create_fresh_def identity_bound_def sample_fields om_find_def sample_config_def scoped_def andThen_def)
      (simp add: sample_terms_def)
  then show ?thesis by (auto simp: commit_result_of_def)
qed

theorem commit_closes_witness:
  "\<exists>result s' m e. create_fresh claimant_context (sample_terms (mk_iv 10 20) 5) (strict_default ''p'') 2 0 0 False [] 5 (sample_coordinator 10) =
     (Inr result, s') \<and> m \<in> set (cr_members result) \<and> ci_ok (co_index s') \<and>
     (\<forall>ref \<in> set (av_resources (rv_authority m)). index_abs (co_index s') (HkReservation, rv_id m, rr_resource ref) \<noteq> None)"
proof -
  let ?s = "sample_coordinator 10" and ?t = "sample_terms (mk_iv 10 20) 5" and ?p = "strict_default ''p''"
  obtain result s' where run: "create_fresh claimant_context ?t ?p 2 0 0 False [] 5 ?s = (Inr result, s')"
    and some: "cr_record result \<noteq> None" "cr_members result \<noteq> []" using sample_create by blast
  have "ci_ok (co_index ?s)" "index_known ?s" by (simp_all add: sample_fields ci_empty_ok index_known_def)
  moreover have "validate_terms ?t = Inr ()" by (simp add: validate_terms_ok sample_terms_ok)
  moreover have "0 \<le> pl_overcommit_allowance ?p" by (simp add: strict_default_def)
  moreover have "ledger_below_saturation ?s ?t ?p"
    using sample_limit [of "mk_iv 10 20" 5 10]
    by (auto simp: ledger_below_saturation_def ledger_find_def sample_coordinator_def om_find_def kMaxBandwidthBps_def split: if_splits)
  moreover have "\<not> rs_enabled (tm_recurrence ?t)" by (simp add: sample_terms_def)
  ultimately have "ci_ok (co_index s') \<and> (\<forall>m \<in> set (cr_members result). \<forall>ref \<in> set (av_resources (rv_authority m)).
      index_abs (co_index s') (HkReservation, rv_id m, rr_resource ref) \<noteq> None)"
    using commit_closes [OF _ _ _ _ _ _ run some(1)] by blast
  then show ?thesis using run some(2) by (meson list.set_sel(1))
qed

end
