(* ===== verification/Brf_Faults.thy ===== *)
theory Brf_Faults
  imports Brf_Closure
begin

text \<open>
  Behaviour of the code the model shows to be wrong: the audit's lineage walk, the member identities of an
  amended series, and the retry of a hold request.
\<close>

subsection \<open>What the audit gets wrong\<close>

lemma lineage_walk_cycle:
  assumes "\<not> is_nil i" and "om_find (co_records s) (i, gen) = Some p" and "rv_predecessor p = rv_id r"
  shows "VLineageCycle (record_key r) \<in> set (lineage_walk s r (Suc n) i gen)"
  using assms by simp

lemma audit_walk:
  assumes "(k, r) \<in> set (co_records s)" and "\<not> is_nil (rv_predecessor r)"
    and "v \<in> set (lineage_walk s r 4096 (rv_predecessor r) (rv_predecessor_generation r))"
  shows "v \<in> set (audit_lineage s)"
proof -
  have "v \<in> set ((if \<not> rv_predecessor_generation r < rv_generation r then [VPredecessor (record_key r)] else []) @
      lineage_walk s r 4096 (rv_predecessor r) (rv_predecessor_generation r))"
    using assms(3) by (simp only: set_append Un_iff simp_thms)
  then show ?thesis
    unfolding audit_lineage_def set_concat set_map image_image using assms(1,2)
    by (intro UN_I [of "(k, r)"]) (simp_all only: split_conv if_False)
qed

text \<open>C37: The audit reports a lineage cycle for every reservation amended twice. The walk compares identities and
  ignores generations, and all generations of a reservation share their identity: when the record named as
  predecessor has a predecessor of its own, the audit calls the lineage cyclic although the generations descend
  strictly.
\<close>

theorem audit_false_cycle:
  assumes "om_find (co_records s) (record_key p) = Some (stated RsSuperseded at reason pv p)"
    and "rv_predecessor p = rv_id p" and "\<not> is_nil (rv_id p)"
    and "r = make_successor t authority pv' predicted now p w"
    and "om_find (co_records s) (record_key r) = Some r" and "rv_generation p \<noteq> - 1"
  shows "VLineageCycle (record_key r) \<in> set (audit_locked s) \<and> rv_predecessor_generation r < rv_generation r"
proof -
  from assms(4) have r: "rv_id r = rv_id p" "rv_predecessor r = rv_id p" "rv_predecessor_generation r = rv_generation p"
    "rv_generation r = rv_generation p + 1" by (simp_all add: make_successor_def Let_def)
  have hops: "4096 = Suc (4095 :: nat)" by simp
  have "VLineageCycle (record_key r) \<in> set (lineage_walk s r 4096 (rv_predecessor r) (rv_predecessor_generation r))"
    unfolding hops
    by (rule lineage_walk_cycle [where p = "stated RsSuperseded at reason pv p"])
      (use assms(1-3) r in \<open>simp_all add: record_key_def stated_def Let_def\<close>)
  moreover have "(record_key r, r) \<in> set (co_records s)"
    using assms(5) by (auto simp: om_find_def dest: map_of_SomeD)
  ultimately have "VLineageCycle (record_key r) \<in> set (audit_lineage s)"
    using audit_walk [of "record_key r" r s] r assms(3) by simp
  then show ?thesis using word_less_succ [OF assms(6)] r by (simp add: audit_locked_def)
qed

text \<open>The sample reservation amended twice, as the table holds it.\<close>

definition amended_once :: reservation_record where
  "amended_once = make_successor (sample_terms (mk_iv 10 30) 5) (rv_authority (sample_record (mk_iv 10 20) 5)) blank_provenance 1 6
     (sample_record (mk_iv 10 20) 5) (mk_iv 10 30)"

definition amended_twice :: reservation_record where
  "amended_twice = make_successor (sample_terms (mk_iv 10 40) 5) (rv_authority amended_once) blank_provenance 2 7
     amended_once (mk_iv 10 40)"

definition amended_coordinator :: coordinator where
  "amended_coordinator = (sample_coordinator 10)\<lparr>co_records :=
     [(record_key amended_once, stated RsSuperseded 7 [] blank_provenance amended_once), (record_key amended_twice, amended_twice)]\<rparr>"

theorem audit_false_cycle_witness:
  "VLineageCycle (record_key amended_twice) \<in> set (audit_locked amended_coordinator)"
proof -
  have keys: "rv_predecessor amended_once = rv_id amended_once" "rv_id amended_once = 1" "rv_generation amended_once = 2"
    "record_key amended_twice = (1, 3)" "record_key amended_once = (1, 2)"
    by (simp_all add: amended_once_def amended_twice_def make_successor_def Let_def record_key_def sample_record_def)
  show ?thesis
    by (rule conjunct1 [OF audit_false_cycle [OF _ keys(1) _ amended_twice_def]])
      (simp_all add: amended_coordinator_def om_find_def keys is_nil_def nil_id_def)
qed

subsection \<open>Series amendments that reuse a member identity\<close>

lemma make_successor_live: "\<not> is_terminal (rv_state (make_successor t authority pv predicted now previous w))"
  by (simp add: make_successor_def Let_def)

text \<open>C38: An amendment of a series that has lost members can create two live reservations with one identity. The
  successors follow the live members by position, while a member beyond them gets the identity derived from its
  own position; when a live member further down holds that identity, one amendment gives it a successor and a new
  generation 1 beside it.
\<close>

theorem series_amendment_duplicates:
  assumes "plan_amendment cx fingerprint target_generation t policy b ws predecessor superseded now s = (Inr (m, successors), s')"
    and "rv_series_member predecessor" and "j < length superseded" and "length superseded \<le> n" and "n < length ws"
    and "rv_id (superseded ! j) = derive_member_id (rv_series predecessor) (of_nat n)"
    and "rv_generation (superseded ! j) \<noteq> 0"
  shows "length successors = length ws \<and> rv_id (successors ! j) = rv_id (successors ! n) \<and>
    rv_generation (successors ! j) \<noteq> rv_generation (successors ! n) \<and>
    \<not> is_terminal (rv_state (successors ! j)) \<and> \<not> is_terminal (rv_state (successors ! n))"
proof -
  obtain f v where f: "\<And>previous w. \<not> is_terminal (rv_state (f previous w)) \<and> rv_id (f previous w) = rv_id previous \<and>
      rv_generation (f previous w) = rv_generation previous + 1"
    and successors: "successors = map (\<lambda>(i, w). series_successor f predecessor superseded i w) (enumerate 0 ws)"
  proof -
    let ?predicted = "st_last_sequence (co_store s) + 1"
    let ?f = "make_successor t (amended_authority s t policy b target_generation)
        (make_provenance_locked s cx ?predicted now) ?predicted now"
    have "\<not> is_terminal (rv_state (?f previous w)) \<and> rv_id (?f previous w) = rv_id previous \<and>
      rv_generation (?f previous w) = rv_generation previous + 1" for previous w
      by (simp add: make_successor_def Let_def)
    moreover have "successors = map (\<lambda>(i, w). series_successor ?f predecessor superseded i w) (enumerate 0 ws)"
    proof -
      from assms(1,2) obtain series s1 where "current_series_locked (rv_series predecessor) s = (Inr series, s1)"
        and rest: "(case (series, target_index predecessor superseded) of (None, _) \<Rightarrow> fail ECorrupt | (Some v, None) \<Rightarrow> fail ECorrupt
          | (Some v, Some n) \<Rightarrow>
              let successors = map (\<lambda>(i, w). series_successor ?f predecessor superseded i w) (enumerate 0 ws);
                  others = map snd (filter (\<lambda>(i, _). i \<noteq> n) (enumerate 0 successors));
                  companions = map (series_companion predecessor now (make_provenance_locked s cx ?predicted now) successors)
                    (filter (\<lambda>r. rv_id r \<noteq> rv_id predecessor) superseded)
              in if length successors \<le> n then fail EInternal
                 else ret (amendment_mutation cx fingerprint t now ?predicted predecessor (successors ! n)
                        (Some (amended_series t (make_provenance_locked s cx ?predicted now) ?predicted now (hd ws) successors v))
                        others companions, successors)) s1 = (Inr (m, successors), s')"
        unfolding plan_amendment_def Let_def by (auto simp: andThen_Inr)
      then show ?thesis by (cases series; cases "target_index predecessor superseded") (auto simp: Let_def op_defs split: if_splits)
    qed
    ultimately show thesis by (rule that)
  qed
  have "successors ! j = series_successor f predecessor superseded j (ws ! j)"
    "successors ! n = series_successor f predecessor superseded n (ws ! n)"
    using assms(3-5) by (simp_all add: successors nth_enumerate_eq)
  then show ?thesis using assms(3-7) f by (simp add: series_successor_def successors)
qed

text \<open>A series of two members whose first member is gone, amended to two members again.\<close>

definition second_member :: reservation_record where
  "second_member = (sample_record (mk_iv 30 40) 5)\<lparr>rv_id := derive_member_id 6 1, rv_series_member := True, rv_series := 6,
     rv_series_index := 1\<rparr>"

definition thinned_series :: coordinator where
  "thinned_series = (sample_coordinator 10)\<lparr>co_current_series := [(6, 1)], co_series_records := [((6, 1),
     new_series (sample_terms (mk_iv 10 20) 5) blank_provenance 1 6 5 (mk_iv 10 20) [second_member])]\<rparr>"

theorem series_amendment_witness:
  "\<exists>m successors s'. plan_amendment claimant_context 0 1 (sample_terms (mk_iv 50 60) 5) (strict_default ''p'') sample_binding
       [mk_iv 50 60, mk_iv 70 80] second_member [second_member] 5 thinned_series = (Inr (m, successors), s') \<and>
     length successors = 2 \<and> rv_id (successors ! 0) = rv_id (successors ! 1) \<and>
     \<not> is_terminal (rv_state (successors ! 0)) \<and> \<not> is_terminal (rv_state (successors ! 1))"
proof -
  let ?plan = "plan_amendment claimant_context 0 1 (sample_terms (mk_iv 50 60) 5) (strict_default ''p'') sample_binding
       [mk_iv 50 60, mk_iv 70 80] second_member [second_member] 5 thinned_series"
  have "\<exists>m successors s'. ?plan = (Inr (m, successors), s')"
    by (simp add: plan_amendment_def Let_def andThen_def current_series_locked_def thinned_series_def om_find_def second_member_def
        target_index_def op_defs)
  then obtain m successors s' where run: "?plan = (Inr (m, successors), s')" by blast
  have "rv_series_member second_member" "rv_id ([second_member] ! 0) = derive_member_id (rv_series second_member) (of_nat 1)"
    "rv_generation ([second_member] ! 0) \<noteq> 0"
    by (simp_all add: second_member_def sample_record_def)
  with series_amendment_duplicates [OF run, of 0 1] run show ?thesis by auto
qed

subsection \<open>Retried holds\<close>

lemma hold_index_taken:
  assumes "index_abs (co_index s) (HkHold, hd_id h, rr_resource ref) \<noteq> None" and "ci_ok (co_index s)"
  shows "\<exists>e. ci_insert (hold_entry h ref) (co_index s) = (Inl e, co_index s)"
  using assms entry_absent [OF assms(2), of HkHold "hd_id h" "rr_resource ref"]
  by (auto simp: ci_insert_def entry_key_def hold_entry_def)

text \<open>C36: A retried hold request loses the hold's capacity. The identity of a hold is derived from the attempt, so the
  retry finds its own entries in the index, fails on the first of them and takes all entries of the hold out;
  the hold stays unreleased without any capacity, which the audit reports.
\<close>

theorem hold_retry_loses_capacity:
  assumes "ci_ok (co_index s)" and "hold_gate s (policy_for_locked s (tm_policy t)) cx t expires_at now = Inr ()"
    and "resolve_binding_locked s t = Inr b" and "rb_resources b = ref # refs"
    and "as_outcome (assess_locked s t b (policy_for_locked s (tm_policy t))
           (unat (pl_max_conflict_set (policy_for_locked s (tm_policy t))))) = AoCommittable"
    and "om_find (co_holds s) (derive (cx_attempt cx) 0x484F4C44) = Some h" and "\<not> hd_released h"
    and "hd_id h = derive (cx_attempt cx) 0x484F4C44"
    and "index_abs (co_index s) (HkHold, hd_id h, rr_resource ref) \<noteq> None"
  shows "\<exists>e s'. grant_hold cx t expires_at now s = (Inl e, s') \<and> co_holds s' = co_holds s \<and>
    (\<forall>r. index_abs (co_index s') (HkHold, hd_id h, r) = None) \<and> VHoldUnindexed (hd_id h) \<in> set (audit_locked s')"
proof -
  let ?h = "new_hold s cx t b expires_at now"
  have i: "hd_id ?h = hd_id h" using assms(8) by (simp add: new_hold_def)
  define ix where "ix = snd (ci_erase_all HkHold (hd_id h) (hd_generation ?h) (co_index s))"
  obtain e where e: "ci_insert (hold_entry ?h ref) (co_index s) = (Inl e, co_index s)"
    using hold_index_taken [of s ?h ref] assms(1,9) i by auto
  have "grant_hold cx t expires_at now s = (Inl e, s\<lparr>co_index := ix\<rparr>)"
    using assms(2-5) e i
    by (simp add: grant_hold_def Let_def bindE_def andThen_def on_index_def ix_def split: prod.splits)
  moreover have spec: "ci_ok ix \<and> index_abs ix = snd (spec_event (IxEraseAll HkHold (hd_id h) (hd_generation ?h)) (index_abs (co_index s)))"
    using erase_all_refines [OF assms(1), of HkHold "hd_id h" "hd_generation ?h"] by (simp add: ix_def prod_eq_iff)
  then have gone: "index_abs ix (HkHold, hd_id h, r) = None" for r
    by (auto split: if_splits)
  then have "\<not> ci_contains HkHold (hd_id h) ix"
  proof -
    have "om_find (ci_entries ix) (HkHold, hd_id h, r) = None" for r
      using gone entry_absent [of ix] spec by blast
    moreover have "om_ok (ci_entries ix)" using spec by (simp add: ci_ok_def)
    ultimately show ?thesis
      by (force simp: ci_contains_def list_ex_iff key_belongs_def om_find_None_iff)
  qed
  moreover have "(hd_id h, h) \<in> set (co_holds s)"
    using assms(6,8) by (auto simp: om_find_def dest: map_of_SomeD)
  ultimately have "VHoldUnindexed (hd_id h) \<in> set (audit_holds (s\<lparr>co_index := ix\<rparr>))"
    using assms(7) by (force simp: audit_holds_def)
  with gone show ?thesis using \<open>grant_hold cx t expires_at now s = _\<close> by (simp add: audit_locked_def)
qed

definition first_hold :: hold_record where
  "first_hold = new_hold (sample_coordinator 10) claimant_context (sample_terms (mk_iv 10 20) 3) sample_binding 8 5"

definition holding :: coordinator where
  "holding = (sample_coordinator 10)\<lparr>co_holds := [(hd_id first_hold, first_hold)],
     co_index := snd (ci_insert (hold_entry first_hold \<lparr>rr_resource = ''link'', rr_generation = 1\<rparr>) ci_empty)\<rparr>"

lemma holding_index:
  "ci_ok (co_index holding) \<and> index_abs (co_index holding) =
     [(HkHold, hd_id first_hold, ''link'') \<mapsto> hold_entry first_hold \<lparr>rr_resource = ''link'', rr_generation = 1\<rparr>]"
proof -
  let ?e = "hold_entry first_hold \<lparr>rr_resource = ''link'', rr_generation = 1\<rparr>"
  have "event_fits (IxInsert ?e) (index_abs ci_empty)"
    by (simp add: ci_empty_ok spec_loads_def hold_entry_def first_hold_def new_hold_def sample_terms_def load_bound_def)
  from insert_refines [OF ci_empty_ok(1) this] show ?thesis
    by (simp add: holding_def ci_empty_ok hold_entry_def first_hold_def new_hold_def sample_terms_def entry_key_def iv_empty_def mk_iv_def)
qed

lemma holding_peak: "peak_combined (co_index holding) ''link'' (mk_iv 10 20) \<le> 3"
proof -
  have "spec_loads (index_abs (co_index holding)) ''link'' (\<lambda>_. True) = {#(mk_iv 10 20, 3)#}"
  proof -
    have "{e \<in> ran (index_abs (co_index holding)). ie_resource e = ''link'' \<and> True} =
        {hold_entry first_hold \<lparr>rr_resource = ''link'', rr_generation = 1\<rparr>}"
      by (auto simp: holding_index hold_entry_def)
    then show ?thesis
      by (simp add: spec_loads_def) (simp add: hold_entry_def first_hold_def new_hold_def sample_terms_def)
  qed
  then show ?thesis
    by (simp add: queries_exact(3) [OF holding_index [THEN conjunct1]] spec_peak_def)
      (auto intro!: Max.boundedI)
qed

theorem hold_retry_witness:
  "\<exists>e s'. grant_hold claimant_context (sample_terms (mk_iv 10 20) 3) 8 5 holding = (Inl e, s') \<and> co_holds s' = co_holds holding \<and>
     VHoldUnindexed (hd_id first_hold) \<in> set (audit_locked s')"
proof -
  let ?t = "sample_terms (mk_iv 10 20) 3"
  have policy: "policy_for_locked holding (tm_policy ?t) = strict_default ''p''"
    by (simp add: policy_for_locked_def holding_def sample_coordinator_def fresh_coordinator_def sample_terms_def policy_current_def om_find_def policy_find_def)
  have gate: "hold_gate holding (strict_default ''p'') claimant_context ?t 8 5 = Inr ()"
    by (simp add: hold_gate_def session_holds_def holding_def first_hold_def new_hold_def strict_default_def time_consts claimant_context_def sample_terms_def Let_def)
  have binding: "resolve_binding_locked holding ?t = Inr sample_binding"
    by (simp add: resolve_binding_locked_def sample_terms_def holding_def sample_ledger bindE_def sample_binding_def)
      (simp add: canonical_binding_def bindE_def sample_capacity_def canonicalize_resources_def canonicalize_failure_domains_def kMaxBindingResources_def)
  have "resource_passes holding ?t (strict_default ''p'') \<lparr>rr_resource = ''link'', rr_generation = 1\<rparr>"
    using holding_peak sample_limit [of "mk_iv 10 20" 3 10]
    by (simp add: resource_passes_def sample_terms_def holding_def sample_ledger)
     (simp add: sample_capacity_def maintenance_covers_def in_emergency_def sample_coordinator_def fresh_coordinator_def saturating_add_bandwidth_def)
  then have outcome: "as_outcome (assess_locked holding ?t sample_binding (strict_default ''p'') n) = AoCommittable" for n
    by (subst assess_committable) (simp_all add: strict_default_def stale_path_def sample_terms_def sample_binding_def)
  have "rb_resources sample_binding = \<lparr>rr_resource = ''link'', rr_generation = 1\<rparr> # []" by (simp add: sample_binding_def)
  note retry = hold_retry_loses_capacity [of holding ?t claimant_context 8 5 sample_binding, unfolded policy, OF _ gate binding this outcome, of first_hold]
  have "om_find (co_holds holding) (derive (cx_attempt claimant_context) 0x484F4C44) = Some first_hold"
    "\<not> hd_released first_hold" "hd_id first_hold = derive (cx_attempt claimant_context) 0x484F4C44"
    by (simp_all add: holding_def first_hold_def new_hold_def om_find_def)
  then show ?thesis using retry holding_index by auto
qed

end
