(* ===== verification/Brf_Protocol.thy ===== *)
theory Brf_Protocol
  imports Brf_Durable
begin

text \<open>
  The wire protocol of \<^verbatim>\<open>include/brf/protocol.hpp\<close> and \<^verbatim>\<open>src/protocol.cpp\<close>: message types,
  frames, and the codecs of every request and of the fixed responses; and how frames travel over a connected
  socket, from \<^verbatim>\<open>src/transport.cpp\<close>. The bytes a peer sends until it closes the connection are a list;
  \<open>receive_exact\<close> takes a prefix of it.

  The theorems show that a frame read from the stream is exactly a frame that was written, that every request
  travels through a frame unchanged, and that the writer's bound lets frames pass that no reader accepts.
\<close>

subsection \<open>Message types\<close>

datatype message_type =
    MtHello | MtHelloAck | MtIngestCapacity | MtIngestPathAuthority | MtIngestPolicy | MtRegisterClaimant | MtFence
  | MtValidate | MtCommit | MtAmend | MtRelease | MtRecall | MtRevoke | MtRevalidate | MtReconcileAttempt
  | MtReconcileLifecycle | MtGetReservation | MtQueryClaimant | MtQueryResource | MtQueryCommitted | MtQueryRemaining
  | MtExplainConflicts | MtTimeline | MtLineage | MtOvercommitReport | MtStats | MtDurableReplay | MtHoldAcquire
  | MtHoldRelease | MtHoldQuery | MtSessionRelease | MtShutdown | MtOk | MtError

text \<open>The numbers of the enumeration, which leave gaps.\<close>

definition message_numbers :: "(message_type \<times> u16) list" where
  "message_numbers =
     [(MtHello, 1), (MtHelloAck, 2), (MtIngestCapacity, 10), (MtIngestPathAuthority, 11), (MtIngestPolicy, 12),
      (MtRegisterClaimant, 13), (MtFence, 14), (MtValidate, 20), (MtCommit, 21), (MtAmend, 22), (MtRelease, 23),
      (MtRecall, 24), (MtRevoke, 25), (MtRevalidate, 26), (MtReconcileAttempt, 27), (MtReconcileLifecycle, 28),
      (MtGetReservation, 30), (MtQueryClaimant, 31), (MtQueryResource, 32), (MtQueryCommitted, 33),
      (MtQueryRemaining, 34), (MtExplainConflicts, 35), (MtTimeline, 36), (MtLineage, 37), (MtOvercommitReport, 38),
      (MtStats, 39), (MtDurableReplay, 40), (MtHoldAcquire, 50), (MtHoldRelease, 51), (MtHoldQuery, 52),
      (MtSessionRelease, 53), (MtShutdown, 60), (MtOk, 100), (MtError, 101)]"

definition message_number :: "message_type \<Rightarrow> u16" where
  "message_number t = the (map_of message_numbers t)"

text \<open>
  A C++ enumeration with a fixed underlying type holds any of its values, so a type cast from the wire is a number;
  a \<^verbatim>\<open>switch\<close> over it looks for an enumerator and falls to its default otherwise.
\<close>

definition message_of :: "u16 \<Rightarrow> message_type option" where
  "message_of n = map_of (map (\<lambda>(t, m). (m, t)) message_numbers) n"

definition message_names :: "(message_type \<times> string) list" where
  "message_names =
     [(MtHello, ''HELLO''), (MtHelloAck, ''HELLO_ACK''), (MtIngestCapacity, ''INGEST_CAPACITY''),
      (MtIngestPathAuthority, ''INGEST_PATH_AUTHORITY''), (MtIngestPolicy, ''INGEST_POLICY''),
      (MtRegisterClaimant, ''REGISTER_CLAIMANT''), (MtFence, ''FENCE''), (MtValidate, ''VALIDATE''),
      (MtCommit, ''COMMIT''), (MtAmend, ''AMEND''), (MtRelease, ''RELEASE''), (MtRecall, ''RECALL''),
      (MtRevoke, ''REVOKE''), (MtRevalidate, ''REVALIDATE''), (MtReconcileAttempt, ''RECONCILE_ATTEMPT''),
      (MtReconcileLifecycle, ''RECONCILE_LIFECYCLE''), (MtGetReservation, ''GET_RESERVATION''),
      (MtQueryClaimant, ''QUERY_CLAIMANT''), (MtQueryResource, ''QUERY_RESOURCE''),
      (MtQueryCommitted, ''QUERY_COMMITTED''), (MtQueryRemaining, ''QUERY_REMAINING''),
      (MtExplainConflicts, ''EXPLAIN_CONFLICTS''), (MtTimeline, ''TIMELINE''), (MtLineage, ''LINEAGE''),
      (MtOvercommitReport, ''OVERCOMMIT_REPORT''), (MtStats, ''STATS''), (MtDurableReplay, ''DURABLE_REPLAY''),
      (MtHoldAcquire, ''HOLD_ACQUIRE''), (MtHoldRelease, ''HOLD_RELEASE''), (MtHoldQuery, ''HOLD_QUERY''),
      (MtSessionRelease, ''SESSION_RELEASE''), (MtShutdown, ''SHUTDOWN''), (MtOk, ''OK''), (MtError, ''ERROR'')]"

definition message_to_string :: "u16 \<Rightarrow> string" where
  "message_to_string n =
     (case message_of n of None \<Rightarrow> ''UNKNOWN'' | Some t \<Rightarrow> (case map_of message_names t of None \<Rightarrow> ''UNKNOWN'' | Some s \<Rightarrow> s))"

lemma message_of_number [simp]: "message_of (message_number t) = Some t"
  by (cases t) (simp_all add: message_of_def message_number_def message_numbers_def)

subsection \<open>Frames\<close>

definition kMaxFrameBytes :: nat where "kMaxFrameBytes = 1024 * 1024"
definition kFrameMagic :: u32 where "kFrameMagic = 0x46524231"
definition kFrameHeaderBytes :: nat where "kFrameHeaderBytes = 16"
definition kWireProtocolVersion :: u16 where "kWireProtocolVersion = 1"

record frame =
  fr_type :: u16
  fr_payload :: bytes

definition encode_frame :: "u16 \<Rightarrow> bytes \<Rightarrow> bytes" where
  "encode_frame t payload =
     w_u32 kFrameMagic @ w_u32 (of_nat (kFrameHeaderBytes + length payload)) @ w_u32 (crc32c payload) @ w_u16 t @
     w_u16 kWireProtocolVersion @ payload"

definition decode_frame :: "bytes \<Rightarrow> frame result" where
  "decode_frame bs =
     (if length bs < kFrameHeaderBytes then Inl ECorrupt
      else bindE (dbind r_u32 (\<lambda>magic.
        if magic \<noteq> kFrameMagic then dfail ECorrupt
        else dbind r_u32 (\<lambda>len.
          if unat len \<noteq> length bs then dfail ECorrupt
          else dbind r_u32 (\<lambda>checksum.
               dbind r_u16 (\<lambda>t.
               dbind r_u16 (\<lambda>version.
                 if version \<noteq> kWireProtocolVersion then dfail EUnsupported
                 else let payload = drop kFrameHeaderBytes bs
                      in if crc32c payload \<noteq> checksum then dfail ECorrupt
                         else if t < 1 \<or> t > message_number MtError then dfail EUnsupported
                         else dret \<lparr>fr_type = t, fr_payload = payload\<rparr>))))) bs) (\<lambda>(f, _). Inr f))"

text \<open>Frames on a connected socket.\<close>

definition receive_exact :: "nat \<Rightarrow> bytes reader" where
  "receive_exact n stream = (if length stream < n then Inl ECancelled else Inr (take n stream, drop n stream))"

definition write_frame :: "u16 \<Rightarrow> bytes \<Rightarrow> bytes result" where
  "write_frame t payload = (if length payload > kMaxFrameBytes then Inl EResourceExhausted else Inr (encode_frame t payload))"

definition frame_header :: "nat \<Rightarrow> (u32 \<times> u32 \<times> u16) reader" where
  "frame_header max_frame_bytes =
     dbind r_u32 (\<lambda>magic.
       if magic \<noteq> kFrameMagic then dfail ECorrupt
       else dbind r_u32 (\<lambda>len.
         if unat len < kFrameHeaderBytes \<or> unat len > max_frame_bytes then dfail EResourceExhausted
         else dbind r_u32 (\<lambda>checksum.
              dbind r_u16 (\<lambda>t.
              dbind r_u16 (\<lambda>version.
                if version \<noteq> kWireProtocolVersion then dfail EUnsupported else dret (len, checksum, t))))))"

definition read_frame :: "nat \<Rightarrow> frame reader" where
  "read_frame max_frame_bytes stream =
     bindE (receive_exact kFrameHeaderBytes stream) (\<lambda>(header, rest).
     bindE (frame_header max_frame_bytes header) (\<lambda>((len, checksum, t), _).
     bindE (receive_exact (unat len - kFrameHeaderBytes) rest) (\<lambda>(payload, rest').
       if crc32c payload \<noteq> checksum then Inl ECorrupt
       else Inr (\<lparr>fr_type = t, fr_payload = payload\<rparr>, rest'))))"

subsection \<open>Payloads\<close>

text \<open>Error codes travel as 16-bit numbers.\<close>

definition error_code_values :: "error_code list" where
  "error_code_values =
     [EOk, EInvalidArgument, EInvalidInterval, EInvalidBandwidth, EInvalidIdentity, EInvalidName, EOverflow, ENotFound,
      EAlreadyExists, EGenerationMismatch, EStaleEpoch, EStaleGeneration, EFencedClaimant, EAuthorityRequired,
      EPolicyRejected, EInsufficientCapacity, ECapacityOvercommit, EIllegalTransition, EIdempotentReplay, EConflict,
      ECorrupt, ETornTail, EIo, EUnsupported, EResourceExhausted, ECancelled, EShuttingDown, EInternal]"

definition enc_error_code :: "error_code \<Rightarrow> bytes" where
  "enc_error_code v = w_u16 (of_nat (enum_index error_code_values v))"

definition dec_error_code :: "error_code reader" where
  "dec_error_code = dbind r_u16 (\<lambda>raw. if unat raw \<ge> length error_code_values then dfail ECorrupt else dret (error_code_values ! unat raw))"

lemma error_code_values: "distinct error_code_values" "set error_code_values = UNIV" "length error_code_values = 28"
  by (auto simp: error_code_values_def intro: error_code.exhaust)

interpretation c_error_code: codec enc_error_code dec_error_code "\<lambda>_. True"
proof unfold_locales
  fix v rest
  have "enum_index error_code_values v < 28" "error_code_values ! enum_index error_code_values v = v"
    using enum_index_less [of v error_code_values] error_code_values by auto
  then show "dec_error_code (enc_error_code v @ rest) = Inr (v, rest)"
    by (simp add: dec_error_code_def enc_error_code_def codec_rt unat_of_nat take_bit_eq_mod error_code_values(3))
next
  fix bs v rest
  assume "dec_error_code bs = Inr (v, rest)"
  then obtain raw where raw: "bs = w_u16 raw @ rest" "unat raw < length error_code_values" "v = error_code_values ! unat raw"
    by (auto simp: dec_error_code_def codec_only split: if_splits)
  then have "of_nat (enum_index error_code_values v) = raw" by (simp add: enum_index_nth [OF error_code_values(1)])
  with raw show "True \<and> bs = enc_error_code v @ rest" by (simp add: enc_error_code_def)
qed

definition client_name_fits :: "string \<Rightarrow> bool" where
  "client_name_fits s \<longleftrightarrow> length s \<le> 128"

definition holds_fit :: "identity list \<Rightarrow> bool" where
  "holds_fit xs \<longleftrightarrow> length xs \<le> 64"

interpretation c_client_name: codec w_text "r_text 128" client_name_fits
  unfolding client_name_fits_def by (rule text_codec) simp

interpretation c_consumed: codec "w_list w_fixed128" "r_list 64 r_fixed128" holds_fit
  using list_codec [OF cid.codec_axioms, of 64] by (simp add: holds_fit_def [abs_def] list_all_iff)

record hello_request =
  hq_protocol_version :: u16
  hq_client :: identity
  hq_client_name :: string

definition enc_hello :: "hello_request \<Rightarrow> bytes" where
  "enc_hello v =
     w_u16 (hq_protocol_version v) @ w_fixed128 (hq_client v) @ w_text (hq_client_name v)"

definition dec_hello :: "hello_request reader" where
  "dec_hello =
     dbind r_u16 (\<lambda>protocol_version.
     dbind r_fixed128 (\<lambda>client.
     dbind (r_text 128) (\<lambda>client_name.
     dret \<lparr>hq_protocol_version = protocol_version, hq_client = client, hq_client_name = client_name\<rparr>)))"

definition hello_fits :: "hello_request \<Rightarrow> bool" where
  "hello_fits v \<longleftrightarrow> client_name_fits (hq_client_name v)"

interpretation c_hello: codec enc_hello dec_hello "hello_fits"
proof unfold_locales
  fix v rest assume "hello_fits v"
  then show "dec_hello (enc_hello v @ rest) = Inr (v, rest)"
    by (cases v) (simp add: enc_hello_def dec_hello_def hello_fits_def codec_rt)
next
  fix bs v rest assume "dec_hello bs = Inr (v, rest)"
  then show "hello_fits v \<and> bs = enc_hello v @ rest"
    by (auto simp: enc_hello_def dec_hello_def hello_fits_def codec_only split: if_splits)
qed

record hello_response =
  hp_protocol_version :: u16
  hp_epoch :: counter
  hp_coordinator_boot :: identity
  hp_store :: identity
  hp_max_frame_bytes :: u32
  hp_durable_writable :: bool

definition enc_hello_response :: "hello_response \<Rightarrow> bytes" where
  "enc_hello_response v =
     w_u16 (hp_protocol_version v) @ w_u64 (hp_epoch v) @ w_fixed128 (hp_coordinator_boot v) @
     w_fixed128 (hp_store v) @ w_u32 (hp_max_frame_bytes v) @ w_boolean (hp_durable_writable v)"

definition dec_hello_response :: "hello_response reader" where
  "dec_hello_response =
     dbind r_u16 (\<lambda>protocol_version.
     dbind r_u64 (\<lambda>epoch.
     dbind r_fixed128 (\<lambda>coordinator_boot.
     dbind r_fixed128 (\<lambda>store.
     dbind r_u32 (\<lambda>max_frame_bytes.
     dbind r_boolean (\<lambda>durable_writable.
     dret \<lparr>hp_protocol_version = protocol_version, hp_epoch = epoch, hp_coordinator_boot = coordinator_boot,
       hp_store = store, hp_max_frame_bytes = max_frame_bytes, hp_durable_writable = durable_writable\<rparr>))))))"

interpretation c_hello_response: codec enc_hello_response dec_hello_response "\<lambda>_. True"
proof unfold_locales
  fix v rest 
  show "dec_hello_response (enc_hello_response v @ rest) = Inr (v, rest)"
    by (cases v) (simp add: enc_hello_response_def dec_hello_response_def codec_rt)
next
  fix bs v rest assume "dec_hello_response bs = Inr (v, rest)"
  then show "True \<and> bs = enc_hello_response v @ rest"
    by (auto simp: enc_hello_response_def dec_hello_response_def codec_only split: if_splits)
qed

record capacity_ingest_request =
  qc_context :: request_context
  qc_snapshot :: capacity_snapshot
  qc_withdrawals :: "name list"

definition enc_capacity_ingest :: "capacity_ingest_request \<Rightarrow> bytes" where
  "enc_capacity_ingest v =
     enc_context (qc_context v) @ enc_capacity_snapshot (qc_snapshot v) @
     w_list w_text (qc_withdrawals v)"

definition dec_capacity_ingest :: "capacity_ingest_request reader" where
  "dec_capacity_ingest =
     dbind dec_context (\<lambda>context.
     dbind dec_capacity_snapshot (\<lambda>snapshot.
     dbind (decode_list (dec_name kNameCapacity)) (\<lambda>withdrawals.
     dret \<lparr>qc_context = context, qc_snapshot = snapshot, qc_withdrawals = withdrawals\<rparr>)))"

definition capacity_ingest_fits :: "capacity_ingest_request \<Rightarrow> bool" where
  "capacity_ingest_fits v \<longleftrightarrow> context_fits (qc_context v) \<and> capacity_snapshot_fits (qc_snapshot v) \<and>
     list_fits (name_ok kNameCapacity) (qc_withdrawals v)"

interpretation c_capacity_ingest: codec enc_capacity_ingest dec_capacity_ingest "capacity_ingest_fits"
proof unfold_locales
  fix v rest assume "capacity_ingest_fits v"
  then show "dec_capacity_ingest (enc_capacity_ingest v @ rest) = Inr (v, rest)"
    by (cases v) (simp add: enc_capacity_ingest_def dec_capacity_ingest_def capacity_ingest_fits_def codec_rt)
next
  fix bs v rest assume "dec_capacity_ingest bs = Inr (v, rest)"
  then show "capacity_ingest_fits v \<and> bs = enc_capacity_ingest v @ rest"
    by (auto simp: enc_capacity_ingest_def dec_capacity_ingest_def capacity_ingest_fits_def codec_only split: if_splits)
qed

record path_ingest_request =
  qp_context :: request_context
  qp_snapshot :: path_authority_snapshot

definition enc_path_ingest :: "path_ingest_request \<Rightarrow> bytes" where
  "enc_path_ingest v =
     enc_context (qp_context v) @ enc_path_snapshot (qp_snapshot v)"

definition dec_path_ingest :: "path_ingest_request reader" where
  "dec_path_ingest =
     dbind dec_context (\<lambda>context.
     dbind dec_path_snapshot (\<lambda>snapshot.
     dret \<lparr>qp_context = context, qp_snapshot = snapshot\<rparr>))"

definition path_ingest_fits :: "path_ingest_request \<Rightarrow> bool" where
  "path_ingest_fits v \<longleftrightarrow> context_fits (qp_context v) \<and> path_snapshot_fits (qp_snapshot v)"

interpretation c_path_ingest: codec enc_path_ingest dec_path_ingest "path_ingest_fits"
proof unfold_locales
  fix v rest assume "path_ingest_fits v"
  then show "dec_path_ingest (enc_path_ingest v @ rest) = Inr (v, rest)"
    by (cases v) (simp add: enc_path_ingest_def dec_path_ingest_def path_ingest_fits_def codec_rt)
next
  fix bs v rest assume "dec_path_ingest bs = Inr (v, rest)"
  then show "path_ingest_fits v \<and> bs = enc_path_ingest v @ rest"
    by (auto simp: enc_path_ingest_def dec_path_ingest_def path_ingest_fits_def codec_only split: if_splits)
qed

record policy_ingest_request =
  qo_context :: request_context
  qo_record :: policy_record

definition enc_policy_ingest :: "policy_ingest_request \<Rightarrow> bytes" where
  "enc_policy_ingest v =
     enc_context (qo_context v) @ enc_policy (qo_record v)"

definition dec_policy_ingest :: "policy_ingest_request reader" where
  "dec_policy_ingest =
     dbind dec_context (\<lambda>context.
     dbind dec_policy (\<lambda>record.
     dret \<lparr>qo_context = context, qo_record = record\<rparr>))"

definition policy_ingest_fits :: "policy_ingest_request \<Rightarrow> bool" where
  "policy_ingest_fits v \<longleftrightarrow> context_fits (qo_context v) \<and> policy_fits (qo_record v)"

interpretation c_policy_ingest: codec enc_policy_ingest dec_policy_ingest "policy_ingest_fits"
proof unfold_locales
  fix v rest assume "policy_ingest_fits v"
  then show "dec_policy_ingest (enc_policy_ingest v @ rest) = Inr (v, rest)"
    by (cases v) (simp add: enc_policy_ingest_def dec_policy_ingest_def policy_ingest_fits_def codec_rt)
next
  fix bs v rest assume "dec_policy_ingest bs = Inr (v, rest)"
  then show "policy_ingest_fits v \<and> bs = enc_policy_ingest v @ rest"
    by (auto simp: enc_policy_ingest_def dec_policy_ingest_def policy_ingest_fits_def codec_only split: if_splits)
qed

record claimant_registration_request =
  qr_context :: request_context
  qr_claimant :: identity
  qr_generation :: counter

definition enc_claimant_registration :: "claimant_registration_request \<Rightarrow> bytes" where
  "enc_claimant_registration v =
     enc_context (qr_context v) @ w_fixed128 (qr_claimant v) @ w_u64 (qr_generation v)"

definition dec_claimant_registration :: "claimant_registration_request reader" where
  "dec_claimant_registration =
     dbind dec_context (\<lambda>context.
     dbind r_fixed128 (\<lambda>claimant.
     dbind r_u64 (\<lambda>generation.
     dret \<lparr>qr_context = context, qr_claimant = claimant, qr_generation = generation\<rparr>)))"

definition claimant_registration_fits :: "claimant_registration_request \<Rightarrow> bool" where
  "claimant_registration_fits v \<longleftrightarrow> context_fits (qr_context v)"

interpretation c_claimant_registration: codec enc_claimant_registration dec_claimant_registration "claimant_registration_fits"
proof unfold_locales
  fix v rest assume "claimant_registration_fits v"
  then show "dec_claimant_registration (enc_claimant_registration v @ rest) = Inr (v, rest)"
    by (cases v) (simp add: enc_claimant_registration_def dec_claimant_registration_def claimant_registration_fits_def codec_rt)
next
  fix bs v rest assume "dec_claimant_registration bs = Inr (v, rest)"
  then show "claimant_registration_fits v \<and> bs = enc_claimant_registration v @ rest"
    by (auto simp: enc_claimant_registration_def dec_claimant_registration_def claimant_registration_fits_def codec_only split: if_splits)
qed

record fence_request =
  qf_context :: request_context
  qf_claimant :: identity
  qf_claimant_generation :: counter
  qf_boot :: identity
  qf_session :: identity
  qf_claimant_wide :: bool

definition enc_fence_request :: "fence_request \<Rightarrow> bytes" where
  "enc_fence_request v =
     enc_context (qf_context v) @ w_fixed128 (qf_claimant v) @ w_u64 (qf_claimant_generation v) @
     w_fixed128 (qf_boot v) @ w_fixed128 (qf_session v) @ w_boolean (qf_claimant_wide v)"

definition dec_fence_request :: "fence_request reader" where
  "dec_fence_request =
     dbind dec_context (\<lambda>context.
     dbind r_fixed128 (\<lambda>claimant.
     dbind r_u64 (\<lambda>claimant_generation.
     dbind r_fixed128 (\<lambda>boot.
     dbind r_fixed128 (\<lambda>session.
     dbind r_boolean (\<lambda>claimant_wide.
     dret \<lparr>qf_context = context, qf_claimant = claimant, qf_claimant_generation = claimant_generation,
       qf_boot = boot, qf_session = session, qf_claimant_wide = claimant_wide\<rparr>))))))"

definition fence_request_fits :: "fence_request \<Rightarrow> bool" where
  "fence_request_fits v \<longleftrightarrow> context_fits (qf_context v)"

interpretation c_fence_request: codec enc_fence_request dec_fence_request "fence_request_fits"
proof unfold_locales
  fix v rest assume "fence_request_fits v"
  then show "dec_fence_request (enc_fence_request v @ rest) = Inr (v, rest)"
    by (cases v) (simp add: enc_fence_request_def dec_fence_request_def fence_request_fits_def codec_rt)
next
  fix bs v rest assume "dec_fence_request bs = Inr (v, rest)"
  then show "fence_request_fits v \<and> bs = enc_fence_request v @ rest"
    by (auto simp: enc_fence_request_def dec_fence_request_def fence_request_fits_def codec_only split: if_splits)
qed

record reservation_create_request =
  qn_context :: request_context
  qn_terms :: reservation_terms
  qn_requested_id :: identity
  qn_dry_run :: bool
  qn_consume_holds :: "identity list"

definition enc_create_request :: "reservation_create_request \<Rightarrow> bytes" where
  "enc_create_request v =
     enc_context (qn_context v) @ enc_terms (qn_terms v) @ w_fixed128 (qn_requested_id v) @
     w_boolean (qn_dry_run v) @ w_list w_fixed128 (qn_consume_holds v)"

definition dec_create_request :: "reservation_create_request reader" where
  "dec_create_request =
     dbind dec_context (\<lambda>context.
     dbind dec_terms (\<lambda>terms.
     dbind r_fixed128 (\<lambda>requested_id.
     dbind r_boolean (\<lambda>dry_run.
     dbind (r_list 64 r_fixed128) (\<lambda>consume_holds.
     dret \<lparr>qn_context = context, qn_terms = terms, qn_requested_id = requested_id, qn_dry_run = dry_run,
       qn_consume_holds = consume_holds\<rparr>)))))"

definition create_request_fits :: "reservation_create_request \<Rightarrow> bool" where
  "create_request_fits v \<longleftrightarrow> context_fits (qn_context v) \<and> terms_fits (qn_terms v) \<and> holds_fit (qn_consume_holds v)"

interpretation c_create_request: codec enc_create_request dec_create_request "create_request_fits"
proof unfold_locales
  fix v rest assume "create_request_fits v"
  then show "dec_create_request (enc_create_request v @ rest) = Inr (v, rest)"
    by (cases v) (simp add: enc_create_request_def dec_create_request_def create_request_fits_def codec_rt)
next
  fix bs v rest assume "dec_create_request bs = Inr (v, rest)"
  then show "create_request_fits v \<and> bs = enc_create_request v @ rest"
    by (auto simp: enc_create_request_def dec_create_request_def create_request_fits_def codec_only split: if_splits)
qed

record amendment_request =
  qm_context :: request_context
  qm_target :: identity
  qm_target_generation :: counter
  qm_terms :: reservation_terms
  qm_dry_run :: bool

definition enc_amendment_request :: "amendment_request \<Rightarrow> bytes" where
  "enc_amendment_request v =
     enc_context (qm_context v) @ w_fixed128 (qm_target v) @ w_u64 (qm_target_generation v) @
     enc_terms (qm_terms v) @ w_boolean (qm_dry_run v)"

definition dec_amendment_request :: "amendment_request reader" where
  "dec_amendment_request =
     dbind dec_context (\<lambda>context.
     dbind r_fixed128 (\<lambda>target.
     dbind r_u64 (\<lambda>target_generation.
     dbind dec_terms (\<lambda>terms.
     dbind r_boolean (\<lambda>dry_run.
     dret \<lparr>qm_context = context, qm_target = target, qm_target_generation = target_generation,
       qm_terms = terms, qm_dry_run = dry_run\<rparr>)))))"

definition amendment_request_fits :: "amendment_request \<Rightarrow> bool" where
  "amendment_request_fits v \<longleftrightarrow> context_fits (qm_context v) \<and> terms_fits (qm_terms v)"

interpretation c_amendment_request: codec enc_amendment_request dec_amendment_request "amendment_request_fits"
proof unfold_locales
  fix v rest assume "amendment_request_fits v"
  then show "dec_amendment_request (enc_amendment_request v @ rest) = Inr (v, rest)"
    by (cases v) (simp add: enc_amendment_request_def dec_amendment_request_def amendment_request_fits_def codec_rt)
next
  fix bs v rest assume "dec_amendment_request bs = Inr (v, rest)"
  then show "amendment_request_fits v \<and> bs = enc_amendment_request v @ rest"
    by (auto simp: enc_amendment_request_def dec_amendment_request_def amendment_request_fits_def codec_only split: if_splits)
qed

record reservation_ref_request =
  qe_context :: request_context
  qe_id :: identity
  qe_generation :: counter

definition enc_reservation_ref :: "reservation_ref_request \<Rightarrow> bytes" where
  "enc_reservation_ref v =
     enc_context (qe_context v) @ w_fixed128 (qe_id v) @ w_u64 (qe_generation v)"

definition dec_reservation_ref :: "reservation_ref_request reader" where
  "dec_reservation_ref =
     dbind dec_context (\<lambda>context.
     dbind r_fixed128 (\<lambda>id.
     dbind r_u64 (\<lambda>generation.
     dret \<lparr>qe_context = context, qe_id = id, qe_generation = generation\<rparr>)))"

definition reservation_ref_fits :: "reservation_ref_request \<Rightarrow> bool" where
  "reservation_ref_fits v \<longleftrightarrow> context_fits (qe_context v)"

interpretation c_reservation_ref: codec enc_reservation_ref dec_reservation_ref "reservation_ref_fits"
proof unfold_locales
  fix v rest assume "reservation_ref_fits v"
  then show "dec_reservation_ref (enc_reservation_ref v @ rest) = Inr (v, rest)"
    by (cases v) (simp add: enc_reservation_ref_def dec_reservation_ref_def reservation_ref_fits_def codec_rt)
next
  fix bs v rest assume "dec_reservation_ref bs = Inr (v, rest)"
  then show "reservation_ref_fits v \<and> bs = enc_reservation_ref v @ rest"
    by (auto simp: enc_reservation_ref_def dec_reservation_ref_def reservation_ref_fits_def codec_only split: if_splits)
qed

record recall_request =
  ql_context :: request_context
  ql_id :: identity
  ql_generation :: counter
  ql_effective_at :: timestamp
  ql_grace :: timestamp
  ql_force :: bool

definition enc_recall_request :: "recall_request \<Rightarrow> bytes" where
  "enc_recall_request v =
     enc_context (ql_context v) @ w_fixed128 (ql_id v) @ w_u64 (ql_generation v) @
     w_i64 (ql_effective_at v) @ w_i64 (ql_grace v) @ w_boolean (ql_force v)"

definition dec_recall_request :: "recall_request reader" where
  "dec_recall_request =
     dbind dec_context (\<lambda>context.
     dbind r_fixed128 (\<lambda>id.
     dbind r_u64 (\<lambda>generation.
     dbind r_i64 (\<lambda>effective_at.
     dbind r_i64 (\<lambda>grace.
     dbind r_boolean (\<lambda>force.
     dret \<lparr>ql_context = context, ql_id = id, ql_generation = generation, ql_effective_at = effective_at,
       ql_grace = grace, ql_force = force\<rparr>))))))"

definition recall_request_fits :: "recall_request \<Rightarrow> bool" where
  "recall_request_fits v \<longleftrightarrow> context_fits (ql_context v) \<and> int64_ok (ql_effective_at v) \<and> int64_ok (ql_grace v)"

interpretation c_recall_request: codec enc_recall_request dec_recall_request "recall_request_fits"
proof unfold_locales
  fix v rest assume "recall_request_fits v"
  then show "dec_recall_request (enc_recall_request v @ rest) = Inr (v, rest)"
    by (cases v) (simp add: enc_recall_request_def dec_recall_request_def recall_request_fits_def codec_rt)
next
  fix bs v rest assume "dec_recall_request bs = Inr (v, rest)"
  then show "recall_request_fits v \<and> bs = enc_recall_request v @ rest"
    by (auto simp: enc_recall_request_def dec_recall_request_def recall_request_fits_def codec_only split: if_splits)
qed

record revalidate_request =
  qv_context :: request_context
  qv_id :: identity
  qv_generation :: counter
  qv_mark_stale :: bool

definition enc_revalidate_request :: "revalidate_request \<Rightarrow> bytes" where
  "enc_revalidate_request v =
     enc_context (qv_context v) @ w_fixed128 (qv_id v) @ w_u64 (qv_generation v) @
     w_boolean (qv_mark_stale v)"

definition dec_revalidate_request :: "revalidate_request reader" where
  "dec_revalidate_request =
     dbind dec_context (\<lambda>context.
     dbind r_fixed128 (\<lambda>id.
     dbind r_u64 (\<lambda>generation.
     dbind r_boolean (\<lambda>mark_stale.
     dret \<lparr>qv_context = context, qv_id = id, qv_generation = generation, qv_mark_stale = mark_stale\<rparr>))))"

definition revalidate_request_fits :: "revalidate_request \<Rightarrow> bool" where
  "revalidate_request_fits v \<longleftrightarrow> context_fits (qv_context v)"

interpretation c_revalidate_request: codec enc_revalidate_request dec_revalidate_request "revalidate_request_fits"
proof unfold_locales
  fix v rest assume "revalidate_request_fits v"
  then show "dec_revalidate_request (enc_revalidate_request v @ rest) = Inr (v, rest)"
    by (cases v) (simp add: enc_revalidate_request_def dec_revalidate_request_def revalidate_request_fits_def codec_rt)
next
  fix bs v rest assume "dec_revalidate_request bs = Inr (v, rest)"
  then show "revalidate_request_fits v \<and> bs = enc_revalidate_request v @ rest"
    by (auto simp: enc_revalidate_request_def dec_revalidate_request_def revalidate_request_fits_def codec_only split: if_splits)
qed

record attempt_request =
  qt_context :: request_context
  qt_attempt :: identity

definition enc_attempt_request :: "attempt_request \<Rightarrow> bytes" where
  "enc_attempt_request v =
     enc_context (qt_context v) @ w_fixed128 (qt_attempt v)"

definition dec_attempt_request :: "attempt_request reader" where
  "dec_attempt_request =
     dbind dec_context (\<lambda>context.
     dbind r_fixed128 (\<lambda>attempt.
     dret \<lparr>qt_context = context, qt_attempt = attempt\<rparr>))"

definition attempt_request_fits :: "attempt_request \<Rightarrow> bool" where
  "attempt_request_fits v \<longleftrightarrow> context_fits (qt_context v)"

interpretation c_attempt_request: codec enc_attempt_request dec_attempt_request "attempt_request_fits"
proof unfold_locales
  fix v rest assume "attempt_request_fits v"
  then show "dec_attempt_request (enc_attempt_request v @ rest) = Inr (v, rest)"
    by (cases v) (simp add: enc_attempt_request_def dec_attempt_request_def attempt_request_fits_def codec_rt)
next
  fix bs v rest assume "dec_attempt_request bs = Inr (v, rest)"
  then show "attempt_request_fits v \<and> bs = enc_attempt_request v @ rest"
    by (auto simp: enc_attempt_request_def dec_attempt_request_def attempt_request_fits_def codec_only split: if_splits)
qed

record lifecycle_reconcile_request =
  qk_context :: request_context
  qk_fence_dead_holds :: bool

definition enc_lifecycle_reconcile :: "lifecycle_reconcile_request \<Rightarrow> bytes" where
  "enc_lifecycle_reconcile v =
     enc_context (qk_context v) @ w_boolean (qk_fence_dead_holds v)"

definition dec_lifecycle_reconcile :: "lifecycle_reconcile_request reader" where
  "dec_lifecycle_reconcile =
     dbind dec_context (\<lambda>context.
     dbind r_boolean (\<lambda>fence_dead_holds.
     dret \<lparr>qk_context = context, qk_fence_dead_holds = fence_dead_holds\<rparr>))"

definition lifecycle_reconcile_fits :: "lifecycle_reconcile_request \<Rightarrow> bool" where
  "lifecycle_reconcile_fits v \<longleftrightarrow> context_fits (qk_context v)"

interpretation c_lifecycle_reconcile: codec enc_lifecycle_reconcile dec_lifecycle_reconcile "lifecycle_reconcile_fits"
proof unfold_locales
  fix v rest assume "lifecycle_reconcile_fits v"
  then show "dec_lifecycle_reconcile (enc_lifecycle_reconcile v @ rest) = Inr (v, rest)"
    by (cases v) (simp add: enc_lifecycle_reconcile_def dec_lifecycle_reconcile_def lifecycle_reconcile_fits_def codec_rt)
next
  fix bs v rest assume "dec_lifecycle_reconcile bs = Inr (v, rest)"
  then show "lifecycle_reconcile_fits v \<and> bs = enc_lifecycle_reconcile v @ rest"
    by (auto simp: enc_lifecycle_reconcile_def dec_lifecycle_reconcile_def lifecycle_reconcile_fits_def codec_only split: if_splits)
qed

record query_request =
  qq_context :: request_context
  qq_resource :: name
  qq_window :: interval
  qq_amount :: timestamp
  qq_include_terminal :: bool

definition enc_query_request :: "query_request \<Rightarrow> bytes" where
  "enc_query_request v =
     enc_context (qq_context v) @ w_text (qq_resource v) @ enc_interval (qq_window v) @
     w_i64 (qq_amount v) @ w_boolean (qq_include_terminal v)"

definition dec_query_request :: "query_request reader" where
  "dec_query_request =
     dbind dec_context (\<lambda>context.
     dbind (dec_name kNameCapacity) (\<lambda>resource.
     dbind dec_interval (\<lambda>window.
     dbind r_i64 (\<lambda>amount.
     dbind r_boolean (\<lambda>include_terminal.
     dret \<lparr>qq_context = context, qq_resource = resource, qq_window = window, qq_amount = amount,
       qq_include_terminal = include_terminal\<rparr>)))))"

definition query_request_fits :: "query_request \<Rightarrow> bool" where
  "query_request_fits v \<longleftrightarrow> context_fits (qq_context v) \<and> name_ok kNameCapacity (qq_resource v) \<and>
     interval_fits (qq_window v) \<and> int64_ok (qq_amount v)"

interpretation c_query_request: codec enc_query_request dec_query_request "query_request_fits"
proof unfold_locales
  fix v rest assume "query_request_fits v"
  then show "dec_query_request (enc_query_request v @ rest) = Inr (v, rest)"
    by (cases v) (simp add: enc_query_request_def dec_query_request_def query_request_fits_def codec_rt)
next
  fix bs v rest assume "dec_query_request bs = Inr (v, rest)"
  then show "query_request_fits v \<and> bs = enc_query_request v @ rest"
    by (auto simp: enc_query_request_def dec_query_request_def query_request_fits_def codec_only split: if_splits)
qed

record claimant_query_request =
  qy_context :: request_context
  qy_claimant :: identity
  qy_include_terminal :: bool

definition enc_claimant_query :: "claimant_query_request \<Rightarrow> bytes" where
  "enc_claimant_query v =
     enc_context (qy_context v) @ w_fixed128 (qy_claimant v) @ w_boolean (qy_include_terminal v)"

definition dec_claimant_query :: "claimant_query_request reader" where
  "dec_claimant_query =
     dbind dec_context (\<lambda>context.
     dbind r_fixed128 (\<lambda>claimant.
     dbind r_boolean (\<lambda>include_terminal.
     dret \<lparr>qy_context = context, qy_claimant = claimant, qy_include_terminal = include_terminal\<rparr>)))"

definition claimant_query_fits :: "claimant_query_request \<Rightarrow> bool" where
  "claimant_query_fits v \<longleftrightarrow> context_fits (qy_context v)"

interpretation c_claimant_query: codec enc_claimant_query dec_claimant_query "claimant_query_fits"
proof unfold_locales
  fix v rest assume "claimant_query_fits v"
  then show "dec_claimant_query (enc_claimant_query v @ rest) = Inr (v, rest)"
    by (cases v) (simp add: enc_claimant_query_def dec_claimant_query_def claimant_query_fits_def codec_rt)
next
  fix bs v rest assume "dec_claimant_query bs = Inr (v, rest)"
  then show "claimant_query_fits v \<and> bs = enc_claimant_query v @ rest"
    by (auto simp: enc_claimant_query_def dec_claimant_query_def claimant_query_fits_def codec_only split: if_splits)
qed

record lineage_request =
  qg_context :: request_context
  qg_id :: identity
  qg_generation :: counter

definition enc_lineage_request :: "lineage_request \<Rightarrow> bytes" where
  "enc_lineage_request v =
     enc_context (qg_context v) @ w_fixed128 (qg_id v) @ w_u64 (qg_generation v)"

definition dec_lineage_request :: "lineage_request reader" where
  "dec_lineage_request =
     dbind dec_context (\<lambda>context.
     dbind r_fixed128 (\<lambda>id.
     dbind r_u64 (\<lambda>generation.
     dret \<lparr>qg_context = context, qg_id = id, qg_generation = generation\<rparr>)))"

definition lineage_request_fits :: "lineage_request \<Rightarrow> bool" where
  "lineage_request_fits v \<longleftrightarrow> context_fits (qg_context v)"

interpretation c_lineage_request: codec enc_lineage_request dec_lineage_request "lineage_request_fits"
proof unfold_locales
  fix v rest assume "lineage_request_fits v"
  then show "dec_lineage_request (enc_lineage_request v @ rest) = Inr (v, rest)"
    by (cases v) (simp add: enc_lineage_request_def dec_lineage_request_def lineage_request_fits_def codec_rt)
next
  fix bs v rest assume "dec_lineage_request bs = Inr (v, rest)"
  then show "lineage_request_fits v \<and> bs = enc_lineage_request v @ rest"
    by (auto simp: enc_lineage_request_def dec_lineage_request_def lineage_request_fits_def codec_only split: if_splits)
qed

record hold_acquire_request =
  qh_context :: request_context
  qh_terms :: reservation_terms
  qh_expires_at :: timestamp

definition enc_hold_acquire :: "hold_acquire_request \<Rightarrow> bytes" where
  "enc_hold_acquire v =
     enc_context (qh_context v) @ enc_terms (qh_terms v) @ w_i64 (qh_expires_at v)"

definition dec_hold_acquire :: "hold_acquire_request reader" where
  "dec_hold_acquire =
     dbind dec_context (\<lambda>context.
     dbind dec_terms (\<lambda>terms.
     dbind r_i64 (\<lambda>expires_at.
     dret \<lparr>qh_context = context, qh_terms = terms, qh_expires_at = expires_at\<rparr>)))"

definition hold_acquire_fits :: "hold_acquire_request \<Rightarrow> bool" where
  "hold_acquire_fits v \<longleftrightarrow> context_fits (qh_context v) \<and> terms_fits (qh_terms v) \<and> int64_ok (qh_expires_at v)"

interpretation c_hold_acquire: codec enc_hold_acquire dec_hold_acquire "hold_acquire_fits"
proof unfold_locales
  fix v rest assume "hold_acquire_fits v"
  then show "dec_hold_acquire (enc_hold_acquire v @ rest) = Inr (v, rest)"
    by (cases v) (simp add: enc_hold_acquire_def dec_hold_acquire_def hold_acquire_fits_def codec_rt)
next
  fix bs v rest assume "dec_hold_acquire bs = Inr (v, rest)"
  then show "hold_acquire_fits v \<and> bs = enc_hold_acquire v @ rest"
    by (auto simp: enc_hold_acquire_def dec_hold_acquire_def hold_acquire_fits_def codec_only split: if_splits)
qed

record hold_release_request =
  qx_context :: request_context
  qx_id :: identity
  qx_generation :: counter

definition enc_hold_release :: "hold_release_request \<Rightarrow> bytes" where
  "enc_hold_release v =
     enc_context (qx_context v) @ w_fixed128 (qx_id v) @ w_u64 (qx_generation v)"

definition dec_hold_release :: "hold_release_request reader" where
  "dec_hold_release =
     dbind dec_context (\<lambda>context.
     dbind r_fixed128 (\<lambda>id.
     dbind r_u64 (\<lambda>generation.
     dret \<lparr>qx_context = context, qx_id = id, qx_generation = generation\<rparr>)))"

definition hold_release_fits :: "hold_release_request \<Rightarrow> bool" where
  "hold_release_fits v \<longleftrightarrow> context_fits (qx_context v)"

interpretation c_hold_release: codec enc_hold_release dec_hold_release "hold_release_fits"
proof unfold_locales
  fix v rest assume "hold_release_fits v"
  then show "dec_hold_release (enc_hold_release v @ rest) = Inr (v, rest)"
    by (cases v) (simp add: enc_hold_release_def dec_hold_release_def hold_release_fits_def codec_rt)
next
  fix bs v rest assume "dec_hold_release bs = Inr (v, rest)"
  then show "hold_release_fits v \<and> bs = enc_hold_release v @ rest"
    by (auto simp: enc_hold_release_def dec_hold_release_def hold_release_fits_def codec_only split: if_splits)
qed

record status_response =
  rp_outcome :: admission_outcome
  rp_message :: string
  rp_reservation :: identity
  rp_generation :: counter
  rp_sequence :: counter

definition enc_status_response :: "status_response \<Rightarrow> bytes" where
  "enc_status_response v =
     enc_admission_outcome (rp_outcome v) @ w_text (rp_message v) @ w_fixed128 (rp_reservation v) @
     w_u64 (rp_generation v) @ w_u64 (rp_sequence v)"

definition dec_status_response :: "status_response reader" where
  "dec_status_response =
     dbind dec_admission_outcome (\<lambda>outcome.
     dbind (r_text kMaxTextBytes) (\<lambda>message.
     dbind r_fixed128 (\<lambda>reservation.
     dbind r_u64 (\<lambda>generation.
     dbind r_u64 (\<lambda>sequence.
     dret \<lparr>rp_outcome = outcome, rp_message = message, rp_reservation = reservation,
       rp_generation = generation, rp_sequence = sequence\<rparr>)))))"

definition status_response_fits :: "status_response \<Rightarrow> bool" where
  "status_response_fits v \<longleftrightarrow> text_fits (rp_message v)"

interpretation c_status_response: codec enc_status_response dec_status_response "status_response_fits"
proof unfold_locales
  fix v rest assume "status_response_fits v"
  then show "dec_status_response (enc_status_response v @ rest) = Inr (v, rest)"
    by (cases v) (simp add: enc_status_response_def dec_status_response_def status_response_fits_def codec_rt)
next
  fix bs v rest assume "dec_status_response bs = Inr (v, rest)"
  then show "status_response_fits v \<and> bs = enc_status_response v @ rest"
    by (auto simp: enc_status_response_def dec_status_response_def status_response_fits_def codec_only split: if_splits)
qed

record error_response =
  re_code :: error_code
  re_outcome :: admission_outcome
  re_message :: string

definition enc_error_response :: "error_response \<Rightarrow> bytes" where
  "enc_error_response v =
     enc_error_code (re_code v) @ enc_admission_outcome (re_outcome v) @ w_text (re_message v)"

definition dec_error_response :: "error_response reader" where
  "dec_error_response =
     dbind dec_error_code (\<lambda>code.
     dbind dec_admission_outcome (\<lambda>outcome.
     dbind (r_text kMaxTextBytes) (\<lambda>message.
     dret \<lparr>re_code = code, re_outcome = outcome, re_message = message\<rparr>)))"

definition error_response_fits :: "error_response \<Rightarrow> bool" where
  "error_response_fits v \<longleftrightarrow> text_fits (re_message v)"

interpretation c_error_response: codec enc_error_response dec_error_response "error_response_fits"
proof unfold_locales
  fix v rest assume "error_response_fits v"
  then show "dec_error_response (enc_error_response v @ rest) = Inr (v, rest)"
    by (cases v) (simp add: enc_error_response_def dec_error_response_def error_response_fits_def codec_rt)
next
  fix bs v rest assume "dec_error_response bs = Inr (v, rest)"
  then show "error_response_fits v \<and> bs = enc_error_response v @ rest"
    by (auto simp: enc_error_response_def dec_error_response_def error_response_fits_def codec_only split: if_splits)
qed

subsection \<open>Requests\<close>

text \<open>
  The payload a server reads for each message type. The types without an entry carry no payload a server reads:
  reports and statistics are asked for by their type alone.
\<close>

datatype wire_request =
    WqHello hello_request
  | WqIngestCapacity capacity_ingest_request
  | WqIngestPathAuthority path_ingest_request
  | WqIngestPolicy policy_ingest_request
  | WqRegisterClaimant claimant_registration_request
  | WqFence fence_request
  | WqCreate reservation_create_request
  | WqAmend amendment_request
  | WqReservationRef reservation_ref_request
  | WqRecall recall_request
  | WqRevalidate revalidate_request
  | WqAttempt attempt_request
  | WqLifecycleReconcile lifecycle_reconcile_request
  | WqQuery query_request
  | WqClaimantQuery claimant_query_request
  | WqLineage lineage_request
  | WqHoldAcquire hold_acquire_request
  | WqHoldRelease hold_release_request

fun enc_wire :: "wire_request \<Rightarrow> bytes" where
  "enc_wire (WqHello v) = enc_hello v"
| "enc_wire (WqIngestCapacity v) = enc_capacity_ingest v"
| "enc_wire (WqIngestPathAuthority v) = enc_path_ingest v"
| "enc_wire (WqIngestPolicy v) = enc_policy_ingest v"
| "enc_wire (WqRegisterClaimant v) = enc_claimant_registration v"
| "enc_wire (WqFence v) = enc_fence_request v"
| "enc_wire (WqCreate v) = enc_create_request v"
| "enc_wire (WqAmend v) = enc_amendment_request v"
| "enc_wire (WqReservationRef v) = enc_reservation_ref v"
| "enc_wire (WqRecall v) = enc_recall_request v"
| "enc_wire (WqRevalidate v) = enc_revalidate_request v"
| "enc_wire (WqAttempt v) = enc_attempt_request v"
| "enc_wire (WqLifecycleReconcile v) = enc_lifecycle_reconcile v"
| "enc_wire (WqQuery v) = enc_query_request v"
| "enc_wire (WqClaimantQuery v) = enc_claimant_query v"
| "enc_wire (WqLineage v) = enc_lineage_request v"
| "enc_wire (WqHoldAcquire v) = enc_hold_acquire v"
| "enc_wire (WqHoldRelease v) = enc_hold_release v"

definition dec_as :: "('a \<Rightarrow> 'b) \<Rightarrow> 'a reader \<Rightarrow> 'b reader" where
  "dec_as f d = dbind d (\<lambda>x. dret (f x))"

fun dec_wire :: "message_type \<Rightarrow> wire_request reader" where
  "dec_wire MtHello = dec_as WqHello dec_hello"
| "dec_wire MtIngestCapacity = dec_as WqIngestCapacity dec_capacity_ingest"
| "dec_wire MtIngestPathAuthority = dec_as WqIngestPathAuthority dec_path_ingest"
| "dec_wire MtIngestPolicy = dec_as WqIngestPolicy dec_policy_ingest"
| "dec_wire MtRegisterClaimant = dec_as WqRegisterClaimant dec_claimant_registration"
| "dec_wire MtFence = dec_as WqFence dec_fence_request"
| "dec_wire MtValidate = dec_as WqCreate dec_create_request"
| "dec_wire MtCommit = dec_as WqCreate dec_create_request"
| "dec_wire MtAmend = dec_as WqAmend dec_amendment_request"
| "dec_wire MtRelease = dec_as WqReservationRef dec_reservation_ref"
| "dec_wire MtRecall = dec_as WqRecall dec_recall_request"
| "dec_wire MtRevoke = dec_as WqReservationRef dec_reservation_ref"
| "dec_wire MtRevalidate = dec_as WqRevalidate dec_revalidate_request"
| "dec_wire MtReconcileAttempt = dec_as WqAttempt dec_attempt_request"
| "dec_wire MtReconcileLifecycle = dec_as WqLifecycleReconcile dec_lifecycle_reconcile"
| "dec_wire MtGetReservation = dec_as WqReservationRef dec_reservation_ref"
| "dec_wire MtQueryClaimant = dec_as WqClaimantQuery dec_claimant_query"
| "dec_wire MtQueryResource = dec_as WqQuery dec_query_request"
| "dec_wire MtQueryCommitted = dec_as WqQuery dec_query_request"
| "dec_wire MtQueryRemaining = dec_as WqQuery dec_query_request"
| "dec_wire MtExplainConflicts = dec_as WqCreate dec_create_request"
| "dec_wire MtTimeline = dec_as WqQuery dec_query_request"
| "dec_wire MtLineage = dec_as WqLineage dec_lineage_request"
| "dec_wire MtHoldAcquire = dec_as WqHoldAcquire dec_hold_acquire"
| "dec_wire MtHoldRelease = dec_as WqHoldRelease dec_hold_release"
| "dec_wire MtSessionRelease = dec_as WqLifecycleReconcile dec_lifecycle_reconcile"
| "dec_wire _ = dfail EUnsupported"

text \<open>The message types a request may be sent under, and the requests a frame can carry.\<close>

fun travels_as :: "wire_request \<Rightarrow> message_type list" where
  "travels_as (WqHello v) = [MtHello]"
| "travels_as (WqIngestCapacity v) = [MtIngestCapacity]"
| "travels_as (WqIngestPathAuthority v) = [MtIngestPathAuthority]"
| "travels_as (WqIngestPolicy v) = [MtIngestPolicy]"
| "travels_as (WqRegisterClaimant v) = [MtRegisterClaimant]"
| "travels_as (WqFence v) = [MtFence]"
| "travels_as (WqCreate v) = [MtValidate, MtCommit, MtExplainConflicts]"
| "travels_as (WqAmend v) = [MtAmend]"
| "travels_as (WqReservationRef v) = [MtRelease, MtRevoke, MtGetReservation]"
| "travels_as (WqRecall v) = [MtRecall]"
| "travels_as (WqRevalidate v) = [MtRevalidate]"
| "travels_as (WqAttempt v) = [MtReconcileAttempt]"
| "travels_as (WqLifecycleReconcile v) = [MtReconcileLifecycle, MtSessionRelease]"
| "travels_as (WqQuery v) = [MtQueryResource, MtQueryCommitted, MtQueryRemaining, MtTimeline]"
| "travels_as (WqClaimantQuery v) = [MtQueryClaimant]"
| "travels_as (WqLineage v) = [MtLineage]"
| "travels_as (WqHoldAcquire v) = [MtHoldAcquire]"
| "travels_as (WqHoldRelease v) = [MtHoldRelease]"

fun wire_fits :: "wire_request \<Rightarrow> bool" where
  "wire_fits (WqHello v) = hello_fits v"
| "wire_fits (WqIngestCapacity v) = capacity_ingest_fits v"
| "wire_fits (WqIngestPathAuthority v) = path_ingest_fits v"
| "wire_fits (WqIngestPolicy v) = policy_ingest_fits v"
| "wire_fits (WqRegisterClaimant v) = claimant_registration_fits v"
| "wire_fits (WqFence v) = fence_request_fits v"
| "wire_fits (WqCreate v) = create_request_fits v"
| "wire_fits (WqAmend v) = amendment_request_fits v"
| "wire_fits (WqReservationRef v) = reservation_ref_fits v"
| "wire_fits (WqRecall v) = recall_request_fits v"
| "wire_fits (WqRevalidate v) = revalidate_request_fits v"
| "wire_fits (WqAttempt v) = attempt_request_fits v"
| "wire_fits (WqLifecycleReconcile v) = lifecycle_reconcile_fits v"
| "wire_fits (WqQuery v) = query_request_fits v"
| "wire_fits (WqClaimantQuery v) = claimant_query_fits v"
| "wire_fits (WqLineage v) = lineage_request_fits v"
| "wire_fits (WqHoldAcquire v) = hold_acquire_fits v"
| "wire_fits (WqHoldRelease v) = hold_release_fits v"

lemma dec_as_Inr:
  assumes "codec enc d carries"
  shows "dec_as f d bs = Inr (q, rest) \<longleftrightarrow> (\<exists>v. carries v \<and> bs = enc v @ rest \<and> q = f v)"
  unfolding dec_as_def codec.dec_bind_Inr [OF assms] by auto

lemmas dec_as_requests =
  dec_as_Inr [OF c_hello.codec_axioms] dec_as_Inr [OF c_capacity_ingest.codec_axioms] dec_as_Inr [OF c_path_ingest.codec_axioms]
  dec_as_Inr [OF c_policy_ingest.codec_axioms] dec_as_Inr [OF c_claimant_registration.codec_axioms]
  dec_as_Inr [OF c_fence_request.codec_axioms] dec_as_Inr [OF c_create_request.codec_axioms]
  dec_as_Inr [OF c_amendment_request.codec_axioms] dec_as_Inr [OF c_reservation_ref.codec_axioms]
  dec_as_Inr [OF c_recall_request.codec_axioms] dec_as_Inr [OF c_revalidate_request.codec_axioms]
  dec_as_Inr [OF c_attempt_request.codec_axioms] dec_as_Inr [OF c_lifecycle_reconcile.codec_axioms]
  dec_as_Inr [OF c_query_request.codec_axioms] dec_as_Inr [OF c_claimant_query.codec_axioms]
  dec_as_Inr [OF c_lineage_request.codec_axioms] dec_as_Inr [OF c_hold_acquire.codec_axioms]
  dec_as_Inr [OF c_hold_release.codec_axioms]

lemma dec_wire_Inr: "dec_wire t bs = Inr (q, rest) \<longleftrightarrow> t \<in> set (travels_as q) \<and> wire_fits q \<and> bs = enc_wire q @ rest"
  by (cases t; cases q) (simp_all add: dec_as_requests)

subsection \<open>Frames on the stream\<close>

lemma length_encoded [simp]: "length (w_u16 a) = 2" "length (w_u32 b) = 4"
  by (simp_all add: w_u16_def w_u32_def w_u8_def)

lemma receive_exact_append [simp]: "length xs = n \<Longrightarrow> receive_exact n (xs @ ys) = Inr (xs, ys)"
  by (simp add: receive_exact_def)

lemma receive_exact_Inr: "receive_exact n bs = Inr (xs, ys) \<longleftrightarrow> length xs = n \<and> bs = xs @ ys"
  by (auto simp: receive_exact_def append_eq_conv_conj split: if_splits)

definition header_of :: "u32 \<Rightarrow> u32 \<Rightarrow> u16 \<Rightarrow> bytes" where
  "header_of len checksum t = w_u32 kFrameMagic @ w_u32 len @ w_u32 checksum @ w_u16 t @ w_u16 kWireProtocolVersion"

lemma frame_header_length [simp]: "length (header_of len checksum t) = kFrameHeaderBytes"
  by (simp add: header_of_def kFrameHeaderBytes_def)

lemma frame_header_Inr:
  "frame_header m bs = Inr ((len, checksum, t), rest) \<longleftrightarrow>
     kFrameHeaderBytes \<le> unat len \<and> unat len \<le> m \<and> bs = header_of len checksum t @ rest"
    (is "?l \<longleftrightarrow> ?r")
proof
  show "?l \<Longrightarrow> ?r" by (auto simp: frame_header_def header_of_def codec_only split: if_splits)
  show "?r \<Longrightarrow> ?l" by (auto simp: frame_header_def header_of_def codec_rt)
qed

lemma encode_frame_header: "encode_frame t payload = header_of (of_nat (kFrameHeaderBytes + length payload)) (crc32c payload) t @ payload"
  by (simp add: encode_frame_def header_of_def)

lemma read_frame_Inr:
  assumes "m < 2 ^ 32"
  shows "read_frame m bs = Inr (f, rest) \<longleftrightarrow>
    kFrameHeaderBytes + length (fr_payload f) \<le> m \<and> bs = encode_frame (fr_type f) (fr_payload f) @ rest"
    (is "?l \<longleftrightarrow> ?r")
proof
  assume ?l
  then obtain header len checksum t extra rest1 payload where "receive_exact kFrameHeaderBytes bs = Inr (header, rest1)"
    and "frame_header m header = Inr ((len, checksum, t), extra)"
    and "receive_exact (unat len - kFrameHeaderBytes) rest1 = Inr (payload, rest)"
    and f: "crc32c payload = checksum" "f = \<lparr>fr_type = t, fr_payload = payload\<rparr>"
    by (auto simp: read_frame_def bindE_Inr_iff split: if_splits)
  then have parts: "length header = kFrameHeaderBytes" "bs = header @ rest1" "kFrameHeaderBytes \<le> unat len" "unat len \<le> m"
      "header = header_of len checksum t @ extra" "length payload = unat len - kFrameHeaderBytes" "rest1 = payload @ rest"
    by (simp_all add: receive_exact_Inr frame_header_Inr)
  then have "extra = []" and "of_nat (kFrameHeaderBytes + length payload) = len" by simp_all
  with parts f show ?r by (simp add: encode_frame_header)
next
  assume r: ?r
  let ?len = "of_nat (kFrameHeaderBytes + length (fr_payload f)) :: u32"
  have len: "unat ?len = kFrameHeaderBytes + length (fr_payload f)" using r assms by (intro unat_u32_of_nat) auto
  have header: "frame_header m (header_of ?len (crc32c (fr_payload f)) (fr_type f)) =
      Inr ((?len, crc32c (fr_payload f), fr_type f), [])"
    using frame_header_Inr [of m _ ?len _ _ "[]"] len r by simp
  show ?l using r header len by (simp add: encode_frame_header read_frame_def)
qed

text \<open>C18: The stream of frames is canonical: a reader takes a frame off the bytes a peer sent exactly when they start with the
  frame a writer makes of that type and payload and the frame is within the bound, and it leaves the bytes behind
  it alone; and a request travels through a frame unchanged: what a server decodes under a message type is a
  request of that type that fits, encoded, whatever bytes follow it in the payload.
\<close>

theorem frames_canonical:
  "(read_frame kMaxFrameBytes stream = Inr (f, rest) \<longleftrightarrow>
      kFrameHeaderBytes + length (fr_payload f) \<le> kMaxFrameBytes \<and> stream = encode_frame (fr_type f) (fr_payload f) @ rest) \<and>
   (dec_wire t payload = Inr (q, extra) \<longleftrightarrow>
      t \<in> set (travels_as q) \<and> wire_fits q \<and> payload = enc_wire q @ extra)"
  by (simp add: read_frame_Inr dec_wire_Inr kMaxFrameBytes_def)

text \<open>C39: The writer bounds the payload by the frame limit, the reader bounds the whole frame by it: a payload within 16
  bytes of the limit is written and refused by every reader with that limit.
\<close>

theorem oversized_frame_refused:
  assumes "kMaxFrameBytes < kFrameHeaderBytes + length payload" and "length payload \<le> kMaxFrameBytes"
  shows "\<exists>bs. write_frame t payload = Inr bs \<and> read_frame kMaxFrameBytes (bs @ rest) = Inl EResourceExhausted"
proof -
  let ?len = "of_nat (kFrameHeaderBytes + length payload) :: u32"
  have len: "unat ?len = kFrameHeaderBytes + length payload"
    using assms by (intro unat_u32_of_nat [OF order_refl]) (simp add: kMaxFrameBytes_def kFrameHeaderBytes_def)
  have "frame_header kMaxFrameBytes (header_of ?len (crc32c payload) t) = Inl EResourceExhausted"
    using assms len by (simp add: frame_header_def header_of_def codec_rt)
  then show ?thesis using assms by (simp add: write_frame_def encode_frame_header read_frame_def)
qed

theorem oversized_frame_witness:
  "\<exists>bs. write_frame 23 (replicate 1048570 0) = Inr bs \<and> read_frame kMaxFrameBytes bs = Inl EResourceExhausted"
  using oversized_frame_refused [of "replicate 1048570 0" 23 "[]"] by (simp add: kMaxFrameBytes_def kFrameHeaderBytes_def)

end
