(* ===== verification/Brf_Responses.thy ===== *)
theory Brf_Responses
  imports Brf_Protocol Brf_Query
begin

text \<open>
  The responses of the wire protocol: the codecs of reports and results (\<^verbatim>\<open>src/codec.cpp\<close>) and of the response
  messages (\<^verbatim>\<open>src/protocol.cpp\<close>). Each is an interpretation of \<open>codec\<close>.

  The coordinator's own results leave their texts out; here they carry them (\<open>explained_report\<close>,
  \<open>noted_reconciliation\<close>, \<open>detailed_recovery\<close>), and a result's reservation is always present, as it is in the
  struct that is sent.
\<close>

subsection \<open>Sizes and holders\<close>

text \<open>A \<^verbatim>\<open>std::size_t\<close> travels as 64 bits.\<close>

definition w_size :: "nat \<Rightarrow> bytes" where
  "w_size n = w_u64 (of_nat n)"

definition r_size :: "nat reader" where
  "r_size = dbind r_u64 (\<lambda>w. dret (unat w))"

definition size_fits :: "nat \<Rightarrow> bool" where
  "size_fits n \<longleftrightarrow> n < 2 ^ 64"

interpretation c_size: codec w_size r_size size_fits
proof unfold_locales
  fix n rest assume "size_fits n"
  then show "r_size (w_size n @ rest) = Inr (n, rest)"
    by (simp add: r_size_def w_size_def size_fits_def codec_rt unat_of_nat take_bit_nat_eq_self)
next
  fix bs n rest assume "r_size bs = Inr (n, rest)"
  then obtain w where "bs = w_u64 w @ rest" "n = unat w" by (auto simp: r_size_def codec_only)
  then show "size_fits n \<and> bs = w_size n @ rest"
    using unsigned_less [of w] by (simp add: size_fits_def w_size_def)
qed

definition holder_kind_values :: "holder_kind list" where
  "holder_kind_values = [HkReservation, HkHold]"

definition enc_holder_kind :: "holder_kind \<Rightarrow> bytes" where
  "enc_holder_kind v = enc_enum holder_kind_values v"

definition dec_holder_kind :: "holder_kind reader" where
  "dec_holder_kind bs = dec_enum holder_kind_values bs"

lemma holder_kind_values: "distinct holder_kind_values" "set holder_kind_values = UNIV" "length holder_kind_values < 256"
  by (auto simp: holder_kind_values_def intro: holder_kind.exhaust)

interpretation c_holder_kind: codec enc_holder_kind dec_holder_kind "\<lambda>_. True"
  unfolding enc_holder_kind_def [abs_def] dec_holder_kind_def [abs_def] by (rule enum_codec [OF holder_kind_values])

subsection \<open>Reports and results\<close>

definition enc_capability_delta :: "capability_delta \<Rightarrow> bytes" where
  "enc_capability_delta v =
     w_text (cd_resource v) @ w_u64 (cd_generation v) @ w_i64 (cd_reservable_capacity v) @
     w_i64 (cd_protected_headroom v) @ w_i64 (cd_committable_ceiling v) @
     w_i64 (cd_committed_peak_before v) @ w_i64 (cd_committed_peak_after v) @ w_i64 (cd_holds_peak v) @
     w_i64 (cd_remaining_after v) @ enc_interval (cd_window v) @ w_boolean (cd_maintenance_covers v) @
     w_boolean (cd_overcommit_emergency v)"

definition dec_capability_delta :: "capability_delta reader" where
  "dec_capability_delta =
     dbind (dec_name kNameCapacity) (\<lambda>resource.
     dbind r_u64 (\<lambda>generation.
     dbind r_i64 (\<lambda>reservable_capacity.
     dbind r_i64 (\<lambda>protected_headroom.
     dbind r_i64 (\<lambda>committable_ceiling.
     dbind r_i64 (\<lambda>committed_peak_before.
     dbind r_i64 (\<lambda>committed_peak_after.
     dbind r_i64 (\<lambda>holds_peak.
     dbind r_i64 (\<lambda>remaining_after.
     dbind dec_interval (\<lambda>window.
     dbind r_boolean (\<lambda>maintenance_covers.
     dbind r_boolean (\<lambda>overcommit_emergency.
     dret \<lparr>cd_resource = resource, cd_generation = generation, cd_reservable_capacity = reservable_capacity,
       cd_protected_headroom = protected_headroom, cd_committable_ceiling = committable_ceiling,
       cd_committed_peak_before = committed_peak_before, cd_committed_peak_after = committed_peak_after,
       cd_holds_peak = holds_peak, cd_remaining_after = remaining_after, cd_window = window,
       cd_maintenance_covers = maintenance_covers, cd_overcommit_emergency = overcommit_emergency\<rparr>))))))))))))"

definition capability_delta_fits :: "capability_delta \<Rightarrow> bool" where
  "capability_delta_fits v \<longleftrightarrow> name_ok kNameCapacity (cd_resource v) \<and> int64_ok (cd_reservable_capacity v) \<and>
     int64_ok (cd_protected_headroom v) \<and> int64_ok (cd_committable_ceiling v) \<and>
     int64_ok (cd_committed_peak_before v) \<and> int64_ok (cd_committed_peak_after v) \<and>
     int64_ok (cd_holds_peak v) \<and> int64_ok (cd_remaining_after v) \<and> interval_fits (cd_window v)"

interpretation c_capability_delta: codec enc_capability_delta dec_capability_delta "capability_delta_fits"
proof unfold_locales
  fix v rest assume "capability_delta_fits v"
  then show "dec_capability_delta (enc_capability_delta v @ rest) = Inr (v, rest)"
    by (cases v) (simp add: enc_capability_delta_def dec_capability_delta_def capability_delta_fits_def codec_rt)
next
  fix bs v rest assume "dec_capability_delta bs = Inr (v, rest)"
  then show "capability_delta_fits v \<and> bs = enc_capability_delta v @ rest"
    by (auto simp: enc_capability_delta_def dec_capability_delta_def capability_delta_fits_def codec_only split: if_splits)
qed

interpretation cl_capability_delta: codec "w_list enc_capability_delta" "decode_list dec_capability_delta" "list_fits capability_delta_fits"
  by (rule list_codec_item) unfold_locales

definition enc_conflict_entry :: "conflict_entry \<Rightarrow> bytes" where
  "enc_conflict_entry v =
     w_fixed128 (ce_id v) @ w_u64 (ce_generation v) @ w_text (ce_resource v) @
     enc_interval (ce_interval v) @ w_i64 (ce_amount v) @ enc_guarantee_class (ce_guarantee v) @
     enc_reservation_state (ce_state v) @ w_boolean (ce_is_hold v)"

definition dec_conflict_entry :: "conflict_entry reader" where
  "dec_conflict_entry =
     dbind r_fixed128 (\<lambda>id.
     dbind r_u64 (\<lambda>generation.
     dbind (dec_name kNameCapacity) (\<lambda>resource.
     dbind dec_interval (\<lambda>interval.
     dbind r_i64 (\<lambda>amount.
     dbind dec_guarantee_class (\<lambda>guarantee.
     dbind dec_reservation_state (\<lambda>state.
     dbind r_boolean (\<lambda>is_hold.
     dret \<lparr>ce_id = id, ce_generation = generation, ce_resource = resource, ce_interval = interval,
       ce_amount = amount, ce_guarantee = guarantee, ce_state = state, ce_is_hold = is_hold\<rparr>))))))))"

definition conflict_entry_fits :: "conflict_entry \<Rightarrow> bool" where
  "conflict_entry_fits v \<longleftrightarrow> name_ok kNameCapacity (ce_resource v) \<and> interval_fits (ce_interval v) \<and>
     int64_ok (ce_amount v)"

interpretation c_conflict_entry: codec enc_conflict_entry dec_conflict_entry "conflict_entry_fits"
proof unfold_locales
  fix v rest assume "conflict_entry_fits v"
  then show "dec_conflict_entry (enc_conflict_entry v @ rest) = Inr (v, rest)"
    by (cases v) (simp add: enc_conflict_entry_def dec_conflict_entry_def conflict_entry_fits_def codec_rt)
next
  fix bs v rest assume "dec_conflict_entry bs = Inr (v, rest)"
  then show "conflict_entry_fits v \<and> bs = enc_conflict_entry v @ rest"
    by (auto simp: enc_conflict_entry_def dec_conflict_entry_def conflict_entry_fits_def codec_only split: if_splits)
qed

interpretation cl_conflict_entry: codec "w_list enc_conflict_entry" "decode_list dec_conflict_entry" "list_fits conflict_entry_fits"
  by (rule list_codec_item) unfold_locales

definition enc_conflict_set :: "conflict_set \<Rightarrow> bytes" where
  "enc_conflict_set v =
     w_list enc_conflict_entry (cf_entries v) @ w_size (cf_total_considered v) @
     w_size (cf_scan_limit_hit v) @ w_boolean (cf_truncated v)"

definition dec_conflict_set :: "conflict_set reader" where
  "dec_conflict_set =
     dbind (decode_list dec_conflict_entry) (\<lambda>entries.
     dbind r_size (\<lambda>total_considered.
     dbind r_size (\<lambda>scan_limit_hit.
     dbind r_boolean (\<lambda>truncated.
     dret \<lparr>cf_entries = entries, cf_total_considered = total_considered, cf_scan_limit_hit = scan_limit_hit,
       cf_truncated = truncated\<rparr>))))"

definition conflict_set_fits :: "conflict_set \<Rightarrow> bool" where
  "conflict_set_fits v \<longleftrightarrow> list_fits conflict_entry_fits (cf_entries v) \<and> size_fits (cf_total_considered v) \<and>
     size_fits (cf_scan_limit_hit v)"

interpretation c_conflict_set: codec enc_conflict_set dec_conflict_set "conflict_set_fits"
proof unfold_locales
  fix v rest assume "conflict_set_fits v"
  then show "dec_conflict_set (enc_conflict_set v @ rest) = Inr (v, rest)"
    by (cases v) (simp add: enc_conflict_set_def dec_conflict_set_def conflict_set_fits_def codec_rt)
next
  fix bs v rest assume "dec_conflict_set bs = Inr (v, rest)"
  then show "conflict_set_fits v \<and> bs = enc_conflict_set v @ rest"
    by (auto simp: enc_conflict_set_def dec_conflict_set_def conflict_set_fits_def codec_only split: if_splits)
qed

record explained_report = admission_report +
  ar_explanation :: string

definition enc_report :: "explained_report \<Rightarrow> bytes" where
  "enc_report v =
     enc_admission_outcome (ar_outcome v) @ w_text (ar_explanation v) @
     w_list enc_capability_delta (ar_resources v) @ enc_conflict_set (ar_conflicts v) @
     w_list w_fixed128 (ar_preemption_plan v) @ w_list w_u64 (ar_preemption_plan_generations v) @
     w_boolean (ar_preemption_planned v) @ enc_applicability_reason (ar_applicability_reason v)"

definition dec_report :: "explained_report reader" where
  "dec_report =
     dbind dec_admission_outcome (\<lambda>outcome.
     dbind (r_text kMaxTextBytes) (\<lambda>explanation.
     dbind (decode_list dec_capability_delta) (\<lambda>resources.
     dbind dec_conflict_set (\<lambda>conflicts.
     dbind (decode_list r_fixed128) (\<lambda>preemption_plan.
     dbind (decode_list r_u64) (\<lambda>preemption_plan_generations.
     if length preemption_plan \<noteq> length preemption_plan_generations then dfail ECorrupt else
     dbind r_boolean (\<lambda>preemption_planned.
     dbind dec_applicability_reason (\<lambda>applicability_reason.
     dret \<lparr>ar_outcome = outcome, ar_resources = resources, ar_conflicts = conflicts,
       ar_preemption_plan = preemption_plan, ar_preemption_plan_generations = preemption_plan_generations,
       ar_preemption_planned = preemption_planned, ar_applicability_reason = applicability_reason,
       ar_explanation = explanation\<rparr>))))))))"

definition report_fits :: "explained_report \<Rightarrow> bool" where
  "report_fits v \<longleftrightarrow> text_fits (ar_explanation v) \<and> list_fits capability_delta_fits (ar_resources v) \<and>
     conflict_set_fits (ar_conflicts v) \<and>
     list_fits (\<lambda>_. True) (ar_preemption_plan v) \<and>
     list_fits (\<lambda>_. True) (ar_preemption_plan_generations v) \<and>
     length (ar_preemption_plan v) = length (ar_preemption_plan_generations v)"

interpretation c_report: codec enc_report dec_report "report_fits"
proof unfold_locales
  fix v rest assume "report_fits v"
  then show "dec_report (enc_report v @ rest) = Inr (v, rest)"
    by (cases v) (simp add: enc_report_def dec_report_def report_fits_def codec_rt)
next
  fix bs v rest assume "dec_report bs = Inr (v, rest)"
  then show "report_fits v \<and> bs = enc_report v @ rest"
    by (auto simp: enc_report_def dec_report_def report_fits_def codec_only split: if_splits)
qed

record commit_message =
  wc_record :: reservation_record
  wc_series :: "reservation_series option"
  wc_members :: "reservation_record list"
  wc_report :: explained_report
  wc_replayed :: bool
  wc_attempt :: identity
  wc_sequence :: counter

definition enc_commit :: "commit_message \<Rightarrow> bytes" where
  "enc_commit v =
     enc_record (wc_record v) @ enc_flagged enc_series (wc_series v) @
     w_list enc_record (wc_members v) @ enc_report (wc_report v) @ w_boolean (wc_replayed v) @
     w_fixed128 (wc_attempt v) @ w_u64 (wc_sequence v)"

definition dec_commit :: "commit_message reader" where
  "dec_commit =
     dbind dec_record (\<lambda>record.
     dbind (dec_flagged dec_series) (\<lambda>series.
     dbind (decode_list dec_record) (\<lambda>members.
     dbind dec_report (\<lambda>report.
     dbind r_boolean (\<lambda>replayed.
     dbind r_fixed128 (\<lambda>attempt.
     dbind r_u64 (\<lambda>sequence.
     dret \<lparr>wc_record = record, wc_series = series, wc_members = members, wc_report = report,
       wc_replayed = replayed, wc_attempt = attempt, wc_sequence = sequence\<rparr>)))))))"

definition commit_fits :: "commit_message \<Rightarrow> bool" where
  "commit_fits v \<longleftrightarrow> record_fits (wc_record v) \<and> flagged_fits series_fits (wc_series v) \<and>
     list_fits record_fits (wc_members v) \<and> report_fits (wc_report v)"

interpretation c_commit: codec enc_commit dec_commit "commit_fits"
proof unfold_locales
  fix v rest assume "commit_fits v"
  then show "dec_commit (enc_commit v @ rest) = Inr (v, rest)"
    by (cases v) (simp add: enc_commit_def dec_commit_def commit_fits_def codec_rt)
next
  fix bs v rest assume "dec_commit bs = Inr (v, rest)"
  then show "commit_fits v \<and> bs = enc_commit v @ rest"
    by (auto simp: enc_commit_def dec_commit_def commit_fits_def codec_only split: if_splits)
qed

record amendment_message =
  wa_predecessor :: reservation_record
  wa_successor :: reservation_record
  wa_series :: "reservation_series option"
  wa_members :: "reservation_record list"
  wa_report :: explained_report
  wa_replayed :: bool

definition enc_amendment :: "amendment_message \<Rightarrow> bytes" where
  "enc_amendment v =
     enc_record (wa_predecessor v) @ enc_record (wa_successor v) @
     enc_flagged enc_series (wa_series v) @ w_list enc_record (wa_members v) @
     enc_report (wa_report v) @ w_boolean (wa_replayed v)"

definition dec_amendment :: "amendment_message reader" where
  "dec_amendment =
     dbind dec_record (\<lambda>predecessor.
     dbind dec_record (\<lambda>successor.
     dbind (dec_flagged dec_series) (\<lambda>series.
     dbind (decode_list dec_record) (\<lambda>members.
     dbind dec_report (\<lambda>report.
     dbind r_boolean (\<lambda>replayed.
     dret \<lparr>wa_predecessor = predecessor, wa_successor = successor, wa_series = series, wa_members = members,
       wa_report = report, wa_replayed = replayed\<rparr>))))))"

definition amendment_fits :: "amendment_message \<Rightarrow> bool" where
  "amendment_fits v \<longleftrightarrow> record_fits (wa_predecessor v) \<and> record_fits (wa_successor v) \<and>
     flagged_fits series_fits (wa_series v) \<and> list_fits record_fits (wa_members v) \<and>
     report_fits (wa_report v)"

interpretation c_amendment: codec enc_amendment dec_amendment "amendment_fits"
proof unfold_locales
  fix v rest assume "amendment_fits v"
  then show "dec_amendment (enc_amendment v @ rest) = Inr (v, rest)"
    by (cases v) (simp add: enc_amendment_def dec_amendment_def amendment_fits_def codec_rt)
next
  fix bs v rest assume "dec_amendment bs = Inr (v, rest)"
  then show "amendment_fits v \<and> bs = enc_amendment v @ rest"
    by (auto simp: enc_amendment_def dec_amendment_def amendment_fits_def codec_only split: if_splits)
qed

record lifecycle_message =
  wl_record :: reservation_record
  wl_replayed :: bool
  wl_transitions :: counter

definition enc_lifecycle :: "lifecycle_message \<Rightarrow> bytes" where
  "enc_lifecycle v =
     enc_record (wl_record v) @ w_boolean (wl_replayed v) @ w_u64 (wl_transitions v)"

definition dec_lifecycle :: "lifecycle_message reader" where
  "dec_lifecycle =
     dbind dec_record (\<lambda>record.
     dbind r_boolean (\<lambda>replayed.
     dbind r_u64 (\<lambda>transitions.
     dret \<lparr>wl_record = record, wl_replayed = replayed, wl_transitions = transitions\<rparr>)))"

definition lifecycle_fits :: "lifecycle_message \<Rightarrow> bool" where
  "lifecycle_fits v \<longleftrightarrow> record_fits (wl_record v)"

interpretation c_lifecycle: codec enc_lifecycle dec_lifecycle "lifecycle_fits"
proof unfold_locales
  fix v rest assume "lifecycle_fits v"
  then show "dec_lifecycle (enc_lifecycle v @ rest) = Inr (v, rest)"
    by (cases v) (simp add: enc_lifecycle_def dec_lifecycle_def lifecycle_fits_def codec_rt)
next
  fix bs v rest assume "dec_lifecycle bs = Inr (v, rest)"
  then show "lifecycle_fits v \<and> bs = enc_lifecycle v @ rest"
    by (auto simp: enc_lifecycle_def dec_lifecycle_def lifecycle_fits_def codec_only split: if_splits)
qed

record noted_reconciliation = attempt_reconciliation +
  rn_note :: string

definition enc_reconciliation :: "noted_reconciliation \<Rightarrow> bytes" where
  "enc_reconciliation v =
     w_fixed128 (rn_attempt v) @ w_boolean (rn_known v) @ enc_admission_outcome (rn_outcome v) @
     w_fixed128 (rn_reservation v) @ w_u64 (rn_generation v) @ w_u64 (rn_sequence v) @
     w_boolean (rn_committed v) @ w_text (rn_note v)"

definition dec_reconciliation :: "noted_reconciliation reader" where
  "dec_reconciliation =
     dbind r_fixed128 (\<lambda>attempt.
     dbind r_boolean (\<lambda>known.
     dbind dec_admission_outcome (\<lambda>outcome.
     dbind r_fixed128 (\<lambda>reservation.
     dbind r_u64 (\<lambda>generation.
     dbind r_u64 (\<lambda>sequence.
     dbind r_boolean (\<lambda>committed.
     dbind (r_text kMaxProvenanceReasonBytes) (\<lambda>note.
     dret \<lparr>rn_attempt = attempt, rn_known = known, rn_outcome = outcome, rn_reservation = reservation,
       rn_generation = generation, rn_sequence = sequence, rn_committed = committed, rn_note = note\<rparr>))))))))"

definition reconciliation_fits :: "noted_reconciliation \<Rightarrow> bool" where
  "reconciliation_fits v \<longleftrightarrow> reason_fits (rn_note v)"

interpretation c_reconciliation: codec enc_reconciliation dec_reconciliation "reconciliation_fits"
proof unfold_locales
  fix v rest assume "reconciliation_fits v"
  then show "dec_reconciliation (enc_reconciliation v @ rest) = Inr (v, rest)"
    by (cases v) (simp add: enc_reconciliation_def dec_reconciliation_def reconciliation_fits_def codec_rt)
next
  fix bs v rest assume "dec_reconciliation bs = Inr (v, rest)"
  then show "reconciliation_fits v \<and> bs = enc_reconciliation v @ rest"
    by (auto simp: enc_reconciliation_def dec_reconciliation_def reconciliation_fits_def codec_only split: if_splits)
qed

definition enc_remaining :: "remaining_capacity \<Rightarrow> bytes" where
  "enc_remaining v =
     w_text (rm_resource v) @ w_u64 (rm_generation v) @ enc_interval (rm_window v) @
     w_i64 (rm_committable_ceiling v) @ w_i64 (rm_committed_peak v) @ w_i64 (rm_holds_peak v) @
     w_i64 (rm_remaining v) @ w_boolean (rm_maintenance_covers v) @ w_boolean (rm_overcommit_emergency v)"

definition dec_remaining :: "remaining_capacity reader" where
  "dec_remaining =
     dbind (dec_name kNameCapacity) (\<lambda>resource.
     dbind r_u64 (\<lambda>generation.
     dbind dec_interval (\<lambda>window.
     dbind r_i64 (\<lambda>committable_ceiling.
     dbind r_i64 (\<lambda>committed_peak.
     dbind r_i64 (\<lambda>holds_peak.
     dbind r_i64 (\<lambda>remaining.
     dbind r_boolean (\<lambda>maintenance_covers.
     dbind r_boolean (\<lambda>overcommit_emergency.
     dret \<lparr>rm_resource = resource, rm_generation = generation, rm_window = window,
       rm_committable_ceiling = committable_ceiling, rm_committed_peak = committed_peak,
       rm_holds_peak = holds_peak, rm_remaining = remaining, rm_maintenance_covers = maintenance_covers,
       rm_overcommit_emergency = overcommit_emergency\<rparr>)))))))))"

definition remaining_fits :: "remaining_capacity \<Rightarrow> bool" where
  "remaining_fits v \<longleftrightarrow> name_ok kNameCapacity (rm_resource v) \<and> interval_fits (rm_window v) \<and>
     int64_ok (rm_committable_ceiling v) \<and> int64_ok (rm_committed_peak v) \<and>
     int64_ok (rm_holds_peak v) \<and> int64_ok (rm_remaining v)"

interpretation c_remaining: codec enc_remaining dec_remaining "remaining_fits"
proof unfold_locales
  fix v rest assume "remaining_fits v"
  then show "dec_remaining (enc_remaining v @ rest) = Inr (v, rest)"
    by (cases v) (simp add: enc_remaining_def dec_remaining_def remaining_fits_def codec_rt)
next
  fix bs v rest assume "dec_remaining bs = Inr (v, rest)"
  then show "remaining_fits v \<and> bs = enc_remaining v @ rest"
    by (auto simp: enc_remaining_def dec_remaining_def remaining_fits_def codec_only split: if_splits)
qed

interpretation cl_remaining: codec "w_list enc_remaining" "decode_list dec_remaining" "list_fits remaining_fits"
  by (rule list_codec_item) unfold_locales

definition enc_change_point :: "change_point \<Rightarrow> bytes" where
  "enc_change_point v =
     w_i64 (cp_at v) @ w_i64 (cp_committed v) @ w_i64 (cp_holds v)"

definition dec_change_point :: "change_point reader" where
  "dec_change_point =
     dbind r_i64 (\<lambda>cp_at'.
     dbind r_i64 (\<lambda>committed.
     dbind r_i64 (\<lambda>holds.
     dret \<lparr>cp_at = cp_at', cp_committed = committed, cp_holds = holds\<rparr>)))"

definition change_point_fits :: "change_point \<Rightarrow> bool" where
  "change_point_fits v \<longleftrightarrow> int64_ok (cp_at v) \<and> int64_ok (cp_committed v) \<and> int64_ok (cp_holds v)"

interpretation c_change_point: codec enc_change_point dec_change_point "change_point_fits"
proof unfold_locales
  fix v rest assume "change_point_fits v"
  then show "dec_change_point (enc_change_point v @ rest) = Inr (v, rest)"
    by (cases v) (simp add: enc_change_point_def dec_change_point_def change_point_fits_def codec_rt)
next
  fix bs v rest assume "dec_change_point bs = Inr (v, rest)"
  then show "change_point_fits v \<and> bs = enc_change_point v @ rest"
    by (auto simp: enc_change_point_def dec_change_point_def change_point_fits_def codec_only split: if_splits)
qed

interpretation cl_change_point: codec "w_list enc_change_point" "decode_list dec_change_point" "list_fits change_point_fits"
  by (rule list_codec_item) unfold_locales

definition enc_timeline :: "capacity_timeline \<Rightarrow> bytes" where
  "enc_timeline v =
     w_text (ct_resource v) @ enc_interval (ct_window v) @ w_list enc_change_point (ct_points v) @
     w_boolean (ct_truncated v)"

definition dec_timeline :: "capacity_timeline reader" where
  "dec_timeline =
     dbind (dec_name kNameCapacity) (\<lambda>resource.
     dbind dec_interval (\<lambda>window.
     dbind (decode_list dec_change_point) (\<lambda>points.
     dbind r_boolean (\<lambda>truncated.
     dret \<lparr>ct_resource = resource, ct_window = window, ct_points = points, ct_truncated = truncated\<rparr>))))"

definition timeline_fits :: "capacity_timeline \<Rightarrow> bool" where
  "timeline_fits v \<longleftrightarrow> name_ok kNameCapacity (ct_resource v) \<and> interval_fits (ct_window v) \<and>
     list_fits change_point_fits (ct_points v)"

interpretation c_timeline: codec enc_timeline dec_timeline "timeline_fits"
proof unfold_locales
  fix v rest assume "timeline_fits v"
  then show "dec_timeline (enc_timeline v @ rest) = Inr (v, rest)"
    by (cases v) (simp add: enc_timeline_def dec_timeline_def timeline_fits_def codec_rt)
next
  fix bs v rest assume "dec_timeline bs = Inr (v, rest)"
  then show "timeline_fits v \<and> bs = enc_timeline v @ rest"
    by (auto simp: enc_timeline_def dec_timeline_def timeline_fits_def codec_only split: if_splits)
qed

definition enc_lineage :: "lineage_view \<Rightarrow> bytes" where
  "enc_lineage v =
     w_fixed128 (lv_id v) @ w_u64 (lv_generation v) @ w_list enc_edge (lv_ancestry v) @
     w_list enc_edge (lv_descendants v) @ w_boolean (lv_truncated v)"

definition dec_lineage :: "lineage_view reader" where
  "dec_lineage =
     dbind r_fixed128 (\<lambda>id.
     dbind r_u64 (\<lambda>generation.
     dbind (decode_list dec_edge) (\<lambda>ancestry.
     dbind (decode_list dec_edge) (\<lambda>descendants.
     dbind r_boolean (\<lambda>truncated.
     dret \<lparr>lv_id = id, lv_generation = generation, lv_ancestry = ancestry, lv_descendants = descendants,
       lv_truncated = truncated\<rparr>)))))"

definition lineage_fits :: "lineage_view \<Rightarrow> bool" where
  "lineage_fits v \<longleftrightarrow> list_fits edge_fits (lv_ancestry v) \<and> list_fits edge_fits (lv_descendants v)"

interpretation c_lineage: codec enc_lineage dec_lineage "lineage_fits"
proof unfold_locales
  fix v rest assume "lineage_fits v"
  then show "dec_lineage (enc_lineage v @ rest) = Inr (v, rest)"
    by (cases v) (simp add: enc_lineage_def dec_lineage_def lineage_fits_def codec_rt)
next
  fix bs v rest assume "dec_lineage bs = Inr (v, rest)"
  then show "lineage_fits v \<and> bs = enc_lineage v @ rest"
    by (auto simp: enc_lineage_def dec_lineage_def lineage_fits_def codec_only split: if_splits)
qed

definition enc_overcommit_entry :: "overcommit_entry \<Rightarrow> bytes" where
  "enc_overcommit_entry v =
     w_text (oe_resource v) @ w_u64 (oe_generation v) @ w_i64 (oe_committed_peak v) @
     w_i64 (oe_committable_ceiling v) @ enc_interval (oe_window v) @ w_i64 (oe_detected_at v)"

definition dec_overcommit_entry :: "overcommit_entry reader" where
  "dec_overcommit_entry =
     dbind (dec_name kNameCapacity) (\<lambda>resource.
     dbind r_u64 (\<lambda>generation.
     dbind r_i64 (\<lambda>committed_peak.
     dbind r_i64 (\<lambda>committable_ceiling.
     dbind dec_interval (\<lambda>window.
     dbind r_i64 (\<lambda>detected_at.
     dret \<lparr>oe_resource = resource, oe_generation = generation, oe_committed_peak = committed_peak,
       oe_committable_ceiling = committable_ceiling, oe_window = window, oe_detected_at = detected_at\<rparr>))))))"

definition overcommit_entry_fits :: "overcommit_entry \<Rightarrow> bool" where
  "overcommit_entry_fits v \<longleftrightarrow> name_ok kNameCapacity (oe_resource v) \<and> int64_ok (oe_committed_peak v) \<and>
     int64_ok (oe_committable_ceiling v) \<and> interval_fits (oe_window v) \<and>
     int64_ok (oe_detected_at v)"

interpretation c_overcommit_entry: codec enc_overcommit_entry dec_overcommit_entry "overcommit_entry_fits"
proof unfold_locales
  fix v rest assume "overcommit_entry_fits v"
  then show "dec_overcommit_entry (enc_overcommit_entry v @ rest) = Inr (v, rest)"
    by (cases v) (simp add: enc_overcommit_entry_def dec_overcommit_entry_def overcommit_entry_fits_def codec_rt)
next
  fix bs v rest assume "dec_overcommit_entry bs = Inr (v, rest)"
  then show "overcommit_entry_fits v \<and> bs = enc_overcommit_entry v @ rest"
    by (auto simp: enc_overcommit_entry_def dec_overcommit_entry_def overcommit_entry_fits_def codec_only split: if_splits)
qed

interpretation cl_overcommit_entry: codec "w_list enc_overcommit_entry" "decode_list dec_overcommit_entry" "list_fits overcommit_entry_fits"
  by (rule list_codec_item) unfold_locales

record overcommit_message =
  wo_entries :: "overcommit_entry list"
  wo_emergency_active :: bool

definition enc_overcommit_report :: "overcommit_message \<Rightarrow> bytes" where
  "enc_overcommit_report v =
     w_list enc_overcommit_entry (wo_entries v) @ w_boolean (wo_emergency_active v)"

definition dec_overcommit_report :: "overcommit_message reader" where
  "dec_overcommit_report =
     dbind (decode_list dec_overcommit_entry) (\<lambda>entries.
     dbind r_boolean (\<lambda>emergency_active.
     dret \<lparr>wo_entries = entries, wo_emergency_active = emergency_active\<rparr>))"

definition overcommit_report_fits :: "overcommit_message \<Rightarrow> bool" where
  "overcommit_report_fits v \<longleftrightarrow> list_fits overcommit_entry_fits (wo_entries v)"

interpretation c_overcommit_report: codec enc_overcommit_report dec_overcommit_report "overcommit_report_fits"
proof unfold_locales
  fix v rest assume "overcommit_report_fits v"
  then show "dec_overcommit_report (enc_overcommit_report v @ rest) = Inr (v, rest)"
    by (cases v) (simp add: enc_overcommit_report_def dec_overcommit_report_def overcommit_report_fits_def codec_rt)
next
  fix bs v rest assume "dec_overcommit_report bs = Inr (v, rest)"
  then show "overcommit_report_fits v \<and> bs = enc_overcommit_report v @ rest"
    by (auto simp: enc_overcommit_report_def dec_overcommit_report_def overcommit_report_fits_def codec_only split: if_splits)
qed

text \<open>The counters of the coordinator come first, the last of them, the snapshot sequence, at the very end.\<close>

definition enc_stats :: "stats_view \<Rightarrow> bytes" where
  "enc_stats v =
     w_u64 (cst_commits (sv_stats v)) @ w_u64 (cst_commit_rejections (sv_stats v)) @
     w_u64 (cst_replayed_attempts (sv_stats v)) @ w_u64 (cst_amendments (sv_stats v)) @
     w_u64 (cst_releases (sv_stats v)) @ w_u64 (cst_expiries (sv_stats v)) @
     w_u64 (cst_recalls (sv_stats v)) @ w_u64 (cst_revocations (sv_stats v)) @
     w_u64 (cst_revalidations (sv_stats v)) @ w_u64 (cst_fenced_holds (sv_stats v)) @
     w_u64 (cst_capacity_ingestions (sv_stats v)) @ w_u64 (cst_generation_advances (sv_stats v)) @
     w_u64 (cst_durable_records (sv_stats v)) @ w_u64 (cst_overcommit_events (sv_stats v)) @
     w_size (sv_tracked_reservations v) @ w_size (sv_tracked_series v) @ w_size (sv_live_holds v) @
     w_size (sv_index_entries v) @ w_u64 (sv_epoch v) @ w_fixed128 (sv_coordinator_boot v) @
     w_size (sv_journal_bytes v) @ w_u64 (cst_snapshot_sequence (sv_stats v))"

definition dec_stats :: "stats_view reader" where
  "dec_stats =
     dbind r_u64 (\<lambda>commits.
     dbind r_u64 (\<lambda>commit_rejections.
     dbind r_u64 (\<lambda>replayed_attempts.
     dbind r_u64 (\<lambda>amendments.
     dbind r_u64 (\<lambda>releases.
     dbind r_u64 (\<lambda>expiries.
     dbind r_u64 (\<lambda>recalls.
     dbind r_u64 (\<lambda>revocations.
     dbind r_u64 (\<lambda>revalidations.
     dbind r_u64 (\<lambda>fenced_holds.
     dbind r_u64 (\<lambda>capacity_ingestions.
     dbind r_u64 (\<lambda>generation_advances.
     dbind r_u64 (\<lambda>durable_records.
     dbind r_u64 (\<lambda>overcommit_events.
     dbind r_size (\<lambda>tracked_reservations.
     dbind r_size (\<lambda>tracked_series.
     dbind r_size (\<lambda>live_holds.
     dbind r_size (\<lambda>index_entries.
     dbind r_u64 (\<lambda>epoch.
     dbind r_fixed128 (\<lambda>coordinator_boot.
     dbind r_size (\<lambda>journal_bytes.
     dbind r_u64 (\<lambda>snapshot_sequence.
     dret \<lparr>sv_stats = \<lparr>cst_commits = commits, cst_commit_rejections = commit_rejections,
         cst_replayed_attempts = replayed_attempts, cst_amendments = amendments, cst_releases = releases,
         cst_expiries = expiries, cst_recalls = recalls, cst_revocations = revocations,
         cst_revalidations = revalidations, cst_fenced_holds = fenced_holds,
         cst_capacity_ingestions = capacity_ingestions, cst_generation_advances = generation_advances,
         cst_durable_records = durable_records, cst_overcommit_events = overcommit_events,
         cst_snapshot_sequence = snapshot_sequence\<rparr>,
       sv_epoch = epoch, sv_coordinator_boot = coordinator_boot,
       sv_tracked_reservations = tracked_reservations, sv_tracked_series = tracked_series,
       sv_live_holds = live_holds, sv_index_entries = index_entries, sv_journal_bytes = journal_bytes\<rparr>))))))))))))))))))))))"

definition stats_fits :: "stats_view \<Rightarrow> bool" where
  "stats_fits v \<longleftrightarrow> size_fits (sv_tracked_reservations v) \<and> size_fits (sv_tracked_series v) \<and>
     size_fits (sv_live_holds v) \<and> size_fits (sv_index_entries v) \<and>
     size_fits (sv_journal_bytes v)"

interpretation c_stats: codec enc_stats dec_stats "stats_fits"
proof unfold_locales
  fix v rest assume "stats_fits v"
  then show "dec_stats (enc_stats v @ rest) = Inr (v, rest)"
    by (cases v; cases "sv_stats v") (simp add: enc_stats_def dec_stats_def stats_fits_def codec_rt)
next
  fix bs v rest assume "dec_stats bs = Inr (v, rest)"
  then show "stats_fits v \<and> bs = enc_stats v @ rest"
    by (auto simp: enc_stats_def dec_stats_def stats_fits_def codec_only split: if_splits)
qed

definition enc_index_entry :: "index_entry \<Rightarrow> bytes" where
  "enc_index_entry v =
     enc_holder_kind (ie_kind v) @ w_fixed128 (ie_id v) @ w_u64 (ie_holder_generation v) @
     w_text (ie_resource v) @ enc_interval (ie_interval v) @ w_i64 (ie_amount v) @
     enc_guarantee_class (ie_guarantee v) @ enc_reservation_state (ie_state v)"

definition dec_index_entry :: "index_entry reader" where
  "dec_index_entry =
     dbind dec_holder_kind (\<lambda>kind.
     dbind r_fixed128 (\<lambda>id.
     dbind r_u64 (\<lambda>holder_generation.
     dbind (dec_name kNameCapacity) (\<lambda>resource.
     dbind dec_interval (\<lambda>interval.
     dbind r_i64 (\<lambda>amount.
     dbind dec_guarantee_class (\<lambda>guarantee.
     dbind dec_reservation_state (\<lambda>state.
     dret \<lparr>ie_kind = kind, ie_id = id, ie_holder_generation = holder_generation, ie_resource = resource,
       ie_interval = interval, ie_amount = amount, ie_guarantee = guarantee, ie_state = state\<rparr>))))))))"

definition index_entry_fits :: "index_entry \<Rightarrow> bool" where
  "index_entry_fits v \<longleftrightarrow> name_ok kNameCapacity (ie_resource v) \<and> interval_fits (ie_interval v) \<and>
     int64_ok (ie_amount v)"

interpretation c_index_entry: codec enc_index_entry dec_index_entry "index_entry_fits"
proof unfold_locales
  fix v rest assume "index_entry_fits v"
  then show "dec_index_entry (enc_index_entry v @ rest) = Inr (v, rest)"
    by (cases v) (simp add: enc_index_entry_def dec_index_entry_def index_entry_fits_def codec_rt)
next
  fix bs v rest assume "dec_index_entry bs = Inr (v, rest)"
  then show "index_entry_fits v \<and> bs = enc_index_entry v @ rest"
    by (auto simp: enc_index_entry_def dec_index_entry_def index_entry_fits_def codec_only split: if_splits)
qed

record detailed_recovery = recovery_report +
  rp_recovered_epoch :: counter
  rp_detail :: string

definition enc_recovery :: "detailed_recovery \<Rightarrow> bytes" where
  "enc_recovery v =
     w_boolean (rp_snapshot_loaded v) @ w_boolean (rp_torn_tail_truncated v) @
     w_size (rp_truncated_bytes v) @ w_u64 (rp_snapshot_sequence v) @ w_size (rp_records_replayed v) @
     w_size (rp_records_skipped v) @ w_u64 (rp_last_sequence v) @ w_u64 (rp_recovered_epoch v) @
     w_text (rp_detail v)"

definition dec_recovery :: "detailed_recovery reader" where
  "dec_recovery =
     dbind r_boolean (\<lambda>snapshot_loaded.
     dbind r_boolean (\<lambda>torn_tail_truncated.
     dbind r_size (\<lambda>truncated_bytes.
     dbind r_u64 (\<lambda>snapshot_sequence.
     dbind r_size (\<lambda>records_replayed.
     dbind r_size (\<lambda>records_skipped.
     dbind r_u64 (\<lambda>last_sequence.
     dbind r_u64 (\<lambda>recovered_epoch.
     dbind (r_text 256) (\<lambda>detail.
     dret \<lparr>rp_snapshot_loaded = snapshot_loaded, rp_torn_tail_truncated = torn_tail_truncated,
       rp_truncated_bytes = truncated_bytes, rp_snapshot_sequence = snapshot_sequence,
       rp_records_replayed = records_replayed, rp_records_skipped = records_skipped,
       rp_last_sequence = last_sequence, rp_recovered_epoch = recovered_epoch, rp_detail = detail\<rparr>)))))))))"

definition recovery_fits :: "detailed_recovery \<Rightarrow> bool" where
  "recovery_fits v \<longleftrightarrow> size_fits (rp_truncated_bytes v) \<and> size_fits (rp_records_replayed v) \<and>
     size_fits (rp_records_skipped v) \<and> mw_reason_fits (rp_detail v)"

interpretation c_recovery: codec enc_recovery dec_recovery "recovery_fits"
proof unfold_locales
  fix v rest assume "recovery_fits v"
  then show "dec_recovery (enc_recovery v @ rest) = Inr (v, rest)"
    by (cases v) (simp add: enc_recovery_def dec_recovery_def recovery_fits_def codec_rt)
next
  fix bs v rest assume "dec_recovery bs = Inr (v, rest)"
  then show "recovery_fits v \<and> bs = enc_recovery v @ rest"
    by (auto simp: enc_recovery_def dec_recovery_def recovery_fits_def codec_only split: if_splits)
qed

subsection \<open>Responses\<close>

record commit_response =
  xc_outcome :: admission_outcome
  xc_message :: string
  xc_result :: commit_message

definition enc_commit_response :: "commit_response \<Rightarrow> bytes" where
  "enc_commit_response v =
     enc_admission_outcome (xc_outcome v) @ w_text (xc_message v) @ enc_commit (xc_result v)"

definition dec_commit_response :: "commit_response reader" where
  "dec_commit_response =
     dbind dec_admission_outcome (\<lambda>outcome.
     dbind (r_text kMaxTextBytes) (\<lambda>message.
     dbind dec_commit (\<lambda>result.
     dret \<lparr>xc_outcome = outcome, xc_message = message, xc_result = result\<rparr>)))"

definition commit_response_fits :: "commit_response \<Rightarrow> bool" where
  "commit_response_fits v \<longleftrightarrow> text_fits (xc_message v) \<and> commit_fits (xc_result v)"

interpretation c_commit_response: codec enc_commit_response dec_commit_response "commit_response_fits"
proof unfold_locales
  fix v rest assume "commit_response_fits v"
  then show "dec_commit_response (enc_commit_response v @ rest) = Inr (v, rest)"
    by (cases v) (simp add: enc_commit_response_def dec_commit_response_def commit_response_fits_def codec_rt)
next
  fix bs v rest assume "dec_commit_response bs = Inr (v, rest)"
  then show "commit_response_fits v \<and> bs = enc_commit_response v @ rest"
    by (auto simp: enc_commit_response_def dec_commit_response_def commit_response_fits_def codec_only split: if_splits)
qed

record amendment_response =
  xa_outcome :: admission_outcome
  xa_message :: string
  xa_result :: amendment_message

definition enc_amendment_response :: "amendment_response \<Rightarrow> bytes" where
  "enc_amendment_response v =
     enc_admission_outcome (xa_outcome v) @ w_text (xa_message v) @ enc_amendment (xa_result v)"

definition dec_amendment_response :: "amendment_response reader" where
  "dec_amendment_response =
     dbind dec_admission_outcome (\<lambda>outcome.
     dbind (r_text kMaxTextBytes) (\<lambda>message.
     dbind dec_amendment (\<lambda>result.
     dret \<lparr>xa_outcome = outcome, xa_message = message, xa_result = result\<rparr>)))"

definition amendment_response_fits :: "amendment_response \<Rightarrow> bool" where
  "amendment_response_fits v \<longleftrightarrow> text_fits (xa_message v) \<and> amendment_fits (xa_result v)"

interpretation c_amendment_response: codec enc_amendment_response dec_amendment_response "amendment_response_fits"
proof unfold_locales
  fix v rest assume "amendment_response_fits v"
  then show "dec_amendment_response (enc_amendment_response v @ rest) = Inr (v, rest)"
    by (cases v) (simp add: enc_amendment_response_def dec_amendment_response_def amendment_response_fits_def codec_rt)
next
  fix bs v rest assume "dec_amendment_response bs = Inr (v, rest)"
  then show "amendment_response_fits v \<and> bs = enc_amendment_response v @ rest"
    by (auto simp: enc_amendment_response_def dec_amendment_response_def amendment_response_fits_def codec_only split: if_splits)
qed

record lifecycle_response =
  xl_outcome :: admission_outcome
  xl_message :: string
  xl_result :: lifecycle_message

definition enc_lifecycle_response :: "lifecycle_response \<Rightarrow> bytes" where
  "enc_lifecycle_response v =
     enc_admission_outcome (xl_outcome v) @ w_text (xl_message v) @ enc_lifecycle (xl_result v)"

definition dec_lifecycle_response :: "lifecycle_response reader" where
  "dec_lifecycle_response =
     dbind dec_admission_outcome (\<lambda>outcome.
     dbind (r_text kMaxTextBytes) (\<lambda>message.
     dbind dec_lifecycle (\<lambda>result.
     dret \<lparr>xl_outcome = outcome, xl_message = message, xl_result = result\<rparr>)))"

definition lifecycle_response_fits :: "lifecycle_response \<Rightarrow> bool" where
  "lifecycle_response_fits v \<longleftrightarrow> text_fits (xl_message v) \<and> lifecycle_fits (xl_result v)"

interpretation c_lifecycle_response: codec enc_lifecycle_response dec_lifecycle_response "lifecycle_response_fits"
proof unfold_locales
  fix v rest assume "lifecycle_response_fits v"
  then show "dec_lifecycle_response (enc_lifecycle_response v @ rest) = Inr (v, rest)"
    by (cases v) (simp add: enc_lifecycle_response_def dec_lifecycle_response_def lifecycle_response_fits_def codec_rt)
next
  fix bs v rest assume "dec_lifecycle_response bs = Inr (v, rest)"
  then show "lifecycle_response_fits v \<and> bs = enc_lifecycle_response v @ rest"
    by (auto simp: enc_lifecycle_response_def dec_lifecycle_response_def lifecycle_response_fits_def codec_only split: if_splits)
qed

record reservation_response =
  xr_outcome :: admission_outcome
  xr_message :: string
  xr_found :: bool
  xr_record :: reservation_record

definition enc_reservation_response :: "reservation_response \<Rightarrow> bytes" where
  "enc_reservation_response v =
     enc_admission_outcome (xr_outcome v) @ w_text (xr_message v) @ w_boolean (xr_found v) @
     enc_record (xr_record v)"

definition dec_reservation_response :: "reservation_response reader" where
  "dec_reservation_response =
     dbind dec_admission_outcome (\<lambda>outcome.
     dbind (r_text kMaxTextBytes) (\<lambda>message.
     dbind r_boolean (\<lambda>found.
     dbind dec_record (\<lambda>record.
     dret \<lparr>xr_outcome = outcome, xr_message = message, xr_found = found, xr_record = record\<rparr>))))"

definition reservation_response_fits :: "reservation_response \<Rightarrow> bool" where
  "reservation_response_fits v \<longleftrightarrow> text_fits (xr_message v) \<and> record_fits (xr_record v)"

interpretation c_reservation_response: codec enc_reservation_response dec_reservation_response "reservation_response_fits"
proof unfold_locales
  fix v rest assume "reservation_response_fits v"
  then show "dec_reservation_response (enc_reservation_response v @ rest) = Inr (v, rest)"
    by (cases v) (simp add: enc_reservation_response_def dec_reservation_response_def reservation_response_fits_def codec_rt)
next
  fix bs v rest assume "dec_reservation_response bs = Inr (v, rest)"
  then show "reservation_response_fits v \<and> bs = enc_reservation_response v @ rest"
    by (auto simp: enc_reservation_response_def dec_reservation_response_def reservation_response_fits_def codec_only split: if_splits)
qed

record reservation_list_response =
  xq_outcome :: admission_outcome
  xq_message :: string
  xq_records :: "reservation_record list"
  xq_truncated :: bool

definition enc_reservation_list_response :: "reservation_list_response \<Rightarrow> bytes" where
  "enc_reservation_list_response v =
     enc_admission_outcome (xq_outcome v) @ w_text (xq_message v) @ w_list enc_record (xq_records v) @
     w_boolean (xq_truncated v)"

definition dec_reservation_list_response :: "reservation_list_response reader" where
  "dec_reservation_list_response =
     dbind dec_admission_outcome (\<lambda>outcome.
     dbind (r_text kMaxTextBytes) (\<lambda>message.
     dbind (decode_list dec_record) (\<lambda>records.
     dbind r_boolean (\<lambda>truncated.
     dret \<lparr>xq_outcome = outcome, xq_message = message, xq_records = records, xq_truncated = truncated\<rparr>))))"

definition reservation_list_response_fits :: "reservation_list_response \<Rightarrow> bool" where
  "reservation_list_response_fits v \<longleftrightarrow> text_fits (xq_message v) \<and> list_fits record_fits (xq_records v)"

interpretation c_reservation_list_response: codec enc_reservation_list_response dec_reservation_list_response "reservation_list_response_fits"
proof unfold_locales
  fix v rest assume "reservation_list_response_fits v"
  then show "dec_reservation_list_response (enc_reservation_list_response v @ rest) = Inr (v, rest)"
    by (cases v) (simp add: enc_reservation_list_response_def dec_reservation_list_response_def reservation_list_response_fits_def codec_rt)
next
  fix bs v rest assume "dec_reservation_list_response bs = Inr (v, rest)"
  then show "reservation_list_response_fits v \<and> bs = enc_reservation_list_response v @ rest"
    by (auto simp: enc_reservation_list_response_def dec_reservation_list_response_def reservation_list_response_fits_def codec_only split: if_splits)
qed

record remaining_response =
  xm_outcome :: admission_outcome
  xm_message :: string
  xm_resources :: "remaining_capacity list"

definition enc_remaining_response :: "remaining_response \<Rightarrow> bytes" where
  "enc_remaining_response v =
     enc_admission_outcome (xm_outcome v) @ w_text (xm_message v) @ w_list enc_remaining (xm_resources v)"

definition dec_remaining_response :: "remaining_response reader" where
  "dec_remaining_response =
     dbind dec_admission_outcome (\<lambda>outcome.
     dbind (r_text kMaxTextBytes) (\<lambda>message.
     dbind (decode_list dec_remaining) (\<lambda>resources.
     dret \<lparr>xm_outcome = outcome, xm_message = message, xm_resources = resources\<rparr>)))"

definition remaining_response_fits :: "remaining_response \<Rightarrow> bool" where
  "remaining_response_fits v \<longleftrightarrow> text_fits (xm_message v) \<and> list_fits remaining_fits (xm_resources v)"

interpretation c_remaining_response: codec enc_remaining_response dec_remaining_response "remaining_response_fits"
proof unfold_locales
  fix v rest assume "remaining_response_fits v"
  then show "dec_remaining_response (enc_remaining_response v @ rest) = Inr (v, rest)"
    by (cases v) (simp add: enc_remaining_response_def dec_remaining_response_def remaining_response_fits_def codec_rt)
next
  fix bs v rest assume "dec_remaining_response bs = Inr (v, rest)"
  then show "remaining_response_fits v \<and> bs = enc_remaining_response v @ rest"
    by (auto simp: enc_remaining_response_def dec_remaining_response_def remaining_response_fits_def codec_only split: if_splits)
qed

record report_response =
  xp_outcome :: admission_outcome
  xp_report :: explained_report

definition enc_report_response :: "report_response \<Rightarrow> bytes" where
  "enc_report_response v =
     enc_admission_outcome (xp_outcome v) @ enc_report (xp_report v)"

definition dec_report_response :: "report_response reader" where
  "dec_report_response =
     dbind dec_admission_outcome (\<lambda>outcome.
     dbind dec_report (\<lambda>report.
     dret \<lparr>xp_outcome = outcome, xp_report = report\<rparr>))"

definition report_response_fits :: "report_response \<Rightarrow> bool" where
  "report_response_fits v \<longleftrightarrow> report_fits (xp_report v)"

interpretation c_report_response: codec enc_report_response dec_report_response "report_response_fits"
proof unfold_locales
  fix v rest assume "report_response_fits v"
  then show "dec_report_response (enc_report_response v @ rest) = Inr (v, rest)"
    by (cases v) (simp add: enc_report_response_def dec_report_response_def report_response_fits_def codec_rt)
next
  fix bs v rest assume "dec_report_response bs = Inr (v, rest)"
  then show "report_response_fits v \<and> bs = enc_report_response v @ rest"
    by (auto simp: enc_report_response_def dec_report_response_def report_response_fits_def codec_only split: if_splits)
qed

record timeline_response =
  xt_outcome :: admission_outcome
  xt_timeline :: capacity_timeline

definition enc_timeline_response :: "timeline_response \<Rightarrow> bytes" where
  "enc_timeline_response v =
     enc_admission_outcome (xt_outcome v) @ enc_timeline (xt_timeline v)"

definition dec_timeline_response :: "timeline_response reader" where
  "dec_timeline_response =
     dbind dec_admission_outcome (\<lambda>outcome.
     dbind dec_timeline (\<lambda>timeline.
     dret \<lparr>xt_outcome = outcome, xt_timeline = timeline\<rparr>))"

definition timeline_response_fits :: "timeline_response \<Rightarrow> bool" where
  "timeline_response_fits v \<longleftrightarrow> timeline_fits (xt_timeline v)"

interpretation c_timeline_response: codec enc_timeline_response dec_timeline_response "timeline_response_fits"
proof unfold_locales
  fix v rest assume "timeline_response_fits v"
  then show "dec_timeline_response (enc_timeline_response v @ rest) = Inr (v, rest)"
    by (cases v) (simp add: enc_timeline_response_def dec_timeline_response_def timeline_response_fits_def codec_rt)
next
  fix bs v rest assume "dec_timeline_response bs = Inr (v, rest)"
  then show "timeline_response_fits v \<and> bs = enc_timeline_response v @ rest"
    by (auto simp: enc_timeline_response_def dec_timeline_response_def timeline_response_fits_def codec_only split: if_splits)
qed

record lineage_response =
  xg_outcome :: admission_outcome
  xg_lineage :: lineage_view

definition enc_lineage_response :: "lineage_response \<Rightarrow> bytes" where
  "enc_lineage_response v =
     enc_admission_outcome (xg_outcome v) @ enc_lineage (xg_lineage v)"

definition dec_lineage_response :: "lineage_response reader" where
  "dec_lineage_response =
     dbind dec_admission_outcome (\<lambda>outcome.
     dbind dec_lineage (\<lambda>lineage.
     dret \<lparr>xg_outcome = outcome, xg_lineage = lineage\<rparr>))"

definition lineage_response_fits :: "lineage_response \<Rightarrow> bool" where
  "lineage_response_fits v \<longleftrightarrow> lineage_fits (xg_lineage v)"

interpretation c_lineage_response: codec enc_lineage_response dec_lineage_response "lineage_response_fits"
proof unfold_locales
  fix v rest assume "lineage_response_fits v"
  then show "dec_lineage_response (enc_lineage_response v @ rest) = Inr (v, rest)"
    by (cases v) (simp add: enc_lineage_response_def dec_lineage_response_def lineage_response_fits_def codec_rt)
next
  fix bs v rest assume "dec_lineage_response bs = Inr (v, rest)"
  then show "lineage_response_fits v \<and> bs = enc_lineage_response v @ rest"
    by (auto simp: enc_lineage_response_def dec_lineage_response_def lineage_response_fits_def codec_only split: if_splits)
qed

record reconciliation_response =
  xn_outcome :: admission_outcome
  xn_reconciliation :: noted_reconciliation

definition enc_reconciliation_response :: "reconciliation_response \<Rightarrow> bytes" where
  "enc_reconciliation_response v =
     enc_admission_outcome (xn_outcome v) @ enc_reconciliation (xn_reconciliation v)"

definition dec_reconciliation_response :: "reconciliation_response reader" where
  "dec_reconciliation_response =
     dbind dec_admission_outcome (\<lambda>outcome.
     dbind dec_reconciliation (\<lambda>reconciliation.
     dret \<lparr>xn_outcome = outcome, xn_reconciliation = reconciliation\<rparr>))"

definition reconciliation_response_fits :: "reconciliation_response \<Rightarrow> bool" where
  "reconciliation_response_fits v \<longleftrightarrow> reconciliation_fits (xn_reconciliation v)"

interpretation c_reconciliation_response: codec enc_reconciliation_response dec_reconciliation_response "reconciliation_response_fits"
proof unfold_locales
  fix v rest assume "reconciliation_response_fits v"
  then show "dec_reconciliation_response (enc_reconciliation_response v @ rest) = Inr (v, rest)"
    by (cases v) (simp add: enc_reconciliation_response_def dec_reconciliation_response_def reconciliation_response_fits_def codec_rt)
next
  fix bs v rest assume "dec_reconciliation_response bs = Inr (v, rest)"
  then show "reconciliation_response_fits v \<and> bs = enc_reconciliation_response v @ rest"
    by (auto simp: enc_reconciliation_response_def dec_reconciliation_response_def reconciliation_response_fits_def codec_only split: if_splits)
qed

record overcommit_response =
  xo_outcome :: admission_outcome
  xo_report :: overcommit_message

definition enc_overcommit_response :: "overcommit_response \<Rightarrow> bytes" where
  "enc_overcommit_response v =
     enc_admission_outcome (xo_outcome v) @ enc_overcommit_report (xo_report v)"

definition dec_overcommit_response :: "overcommit_response reader" where
  "dec_overcommit_response =
     dbind dec_admission_outcome (\<lambda>outcome.
     dbind dec_overcommit_report (\<lambda>report.
     dret \<lparr>xo_outcome = outcome, xo_report = report\<rparr>))"

definition overcommit_response_fits :: "overcommit_response \<Rightarrow> bool" where
  "overcommit_response_fits v \<longleftrightarrow> overcommit_report_fits (xo_report v)"

interpretation c_overcommit_response: codec enc_overcommit_response dec_overcommit_response "overcommit_response_fits"
proof unfold_locales
  fix v rest assume "overcommit_response_fits v"
  then show "dec_overcommit_response (enc_overcommit_response v @ rest) = Inr (v, rest)"
    by (cases v) (simp add: enc_overcommit_response_def dec_overcommit_response_def overcommit_response_fits_def codec_rt)
next
  fix bs v rest assume "dec_overcommit_response bs = Inr (v, rest)"
  then show "overcommit_response_fits v \<and> bs = enc_overcommit_response v @ rest"
    by (auto simp: enc_overcommit_response_def dec_overcommit_response_def overcommit_response_fits_def codec_only split: if_splits)
qed

record stats_response =
  xz_outcome :: admission_outcome
  xz_stats :: stats_view
  xz_recovery :: detailed_recovery

definition enc_stats_response :: "stats_response \<Rightarrow> bytes" where
  "enc_stats_response v =
     enc_admission_outcome (xz_outcome v) @ enc_stats (xz_stats v) @ enc_recovery (xz_recovery v)"

definition dec_stats_response :: "stats_response reader" where
  "dec_stats_response =
     dbind dec_admission_outcome (\<lambda>outcome.
     dbind dec_stats (\<lambda>stats.
     dbind dec_recovery (\<lambda>recovery.
     dret \<lparr>xz_outcome = outcome, xz_stats = stats, xz_recovery = recovery\<rparr>)))"

definition stats_response_fits :: "stats_response \<Rightarrow> bool" where
  "stats_response_fits v \<longleftrightarrow> stats_fits (xz_stats v) \<and> recovery_fits (xz_recovery v)"

interpretation c_stats_response: codec enc_stats_response dec_stats_response "stats_response_fits"
proof unfold_locales
  fix v rest assume "stats_response_fits v"
  then show "dec_stats_response (enc_stats_response v @ rest) = Inr (v, rest)"
    by (cases v) (simp add: enc_stats_response_def dec_stats_response_def stats_response_fits_def codec_rt)
next
  fix bs v rest assume "dec_stats_response bs = Inr (v, rest)"
  then show "stats_response_fits v \<and> bs = enc_stats_response v @ rest"
    by (auto simp: enc_stats_response_def dec_stats_response_def stats_response_fits_def codec_only split: if_splits)
qed

record hold_response =
  xh_outcome :: admission_outcome
  xh_message :: string
  xh_hold :: hold_record

definition enc_hold_response :: "hold_response \<Rightarrow> bytes" where
  "enc_hold_response v =
     enc_admission_outcome (xh_outcome v) @ w_text (xh_message v) @ enc_hold (xh_hold v)"

definition dec_hold_response :: "hold_response reader" where
  "dec_hold_response =
     dbind dec_admission_outcome (\<lambda>outcome.
     dbind (r_text kMaxTextBytes) (\<lambda>message.
     dbind dec_hold (\<lambda>hold.
     dret \<lparr>xh_outcome = outcome, xh_message = message, xh_hold = hold\<rparr>)))"

definition hold_response_fits :: "hold_response \<Rightarrow> bool" where
  "hold_response_fits v \<longleftrightarrow> text_fits (xh_message v) \<and> hold_fits (xh_hold v)"

interpretation c_hold_response: codec enc_hold_response dec_hold_response "hold_response_fits"
proof unfold_locales
  fix v rest assume "hold_response_fits v"
  then show "dec_hold_response (enc_hold_response v @ rest) = Inr (v, rest)"
    by (cases v) (simp add: enc_hold_response_def dec_hold_response_def hold_response_fits_def codec_rt)
next
  fix bs v rest assume "dec_hold_response bs = Inr (v, rest)"
  then show "hold_response_fits v \<and> bs = enc_hold_response v @ rest"
    by (auto simp: enc_hold_response_def dec_hold_response_def hold_response_fits_def codec_only split: if_splits)
qed

subsection \<open>Responses as they travel\<close>

datatype wire_response =
    WrHello hello_response
  | WrStatus status_response
  | WrCommit commit_response
  | WrAmendment amendment_response
  | WrLifecycle lifecycle_response
  | WrReservation reservation_response
  | WrReservationList reservation_list_response
  | WrRemaining remaining_response
  | WrReport report_response
  | WrTimeline timeline_response
  | WrLineage lineage_response
  | WrReconciliation reconciliation_response
  | WrOvercommit overcommit_response
  | WrStats stats_response
  | WrHold hold_response
  | WrError error_response

text \<open>The type of the struct a response is, which a client has to know to decode it.\<close>

datatype response_shape =
    ShHello | ShStatus | ShCommit | ShAmendment | ShLifecycle | ShReservation | ShReservationList | ShRemaining
  | ShReport | ShTimeline | ShLineage | ShReconciliation | ShOvercommit | ShStats | ShHold | ShError

fun shape_of :: "wire_response \<Rightarrow> response_shape" where
  "shape_of (WrHello v) = ShHello"
| "shape_of (WrStatus v) = ShStatus"
| "shape_of (WrCommit v) = ShCommit"
| "shape_of (WrAmendment v) = ShAmendment"
| "shape_of (WrLifecycle v) = ShLifecycle"
| "shape_of (WrReservation v) = ShReservation"
| "shape_of (WrReservationList v) = ShReservationList"
| "shape_of (WrRemaining v) = ShRemaining"
| "shape_of (WrReport v) = ShReport"
| "shape_of (WrTimeline v) = ShTimeline"
| "shape_of (WrLineage v) = ShLineage"
| "shape_of (WrReconciliation v) = ShReconciliation"
| "shape_of (WrOvercommit v) = ShOvercommit"
| "shape_of (WrStats v) = ShStats"
| "shape_of (WrHold v) = ShHold"
| "shape_of (WrError v) = ShError"

fun enc_response :: "wire_response \<Rightarrow> bytes" where
  "enc_response (WrHello v) = enc_hello_response v"
| "enc_response (WrStatus v) = enc_status_response v"
| "enc_response (WrCommit v) = enc_commit_response v"
| "enc_response (WrAmendment v) = enc_amendment_response v"
| "enc_response (WrLifecycle v) = enc_lifecycle_response v"
| "enc_response (WrReservation v) = enc_reservation_response v"
| "enc_response (WrReservationList v) = enc_reservation_list_response v"
| "enc_response (WrRemaining v) = enc_remaining_response v"
| "enc_response (WrReport v) = enc_report_response v"
| "enc_response (WrTimeline v) = enc_timeline_response v"
| "enc_response (WrLineage v) = enc_lineage_response v"
| "enc_response (WrReconciliation v) = enc_reconciliation_response v"
| "enc_response (WrOvercommit v) = enc_overcommit_response v"
| "enc_response (WrStats v) = enc_stats_response v"
| "enc_response (WrHold v) = enc_hold_response v"
| "enc_response (WrError v) = enc_error_response v"

fun dec_response :: "response_shape \<Rightarrow> wire_response reader" where
  "dec_response ShHello = dec_as WrHello dec_hello_response"
| "dec_response ShStatus = dec_as WrStatus dec_status_response"
| "dec_response ShCommit = dec_as WrCommit dec_commit_response"
| "dec_response ShAmendment = dec_as WrAmendment dec_amendment_response"
| "dec_response ShLifecycle = dec_as WrLifecycle dec_lifecycle_response"
| "dec_response ShReservation = dec_as WrReservation dec_reservation_response"
| "dec_response ShReservationList = dec_as WrReservationList dec_reservation_list_response"
| "dec_response ShRemaining = dec_as WrRemaining dec_remaining_response"
| "dec_response ShReport = dec_as WrReport dec_report_response"
| "dec_response ShTimeline = dec_as WrTimeline dec_timeline_response"
| "dec_response ShLineage = dec_as WrLineage dec_lineage_response"
| "dec_response ShReconciliation = dec_as WrReconciliation dec_reconciliation_response"
| "dec_response ShOvercommit = dec_as WrOvercommit dec_overcommit_response"
| "dec_response ShStats = dec_as WrStats dec_stats_response"
| "dec_response ShHold = dec_as WrHold dec_hold_response"
| "dec_response ShError = dec_as WrError dec_error_response"

fun response_fits :: "wire_response \<Rightarrow> bool" where
  "response_fits (WrHello v) \<longleftrightarrow> True"
| "response_fits (WrStatus v) \<longleftrightarrow> status_response_fits v"
| "response_fits (WrCommit v) \<longleftrightarrow> commit_response_fits v"
| "response_fits (WrAmendment v) \<longleftrightarrow> amendment_response_fits v"
| "response_fits (WrLifecycle v) \<longleftrightarrow> lifecycle_response_fits v"
| "response_fits (WrReservation v) \<longleftrightarrow> reservation_response_fits v"
| "response_fits (WrReservationList v) \<longleftrightarrow> reservation_list_response_fits v"
| "response_fits (WrRemaining v) \<longleftrightarrow> remaining_response_fits v"
| "response_fits (WrReport v) \<longleftrightarrow> report_response_fits v"
| "response_fits (WrTimeline v) \<longleftrightarrow> timeline_response_fits v"
| "response_fits (WrLineage v) \<longleftrightarrow> lineage_response_fits v"
| "response_fits (WrReconciliation v) \<longleftrightarrow> reconciliation_response_fits v"
| "response_fits (WrOvercommit v) \<longleftrightarrow> overcommit_response_fits v"
| "response_fits (WrStats v) \<longleftrightarrow> stats_response_fits v"
| "response_fits (WrHold v) \<longleftrightarrow> hold_response_fits v"
| "response_fits (WrError v) \<longleftrightarrow> error_response_fits v"

lemmas dec_as_responses =
  dec_as_Inr [OF c_hello_response.codec_axioms]
  dec_as_Inr [OF c_status_response.codec_axioms]
  dec_as_Inr [OF c_commit_response.codec_axioms]
  dec_as_Inr [OF c_amendment_response.codec_axioms]
  dec_as_Inr [OF c_lifecycle_response.codec_axioms]
  dec_as_Inr [OF c_reservation_response.codec_axioms]
  dec_as_Inr [OF c_reservation_list_response.codec_axioms]
  dec_as_Inr [OF c_remaining_response.codec_axioms]
  dec_as_Inr [OF c_report_response.codec_axioms]
  dec_as_Inr [OF c_timeline_response.codec_axioms]
  dec_as_Inr [OF c_lineage_response.codec_axioms]
  dec_as_Inr [OF c_reconciliation_response.codec_axioms]
  dec_as_Inr [OF c_overcommit_response.codec_axioms]
  dec_as_Inr [OF c_stats_response.codec_axioms]
  dec_as_Inr [OF c_hold_response.codec_axioms]
  dec_as_Inr [OF c_error_response.codec_axioms]

lemma dec_response_Inr:
  "dec_response k bs = Inr (r, rest) \<longleftrightarrow> k = shape_of r \<and> response_fits r \<and> bs = enc_response r @ rest"
  by (cases k; cases r) (simp_all add: dec_as_responses)

text \<open>C19: Responses are canonical too: the bytes a client decodes as a response of some type are exactly the encoding of a
  response of that type whose fields are in range, and the bytes behind it are left alone; a preemption plan whose two
  arrays differ in length, a text, a collection or an enumeration out of its bound is refused.
\<close>

theorem responses_canonical:
  "dec_response k payload = Inr (r, extra) \<longleftrightarrow>
     k = shape_of r \<and> response_fits r \<and> payload = enc_response r @ extra"
  by (rule dec_response_Inr)

end
