(* ===== verification/Brf_Requests.thy ===== *)
theory Brf_Requests
  imports Brf_Closure
begin

text \<open>
  The requests that only touch the core of the coordinator through time reconciliation: ingestion of capacity,
  paths and policies, claimant registration, fences, holds, shutdown and the queries. Each is shown to move the
  state along \<open>life\<close>.
\<close>

subsection \<open>Ingestion, fences and holds\<close>

lemma core_fields [core_simps]:
  "core (s\<lparr>co_ledger := l\<rparr>) = core s" "core (s\<lparr>co_paths := p\<rparr>) = core s" "core (s\<lparr>co_policies := q\<rparr>) = core s"
  "core (note_capacity v s) = core s" "core (enter_fence f s) = core s" "core (s\<lparr>co_stopping := b\<rparr>) = core s"
  "core (s\<lparr>co_last_path_snapshot := i, co_last_path_generation := g\<rparr>) = core s"
  by (simp_all add: core_def note_capacity_def enter_fence_def Let_def)

lemma core_fences [core_simps]:
  "core (fence_holds_for_boot_locked i reason s) = core s" "core (fence_holds_for_session_locked i reason s) = core s"
  "core (fence_holds_on names s) = core s" "core (fence_holds f s) = core s"
  by (simp_all add: fence_holds_for_boot_locked_def fence_holds_for_session_locked_def fence_holds_on_def fence_holds_def Let_def core_simps)

lemma quiet_tables:
  "quiet (on_ledger lo)" "quiet (on_paths po)" "quiet (on_policies qo)" "quiet (modify (note_capacity v))"
  "quiet (modify (\<lambda>s. bump u (note_capacity v s)))" "quiet (modify (fence_holds_on names))"
  "quiet (modify (fence_holds_for_session_locked i reason))" "quiet (modify (\<lambda>s. fence_holds f (enter_fence f s)))"
  "quiet (modify (release_holds victim reason fenced))"
  "quiet (modify (\<lambda>s. s\<lparr>co_last_path_snapshot := i, co_last_path_generation := g\<rparr>))"
  by (simp_all add: quiet_def on_ledger_def on_paths_def on_policies_def modify_def core_simps split: prod.splits)

lemma quiet_simple: "quiet (ret x)" "quiet (fail e)" "quiet (gets g)" "quiet (lift y)" "quiet (guard_op c e)" "quiet (\<lambda>s. (f s, s))"
  by (auto simp: quiet_def op_defs)

lemma quiet_if: "quiet a \<Longrightarrow> quiet b \<Longrightarrow> quiet (if c then a else b)"
  by simp

lemma quiet_apply_capacities: "quiet (apply_capacities snapshot now cs applied)"
proof (induction cs arbitrary: applied)
  case (Cons c cs)
  have "quiet (andThen (on_ledger (ledger_apply snapshot now c)) (\<lambda>changed.
           if changed then andThen (if b then modify (bump cst_generation_advances_update) else ret ())
                  (\<lambda>_. apply_capacities snapshot now cs (applied @ [c]))
           else apply_capacities snapshot now cs applied))" for b
    by (intro quiet_andThen quiet_if quiet_tables quiet_requests quiet_simple Cons)
  then show ?case by (simp add: quiet_def Let_def)
qed (simp add: quiet_def)

lemma quiet_apply_withdrawals: "quiet (apply_withdrawals now ns withdrawn)"
proof (induction ns arbitrary: withdrawn)
  case (Cons n ns)
  have step: "core (snd (on_ledger (ledger_withdraw n now) s)) = core s" for s
    by (rule quiet_core [OF quiet_tables(1)])
  have "core (snd (apply_withdrawals now (n # ns) withdrawn s)) = core s" for s
    using Cons step [of s] by (cases "on_ledger (ledger_withdraw n now) s") (auto simp: quiet_def split: sum.splits)
  then show ?case by (simp add: quiet_def)
qed (simp add: quiet_def)

lemma quiet_apply_paths: "quiet (apply_paths snapshot now ps changed)"
proof (induction ps arbitrary: changed)
  case (Cons p ps)
  have "quiet (andThen (on_paths (path_apply snapshot now p)) (\<lambda>applied.
       apply_paths snapshot now ps (if applied then changed @ [pa_path p] else changed)))"
    by (intro quiet_andThen quiet_tables Cons)
  then show ?case by (simp add: quiet_def)
qed (simp add: quiet_def)

lemmas life_quiets [THEN life_quiet] = quiet_tables quiet_apply_capacities quiet_apply_withdrawals quiet_apply_paths quiet_simple(6)

lemma publish_capacity_life: "ends_in life (publish_capacity v applied withdrawn now)"
  unfolding publish_capacity_def
  by (intro life.ends_andThen life_rules life_quiets life.ends_each detect_overcommit_life)

lemma life_branch: "ends_in life a \<Longrightarrow> ends_in life b \<Longrightarrow> ends_in life (if c then a else b)"
  by simp

lemma ends_in_state: "(\<And>s0. ends_in R (f s0)) \<Longrightarrow> ends_in R (\<lambda>s. f s s)"
  by (simp add: ends_in_def)

lemma ingest_new_capacity_life: "ends_in life (ingest_new_capacity v withdrawals now)"
  unfolding ingest_new_capacity_def
  by (intro life.ends_andThen life_branch life_rules life_quiets publish_capacity_life)

lemma ingest_capacity_life: "ends_in life (ingest_capacity_locked v withdrawals cx)"
proof -
  have "ends_in life (\<lambda>s. if cs_generation v \<le> co_last_capacity_generation s \<and> \<not> is_nil (co_last_capacity_snapshot s)
       then if cs_id v = co_last_capacity_snapshot s then (Inr (), s) else (Inl EStaleGeneration, s)
       else ingest_new_capacity v withdrawals now s)" for now
    using ends_inD [OF ingest_new_capacity_life] by (auto simp: ends_in_def life_refl)
  then show ?thesis
    unfolding ingest_capacity_locked_def by (intro life.ends_andThen life_rules life_quiets)
qed

lemma ingest_paths_life: "ends_in life (ingest_paths_locked v cx)"
  unfolding ingest_paths_locked_def publish_paths_def
  by (intro life.ends_andThen life_branch life_rules life_quiets)

lemma mark_policy_change_life: "ends_in life (mark_policy_change now k)"
  by (rule ends_inI) (auto simp: mark_policy_change_def life_refl split: option.splits intro: mark_life_at)

lemma publish_policy_life: "ends_in life (publish_policy p material now)"
proof -
  have "ends_in life (\<lambda>s. if material
       then each (mark_policy_change now) (map fst (filter (\<lambda>(_, r). bound_to_old_policy p r) (co_records s))) s
       else (Inr (), s))"
    using ends_inD [OF life.ends_each [OF mark_policy_change_life]] by (auto simp: ends_in_def life_refl)
  then show ?thesis unfolding publish_policy_def by (intro life.ends_andThen life_rules)
qed

lemma ingest_policy_life: "ends_in life (ingest_policy_locked p cx)"
  unfolding ingest_policy_locked_def
  by (intro life.ends_andThen life_branch life_rules life_quiets publish_policy_life)

lemma register_claimant_life: "ends_in life (register_claimant_locked claimant gen cx)"
  unfolding register_claimant_locked_def by (intro life.ends_andThen life_rules)

lemma fence_life: "ends_in life (fence_locked cx claimant gen boot session wide)"
  unfolding fence_locked_def Let_def by (intro life.ends_andThen life_rules life_quiets)

lemma quiet_index_hold: "quiet (index_hold h refs)"
proof (induction refs)
  case (Cons ref refs)
  have step: "core (snd (on_index m s)) = core s" for m s by (rule core_on_index)
  have "core (snd (index_hold h (ref # refs) s)) = core s" for s
    using Cons step [of "ci_insert (hold_entry h ref)" s]
    by (cases "on_index (ci_insert (hold_entry h ref)) s") (auto simp: quiet_def step split: sum.splits)
  then show ?case by (simp add: quiet_def)
qed (simp add: quiet_def)

lemma quiet_put_hold: "quiet (modify (\<lambda>s. s\<lparr>co_holds := f s\<rparr>) :: unit coord_op)"
  by (simp add: quiet_def modify_def core_def)

lemma quiet_grant_hold: "quiet (grant_hold cx t expires_at now)"
proof -
  have "quiet (andThen (index_hold h refs) (\<lambda>_. andThen (modify (\<lambda>s. s\<lparr>co_holds := om_put (hd_id h) h (co_holds s)\<rparr>)) (\<lambda>_. ret h)))" for h refs
    by (intro quiet_andThen quiet_index_hold quiet_put_hold quiet_simple)
  then show ?thesis by (auto simp: quiet_def grant_hold_def Let_def split: sum.splits)
qed

lemma acquire_hold_life: "ends_in life (acquire_hold cx t expires_at)"
  unfolding acquire_hold_def by (intro life.ends_andThen life_rules life_quiet [OF quiet_grant_hold])

lemma release_hold_life: "ends_in life (release_hold cx i gen)"
proof -
  have "quiet (andThen (release_hold_locked i reason fenced) (\<lambda>_. gets g))" "quiet (andThen (ret ()) (\<lambda>_. gets g))"
    for reason fenced and g :: "coordinator \<Rightarrow> hold_record option"
    by (intro quiet_andThen quiet_ops quiet_simple)+
  then have "quiet (\<lambda>s. case om_find (co_holds s) i of
         None \<Rightarrow> (Inl ENotFound, s)
       | Some h \<Rightarrow>
           if hd_generation h \<noteq> gen then (Inl EGenerationMismatch, s)
           else if hd_boot h \<noteq> cx_publisher_boot cx \<and> \<not> is_nil (cx_publisher_boot cx) then (Inl EAuthorityRequired, s)
           else andThen (if hd_released h then ret () else release_hold_locked i (cx_reason cx) False)
                  (\<lambda>_. gets (\<lambda>s. om_find (co_holds s) i)) s)"
    by (auto simp: quiet_def split: option.splits)
  then show ?thesis unfolding release_hold_def by (intro life.ends_andThen life_rules life_quiet)
qed

lemma release_session_life: "ends_in life (release_session cx)"
  unfolding release_session_def by (intro life.ends_andThen life_rules life_quiets)

lemma begin_shutdown_life: "life s (begin_shutdown s)"
  by (rule life_core) (simp add: begin_shutdown_def core_simps)

subsection \<open>Queries\<close>

lemma reconciled_life: "(\<And>now. ends_in life (f now)) \<Longrightarrow> ends_in life (reconciled f)"
  unfolding reconciled_def by (intro life.ends_andThen life_rules)

lemma get_reservation_life: "ends_in life (get_reservation i gen)"
  unfolding get_reservation_def
  by (intro reconciled_life) (auto simp: ends_in_def life_refl split: option.splits if_splits)

lemma query_claimant_life: "ends_in life (query_claimant c all)"
  unfolding query_claimant_def by (intro reconciled_life life_rules)

lemma query_resource_life: "ends_in life (query_resource n w all)"
  unfolding query_resource_def by (intro reconciled_life life_rules)

lemma query_remaining_life: "ends_in life (query_remaining n w)"
proof -
  have "ends_in life (\<lambda>s. case ledger_find (co_ledger s) n of None \<Rightarrow> (Inl ENotFound, s) | Some e \<Rightarrow> (Inr [remaining_of s n w e], s))"
    by (auto simp: ends_in_def life_refl split: option.splits)
  then show ?thesis unfolding query_remaining_def by (intro reconciled_life life.ends_andThen life_rules)
qed

lemma query_timeline_life: "ends_in life (query_timeline n w points)"
  unfolding query_timeline_def by (intro reconciled_life life.ends_andThen life_rules)

text \<open>Scopes: the suspended entries are outside of the core.\<close>

lemma core_suspending [core_simps]:
  "core (fst (snd (suspending (suspend r) st))) = core (fst st)" "core (fst (snd (suspending (suspend_hold i) st))) = core (fst st)"
  using core_suspend(1) [of r "snd st" "fst st"] core_suspend(2) [of i "snd st" "fst st"]
  by (auto simp: suspending_def split: prod.splits)

lemma scoped_core:
  assumes "\<And>st. core (fst (snd (m st))) = core (fst st)"
  shows "quiet (scoped m)"
  unfolding quiet_def
proof
  fix s
  obtain r a b where m: "m (s, []) = (r, a, b)" by (cases "m (s, [])") auto
  with assms [of "(s, [])"] have "core a = core s" by simp
  with m show "core (snd (scoped m s)) = core s" by (auto simp: scoped_def core_simps split: sum.splits)
qed

lemma explain_conflicts_life: "ends_in life (explain_conflicts t candidate)"
proof -
  have "quiet (\<lambda>s. let policy = policy_for_locked s (tm_policy t)
       in case resolve_binding_locked s t of
            Inl e \<Rightarrow> (Inl e, s)
          | Inr b \<Rightarrow>
              andThen (scoped (andThen
                (case (if is_nil candidate then None else current_record_locked s candidate) of
                   None \<Rightarrow> ret ()
                 | Some r \<Rightarrow> suspending (suspend r))
                (\<lambda>_. gets (\<lambda>st. (to_report (assess_locked (fst st) t b policy (unat (pl_max_conflict_set policy))), False)))))
                (\<lambda>(report, _). ret report) s)"
  proof -
    have "quiet (andThen (scoped (andThen (case x of None \<Rightarrow> ret () | Some r \<Rightarrow> suspending (suspend r)) (\<lambda>_. gets g)))
        (\<lambda>(report, _). ret report))" for x :: "reservation_record option" and g :: "coordinator \<times> index_entry list \<Rightarrow> admission_report \<times> bool"
    proof (rule quiet_andThen)
      show "quiet (scoped (andThen (case x of None \<Rightarrow> ret () | Some r \<Rightarrow> suspending (suspend r)) (\<lambda>_. gets g)))"
      proof (rule scoped_core)
        fix st show "core (fst (snd (andThen (case x of None \<Rightarrow> ret () | Some r \<Rightarrow> suspending (suspend r)) (\<lambda>_. gets g) st))) = core (fst st)"
          using core_suspending(1) [of _ st] by (auto simp: andThen_def ret_def gets_def split: option.splits prod.splits sum.splits) (metis fst_conv snd_conv)+
      qed
      show "quiet (case p of (report, _) \<Rightarrow> ret report)" for p :: "admission_report \<times> bool"
        by (cases p) (simp add: quiet_simple)
    qed
    note q = quiet_core [OF this]
    show ?thesis unfolding quiet_def Let_def
      by (rule allI, rename_tac s, case_tac "resolve_binding_locked s t") (simp_all only: sum.case snd_conv q)
  qed
  then show ?thesis unfolding explain_conflicts_def by (intro life.ends_andThen life_rules life_quiet)
qed

end
