(* ===== verification/Brf_Commit_Life.thy ===== *)
theory Brf_Commit_Life
  imports Brf_Requests
begin

text \<open>
  Commits. The locale \<open>commit_relation\<close> carries the memory side of a commit for any preorder that
  contains \<open>life\<close> and the companion transitions it allows; it is interpreted for \<open>sound\<close>, which keeps the
  invariant and allows preemption, and for \<open>life\<close> itself, which does not.
\<close>

subsection \<open>Registering new reservations\<close>

definition unregistered :: "coordinator \<Rightarrow> identity \<Rightarrow> bool" where
  "unregistered s i \<longleftrightarrow> om_find (co_current_generation s) i = None"

lemma life_register:
  assumes new: "unregistered s (rv_id r)" and born: "born r"
  shows "life s (sync_queues_locked r (register_record_locked r s))" (is "life s ?s'")
proof -
  let ?i = "rv_id r"
  have reg: "registered ?s' j h \<longleftrightarrow> registered s j h \<or> (j = ?i \<and> h = rv_generation r)" for j h
    using registered_register [of r s j h] by (simp add: registered_def)
  have find: "om_find (co_records ?s') k = (if k = record_key r then Some r else om_find (co_records s) k)" for k
    by simp
  {
    assume ok: "coord_ok s"
    then have gen: "generations_ok s" by (simp add: coord_ok_def)
    have hist: "om_find (co_generations s) ?i = None"
      using generations_okD(1) [OF gen, of ?i] new by (cases "om_find (co_generations s) ?i") (auto simp: unregistered_def)
    then have fresh: "\<not> registered s ?i h" for h by (simp add: registered_def)
    then have none: "om_find (co_records s) (?i, h) = None" for h
      using coord_ok_registered [OF ok, of ?i h] by (cases "om_find (co_records s) (?i, h)") auto
    have "coord_ok ?s'"
      using ok hist none by (intro coord_ok_register) (simp_all add: history_of_def)
    moreover have "record_moved v (om_find (co_records ?s') (j, h))" if "om_find (co_records s) (j, h) = Some v" for j h v
      using that none unfolding find by (auto simp: record_moved_def record_key_def)
    moreover have "om_find (co_records ?s') (j, h) = None" if "registered s j h" "om_find (co_records s) (j, h) = None" for j h
      using that fresh unfolding find by (auto simp: record_key_def)
    moreover have "born v" if "\<not> registered s j h" "om_find (co_records ?s') (j, h) = Some v" for j h v
      using that born coord_ok_registered [OF ok, of j h] unfolding find by (auto split: if_splits)
    ultimately have "coord_ok ?s' \<and>
      (\<forall>j h v. om_find (co_records s) (j, h) = Some v \<longrightarrow> record_moved v (om_find (co_records ?s') (j, h))) \<and>
      (\<forall>j h. registered s j h \<longrightarrow> om_find (co_records s) (j, h) = None \<longrightarrow> om_find (co_records ?s') (j, h) = None) \<and>
      (\<forall>j h v. \<not> registered s j h \<longrightarrow> om_find (co_records ?s') (j, h) = Some v \<longrightarrow> born v)" by blast
  }
  then show ?thesis unfolding life_def using reg by blast
qed

lemma enter_record_core:
  assumes "enter_record r s = (Inr x, s')"
  shows "core s' = core (sync_queues_locked r (register_record_locked r s))"
proof -
  from assms obtain y s2 where sync: "sync_index_locked r (register_record_locked r s) = (Inr y, s2)" and s': "s' = sync_queues_locked r s2"
    by (auto simp: enter_record_def andThen_Inr modify_def)
  show ?thesis unfolding s' by (rule core_sync_queues_cong [OF quiet_Inr [OF quiet_ops(2) sync]])
qed

lemma enter_record_life:
  assumes "enter_record r s = (Inr x, s')" and "unregistered s (rv_id r)" and "born r"
  shows "life s s'"
  using life_trans [OF life_register [OF assms(2,3)] life_core [OF enter_record_core [OF assms(1), symmetric]]] .

lemma enter_record_unregistered:
  assumes "enter_record r s = (Inr x, s')" and "unregistered s j" and "j \<noteq> rv_id r"
  shows "unregistered s' j"
proof -
  have "co_current_generation s' = co_current_generation (register_record_locked r s)"
    using enter_record_core [OF assms(1)] by (simp add: core_def sync_queues_locked_def Let_def split: if_splits)
  then show ?thesis using assms(2,3) by (simp add: unregistered_def register_record_current)
qed

lemma enter_records_life:
  "each enter_record ms s = (Inr x, s') \<Longrightarrow> distinct (map rv_id ms) \<Longrightarrow>
   \<forall>m \<in> set ms. unregistered s (rv_id m) \<and> born m \<Longrightarrow> life s s'"
proof (induction ms arbitrary: s)
  case (Cons m ms)
  then obtain y s1 where first: "enter_record m s = (Inr y, s1)" and rest: "each enter_record ms s1 = (Inr x, s')"
    by (auto simp: andThen_Inr)
  have "rv_id m' \<noteq> rv_id m" if "m' \<in> set ms" for m'
    using that Cons.prems(2) by (metis distinct.simps(2) image_eqI list.set_map list.simps(9))
  then have "\<forall>m' \<in> set ms. unregistered s1 (rv_id m') \<and> born m'"
    using Cons.prems(3) enter_record_unregistered [OF first] by simp
  with Cons.IH [OF rest] Cons.prems(2) have "life s1 s'" by simp
  moreover have "life s s1" using enter_record_life [OF first] Cons.prems(3) by simp
  ultimately show ?case by (blast intro: life_trans)
qed (simp add: life_refl)

subsection \<open>The invariant alone\<close>

definition sound :: "coordinator \<Rightarrow> coordinator \<Rightarrow> bool" where
  "sound s s' \<longleftrightarrow> grows s s' \<and> (coord_ok s \<and> generations_left s' \<longrightarrow> coord_ok s')"

interpretation sound: step_preorder sound
proof
  fix s s' s''
  show "sound s s" by (simp add: sound_def grows.R_refl)
  assume "sound s s'" "sound s' s''"
  then show "sound s s''" using grows_left grows.R_trans unfolding sound_def by blast
qed

lemma life_sound: "life s s' \<Longrightarrow> sound s s'"
  using life_grows lifeD(2) unfolding sound_def by blast

lemma sound_of_life: "ends_in life m \<Longrightarrow> ends_in sound m"
  unfolding ends_in_def using life_sound by blast

lemma sound_restate:
  assumes "om_find (co_records s) (record_key r') = Some r" and "is_terminal (rv_state r')"
    and "core s' = core (sync_queues_locked r' (put_record r' (count_move (rv_state r) (rv_state r') s)))"
  shows "sound s s'"
proof -
  let ?s = "sync_queues_locked r' (put_record r' (count_move (rv_state r) (rv_state r') s))"
  have "co_generations s' = co_generations s"
    using assms(3) by (simp add: core_def)
  then have "grows s s'" by (rule grows_core)
  moreover have "coord_ok s'" if "coord_ok s"
    using coord_ok_restate [OF that assms(1)] assms(2) coord_ok_core [OF assms(3)] by simp
  ultimately show ?thesis by (simp add: sound_def)
qed

subsection \<open>Commits\<close>

definition still :: "'a scope_op \<Rightarrow> bool" where
  "still m \<longleftrightarrow> (\<forall>st. core (fst (snd (m st))) = core (fst st))"

lemma stillD: "still m \<Longrightarrow> m st = (x, st') \<Longrightarrow> core (fst st') = core (fst st)"
  unfolding still_def by (metis snd_conv)

lemma still_andThen: "still m \<Longrightarrow> (\<And>x. still (f x)) \<Longrightarrow> still (andThen m f)"
  by (auto simp: still_def andThen_def split: prod.splits sum.splits) (metis fst_conv snd_conv)+

lemma still_suspending: "still (suspending (suspend r))" "still (suspending (suspend_hold i))"
  by (simp_all add: still_def core_simps)

lemma still_each: "(\<And>x. still (f x)) \<Longrightarrow> still (each f xs)"
proof (induction xs)
  case Nil
  then show ?case by (simp add: still_def)
next
  case (Cons x xs)
  then have "still (andThen (f x) (\<lambda>_. each f xs))" by (intro still_andThen) auto
  then show ?case by (simp add: still_def)
qed

lemma still_suspend_named_hold: "still (suspend_named_hold cx i)"
  by (auto simp: still_def suspend_named_hold_def core_simps split: option.splits)

lemma preempt_candidates_core: "core (fst (snd (preempt_candidates t b policy ws cs victims st))) = core (fst st)"
proof (induction cs arbitrary: victims st)
  case (Cons c cs)
  show ?case
  proof (cases "find_record_locked (fst st) (ie_id c) (ie_holder_generation c)")
    case (Some r)
    obtain x st1 where s: "suspending (suspend r) st = (x, st1)" by (cases "suspending (suspend r) st")
    have "core (fst st1) = core (fst st)" by (rule stillD [OF still_suspending(1) s])
    with Cons Some s show ?thesis by (auto split: sum.splits)
  qed (use Cons in auto)
qed simp

lemma preempt_resources_core: "core (fst (snd (preempt_resources t b policy ws w self refs victims st))) = core (fst st)"
proof (induction refs arbitrary: victims st)
  case (Cons ref refs)
  let ?cs = "preemption_candidates_locked (fst st) (rr_resource ref) w (tm_guarantee t) policy self"
  obtain as v st1 where s: "preempt_candidates t b policy ws ?cs victims st = ((as, v), st1)" by (metis surj_pair)
  have "core (fst st1) = core (fst st)" using preempt_candidates_core [of t b policy ws ?cs victims st] s by simp
  with Cons s show ?case by (auto split: option.splits)
qed simp

lemma still_plan_commit: "still (plan_commit t b policy ws self now)"
  unfolding still_def
proof
  fix st
  show "core (fst (snd (plan_commit t b policy ws self now st))) = core (fst st)"
  proof (cases "evaluate (fst st) t b policy 0 ws")
    case (Inl p)
    obtain i failure where p: "p = (i, failure)" by (cases p)
    obtain as v st1 where s: "preempt_resources t b policy ws (ws ! i) self (rb_resources b) [] st = ((as, v), st1)" by (metis surj_pair)
    have "core (fst st1) = core (fst st)" using preempt_resources_core [of t b policy ws "ws ! i" self "rb_resources b" "[]" st] s by simp
    then show ?thesis using Inl p s by (auto simp: plan_commit_def split: option.splits)
  qed (simp add: plan_commit_def)
qed

lemma make_record_born: "born (make_record t authority pv predicted series now i w index is_member)"
  by (simp add: make_record_def Let_def born_def)

lemma commit_members_born: "m \<in> set (commit_members s cx t policy b ws i series now) \<Longrightarrow> born m"
  by (auto simp: commit_members_def all_members_def Let_def make_record_born split: if_splits)

text \<open>
  The memory side of a commit, for a relation that every step of \<open>life\<close> satisfies and, for the companion
  transitions in \<open>allowed\<close>, every companion too.
\<close>

locale commit_relation = step_preorder R for R :: "coordinator \<Rightarrow> coordinator \<Rightarrow> bool" +
  fixes allowed :: "state_mutation \<Rightarrow> bool"
  assumes of_life: "life s s' \<Longrightarrow> R s s'"
    and of_companion: "allowed m \<Longrightarrow> apply_companion m s = (Inr x, s') \<Longrightarrow> R s s'"
    and companion_known: "allowed m \<Longrightarrow> apply_companion m s = (Inr x, s') \<Longrightarrow> co_current_generation s' = co_current_generation s"
begin

lemma ends_life: "ends_in life m \<Longrightarrow> ends_in R m"
  unfolding ends_in_def using of_life by blast

lemma companions:
  "each apply_companion ms s = (Inr x, s') \<Longrightarrow> \<forall>m \<in> set ms. allowed m \<Longrightarrow>
     R s s' \<and> co_current_generation s' = co_current_generation s"
proof (induction ms arbitrary: s)
  case (Cons m ms)
  then obtain y s1 where "apply_companion m s = (Inr y, s1)" "each apply_companion ms s1 = (Inr x, s')"
    by (auto simp: andThen_Inr)
  with Cons of_companion companion_known R_trans show ?case by (metis list.set_intros)
qed (simp add: R_refl)

end

lemma core_enter_series: "core (enter_series v s) = core s"
  by (simp add: enter_series_def core_def split: option.splits)

lemma core_consume_holds: "core (fold (consume_hold i now) holds s) = core s"
proof (induction holds arbitrary: s)
  case (Cons h holds)
  have "core (consume_hold i now h s) = core s" by (simp add: consume_hold_def core_def split: option.splits)
  with Cons show ?case by simp
qed simp

lemma replay_attempt_life: "life s (replay_attempt a s)"
  by (simp add: replay_attempt_def life_refl life_remember split: option.splits)

lemma finish_commit_life: "life s (bump u (fold (consume_hold i now) holds (replay_attempt a (enter_series v s))))"
proof -
  have "life s (enter_series v s)" by (rule life_core) (simp add: core_enter_series)
  moreover have "life (replay_attempt a (enter_series v s)) (bump u (fold (consume_hold i now) holds (replay_attempt a (enter_series v s))))"
    by (rule life_core) (simp add: core_simps core_consume_holds)
  ultimately show ?thesis using replay_attempt_life life_trans by blast
qed

lemma record_refusal_life: "ends_in life (record_refusal cx fp outcome i gen claimant now)"
  unfolding record_refusal_def
  by (intro life.ends_andThen life_rules life.ends_modify life_trans [OF life_remember life_bump])

lemma compact_if_due_life: "ends_in life compact_if_due"
  by (rule compact_life)

lemma scoped_run:
  assumes "scoped m s = (Inr (x, kept), s')"
  shows "\<exists>s1 taken. m (s, []) = (Inr (x, kept), (s1, taken)) \<and> core s' = core s1"
  using assms by (auto simp: scoped_def core_simps split: prod.splits sum.splits if_splits)

lemma settle_life: "ends_in life (settle now r)"
  unfolding settle_def by (cases r) (auto intro!: life.ends_andThen life_rules compact_if_due_life)

lemma inside_Inr: "inside m st = (Inr x, st') \<longleftrightarrow> (\<exists>s'. m (fst st) = (Inr x, s') \<and> st' = (s', snd st))"
  by (auto simp: inside_def split: prod.splits)

context commit_relation
begin

lemma project_commit_R:
  assumes run: "project_commit m i holds now s = (Inr x, s')" and ok: "\<forall>c \<in> set (mu_companions m). allowed c"
    and distinct: "distinct (map rv_id (mu_record m # mu_members m))"
    and fresh: "\<forall>r \<in> set (mu_record m # mu_members m). unregistered s (rv_id r) \<and> born r"
  shows "R s s'"
proof -
  from run obtain y z s1 s2 where comp: "each apply_companion (mu_companions m) s = (Inr y, s1)"
    and enter: "each enter_record (mu_record m # mu_members m) s1 = (Inr z, s2)"
    and s': "s' = bump cst_commits_update (fold (consume_hold i now) holds (replay_attempt (mu_attempt m) (enter_series (mu_series m) s2)))"
    unfolding project_commit_def by (auto simp: andThen_Inr modify_def simp del: each.simps)
  note step = companions [OF comp ok]
  then have "\<forall>r \<in> set (mu_record m # mu_members m). unregistered s1 (rv_id r) \<and> born r"
    using fresh by (simp add: unregistered_def)
  then have "R s1 s2" by (rule of_life [OF enter_records_life [OF enter distinct]])
  moreover have "R s2 s'" unfolding s' by (rule of_life [OF finish_commit_life])
  ultimately show ?thesis using step R_trans by blast
qed

lemma commit_locked_R:
  assumes run: "commit_locked cx t policy b ws i series fp holds a victims now s = (Inr result, s')" and ws: "ws \<noteq> []"
    and ok: "victims = [] \<or> (\<forall>m. sm_to_state m = RsRevoked \<longrightarrow> allowed m)"
    and distinct: "distinct (map rv_id (commit_members s cx t policy b ws i series now))"
    and fresh: "\<forall>m \<in> set (commit_members s cx t policy b ws i series now). unregistered s (rv_id m)"
  shows "R s s'"
proof -
  define m where "m = commit_mutation s cx t policy b ws i series fp victims now"
  have members: "mu_record m # mu_members m = commit_members s cx t policy b ws i series now"
    unfolding m_def by (rule mutation_members [OF ws])
  from run obtain sequence s1 x where app: "append_locked (DrReservationCommit m) s = (Inr sequence, s1)"
    and project: "project_commit m i holds now s1 = (Inr x, s')"
    unfolding commit_locked_def Let_def m_def [symmetric]
    by (auto simp: andThen_Inr guard_op_def ret_def split: if_splits)
  have core: "core s1 = core s" by (rule quiet_Inr [OF quiet_ops(1) app])
  have "\<forall>c \<in> set (mu_companions m). allowed c"
    using ok by (auto simp: m_def commit_mutation_def Let_def companion_def preempted_def map_filter_def)
  moreover have "\<forall>r \<in> set (mu_record m # mu_members m). unregistered s1 (rv_id r) \<and> born r"
    using fresh commit_members_born core unfolding members by (auto simp: unregistered_def core_def)
  ultimately have "R s1 s'" using project_commit_R [OF project] distinct unfolding members by blast
  then show ?thesis using of_life [OF life_core [OF core [symmetric]]] R_trans by blast
qed

lemma create_scope_R:
  assumes run: "create_scope cx t policy b ws i series fp dry holds now (s, []) = (Inr x, st)" and ws: "ws \<noteq> []"
    and one: "\<not> rs_enabled (tm_recurrence t) \<longrightarrow> length ws = 1"
    and ok: "\<not> cfg_enable_preemption (co_config s) \<or> (\<forall>m. sm_to_state m = RsRevoked \<longrightarrow> allowed m)"
    and distinct: "distinct ids" and fresh: "\<forall>j \<in> set ids. unregistered s j"
    and ids: "ids = (if rs_enabled (tm_recurrence t) then member_ids series (length ws) else [i])"
  shows "R s (fst st)"
proof -
  from run obtain st1 plan st2 where held: "each (suspend_named_hold cx) holds (s, []) = (Inr (), st1)"
    and plan: "plan_commit t b policy ws i now st1 = (Inr plan, st2)"
    and rest: "(case plan of
         Inl failure \<Rightarrow>
           if dry then ret (rejected_commit cx 0 failure, False)
           else andThen (inside (record_refusal cx fp (as_outcome failure) i 0 (tm_claimant t) now))
                  (\<lambda>sequence. ret (rejected_commit cx sequence failure, False))
       | Inr (as, victims) \<Rightarrow>
           let a = accepted as victims
           in if dry then ret (rejected_commit cx 0 a, False)
              else andThen (inside (commit_locked cx t policy b ws i series fp holds a victims now))
                     (\<lambda>result. ret (result, True))) st2 = (Inr x, st)"
    by (auto simp: create_scope_def andThen_Inr)
  have core1: "core (fst st1) = core s" using stillD [OF still_each [OF still_suspend_named_hold] held] by simp
  have core: "core (fst st2) = core s" using stillD [OF still_plan_commit plan] core1 by simp
  have "R (fst st2) (fst st)"
  proof (cases plan)
    case (Inl failure)
    then show ?thesis using rest ends_inD [OF record_refusal_life] of_life
      by (auto simp: andThen_Inr inside_Inr ret_def R_refl split: if_splits)
  next
    case (Inr p)
    obtain as victims where p: "p = (as, victims)" by (cases p)
    show ?thesis
    proof (cases dry)
      case True
      with rest Inr p show ?thesis by (auto simp: ret_def Let_def R_refl)
    next
      case False
      with rest Inr p obtain result s3 where commit: "commit_locked cx t policy b ws i series fp holds (accepted as victims) victims now (fst st2) = (Inr result, s3)"
        and st: "fst st = s3"
        by (auto simp: andThen_Inr inside_Inr ret_def)
      have "victims = []" if "\<not> cfg_enable_preemption (co_config s)"
        using plan that core1 unfolding Inr p
        by (auto simp: plan_commit_def may_preempt_def core_def split: sum.splits if_splits)
      with ok have ok': "victims = [] \<or> (\<forall>m. sm_to_state m = RsRevoked \<longrightarrow> allowed m)" by blast
      have all: "map rv_id (commit_members (fst st2) cx t policy b ws i series now) = ids"
        using commit_members_ids [OF one] by (simp add: ids)
      have "unregistered (fst st2) (rv_id m)" if "m \<in> set (commit_members (fst st2) cx t policy b ws i series now)" for m
      proof -
        have "rv_id m \<in> set ids" using that unfolding all [symmetric] by simp
        then show ?thesis using fresh core by (simp add: unregistered_def core_def)
      qed
      then show ?thesis unfolding st using commit_locked_R [OF commit ws ok'] distinct all by simp
    qed
  qed
  then show ?thesis using of_life [OF life_core [OF core [symmetric]]] R_trans by blast
qed

lemma create_fresh_R:
  assumes run: "create_fresh cx t policy i series fp dry holds now s = (Inr result, s')" and terms: "validate_terms t = Inr ()"
    and ok: "\<not> cfg_enable_preemption (co_config s) \<or> (\<forall>m. sm_to_state m = RsRevoked \<longrightarrow> allowed m)"
    and distinct: "rs_enabled (tm_recurrence t) \<longrightarrow> distinct (member_ids series (unat (rs_count (tm_recurrence t))))"
  shows "R s s'"
proof -
  from run obtain b ws x kept s3 where free: "\<not> identity_bound s i"
      "rs_enabled (tm_recurrence t) \<longrightarrow> \<not> list_ex (identity_bound s) (member_ids series (unat (rs_count (tm_recurrence t))))"
    and ws: "expand_series (tm_interval t) (tm_recurrence t) (pl_max_series_members policy) = Inr ws"
    and scope: "scoped (create_scope cx t policy b ws i series fp dry holds now) s = (Inr (x, kept), s3)"
    and settle: "settle now (x, kept) s3 = (Inr result, s')"
    by (auto simp: create_fresh_def andThen_Inr split: if_splits sum.splits)
  have "interval_ok (tm_interval t)" using terms by (simp add: validate_terms_ok terms_ok_def)
  note wins = expand_series_members [OF this ws]
  define ids where "ids = (if rs_enabled (tm_recurrence t) then member_ids series (length ws) else [i])"
  have one: "\<not> rs_enabled (tm_recurrence t) \<longrightarrow> length ws = 1" and "ws \<noteq> []" using wins by auto
  moreover have "distinct ids" using distinct wins by (simp add: ids_def)
  moreover have "\<forall>j \<in> set ids. unregistered s j"
    using free wins by (auto simp: ids_def identity_bound_def unregistered_def list_ex_iff)
  moreover obtain s1 taken where "create_scope cx t policy b ws i series fp dry holds now (s, []) = (Inr (x, kept), (s1, taken))"
    and core: "core s3 = core s1" using scoped_run [OF scope] by blast
  ultimately have "R s s1" using create_scope_R [OF _ _ _ ok, of cx t policy b ws i series fp dry holds now] ids_def by fastforce
  moreover have "R s1 s3" by (rule of_life [OF life_core [OF core [symmetric]]])
  moreover have "R s3 s'" by (rule of_life [OF ends_inD [OF settle_life settle]])
  ultimately show ?thesis using R_trans by blast
qed

end

lemma sound_if:
  assumes "grows s s'" and "coord_ok s \<Longrightarrow> sound s s'"
  shows "sound s s'"
  using assms unfolding sound_def by blast

text \<open>A record that reaches a terminal state, whatever state it was in.\<close>

lemma sound_end:
  assumes found: "om_find (co_records s) k = Some r" and r': "record_key r' = record_key r" "is_terminal (rv_state r')"
    and core: "core s' = core (sync_queues_locked r' (put_record r' (count_move (rv_state r) (rv_state r') s)))"
  shows "sound s s'"
proof (rule sound_if)
  show "grows s s'" using core by (intro grows_core) (simp add: core_def)
  show "sound s s'" if "coord_ok s"
    using sound_restate [OF _ r'(2) core] found coord_ok_keyed [OF that found] r'(1) by simp
qed

lemma apply_companion_effect:
  assumes "apply_companion m s = (Inr x, s')"
  shows "s' = s \<or> (\<exists>r r'. om_find (co_records s) (sm_id m, sm_generation m) = Some r \<and> record_key r' = record_key r \<and>
    rv_state r' = sm_to_state m \<and>
    core s' = core (sync_queues_locked r' (put_record r' (count_move (rv_state r) (rv_state r') s))))"
proof (cases "find_record_locked s (sm_id m) (sm_generation m)")
  case None
  with assms show ?thesis by (simp add: apply_companion_def)
next
  case (Some r)
  define r' where "r' = stated (sm_to_state m) (sm_at m) (sm_reason m) (sm_provenance m) r"
  from assms Some obtain y s2 where sync: "sync_index_locked r' (set_state_locked r (sm_to_state m) (sm_at m) (sm_reason m) (sm_provenance m) s) = (Inr y, s2)"
    and s': "s' = bump cst_recalls_update (sync_queues_locked r' s2)"
    by (auto simp: apply_companion_def Let_def andThen_Inr modify_def r'_def)
  have "core s2 = core (put_record r' (count_move (rv_state r) (rv_state r') s))"
    using quiet_Inr [OF quiet_ops(2) sync] by (simp add: set_state_locked_def r'_def)
  then have "core s' = core (sync_queues_locked r' (put_record r' (count_move (rv_state r) (rv_state r') s)))"
    unfolding s' core_bump by (rule core_sync_queues_cong)
  moreover have "record_key r' = record_key r" "rv_state r' = sm_to_state m" by (simp_all add: r'_def)
  ultimately show ?thesis using Some unfolding find_record_locked_def by blast
qed

lemma apply_companion_known: "apply_companion m s = (Inr x, s') \<Longrightarrow> co_current_generation s' = co_current_generation s"
  by (drule apply_companion_effect) (auto simp: core_def)

interpretation sound_commit: commit_relation sound "\<lambda>m. is_terminal (sm_to_state m)"
proof
  fix s s' m x
  show "sound s s'" if "life s s'" by (rule life_sound [OF that])
  assume "is_terminal (sm_to_state m)" "apply_companion m s = (Inr x, s')"
  then show "sound s s'" "co_current_generation s' = co_current_generation s"
    using apply_companion_effect [of m s x s'] apply_companion_known [of m s x s'] sound_end sound.R_refl by metis+
qed

interpretation life_commit: commit_relation life "\<lambda>m. False"
  by unfold_locales simp_all

lemma quiet_current_series: "quiet (current_series_locked i)"
  by (auto simp: quiet_def current_series_locked_def core_def Let_def split: option.splits)

lemma quiet_replayed_series: "quiet (replayed_series r)"
proof -
  have "quiet (andThen (current_series_locked i) (\<lambda>series. gets (g series)))" for i and g :: "_ \<Rightarrow> coordinator \<Rightarrow> _"
    by (intro quiet_andThen quiet_current_series quiet_simple)
  then show ?thesis by (auto simp: replayed_series_def quiet_simple split: option.splits)
qed

lemma quiet_replays: "quiet (replay_commit cx previous)" "quiet (replay_amendment r previous)"
  unfolding replay_commit_def replay_amendment_def
  by (intro quiet_andThen quiet_requests quiet_simple quiet_replayed_series, auto simp: quiet_simple split: prod.splits)+

subsection \<open>What time reconciliation leaves alone\<close>

definition kept :: "coordinator \<Rightarrow> coordinator \<Rightarrow> bool" where
  "kept s s' \<longleftrightarrow> life s s' \<and> co_config s' = co_config s \<and> co_current_generation s' = co_current_generation s \<and>
     (coord_ok s \<and> generations_left s' \<longrightarrow>
        (\<forall>k r'. om_find (co_records s') k = Some r' \<longrightarrow>
           (\<exists>r. om_find (co_records s) k = Some r \<and> rv_series_member r' = rv_series_member r)))"

lemma kept_core: "core s = core s' \<Longrightarrow> kept s s'"
  using life_core [of s s'] by (auto simp: kept_def core_def)

lemma kept_trans:
  assumes "kept s s'" "kept s' s''"
  shows "kept s s''"
proof -
  have life: "life s s'" "life s' s''" using assms by (auto simp: kept_def)
  have "coord_ok s' \<and> generations_left s'" if "coord_ok s" "generations_left s''"
    using that grows_left [OF life_grows [OF life(2)]] lifeD(2) [OF life(1)] by blast
  then show ?thesis using assms life_trans [OF life] unfolding kept_def by metis
qed

lemma kept_transition:
  assumes found: "om_find (co_records s) k = Some r" and legal: "moves (rv_state r) target"
    and run: "transition_locked r target at reason cx effect s = (Inr a, s')"
  shows "kept s s'"
proof -
  from transition_effect [OF run] obtain r' where r': "transitioned target effect r r'"
    and core: "core s' = core (sync_queues_locked r' (put_record r' (count_move (rv_state r) target s)))" by blast
  have "\<exists>v. om_find (co_records s) k' = Some v \<and> rv_series_member v' = rv_series_member v"
    if "coord_ok s" "om_find (co_records s') k' = Some v'" for k' v'
    using that core r' found coord_ok_keyed [OF that(1) found] by (auto simp: core_def transitioned_def split: if_splits)
  then show ?thesis using transition_life_at [OF assms] core by (auto simp: kept_def core_def)
qed

interpretation kept: transition_relation kept
  by unfold_locales (auto intro: kept_core kept_trans kept_transition)

lemma kept_prologue: "ends_in kept (andThen (ensure_claimant_locked c g now) (\<lambda>_. reconcile_locked now))"
  by (intro kept.ends_andThen kept.ends_quiet quiet_ops kept.reconcile_ends)

context commit_relation
begin

lemma create_locked_R:
  assumes run: "create_locked cx t requested dry holds s = (Inr result, s')"
    and ok: "\<not> cfg_enable_preemption (co_config s) \<or> (\<forall>m. sm_to_state m = RsRevoked \<longrightarrow> allowed m)"
    and distinct: "rs_enabled (tm_recurrence t) \<longrightarrow>
      distinct (member_ids (derive_series_id (tm_claimant t) (cx_attempt cx) 2) (unat (rs_count (tm_recurrence t))))"
  shows "R s s'"
proof -
  define series where "series = (if rs_enabled (tm_recurrence t) then derive_series_id (tm_claimant t) (cx_attempt cx) 2 else 0)"
  define i where "i = (if is_nil requested then derive_series_id (tm_claimant t) (cx_attempt cx) 1 else requested)"
  define fp where "fp = request_fingerprint t i holds"
  define answer where "answer policy now found = (case found of
      Some previous \<Rightarrow> if at_fingerprint previous \<noteq> fp then fail EConflict else replay_commit cx previous
    | None \<Rightarrow> create_fresh cx t policy i series fp dry holds now)" for policy now found
  from run obtain now y1 y2 y3 s1 s2 s3 s4 policy found where
    clock: "now_locked s = (Inr now, s1)" and valid: "validate_context_locked cx True s1 = (Inr y1, s2)"
    and terms: "validate_terms t = Inr ()"
    and claimant: "ensure_claimant_locked (tm_claimant t) (tm_claimant_generation t) now s2 = (Inr y2, s3)"
    and reconcile: "reconcile_locked now s3 = (Inr y3, s4)"
    and rest: "answer policy now found s4 = (Inr result, s')"
    unfolding create_locked_def andThen_Inr lift_def gets_def guard_op_def Let_def series_def [symmetric] i_def [symmetric]
      fp_def [symmetric] answer_def [symmetric]
    by (auto split: if_splits)
  have "kept s s1" by (rule ends_inD [OF kept.ends_quiet [OF quiet_ops(5)] clock])
  moreover have "kept s1 s2" by (rule ends_inD [OF kept.ends_quiet [OF quiet_requests(1)] valid])
  moreover have "kept s2 s4" using ends_inD [OF kept_prologue] claimant reconcile unfolding andThen_Inr by blast
  ultimately have start: "kept s s4" by (blast intro: kept.R_trans)
  have "R s4 s'"
  proof (cases found)
    case (Some previous)
    with rest have "replay_commit cx previous s4 = (Inr result, s')"
      by (simp add: answer_def fail_def split: if_splits)
    then show ?thesis by (rule ends_inD [OF ends_life [OF life_quiet [OF quiet_replays(1)]]])
  next
    case None
    with rest have "create_fresh cx t policy i series fp dry holds now s4 = (Inr result, s')" by (simp add: answer_def)
    moreover have "co_config s4 = co_config s" using start by (simp add: kept_def)
    ultimately show ?thesis
      using create_fresh_R [OF _ terms] ok distinct by (simp add: series_def)
  qed
  moreover have "R s s4" using start of_life by (simp add: kept_def)
  ultimately show ?thesis by (blast intro: R_trans)
qed

end

end
