(* ===== verification/Brf_Amend_Life.thy ===== *)
theory Brf_Amend_Life
  imports Brf_Commit_Life
begin

text \<open>
  Amendments of single reservations and overcommit resolution keep the invariant (\<open>sound\<close>), although both
  may end a record in a state the lifecycle does not allow it to leave.
\<close>

subsection \<open>Amendments\<close>

lemma supersede_effect:
  assumes "supersede pv now previous s = (Inr x, s')"
  shows "s' = s \<and> om_find (co_records s) (record_key previous) = None \<or>
    (\<exists>r r'. om_find (co_records s) (record_key previous) = Some r \<and> record_key r' = record_key r \<and> rv_state r' = RsSuperseded \<and>
    core s' = core (sync_queues_locked r' (put_record r' (count_move (rv_state r) (rv_state r') s))))"
proof (cases "om_find (co_records s) (record_key previous)")
  case None
  with assms show ?thesis by (simp add: supersede_def find_record_locked_def record_key_def)
next
  case (Some r)
  then have found: "find_record_locked s (rv_id previous) (rv_generation previous) = Some r"
    by (simp add: find_record_locked_def record_key_def)
  define reason where "reason = ''superseded by generation '' @ to_decimal (rv_generation r + 1)"
  define r' where "r' = stated RsSuperseded now reason pv r"
  from assms found obtain y s2 where erase: "index_erase_locked r' (set_state_locked r RsSuperseded now reason pv s) = (Inr y, s2)"
    and s': "s' = sync_queues_locked r' s2"
    by (auto simp: supersede_def Let_def andThen_Inr modify_def r'_def reason_def)
  have "core s2 = core (put_record r' (count_move (rv_state r) (rv_state r') s))"
    using quiet_Inr [OF quiet_ops(4) erase] by (simp add: set_state_locked_def r'_def)
  then have "core s' = core (sync_queues_locked r' (put_record r' (count_move (rv_state r) (rv_state r') s)))"
    unfolding s' by (rule core_sync_queues_cong)
  moreover have "record_key r' = record_key r" "rv_state r' = RsSuperseded" by (simp_all add: r'_def)
  ultimately show ?thesis using Some by blast
qed

lemma enter_successor_core:
  assumes "enter_successor r s = (Inr x, s')"
  shows "core s' = core (sync_queues_locked r (register_record_locked r s))"
proof -
  from assms obtain y s2 where sync: "update_index_locked r (register_record_locked r s) = (Inr y, s2)" and s': "s' = sync_queues_locked r s2"
    by (auto simp: enter_successor_def andThen_Inr modify_def)
  show ?thesis unfolding s' by (rule core_sync_queues_cong [OF quiet_Inr [OF quiet_ops(3) sync]])
qed

lemma supersede_grows: "ends_in grows (supersede pv now previous)"
  by (rule ends_inI) (drule supersede_effect, auto simp: grows.R_refl core_def intro!: grows_core)

lemma enter_successor_grows: "ends_in grows (enter_successor r)"
proof (rule ends_inI)
  fix s x s' assume "enter_successor r s = (Inr x, s')"
  from registered_core [OF enter_successor_core [OF this]] registered_register [of r s] show "grows s s'"
    by (simp add: grows_def registered_def)
qed

lemma finish_amendment_life: "life s (bump u (replay_attempt a (enter_series v s)))"
  using finish_commit_life [of s u 0 0 "[]"] by simp

lemma quiet_edge: "quiet (modify (\<lambda>s. case e of None \<Rightarrow> s | Some e \<Rightarrow> s\<lparr>co_edges := co_edges s @ [e]\<rparr>) :: unit coord_op)"
  by (auto simp: quiet_def modify_def core_def split: option.splits)

lemma grows_quiet: "quiet m \<Longrightarrow> ends_in grows m"
  using life_quiet life_grows unfolding ends_in_def by blast

lemma project_amendment_grows: "ends_in grows (project_amendment m superseded successors now)"
  unfolding project_amendment_def
  by (intro grows.ends_andThen grows.ends_each supersede_grows enter_successor_grows grows_quiet [OF quiet_edge]
      grows.ends_modify life_grows [OF finish_amendment_life])

lemma quiet_plan_amendment: "quiet (plan_amendment cx fp gen t policy b ws predecessor superseded now)"
  unfolding quiet_def
proof
  fix s
  have step: "core (snd (andThen (current_series_locked (rv_series predecessor)) f s)) = core s" if "\<And>v. quiet (f v)"
    for f :: "reservation_series option \<Rightarrow> (reservation_mutation \<times> reservation_record list) coord_op"
    by (rule quiet_core [OF quiet_andThen [OF quiet_current_series that]])
  show "core (snd (plan_amendment cx fp gen t policy b ws predecessor superseded now s)) = core s"
  proof (cases "rv_series_member predecessor")
    case True
    then show ?thesis unfolding plan_amendment_def Let_def
      by (simp only: not_True_eq_False if_False) (rule step, auto simp: quiet_simple split: option.splits)
  qed (simp add: plan_amendment_def Let_def)
qed

lemma ends_in_pair: "(\<And>a b. ends_in R (f a b)) \<Longrightarrow> ends_in R (case p of (a, b) \<Rightarrow> f a b)"
  by (cases p) simp

lemma commit_amendment_grows: "ends_in grows (commit_amendment cx fp gen t policy b ws predecessor superseded a now)"
  unfolding commit_amendment_def
  by (intro grows.ends_andThen ends_in_pair grows.ends_pure grows_quiet [OF quiet_plan_amendment] grows_quiet [OF quiet_ops(1)]
      project_amendment_grows)

text \<open>Scopes, read on the coordinator they work on.\<close>

definition within :: "(coordinator \<Rightarrow> coordinator \<Rightarrow> bool) \<Rightarrow> coordinator \<times> index_entry list \<Rightarrow> coordinator \<times> index_entry list \<Rightarrow> bool" where
  "within R st st' \<longleftrightarrow> R (fst st) (fst st')"

interpretation within_grows: step_preorder "within grows"
  by unfold_locales (auto simp: within_def intro: grows.R_refl grows.R_trans)

lemma within_inside: "ends_in R m \<Longrightarrow> ends_in (within R) (inside m)"
  by (auto simp: ends_in_def within_def inside_Inr)

lemma within_still: "still m \<Longrightarrow> ends_in (within grows) m"
  unfolding ends_in_def within_def using stillD life_grows [OF life_core] by metis

lemma still_suspend_members: "still (suspend_members ids superseded)"
proof (induction ids arbitrary: superseded)
  case (Cons i ids)
  have "still (andThen (suspending (suspend member)) (\<lambda>_. suspend_members ids (superseded @ [member])))" for member
    by (intro still_andThen still_suspending Cons)
  with Cons show ?case by (auto simp: still_def split: option.splits)
qed (simp add: still_def)

lemma still_simple: "still (ret x)" "still (fail e)" "still (gets g)"
  by (simp_all add: still_def op_defs)

lemma still_inside: "quiet m \<Longrightarrow> still (inside m)"
  unfolding still_def inside_def quiet_def by (auto split: prod.splits) (metis snd_conv)

lemma still_superseded: "still (superseded_by_amendment predecessor)"
proof -
  have "still (case series of None \<Rightarrow> fail ECorrupt | Some v \<Rightarrow> suspend_members (sr_members v) [])" for series
    by (auto simp: still_simple still_suspend_members split: option.splits)
  then show ?thesis unfolding superseded_by_amendment_def
    by (auto intro!: still_andThen still_inside quiet_current_series still_suspending still_simple)
qed

lemma grows_of_life: "ends_in life m \<Longrightarrow> ends_in grows m"
  unfolding ends_in_def using life_grows by blast

lemma amend_scope_grows: "ends_in (within grows) (amend_scope cx fp target gen t policy b ws predecessor dry now)"
proof -
  have "ends_in (within grows) (case evaluation of
         Inl (_, failure) \<Rightarrow>
           if dry then ret (rejected_amendment predecessor failure, False)
           else andThen (inside (record_refusal cx fp (as_outcome failure) target gen (tm_claimant t) now))
                  (\<lambda>_. ret (rejected_amendment predecessor failure, False))
       | Inr as \<Rightarrow>
           if dry then ret (rejected_amendment predecessor (hd as), False)
           else andThen (inside (commit_amendment cx fp gen t policy b ws predecessor superseded (hd as) now))
                  (\<lambda>result. ret (result, True)))" for evaluation superseded
  proof -
    have "ends_in grows (record_refusal cx fp outcome target gen (tm_claimant t) now)" for outcome
      by (rule grows_of_life [OF record_refusal_life])
    then show ?thesis
      by (auto intro!: within_grows.ends_andThen within_grows.ends_pure within_inside commit_amendment_grows split: sum.splits)
  qed
  then show ?thesis unfolding amend_scope_def
    by (intro within_grows.ends_andThen within_grows.ends_pure within_still [OF still_superseded])
qed

lemma scoped_grows: "ends_in (within grows) m \<Longrightarrow> ends_in grows (scoped m)"
proof (rule ends_inI)
  fix s x s' assume m: "ends_in (within grows) m" and "scoped m s = (Inr x, s')"
  then obtain s1 taken where "m (s, []) = (Inr x, (s1, taken))" and core: "core s' = core s1"
    using scoped_run [of m s "fst x" "snd x" s'] by auto
  then have "grows s s1" using ends_inD [OF m] by (fastforce simp: within_def)
  moreover have "grows s1 s'" by (rule life_grows [OF life_core [OF core [symmetric]]])
  ultimately show "grows s s'" by (rule grows.R_trans)
qed

lemma amend_current_grows: "ends_in grows (amend_current cx fp target gen t dry now predecessor)"
proof (rule ends_inI)
  fix s x s' assume "amend_current cx fp target gen t dry now predecessor s = (Inr x, s')"
  then obtain policy b ws where run: "andThen (scoped (amend_scope cx fp target gen t policy b ws predecessor dry now)) (settle now) s = (Inr x, s')"
    by (auto simp: amend_current_def Let_def split: sum.splits)
  show "grows s s'"
    by (rule ends_inD [OF grows.ends_andThen [OF scoped_grows [OF amend_scope_grows] grows_of_life [OF settle_life]] run])
qed

lemma with_record_grows: "(\<And>r. ends_in grows (f r)) \<Longrightarrow> ends_in grows (with_record i gen f)"
  by (auto simp: ends_in_def with_record_def split: option.splits)

lemma reconcile_grows: "ends_in grows (reconcile_locked now)"
  by (rule grows_of_life [OF reconcile_life])

lemma amend_named_grows: "ends_in grows (amend_named cx target gen t dry now predecessor)"
proof (rule ends_inI)
  fix s x s' assume run: "amend_named cx target gen t dry now predecessor s = (Inr x, s')"
  define fp where "fp = amendment_fingerprint target gen t"
  have fresh: "ends_in grows (andThen (ensure_claimant_locked (tm_claimant t) (tm_claimant_generation t) now) (\<lambda>_.
      andThen (reconcile_locked now) (\<lambda>_. with_record target gen (amend_current cx fp target gen t dry now))))"
    by (intro grows.ends_andThen grows_quiet [OF quiet_ops(7)] reconcile_grows with_record_grows amend_current_grows)
  have "ends_in grows (replay_amendment predecessor previous)" for previous by (rule grows_quiet [OF quiet_replays(2)])
  then show "grows s s'"
    using run ends_inD [OF fresh] unfolding ends_in_def
    by (auto simp: amend_named_def Let_def fp_def [symmetric] split: option.splits if_splits)
qed

lemma amend_grows: "ends_in grows (amend_locked cx target gen t dry)"
  unfolding amend_locked_def
  by (intro grows.ends_andThen grows.ends_pure grows_quiet [OF quiet_ops(5)] grows_quiet [OF quiet_requests(1)] with_record_grows amend_named_grows)

text \<open>A record superseded by its next generation.\<close>

lemma make_successor_sel:
  "rv_id (make_successor t av pv n now r w) = rv_id r" "rv_generation (make_successor t av pv n now r w) = rv_generation r + 1"
  "born (make_successor t av pv n now r w)"
  by (simp_all add: make_successor_def Let_def born_def)

lemma project_single:
  assumes run: "project_amendment m [p] [r'] now s = (Inr x, s')"
    and p: "om_find (co_records s) (record_key p) = Some v" and cur: "om_find (co_current_generation s) (rv_id p) = Some (rv_generation p)"
    and r': "rv_id r' = rv_id p" "rv_generation r' = rv_generation p + 1" "born r'"
    and ok: "coord_ok s" and left: "generations_left s'"
  shows "coord_ok s'"
proof -
  from run obtain y z s1 s2 s3 where sup: "supersede (rv_last_provenance (mu_record m)) now p s = (Inr y, s1)"
    and edge: "s2 = (case mu_edge m of None \<Rightarrow> s1 | Some e \<Rightarrow> s1\<lparr>co_edges := co_edges s1 @ [e]\<rparr>)"
    and enter: "enter_successor r' s2 = (Inr z, s3)"
    and s': "s' = bump cst_amendments_update (replay_attempt (mu_attempt m) (enter_series (mu_series m) s3))"
    unfolding project_amendment_def by (auto simp: andThen_Inr modify_def)
  from supersede_effect [OF sup] p obtain old where old: "record_key old = record_key v" "rv_state old = RsSuperseded"
    and core1: "core s1 = core (sync_queues_locked old (put_record old (count_move (rv_state v) (rv_state old) s)))" by auto
  have key: "record_key v = record_key p" by (rule coord_ok_keyed [OF ok p])
  have core2: "core s2 = core s1" by (simp add: edge core_def split: option.splits)
  have end': "life s3 s'" unfolding s' by (rule finish_amendment_life)
  have life3: "life s2 s3"
  proof -
    have "life s2 (sync_queues_locked r' (register_record_locked r' s2))"
    proof (rule life_succeed [OF r'(1,2) _ _ r'(3)])
      show "om_find (co_current_generation s2) (rv_id p) = Some (rv_generation p)"
        using cur core1 core2 by (simp add: core_def)
      have records: "co_records s2 = om_put (record_key p) old (co_records s)"
        using core1 core2 old key by (simp add: core_def)
      show "is_terminal (rv_state w)" if w: "om_find (co_records s2) (rv_id p, g) = Some w" for g w
      proof (cases "g = rv_generation p")
        case True
        with w records have "w = old" by (simp add: record_key_def)
        with old show ?thesis by simp
      next
        case False
        with w records have "om_find (co_records s) (rv_id p, g) = Some w" by (simp add: record_key_def)
        then show ?thesis using generations_okD(4) [of s "rv_id p" g w] ok cur False by (auto simp: coord_ok_def)
      qed
    qed
    then show ?thesis using life_core [OF enter_successor_core [OF enter, symmetric]] by (rule life_trans)
  qed
  have "sound s s1" using sound_end [OF p _ _ core1] old by simp
  then have "coord_ok s2"
    using ok grows_left [OF life_grows [OF life_trans [OF life_trans [OF life_core [OF core2 [symmetric]] life3] end']] left] coord_ok_core [OF core2]
    by (simp add: sound_def)
  then show ?thesis using lifeD(2) [OF life_trans [OF life3 end']] left by blast
qed

lemma commit_single:
  assumes run: "commit_amendment cx fp gen t policy b ws p [p] a now s = (Inr x, s')" and single: "\<not> rv_series_member p"
    and p: "om_find (co_records s) (record_key p) = Some v" and cur: "om_find (co_current_generation s) (rv_id p) = Some (rv_generation p)"
    and ok: "coord_ok s" and left: "generations_left s'"
  shows "coord_ok s'"
proof -
  define r' where "r' = make_successor t (amended_authority s t policy b gen)
      (make_provenance_locked s cx (st_last_sequence (co_store s) + 1) now) (st_last_sequence (co_store s) + 1) now p (hd ws)"
  define m where "m = amendment_mutation cx fp t now (st_last_sequence (co_store s) + 1) p r' None [] []"
  have "plan_amendment cx fp gen t policy b ws p [p] now s = (Inr (m, [r']), s)"
    using single by (simp add: plan_amendment_def Let_def m_def r'_def)
  with run obtain n s1 y s2 where app: "append_locked (DrReservationAmend m) s = (Inr n, s1)"
    and project: "project_amendment m [p] [r'] now s1 = (Inr y, s2)" and s': "s' = s2"
    unfolding commit_amendment_def by (auto simp: andThen_Inr gets_def guard_op_def split: if_splits)
  have core: "core s1 = core s" by (rule quiet_Inr [OF quiet_ops(1) app])
  show ?thesis unfolding s'
  proof (rule project_single [OF project])
    show "om_find (co_records s1) (record_key p) = Some v" "om_find (co_current_generation s1) (rv_id p) = Some (rv_generation p)"
      using p cur core by (simp_all add: core_def)
    show "rv_id r' = rv_id p" "rv_generation r' = rv_generation p + 1" "born r'" by (simp_all add: r'_def make_successor_sel)
    show "coord_ok s1" using ok coord_ok_core [OF core] by simp
    show "generations_left s2" using left s' by simp
  qed
qed

lemma amend_scope_single:
  assumes run: "amend_scope cx fp target gen t policy b ws p dry now (s, []) = (Inr x, st)" and single: "\<not> rv_series_member p"
    and p: "om_find (co_records s) (record_key p) = Some v" and cur: "om_find (co_current_generation s) (rv_id p) = Some (rv_generation p)"
    and ok: "coord_ok s" and left: "generations_left (fst st)"
  shows "coord_ok (fst st)"
proof -
  define answer where "answer superseded evaluation = (case evaluation of
         Inl (_, failure) \<Rightarrow>
           if dry then ret (rejected_amendment p failure, False)
           else andThen (inside (record_refusal cx fp (as_outcome failure) target gen (tm_claimant t) now))
                  (\<lambda>_. ret (rejected_amendment p failure, False))
       | Inr as \<Rightarrow>
           if dry then ret (rejected_amendment p (hd as), False)
           else andThen (inside (commit_amendment cx fp gen t policy b ws p superseded (hd as) now))
                  (\<lambda>result. ret (result, True)))" for superseded and evaluation :: "(nat \<times> assessment) + assessment list"
  from run obtain superseded st1 evaluation where sup: "superseded_by_amendment p (s, []) = (Inr superseded, st1)"
    and rest: "answer superseded evaluation st1 = (Inr x, st)"
    unfolding amend_scope_def answer_def [symmetric] andThen_Inr gets_def by auto
  have only: "superseded = [p]" using sup single by (auto simp: superseded_by_amendment_def andThen_Inr ret_def)
  have core: "core (fst st1) = core s" using stillD [OF still_superseded sup] by simp
  then have ok1: "coord_ok (fst st1)" using ok coord_ok_core by blast
  show ?thesis
  proof (cases evaluation)
    case (Inl f)
    with rest have "life (fst st1) (fst st)" using ends_inD [OF record_refusal_life]
      by (cases f) (auto simp: answer_def andThen_Inr inside_Inr ret_def life_refl split: if_splits)
    then show ?thesis using lifeD(2) ok1 left by blast
  next
    case (Inr as)
    show ?thesis
    proof (cases dry)
      case True
      with rest Inr ok1 show ?thesis by (auto simp: answer_def ret_def)
    next
      case False
      with rest Inr only obtain y s2 where commit: "commit_amendment cx fp gen t policy b ws p [p] (hd as) now (fst st1) = (Inr y, s2)"
        and st: "fst st = s2" by (auto simp: answer_def andThen_Inr inside_Inr ret_def)
      show ?thesis unfolding st
        by (rule commit_single [OF commit single _ _ ok1]) (use p cur core left st in \<open>simp_all add: core_def\<close>)
    qed
  qed
qed

lemma amend_current_single:
  assumes run: "amend_current cx fp target gen t dry now p s = (Inr x, s')" and single: "\<not> rv_series_member p"
    and p: "om_find (co_records s) (record_key p) = Some v" and cur: "om_find (co_current_generation s) (rv_id p) = Some (rv_generation p)"
    and ok: "coord_ok s" and left: "generations_left s'"
  shows "coord_ok s'"
proof -
  from run obtain policy b ws y s1 where scope: "scoped (amend_scope cx fp target gen t policy b ws p dry now) s = (Inr y, s1)"
    and settle: "settle now y s1 = (Inr x, s')"
    by (auto simp: amend_current_def Let_def andThen_Inr split: sum.splits)
  from scope obtain s0 taken where inner: "amend_scope cx fp target gen t policy b ws p dry now (s, []) = (Inr y, (s0, taken))"
    and core: "core s1 = core s0" using scoped_run [of _ s "fst y" "snd y" s1] by fastforce
  have life: "life s0 s'" using life_trans [OF life_core [OF core [symmetric]] ends_inD [OF settle_life settle]] .
  have "generations_left s0" using grows_left [OF life_grows [OF life] left] .
  then have "coord_ok s0" using amend_scope_single [OF inner single p cur ok] by simp
  then show ?thesis using lifeD(2) [OF life] left by blast
qed

lemma amend_named_single:
  assumes run: "amend_named cx target gen t dry now p0 s = (Inr x, s')" and single: "\<not> rv_series_member p0"
    and p0: "om_find (co_records s) (target, gen) = Some p0" and ok: "coord_ok s" and left: "generations_left s'"
  shows "coord_ok s'"
proof (cases "find_attempt_locked s (cx_attempt cx)")
  case (Some previous)
  with run have "replay_amendment p0 previous s = (Inr x, s')" by (auto simp: amend_named_def Let_def split: if_splits)
  then show ?thesis using life_quietD [OF quiet_replays(2)] lifeD(2) ok left by blast
next
  case None
  with run obtain y z s1 s2 p where live: "\<not> is_terminal (rv_state p0)"
    and claimant: "ensure_claimant_locked (tm_claimant t) (tm_claimant_generation t) now s = (Inr y, s1)"
    and reconcile: "reconcile_locked now s1 = (Inr z, s2)"
    and found: "om_find (co_records s2) (target, gen) = Some p"
    and amend: "amend_current cx (amendment_fingerprint target gen t) target gen t dry now p s2 = (Inr x, s')"
    by (auto simp: amend_named_def Let_def andThen_Inr with_record_def find_record_locked_def split: if_splits option.splits)
  have "kept s s2" using ends_inD [OF kept_prologue] claimant reconcile unfolding andThen_Inr by blast
  moreover have left2: "generations_left s2" using grows_left [OF ends_inD [OF amend_current_grows amend] left] .
  ultimately have ok2: "coord_ok s2" and "\<not> rv_series_member p"
    and cur: "co_current_generation s2 = co_current_generation s"
    using ok single p0 found lifeD(2) unfolding kept_def by (blast, metis option.inject, blast)
  moreover have "record_key p = (target, gen)" by (rule coord_ok_keyed [OF ok2 found])
  moreover have "om_find (co_current_generation s) target = Some gen"
    using generations_okD(4) [of s target gen p0] ok p0 live by (simp add: coord_ok_def)
  ultimately show ?thesis using amend_current_single [OF amend] found left by (simp add: record_key_def)
qed

lemma amend_sound:
  assumes run: "amend_locked cx target gen t dry s = (Inr x, s')"
    and single: "\<And>r. om_find (co_records s) (target, gen) = Some r \<Longrightarrow> \<not> rv_series_member r"
  shows "sound s s'"
proof -
  from run obtain now s1 y s2 p where clock: "now_locked s = (Inr now, s1)" and valid: "validate_context_locked cx True s1 = (Inr y, s2)"
    and found: "om_find (co_records s2) (target, gen) = Some p" and amend: "amend_named cx target gen t dry now p s2 = (Inr x, s')"
    by (auto simp: amend_locked_def andThen_Inr lift_def with_record_def find_record_locked_def split: option.splits)
  have core: "core s2 = core s" using quiet_Inr [OF quiet_ops(5) clock] quiet_Inr [OF quiet_requests(1) valid] by simp
  then have "\<not> rv_series_member p" using single found by (simp add: core_def)
  then show ?thesis
    using ends_inD [OF amend_grows run] amend_named_single [OF amend _ found] coord_ok_core [OF core] by (simp add: sound_def)
qed

subsection \<open>Overcommit resolution\<close>

lemma revocation_sound:
  assumes found: "om_find (co_records s) k = Some r" and run: "transition_locked r RsRevoked at reason cx 0 s = (Inr a, s')"
  shows "sound s s'"
  using transition_effect [OF run] sound_end [OF found] by (auto simp: transitioned_def)

lemma resolve_loop_sound: "ends_in sound (resolve_loop n cx resource ceiling now)"
proof (induction n)
  case 0
  then show ?case by (simp add: ends_in_def sound.R_refl)
next
  case (Suc n)
  show ?case
  proof (rule ends_inI)
    fix s x s' assume run: "resolve_loop (Suc n) cx resource ceiling now s = (Inr x, s')"
    show "sound s s'"
    proof (cases "s' = s")
      case False
      with run obtain k victim reason cx' a s1 where found: "om_find (co_records s) k = Some victim"
        and step: "transition_locked victim RsRevoked now reason cx' 0 s = (Inr a, s1)"
        and rest: "resolve_loop n cx resource ceiling now s1 = (Inr x, s')"
        by (auto simp: Let_def andThen_Inr find_record_locked_def split: if_splits option.splits)
      show ?thesis by (rule sound.R_trans [OF revocation_sound [OF found step] ends_inD [OF Suc rest]])
    qed (simp add: sound.R_refl)
  qed
qed

lemma resolve_overcommit_sound: "ends_in sound (resolve_overcommit cx resource resolution)"
proof -
  note quiets = quiet_ops(1,5) [THEN life_quiet, THEN sound_of_life] quiet_requests(1,4) [THEN life_quiet, THEN sound_of_life]
  have "ends_in sound (case found of
         None \<Rightarrow> fail ENotFound
       | Some e \<Rightarrow>
           andThen (if resolution = OrRevoke then resolve_loop 4097 cx resource (ledger_ceiling e) now else ret ()) (\<lambda>_.
           andThen (gets (\<lambda>s. overcommit_record resource e (peak_committed (co_index s) resource horizon) now True)) (\<lambda>m.
           andThen (append_locked (DrOvercommit m)) (\<lambda>_.
             modify (enter_overcommit m)))))" for found now
    by (cases found)
      (auto intro!: sound.ends_andThen sound.ends_pure resolve_loop_sound quiets)
  then show ?thesis unfolding resolve_overcommit_def
    by (intro sound.ends_andThen sound.ends_pure quiets)
qed

end
