(* ===== verification/Brf_Runs.thy ===== *)
theory Brf_Runs
  imports Brf_Amend_Life
begin

text \<open>
  Runs of the coordinator: sequences of requests of its public interface, refusals and idle steps. The theorems
  state the lifecycle invariant along every orderly run, with what it means for the coordinator's own audit, and the
  legality of every move along the lawful ones.
\<close>

subsection \<open>Runs of the coordinator\<close>

text \<open>The operations of the public interface that may change the state.\<close>

datatype request =
    RqIngestCapacity capacity_snapshot "name list" request_context
  | RqIngestPaths path_authority_snapshot request_context
  | RqIngestPolicy policy_record request_context
  | RqRegisterClaimant identity counter request_context
  | RqFence request_context identity counter identity identity bool
  | RqCreate request_context reservation_terms identity bool "identity list"
  | RqAmend request_context identity counter reservation_terms bool
  | RqRelease request_context identity counter
  | RqRecall request_context identity counter timestamp duration bool
  | RqRevoke request_context identity counter
  | RqRevalidate request_context identity counter bool
  | RqReconcileAttempt request_context identity
  | RqReconcileLifecycle request_context
  | RqGetReservation identity counter
  | RqQueryClaimant identity bool
  | RqQueryResource name interval bool
  | RqQueryRemaining name interval
  | RqQueryTimeline name interval nat
  | RqExplainConflicts reservation_terms identity
  | RqAcquireHold request_context reservation_terms timestamp
  | RqReleaseHold request_context identity counter
  | RqReleaseSession request_context
  | RqResolveOvercommit request_context name overcommit_resolution
  | RqCompact
  | RqBeginShutdown

definition performed :: "'a coord_op \<Rightarrow> unit coord_op" where
  "performed m = andThen m (\<lambda>_. ret ())"

fun perform :: "request \<Rightarrow> unit coord_op" where
  "perform (RqIngestCapacity v withdrawals cx) = ingest_capacity_locked v withdrawals cx"
| "perform (RqIngestPaths v cx) = ingest_paths_locked v cx"
| "perform (RqIngestPolicy p cx) = ingest_policy_locked p cx"
| "perform (RqRegisterClaimant claimant gen cx) = register_claimant_locked claimant gen cx"
| "perform (RqFence cx claimant gen boot session wide) = fence_locked cx claimant gen boot session wide"
| "perform (RqCreate cx t i dry_run holds) = performed (create_locked cx t i dry_run holds)"
| "perform (RqAmend cx i gen t dry_run) = performed (amend_locked cx i gen t dry_run)"
| "perform (RqRelease cx i gen) = performed (release_locked cx i gen)"
| "perform (RqRecall cx i gen effective_at grace force) = performed (recall_locked cx i gen effective_at grace force)"
| "perform (RqRevoke cx i gen) = performed (revoke_locked cx i gen)"
| "perform (RqRevalidate cx i gen mark_stale) = performed (revalidate_locked cx i gen mark_stale)"
| "perform (RqReconcileAttempt cx attempt) = performed (reconcile_attempt_locked cx attempt)"
| "perform (RqReconcileLifecycle cx) = performed (reconcile_lifecycle_locked cx)"
| "perform (RqGetReservation i gen) = performed (get_reservation i gen)"
| "perform (RqQueryClaimant claimant all) = performed (query_claimant claimant all)"
| "perform (RqQueryResource n w all) = performed (query_resource n w all)"
| "perform (RqQueryRemaining n w) = performed (query_remaining n w)"
| "perform (RqQueryTimeline n w points) = performed (query_timeline n w points)"
| "perform (RqExplainConflicts t i) = performed (explain_conflicts t i)"
| "perform (RqAcquireHold cx t expires_at) = performed (acquire_hold cx t expires_at)"
| "perform (RqReleaseHold cx i gen) = performed (release_hold cx i gen)"
| "perform (RqReleaseSession cx) = release_session cx"
| "perform (RqResolveOvercommit cx resource resolution) = resolve_overcommit cx resource resolution"
| "perform RqCompact = compact_locked"
| "perform RqBeginShutdown = modify begin_shutdown"

text \<open>
  Requests whose effect on the records is in order: the identities derived for the members of a new series are
  distinct, and an amendment names a single reservation. A \<open>lawful\<close> request besides neither preempts nor
  revokes by overcommit resolution nor amends; these end records in whatever state they are.
\<close>

fun orderly :: "coordinator \<Rightarrow> request \<Rightarrow> bool" where
  "orderly s (RqCreate cx t i dry_run holds) =
     (rs_enabled (tm_recurrence t) \<longrightarrow>
        distinct (member_ids (derive_series_id (tm_claimant t) (cx_attempt cx) 2) (unat (rs_count (tm_recurrence t)))))"
| "orderly s (RqAmend cx i gen t dry_run) =
     (case om_find (co_records s) (i, gen) of None \<Rightarrow> True | Some r \<Rightarrow> \<not> rv_series_member r)"
| "orderly s q = True"

fun lawful :: "coordinator \<Rightarrow> request \<Rightarrow> bool" where
  "lawful s (RqCreate cx t i dry_run holds) =
     (orderly s (RqCreate cx t i dry_run holds) \<and> \<not> cfg_enable_preemption (co_config s))"
| "lawful s (RqAmend cx i gen t dry_run) = False"
| "lawful s (RqResolveOvercommit cx resource resolution) = (resolution = OrRetain)"
| "lawful s q = True"

text \<open>
  The runs from a state: requests that succeed; requests refused before or after their time reconciliation;
  and steps that leave the core alone, such as an advance of the clock.
\<close>

inductive runs :: "(coordinator \<Rightarrow> request \<Rightarrow> bool) \<Rightarrow> coordinator \<Rightarrow> coordinator \<Rightarrow> bool" for P s where
  start: "runs P s s"
| idle: "runs P s s1 \<Longrightarrow> core s2 = core s1 \<Longrightarrow> runs P s s2"
| refused: "runs P s s1 \<Longrightarrow> reconcile_locked now s1 = (Inr x, s2) \<Longrightarrow> core s3 = core s2 \<Longrightarrow> runs P s s3"
| request: "runs P s s1 \<Longrightarrow> P s1 q \<Longrightarrow> perform q s1 = (Inr x, s2) \<Longrightarrow> runs P s s2"

lemma performed_Inr: "performed m s = (Inr x, s') \<longleftrightarrow> (\<exists>y. m s = (Inr y, s'))"
  by (auto simp: performed_def andThen_Inr ret_def)

lemma life_performed: "ends_in life m \<Longrightarrow> ends_in life (performed m)"
  by (auto simp: ends_in_def performed_Inr)

lemma compact_locked_life: "ends_in life compact_locked"
  by (rule life_quiet) (auto simp: quiet_def compact_locked_def Let_def core_def split: prod.splits sum.splits)

lemma retain_life: "ends_in life (resolve_overcommit cx resource OrRetain)"
proof -
  have "ends_in life (case found of
         None \<Rightarrow> fail ENotFound
       | Some e \<Rightarrow>
           andThen (if OrRetain = OrRevoke then resolve_loop 4097 cx resource (ledger_ceiling e) now else ret ()) (\<lambda>_.
           andThen (gets (\<lambda>s. overcommit_record resource e (peak_committed (co_index s) resource horizon) now True)) (\<lambda>m.
           andThen (append_locked (DrOvercommit m)) (\<lambda>_.
             modify (enter_overcommit m)))))" for found now
    by (cases found) (auto intro!: life_rules)
  then show ?thesis unfolding resolve_overcommit_def by (intro life_rules)
qed

lemma reconcile_attempt_life: "ends_in life (reconcile_attempt_locked cx attempt)"
  unfolding reconcile_attempt_locked_def by (intro life_rules)

lemmas request_lives = ingest_capacity_life ingest_paths_life ingest_policy_life register_claimant_life fence_life
  life_performed [OF release_life] life_performed [OF recall_life] life_performed [OF revoke_life]
  life_performed [OF revalidate_life] life_performed [OF reconcile_attempt_life] life_performed [OF reconcile_lifecycle_life]
  life_performed [OF get_reservation_life] life_performed [OF query_claimant_life] life_performed [OF query_resource_life]
  life_performed [OF query_remaining_life] life_performed [OF query_timeline_life] life_performed [OF explain_conflicts_life]
  life_performed [OF acquire_hold_life] life_performed [OF release_hold_life] release_session_life compact_locked_life

lemma begin_shutdown_ends: "ends_in life (modify begin_shutdown :: unit coord_op)"
  by (rule life.ends_modify) (rule begin_shutdown_life)

lemma perform_life:
  "ends_in life (perform q) \<or> (\<exists>cx t i dry holds. q = RqCreate cx t i dry holds) \<or> (\<exists>cx i gen t dry. q = RqAmend cx i gen t dry) \<or>
   (\<exists>cx resource resolution. q = RqResolveOvercommit cx resource resolution)"
  by (cases q) (simp_all add: request_lives begin_shutdown_ends)

lemma perform_lawful:
  assumes run: "perform q s = (Inr x, s')" and "lawful s q"
  shows "life s s'"
  using perform_life [of q]
proof (elim disjE exE)
  assume "ends_in life (perform q)"
  then show ?thesis using run by (rule ends_inD)
next
  fix cx t i dry holds assume "q = RqCreate cx t i dry holds"
  with assms show ?thesis by (auto simp: performed_Inr intro: life_commit.create_locked_R)
next
  fix cx resource resolution assume "q = RqResolveOvercommit cx resource resolution"
  with assms show ?thesis using ends_inD [OF retain_life] by auto
qed (use assms in simp)

lemma perform_orderly:
  assumes run: "perform q s = (Inr x, s')" and "orderly s q"
  shows "sound s s'"
  using perform_life [of q]
proof (elim disjE exE)
  assume "ends_in life (perform q)"
  then show ?thesis using run by (intro life_sound) (rule ends_inD)
next
  fix cx t i dry holds assume "q = RqCreate cx t i dry holds"
  with assms show ?thesis by (auto simp: performed_Inr intro: sound_commit.create_locked_R)
next
  fix cx i gen t dry assume "q = RqAmend cx i gen t dry"
  with assms show ?thesis by (auto simp: performed_Inr split: option.splits intro: amend_sound)
next
  fix cx resource resolution assume "q = RqResolveOvercommit cx resource resolution"
  with assms show ?thesis using ends_inD [OF resolve_overcommit_sound] by auto
qed

lemma runs_in:
  assumes run: "runs P s s'" and preorder: "step_preorder R" and of_life: "\<And>s s'. life s s' \<Longrightarrow> R s s'"
    and of_request: "\<And>q s x s'. P s q \<Longrightarrow> perform q s = (Inr x, s') \<Longrightarrow> R s s'"
  shows "R s s'"
  using run
proof (induction rule: runs.induct)
  case start
  show ?case by (rule step_preorder.R_refl [OF preorder])
next
  case (idle s1 s2)
  then show ?case using step_preorder.R_trans [OF preorder] of_life [OF life_core] by metis
next
  case (refused s1 now x s2 s3)
  then have "life s1 s3" using ends_inD [OF reconcile_life] life_core life_trans by metis
  with refused.IH show ?case by (blast intro: step_preorder.R_trans [OF preorder] of_life)
next
  case (request s1 q x s2)
  then show ?case by (blast intro: step_preorder.R_trans [OF preorder] of_request)
qed

lemma runs_sound: "runs orderly s s' \<Longrightarrow> sound s s'"
  using runs_in [of orderly, OF _ sound.step_preorder_axioms] life_sound perform_orderly by blast

lemma runs_life: "runs lawful s s' \<Longrightarrow> life s s'"
  using runs_in [of lawful, OF _ life.step_preorder_axioms] perform_lawful by blast

subsection \<open>What the audit finds\<close>

lemma distinct_occurs_once: "distinct xs \<Longrightarrow> length (filter ((=) i) xs) \<le> 1"
  by (induction xs) (auto simp: filter_empty_conv)

lemma coord_ok_audit:
  assumes ok: "coord_ok s"
  shows "audit_generations s = [] \<and> audit_queue s = []"
proof
  have m: "om_ok (co_records s)" using ok by (simp add: coord_ok_def records_ok_def)
  let ?live = "filter (\<lambda>(_, r). \<not> is_terminal (rv_state r)) (co_records s)"
  have one: "fst k = fst k' \<Longrightarrow> k = k'" if "(k, r) \<in> set ?live" "(k', r') \<in> set ?live" for k k' r r'
    using that generations_okD(4) [of s "fst k" "snd k" r] generations_okD(4) [of s "fst k'" "snd k'" r'] ok
    by (cases k; cases k') (auto simp: coord_ok_def om_find_iff [OF m])
  have "distinct (map fst (co_records s))" using m by (simp add: om_ok_def strict_sorted_iff)
  then have "distinct (map fst ?live)" by (simp add: distinct_map_filter)
  moreover have "inj_on fst (set (map fst ?live))" using one by (fastforce intro!: inj_onI)
  ultimately have "distinct (map fst (map fst ?live))" by (subst distinct_map) blast
  then have "distinct (map (\<lambda>(k, _). fst k) ?live)" by (simp add: case_prod_unfold comp_def)
  then have "length (filter ((=) i) (map (\<lambda>(k, _). fst k) ?live)) \<le> 1" for i
    by (rule distinct_occurs_once)
  then show "audit_generations s = []" by (auto simp: audit_generations_def Let_def filter_empty_conv not_less)
  show "audit_queue s = []"
    using ok by (auto simp: audit_queue_def coord_ok_def queues_ok_def queue_exact_def expiry_deadline_def split: option.splits if_splits)
qed

subsection \<open>The theorems\<close>

text \<open>C4: The lifecycle invariant is kept by every run of the coordinator, made of requests of the whole public interface
  (ingestion, fences, commits with preemption, series and holds, amendments of single reservations, lifecycle
  requests, overcommit resolution, queries, compaction and shutdown), of refusals and of idle steps. The records are
  filed under their key, the live and history counters are exact, the current generation of an identity is the
  greatest registered one and the only one that may be live, the attempt table is bounded and in step with its
  eviction order, and the time queues hold exactly the deadlines of the consuming records. The generation and queue
  rules of the coordinator's own audit therefore report nothing.
\<close>

theorem lifecycle_invariant:
  assumes "coord_ok s" and "runs orderly s s'" and "generations_left s'"
  shows "coord_ok s' \<and> audit_generations s' = [] \<and> audit_queue s' = []"
proof -
  have "coord_ok s'" using runs_sound [OF assms(2)] assms(1,3) by (simp add: sound_def)
  then show ?thesis using coord_ok_audit by blast
qed

text \<open>C5: Reservations only make legal moves. Along every run of lawful requests a record keeps its terms and authority and moves by
  legal steps; a terminal record is either untouched or retired, a record that is gone had a terminal
  state to be retired in, a retired generation never comes back, and a generation that appears was
  committed or active first.
\<close>

theorem lifecycle_legal:
  assumes "coord_ok s" and "runs lawful s s'" and "generations_left s'"
  shows "(\<forall>r. om_find (co_records s) (i, g) = Some r \<longrightarrow>
      (case om_find (co_records s') (i, g) of
         Some r' \<Rightarrow> legal_step\<^sup>*\<^sup>* (rv_state r) (rv_state r') \<and> rv_terms r' = rv_terms r \<and> rv_authority r' = rv_authority r \<and>
           (is_terminal (rv_state r) \<longrightarrow> rv_state r' = rv_state r)
       | None \<Rightarrow> \<exists>st. is_terminal st \<and> legal_step\<^sup>*\<^sup>* (rv_state r) st)) \<and>
    (registered s i g \<and> om_find (co_records s) (i, g) = None \<longrightarrow> om_find (co_records s') (i, g) = None) \<and>
    (\<forall>r'. \<not> registered s i g \<and> om_find (co_records s') (i, g) = Some r' \<longrightarrow>
       legal_step\<^sup>*\<^sup>* RsCommitted (rv_state r') \<or> legal_step\<^sup>*\<^sup>* RsActive (rv_state r'))"
proof (intro conjI allI impI)
  note life = runs_life [OF assms(2)]
  {
    fix r assume "om_find (co_records s) (i, g) = Some r"
    from lifeD(3) [OF life assms(1,3) this]
    show "case om_find (co_records s') (i, g) of
         Some r' \<Rightarrow> legal_step\<^sup>*\<^sup>* (rv_state r) (rv_state r') \<and> rv_terms r' = rv_terms r \<and> rv_authority r' = rv_authority r \<and>
           (is_terminal (rv_state r) \<longrightarrow> rv_state r' = rv_state r)
       | None \<Rightarrow> \<exists>st. is_terminal st \<and> legal_step\<^sup>*\<^sup>* (rv_state r) st"
      unfolding record_moved_def using moves_terminal by (auto simp: moves_def split: option.splits)
  next
    assume "registered s i g \<and> om_find (co_records s) (i, g) = None"
    then show "om_find (co_records s') (i, g) = None" using lifeD(4) [OF life assms(1,3)] by blast
  next
    fix r' assume "\<not> registered s i g \<and> om_find (co_records s') (i, g) = Some r'"
    then have "born r'" using lifeD(5) [OF life assms(1,3)] by blast
    then show "legal_step\<^sup>*\<^sup>* RsCommitted (rv_state r') \<or> legal_step\<^sup>*\<^sup>* RsActive (rv_state r')"
      by (simp add: born_def moves_def)
  }
qed


lemma booked_run:
  "\<exists>s' r'. runs P booked s' \<and> generations_left s' \<and> om_find (co_records s') (1, 1) = Some r' \<and> rv_state r' = RsReleased"
  if "P booked (RqRelease claimant_context 1 1)"
proof -
  obtain x s' r' where "release_locked claimant_context 1 1 booked = (Inr x, s')" "generations_left s'"
    "om_find (co_records s') (1, 1) = Some r'" "rv_state r' = RsReleased" using booked_release by auto
  moreover from this(1) have "perform (RqRelease claimant_context 1 1) booked = (Inr (), s')"
    by (simp add: performed_Inr)
  ultimately show ?thesis using runs.request [of P, OF runs.start that] by blast
qed

theorem lifecycle_invariant_witness:
  "coord_ok booked \<and> (\<exists>s' r'. runs orderly booked s' \<and> om_find (co_records s') (1, 1) = Some r' \<and>
     rv_state r' = RsReleased \<and> coord_ok s' \<and> audit_generations s' = [])"
proof -
  obtain s' r' where run: "runs orderly booked s'" "generations_left s'"
    and r': "om_find (co_records s') (1, 1) = Some r'" "rv_state r' = RsReleased" using booked_run [of orderly] by auto
  then show ?thesis using lifecycle_invariant [OF coord_ok_booked run] coord_ok_booked by blast
qed

theorem lifecycle_legal_witness:
  "\<exists>s' r'. runs lawful booked s' \<and> om_find (co_records s') (1, 1) = Some r' \<and> rv_state r' = RsReleased \<and>
     legal_step\<^sup>*\<^sup>* RsCommitted RsReleased \<and> rv_terms r' = sample_terms (mk_iv 10 20) 5"
proof -
  obtain s' r' where run: "runs lawful booked s'" "generations_left s'"
    and r': "om_find (co_records s') (1, 1) = Some r'" "rv_state r' = RsReleased" using booked_run [of lawful] by auto
  from lifecycle_legal [OF coord_ok_booked run, of 1 1] r'
  have "legal_step\<^sup>*\<^sup>* (rv_state (sample_record (mk_iv 10 20) 5)) RsReleased \<and> rv_terms r' = rv_terms (sample_record (mk_iv 10 20) 5)"
    unfolding booked_fields by simp
  then show ?thesis using run(1) r' sample_record_state(1) [of "mk_iv 10 20" 5] by (auto simp: sample_record_def)
qed

end
