(* ===== verification/Brf_Server.thy ===== *)
theory Brf_Server
  imports Brf_Protocol Brf_Runs
begin

text \<open>
  The sessions of the coordinator program, \<^verbatim>\<open>tools/brf_coordinator.cpp\<close>: a session reads frames from its
  connection, decodes the request each carries, calls the coordinator and answers. The theorem shows that a session
  is nothing but its requests: the state it leaves is the state after performing them in order.
\<close>

subsection \<open>Replies\<close>

text \<open>
  The responses a session sends, without their message texts. \<open>None\<close> is the answer of a query that failed, which the
  server sends as a successful response, and of the hold query, whose response carries no hold.
\<close>

datatype reply =
    RpError error_code admission_outcome
  | RpHello counter identity
  | RpStatus admission_outcome
  | RpCommit commit_result
  | RpAmendment amendment_result
  | RpLifecycle lifecycle_result
  | RpReconciliation admission_outcome attempt_reconciliation
  | RpReservation "reservation_record option"
  | RpReservations "reservation_record list option"
  | RpRemaining "remaining_capacity list option"
  | RpReport admission_report
  | RpTimeline capacity_timeline
  | RpLineage lineage_view
  | RpOvercommit "overcommit_entry list \<times> bool"
  | RpStats stats_view
  | RpHold "hold_record option"

definition answer_with :: "('a \<Rightarrow> reply) \<Rightarrow> 'a coord_op \<Rightarrow> coordinator \<Rightarrow> reply \<times> coordinator" where
  "answer_with f m s =
     (case m s of (Inl e, s') \<Rightarrow> (RpError e AoInvalidRequest, s') | (Inr x, s') \<Rightarrow> (f x, s'))"

definition answer_found :: "('a option \<Rightarrow> reply) \<Rightarrow> 'a coord_op \<Rightarrow> coordinator \<Rightarrow> reply \<times> coordinator" where
  "answer_found f m s = (case m s of (Inl e, s') \<Rightarrow> (f None, s') | (Inr x, s') \<Rightarrow> (f (Some x), s'))"

abbreviation done_reply :: "unit \<Rightarrow> reply" where
  "done_reply _ \<equiv> RpStatus AoCommittable"

subsection \<open>Dispatch\<close>

definition dispatch_ingest_capacity :: "capacity_ingest_request \<Rightarrow> coordinator \<Rightarrow> reply \<times> coordinator" where
  "dispatch_ingest_capacity v = answer_with done_reply (ingest_capacity_locked (qc_snapshot v) (qc_withdrawals v) (qc_context v))"

definition dispatch_ingest_paths :: "path_ingest_request \<Rightarrow> coordinator \<Rightarrow> reply \<times> coordinator" where
  "dispatch_ingest_paths v = answer_with done_reply (ingest_paths_locked (qp_snapshot v) (qp_context v))"

definition dispatch_ingest_policy :: "policy_ingest_request \<Rightarrow> coordinator \<Rightarrow> reply \<times> coordinator" where
  "dispatch_ingest_policy v = answer_with done_reply (ingest_policy_locked (qo_record v) (qo_context v))"

definition dispatch_register_claimant :: "claimant_registration_request \<Rightarrow> coordinator \<Rightarrow> reply \<times> coordinator" where
  "dispatch_register_claimant v = answer_with done_reply (register_claimant_locked (qr_claimant v) (qr_generation v) (qr_context v))"

definition dispatch_fence :: "fence_request \<Rightarrow> coordinator \<Rightarrow> reply \<times> coordinator" where
  "dispatch_fence v = answer_with done_reply
     (fence_locked (qf_context v) (qf_claimant v) (qf_claimant_generation v) (qf_boot v) (qf_session v) (qf_claimant_wide v))"

definition dispatch_create :: "message_type \<Rightarrow> reservation_create_request \<Rightarrow> coordinator \<Rightarrow> reply \<times> coordinator" where
  "dispatch_create t v = answer_with RpCommit
     (create_locked (qn_context v) (qn_terms v) (qn_requested_id v) (t = MtValidate \<or> qn_dry_run v) (qn_consume_holds v))"

definition dispatch_explain :: "reservation_create_request \<Rightarrow> coordinator \<Rightarrow> reply \<times> coordinator" where
  "dispatch_explain v = answer_with RpReport (explain_conflicts (qn_terms v) (qn_requested_id v))"

definition dispatch_amend :: "amendment_request \<Rightarrow> coordinator \<Rightarrow> reply \<times> coordinator" where
  "dispatch_amend v = answer_with RpAmendment
     (amend_locked (qm_context v) (qm_target v) (qm_target_generation v) (qm_terms v) (qm_dry_run v))"

definition dispatch_release_or_revoke :: "message_type \<Rightarrow> reservation_ref_request \<Rightarrow> coordinator \<Rightarrow> reply \<times> coordinator" where
  "dispatch_release_or_revoke t v = answer_with RpLifecycle
     (if t = MtRelease then release_locked (qe_context v) (qe_id v) (qe_generation v)
      else revoke_locked (qe_context v) (qe_id v) (qe_generation v))"

definition dispatch_get_reservation :: "reservation_ref_request \<Rightarrow> coordinator \<Rightarrow> reply \<times> coordinator" where
  "dispatch_get_reservation v = answer_found RpReservation (get_reservation (qe_id v) (qe_generation v))"

definition dispatch_recall :: "recall_request \<Rightarrow> coordinator \<Rightarrow> reply \<times> coordinator" where
  "dispatch_recall v = answer_with RpLifecycle
     (recall_locked (ql_context v) (ql_id v) (ql_generation v) (ql_effective_at v) (ql_grace v) (ql_force v))"

definition dispatch_revalidate :: "revalidate_request \<Rightarrow> coordinator \<Rightarrow> reply \<times> coordinator" where
  "dispatch_revalidate v = answer_with RpLifecycle
     (revalidate_locked (qv_context v) (qv_id v) (qv_generation v) (qv_mark_stale v))"

definition dispatch_reconcile_attempt :: "attempt_request \<Rightarrow> coordinator \<Rightarrow> reply \<times> coordinator" where
  "dispatch_reconcile_attempt v =
     answer_with (\<lambda>r. RpReconciliation (if rn_committed r then AoCommittable else AoInvalidRequest) r)
       (reconcile_attempt_locked (qt_context v) (qt_attempt v))"

definition dispatch_reconcile_lifecycle :: "lifecycle_reconcile_request \<Rightarrow> coordinator \<Rightarrow> reply \<times> coordinator" where
  "dispatch_reconcile_lifecycle v = answer_with RpLifecycle (reconcile_lifecycle_locked (qk_context v))"

definition dispatch_session_release :: "lifecycle_reconcile_request \<Rightarrow> coordinator \<Rightarrow> reply \<times> coordinator" where
  "dispatch_session_release v = answer_with done_reply (release_session (qk_context v))"

definition dispatch_query_claimant :: "claimant_query_request \<Rightarrow> coordinator \<Rightarrow> reply \<times> coordinator" where
  "dispatch_query_claimant v = answer_found RpReservations (query_claimant (qy_claimant v) (qy_include_terminal v))"

definition dispatch_query_resource :: "query_request \<Rightarrow> coordinator \<Rightarrow> reply \<times> coordinator" where
  "dispatch_query_resource v = answer_found RpReservations (query_resource (qq_resource v) (qq_window v) (qq_include_terminal v))"

definition dispatch_query_remaining :: "query_request \<Rightarrow> coordinator \<Rightarrow> reply \<times> coordinator" where
  "dispatch_query_remaining v = answer_found RpRemaining (query_remaining (qq_resource v) (qq_window v))"

definition dispatch_timeline :: "query_request \<Rightarrow> coordinator \<Rightarrow> reply \<times> coordinator" where
  "dispatch_timeline v = answer_with RpTimeline (query_timeline (qq_resource v) (qq_window v) 64)"

definition dispatch_lineage :: "lineage_request \<Rightarrow> coordinator \<Rightarrow> reply \<times> coordinator" where
  "dispatch_lineage v s =
     (case query_lineage s (qg_id v) (qg_generation v) of
        Inl e \<Rightarrow> (RpError e AoInvalidRequest, s)
      | Inr view \<Rightarrow> (RpLineage view, s))"

definition dispatch_hold_acquire :: "hold_acquire_request \<Rightarrow> coordinator \<Rightarrow> reply \<times> coordinator" where
  "dispatch_hold_acquire v = answer_with (\<lambda>h. RpHold (Some h)) (acquire_hold (qh_context v) (qh_terms v) (qh_expires_at v))"

definition dispatch_hold_release :: "hold_release_request \<Rightarrow> coordinator \<Rightarrow> reply \<times> coordinator" where
  "dispatch_hold_release v = answer_with RpHold (release_hold (qx_context v) (qx_id v) (qx_generation v))"

text \<open>The case of the \<^verbatim>\<open>switch\<close> a decoded payload goes to.\<close>

fun dispatch_request :: "message_type \<Rightarrow> wire_request \<Rightarrow> coordinator \<Rightarrow> reply \<times> coordinator" where
  "dispatch_request t (WqHello v) s = (RpHello (co_epoch s) (co_boot s), s)"
| "dispatch_request t (WqIngestCapacity v) s = dispatch_ingest_capacity v s"
| "dispatch_request t (WqIngestPathAuthority v) s = dispatch_ingest_paths v s"
| "dispatch_request t (WqIngestPolicy v) s = dispatch_ingest_policy v s"
| "dispatch_request t (WqRegisterClaimant v) s = dispatch_register_claimant v s"
| "dispatch_request t (WqFence v) s = dispatch_fence v s"
| "dispatch_request t (WqCreate v) s = (if t = MtExplainConflicts then dispatch_explain v s else dispatch_create t v s)"
| "dispatch_request t (WqAmend v) s = dispatch_amend v s"
| "dispatch_request t (WqReservationRef v) s =
     (if t = MtGetReservation then dispatch_get_reservation v s else dispatch_release_or_revoke t v s)"
| "dispatch_request t (WqRecall v) s = dispatch_recall v s"
| "dispatch_request t (WqRevalidate v) s = dispatch_revalidate v s"
| "dispatch_request t (WqAttempt v) s = dispatch_reconcile_attempt v s"
| "dispatch_request t (WqLifecycleReconcile v) s =
     (if t = MtSessionRelease then dispatch_session_release v s else dispatch_reconcile_lifecycle v s)"
| "dispatch_request t (WqQuery v) s =
     (if t = MtQueryRemaining then dispatch_query_remaining v s
      else if t = MtTimeline then dispatch_timeline v s
      else dispatch_query_resource v s)"
| "dispatch_request t (WqClaimantQuery v) s = dispatch_query_claimant v s"
| "dispatch_request t (WqLineage v) s = dispatch_lineage v s"
| "dispatch_request t (WqHoldAcquire v) s = dispatch_hold_acquire v s"
| "dispatch_request t (WqHoldRelease v) s = dispatch_hold_release v s"

lemmas dispatch_defs = dispatch_ingest_capacity_def dispatch_ingest_paths_def dispatch_ingest_policy_def
  dispatch_register_claimant_def dispatch_fence_def dispatch_create_def dispatch_explain_def dispatch_amend_def
  dispatch_release_or_revoke_def dispatch_get_reservation_def dispatch_recall_def dispatch_revalidate_def
  dispatch_reconcile_attempt_def dispatch_reconcile_lifecycle_def dispatch_session_release_def
  dispatch_query_claimant_def dispatch_query_resource_def dispatch_query_remaining_def dispatch_timeline_def
  dispatch_lineage_def dispatch_hold_acquire_def dispatch_hold_release_def

fun dispatch_type :: "message_type \<Rightarrow> bytes \<Rightarrow> coordinator \<Rightarrow> reply \<times> coordinator" where
  "dispatch_type MtOvercommitReport payload s = (RpOvercommit (overcommit_report s), s)"
| "dispatch_type MtStats payload s = (RpStats (stats s), s)"
| "dispatch_type MtDurableReplay payload s = (RpStats (stats s), s)"
| "dispatch_type MtHoldQuery payload s = (RpHold None, s)"
| "dispatch_type MtHelloAck payload s = (RpError EUnsupported AoUnsupported, s)"
| "dispatch_type MtShutdown payload s = (RpError EUnsupported AoUnsupported, s)"
| "dispatch_type MtOk payload s = (RpError EUnsupported AoUnsupported, s)"
| "dispatch_type MtError payload s = (RpError EUnsupported AoUnsupported, s)"
| "dispatch_type t payload s =
     (case dec_wire t payload of
        Inl e \<Rightarrow> (RpError e AoInvalidRequest, s)
      | Inr (q, _) \<Rightarrow> dispatch_request t q s)"

definition dispatch :: "frame \<Rightarrow> coordinator \<Rightarrow> reply \<times> coordinator" where
  "dispatch f s =
     (case message_of (fr_type f) of
        None \<Rightarrow> (RpError EUnsupported AoUnsupported, s)
      | Some t \<Rightarrow> dispatch_type t (fr_payload f) s)"

subsection \<open>Sessions\<close>

lemma read_frame_shorter: "read_frame kMaxFrameBytes stream = Inr (f, rest) \<Longrightarrow> length rest < length stream"
  by (simp add: read_frame_Inr kMaxFrameBytes_def encode_frame_header kFrameHeaderBytes_def [symmetric])
    (simp add: kFrameHeaderBytes_def)

text \<open>
  A session reads frames until the peer closes, a frame is malformed, a shutdown is asked for, or it does not go on
  after a reply: the reply could not be sent or the server is stopping (\<open>goes_on\<close>). It returns the replies, the
  state, and whether a shutdown was asked for.
\<close>

function serve :: "(reply \<Rightarrow> bool) \<Rightarrow> bytes \<Rightarrow> coordinator \<Rightarrow> reply list \<times> coordinator \<times> bool" where
  "serve goes_on stream s =
     (case read_frame kMaxFrameBytes stream of
        Inl _ \<Rightarrow> ([], s, False)
      | Inr (f, rest) \<Rightarrow>
          if fr_type f = message_number MtShutdown then ([RpStatus AoCommittable], s, True)
          else (case dispatch f s of (r, s1) \<Rightarrow>
                  if goes_on r then (case serve goes_on rest s1 of (rs, s2, stop) \<Rightarrow> (r # rs, s2, stop))
                  else ([r], s1, False)))"
  by pat_completeness auto

termination
  by (relation "measure (\<lambda>(_, stream, _). length stream)") (auto dest: read_frame_shorter)

declare serve.simps [simp del]

subsection \<open>What a session asks of the coordinator\<close>

text \<open>The frames of a stream, up to the first that ends the session, and the request each stands for.\<close>

function frames_of :: "bytes \<Rightarrow> frame list" where
  "frames_of stream =
     (case read_frame kMaxFrameBytes stream of
        Inl _ \<Rightarrow> []
      | Inr (f, rest) \<Rightarrow> if fr_type f = message_number MtShutdown then [] else f # frames_of rest)"
  by pat_completeness auto

termination
  by (relation "measure length") (auto dest: read_frame_shorter)

declare frames_of.simps [simp del]

fun request_for :: "message_type \<Rightarrow> wire_request \<Rightarrow> request option" where
  "request_for t (WqHello v) = None"
| "request_for t (WqIngestCapacity v) = Some (RqIngestCapacity (qc_snapshot v) (qc_withdrawals v) (qc_context v))"
| "request_for t (WqIngestPathAuthority v) = Some (RqIngestPaths (qp_snapshot v) (qp_context v))"
| "request_for t (WqIngestPolicy v) = Some (RqIngestPolicy (qo_record v) (qo_context v))"
| "request_for t (WqRegisterClaimant v) = Some (RqRegisterClaimant (qr_claimant v) (qr_generation v) (qr_context v))"
| "request_for t (WqFence v) =
     Some (RqFence (qf_context v) (qf_claimant v) (qf_claimant_generation v) (qf_boot v) (qf_session v) (qf_claimant_wide v))"
| "request_for t (WqCreate v) =
     Some (if t = MtExplainConflicts then RqExplainConflicts (qn_terms v) (qn_requested_id v)
           else RqCreate (qn_context v) (qn_terms v) (qn_requested_id v) (t = MtValidate \<or> qn_dry_run v) (qn_consume_holds v))"
| "request_for t (WqAmend v) = Some (RqAmend (qm_context v) (qm_target v) (qm_target_generation v) (qm_terms v) (qm_dry_run v))"
| "request_for t (WqReservationRef v) =
     Some (if t = MtGetReservation then RqGetReservation (qe_id v) (qe_generation v)
           else if t = MtRelease then RqRelease (qe_context v) (qe_id v) (qe_generation v)
           else RqRevoke (qe_context v) (qe_id v) (qe_generation v))"
| "request_for t (WqRecall v) =
     Some (RqRecall (ql_context v) (ql_id v) (ql_generation v) (ql_effective_at v) (ql_grace v) (ql_force v))"
| "request_for t (WqRevalidate v) = Some (RqRevalidate (qv_context v) (qv_id v) (qv_generation v) (qv_mark_stale v))"
| "request_for t (WqAttempt v) = Some (RqReconcileAttempt (qt_context v) (qt_attempt v))"
| "request_for t (WqLifecycleReconcile v) =
     Some (if t = MtSessionRelease then RqReleaseSession (qk_context v) else RqReconcileLifecycle (qk_context v))"
| "request_for t (WqQuery v) =
     Some (if t = MtQueryRemaining then RqQueryRemaining (qq_resource v) (qq_window v)
           else if t = MtTimeline then RqQueryTimeline (qq_resource v) (qq_window v) 64
           else RqQueryResource (qq_resource v) (qq_window v) (qq_include_terminal v))"
| "request_for t (WqClaimantQuery v) = Some (RqQueryClaimant (qy_claimant v) (qy_include_terminal v))"
| "request_for t (WqLineage v) = None"
| "request_for t (WqHoldAcquire v) = Some (RqAcquireHold (qh_context v) (qh_terms v) (qh_expires_at v))"
| "request_for t (WqHoldRelease v) = Some (RqReleaseHold (qx_context v) (qx_id v) (qx_generation v))"

definition request_of :: "frame \<Rightarrow> request option" where
  "request_of f =
     (case message_of (fr_type f) of
        None \<Rightarrow> None
      | Some t \<Rightarrow> (case dec_wire t (fr_payload f) of Inl _ \<Rightarrow> None | Inr (q, _) \<Rightarrow> request_for t q))"

definition perform_frame :: "frame \<Rightarrow> coordinator \<Rightarrow> coordinator" where
  "perform_frame f s = (case request_of f of None \<Rightarrow> s | Some q \<Rightarrow> snd (perform q s))"

lemma snd_performed [simp]: "snd (performed m s) = snd (m s)"
  by (auto simp: performed_def andThen_def ret_def split: prod.splits sum.splits)

lemma snd_answers [simp]: "snd (answer_with f m s) = snd (m s)" "snd (answer_found g m s) = snd (m s)"
  by (auto simp: answer_with_def answer_found_def split: prod.splits sum.splits)

lemma dispatch_request_performs:
  "snd (dispatch_request t q s) = (case request_for t q of None \<Rightarrow> s | Some r \<Rightarrow> snd (perform r s))"
  by (cases q) (simp_all add: dispatch_defs split: sum.splits)

lemma dispatch_performs: "snd (dispatch f s) = perform_frame f s"
proof (cases "message_of (fr_type f)")
  case (Some t)
  then show ?thesis
    by (cases t) (auto simp: dispatch_def perform_frame_def request_of_def dispatch_request_performs split: sum.splits)
qed (simp add: dispatch_def perform_frame_def request_of_def)

lemma serve_performs:
  "serve goes_on stream s = (rs, s', stop) \<Longrightarrow> s' = fold perform_frame (take (length rs) (frames_of stream)) s"
proof (induction goes_on stream s arbitrary: rs s' stop rule: serve.induct)
  case (1 goes_on stream s)
  show ?case
  proof (cases "read_frame kMaxFrameBytes stream")
    case (Inl e)
    with "1.prems" show ?thesis by (simp add: serve.simps [of _ stream] frames_of.simps [of stream])
  next
    case (Inr p)
    obtain f rest where p: "p = (f, rest)" by (cases p)
    note parse = frames_of.simps [of stream, unfolded Inr p, simplified]
    note step = "1.prems" [unfolded serve.simps [of _ stream] Inr p, simplified]
    obtain r s1 where d: "dispatch f s = (r, s1)" by (cases "dispatch f s")
    then have s1: "s1 = perform_frame f s" using dispatch_performs [of f s] by simp
    show ?thesis
    proof (cases "fr_type f = message_number MtShutdown \<or> \<not> goes_on r")
      case True
      with step d s1 show ?thesis by (auto simp: parse)
    next
      case False
      with step d obtain rs' where "serve goes_on rest s1 = (rs', s', stop)" "rs = r # rs'"
        by (auto split: prod.splits)
      with "1.IH" [OF Inr p [symmetric] _ d [symmetric]] False s1 show ?thesis by (simp add: parse)
    qed
  qed
qed

text \<open>A session does to the coordinator exactly what its frames ask for, in their order: the state it leaves is the state
  after performing the requests decoded from the frames it answered. Frames of an unassigned type, payloads that
  do not decode and the reports change nothing, and bytes that are not a frame end the session.
\<close>

theorem session_refines:
  assumes "serve goes_on stream s = (rs, s', stop)"
  shows "s' = fold perform_frame (take (length rs) (frames_of stream)) s \<and>
    (request_of f = None \<longrightarrow> perform_frame f s = s) \<and>
    (message_of (fr_type f) = None \<longrightarrow> dispatch f s = (RpError EUnsupported AoUnsupported, s))"
  using serve_performs [OF assms] by (simp add: perform_frame_def dispatch_def)

theorem session_refines_witness:
  "serve (\<lambda>_. True) (encode_frame 3 [] @ [0]) (sample_coordinator 10) = ([RpError EUnsupported AoUnsupported], sample_coordinator 10, False) \<and>
   sample_coordinator 10 = fold perform_frame (take 1 (frames_of (encode_frame 3 [] @ [0]))) (sample_coordinator 10)"
proof -
  let ?f = "\<lparr>fr_type = 3, fr_payload = []\<rparr>"
  have first: "read_frame kMaxFrameBytes (encode_frame 3 [] @ [0]) = Inr (?f, [0])"
    by (simp add: read_frame_Inr kMaxFrameBytes_def kFrameHeaderBytes_def)
  have last: "read_frame kMaxFrameBytes [0] = Inl ECancelled"
    by (simp add: read_frame_def receive_exact_def kFrameHeaderBytes_def)
  have "message_of 3 = None" by (simp add: message_of_def message_numbers_def)
  then have "dispatch ?f s = (RpError EUnsupported AoUnsupported, s)" for s by (simp add: dispatch_def)
  moreover have "message_number MtShutdown = 60" by (simp add: message_number_def message_numbers_def)
  ultimately have run: "serve (\<lambda>_. True) (encode_frame 3 [] @ [0]) (sample_coordinator 10) =
      ([RpError EUnsupported AoUnsupported], sample_coordinator 10, False)"
    by (simp add: serve.simps [of _ "encode_frame 3 [] @ [0]"] first serve.simps [of _ "[0]"] last)
  from session_refines [OF this] run show ?thesis by simp
qed

end
