(* ===== verification/Brf_Exchange.thy ===== *)
theory Brf_Exchange
  imports Brf_Responses Brf_Server "HOL-Library.Sublist"
begin

text \<open>
  Remote calls: how a session of \<^verbatim>\<open>tools/brf_coordinator.cpp\<close> builds its responses and sends them, how a client
  (\<^verbatim>\<open>tools/brf_probe.cpp\<close>) exchanges one request for one response, and several sessions on one coordinator.

  The texts the coordinator's results leave out, the recovery report of the boot and the identity of the store are
  the fields of \<open>server_env\<close>.
\<close>

subsection \<open>Default-constructed values\<close>

definition default_terms :: reservation_terms where
  "default_terms = \<lparr>tm_claimant = 0, tm_claimant_generation = 0, tm_binding_kind = BkResources, tm_resources = [],
     tm_path = [], tm_required_path_generation = 0, tm_interval = \<lparr>iv_start = 0, iv_end = 0\<rparr>, tm_amount = 0,
     tm_minimum_amount = None, tm_maximum_amount = None, tm_guarantee = GcGuaranteed, tm_priority = 0,
     tm_preemptible = False, tm_recall_permitted = False, tm_grace = 0, tm_headroom_requirement = 0, tm_policy = [],
     tm_policy_labels = [], tm_recurrence = \<lparr>rs_enabled = False, rs_period = 0, rs_count = 1\<rparr>\<rparr>"

definition default_authority :: authority_vector where
  "default_authority = \<lparr>av_fabric_epoch = 0, av_reservation_generation = 0, av_claimant = 0, av_claimant_generation = 0,
     av_capacity_snapshot = 0, av_capacity_generation = 0, av_policy = [], av_policy_generation = 0,
     av_path_generation = 0, av_resources = [], av_failure_domains = []\<rparr>"

definition default_record :: reservation_record where
  "default_record = \<lparr>rv_id = 0, rv_generation = 0, rv_series_member = False, rv_series = 0, rv_series_index = 0,
     rv_terms = default_terms, rv_authority = default_authority, rv_state = RsDeclared, rv_applicability = ApCurrent,
     rv_applicability_reason = ArCurrent, rv_declared_at = 0, rv_committed_at = 0, rv_activated_at = 0,
     rv_state_changed_at = 0, rv_recall_effective_at = 0, rv_recall_grace = 0, rv_terminated_at = 0,
     rv_predecessor = 0, rv_predecessor_generation = 0, rv_state_reason = [], rv_last_provenance = blank_provenance,
     rv_sequence = 0\<rparr>"

definition default_series :: reservation_series where
  "default_series = \<lparr>sr_id = 0, sr_generation = 0, sr_claimant = 0, sr_claimant_generation = 0,
     sr_spec = \<lparr>rs_enabled = False, rs_period = 0, rs_count = 1\<rparr>, sr_first_interval = \<lparr>iv_start = 0, iv_end = 0\<rparr>,
     sr_amount = 0, sr_state = RsDeclared, sr_created_at = 0, sr_state_changed_at = 0,
     sr_predecessor_series_generation = 0, sr_predecessor_generation = 0, sr_members = [],
     sr_last_provenance = blank_provenance, sr_sequence = 0\<rparr>"

definition default_hold :: hold_record where
  "default_hold = \<lparr>hd_id = 0, hd_generation = 0, hd_claimant = 0, hd_claimant_generation = 0, hd_session = 0, hd_boot = 0,
     hd_epoch = 0, hd_binding_kind = BkResources, hd_resources = [], hd_path = [], hd_path_generation = 0,
     hd_interval = \<lparr>iv_start = 0, iv_end = 0\<rparr>, hd_amount = 0, hd_guarantee = GcGuaranteed, hd_created_at = 0,
     hd_expires_at = 0, hd_released = False, hd_released_at = 0, hd_release_reason = []\<rparr>"

definition present_or :: "'a \<Rightarrow> 'a option \<Rightarrow> 'a" where
  "present_or d x = (case x of None \<Rightarrow> d | Some v \<Rightarrow> v)"

subsection \<open>Building a response\<close>

record server_env =
  sx_text :: "reply \<Rightarrow> string"
  sx_recovery :: detailed_recovery
  sx_store :: identity

definition explained :: "string \<Rightarrow> admission_report \<Rightarrow> explained_report" where
  "explained text r = admission_report.extend r (explained_report.fields text)"

definition noted :: "string \<Rightarrow> attempt_reconciliation \<Rightarrow> noted_reconciliation" where
  "noted text r = attempt_reconciliation.extend r (noted_reconciliation.fields text)"

definition commit_sent :: "string \<Rightarrow> commit_result \<Rightarrow> commit_message" where
  "commit_sent text c =
     \<lparr>wc_record = present_or default_record (cr_record c),
      wc_series = (if cr_has_series c then Some (present_or default_series (cr_series c)) else None),
      wc_members = cr_members c, wc_report = explained text (cr_report c), wc_replayed = cr_replayed c,
      wc_attempt = cr_attempt c, wc_sequence = cr_sequence c\<rparr>"

definition amendment_sent :: "string \<Rightarrow> amendment_result \<Rightarrow> amendment_message" where
  "amendment_sent text a =
     \<lparr>wa_predecessor = present_or default_record (ad_predecessor a),
      wa_successor = present_or default_record (ad_successor a),
      wa_series = (if ad_has_series a then Some (present_or default_series (ad_series a)) else None),
      wa_members = ad_members a, wa_report = explained text (ad_report a), wa_replayed = ad_replayed a\<rparr>"

definition lifecycle_sent :: "lifecycle_result \<Rightarrow> lifecycle_message" where
  "lifecycle_sent l =
     \<lparr>wl_record = present_or default_record (lr_record l), wl_replayed = lr_replayed l, wl_transitions = lr_transitions l\<rparr>"

text \<open>
  The response of each reply. The explanation of a commit or an amendment is sent twice, as the message of the response
  and inside the report.
\<close>

fun response_of :: "server_env \<Rightarrow> reply \<Rightarrow> wire_response" where
  "response_of env (RpError e ao) =
     WrError \<lparr>re_code = e, re_outcome = ao, re_message = sx_text env (RpError e ao)\<rparr>"
| "response_of env (RpHello epoch boot) =
     WrHello \<lparr>hp_protocol_version = kWireProtocolVersion, hp_epoch = epoch, hp_coordinator_boot = boot,
       hp_store = sx_store env, hp_max_frame_bytes = of_nat kMaxFrameBytes, hp_durable_writable = True\<rparr>"
| "response_of env (RpStatus ao) =
     WrStatus \<lparr>rp_outcome = ao, rp_message = sx_text env (RpStatus ao), rp_reservation = 0, rp_generation = 0, rp_sequence = 0\<rparr>"
| "response_of env (RpCommit c) =
     WrCommit \<lparr>xc_outcome = ar_outcome (cr_report c), xc_message = sx_text env (RpCommit c),
       xc_result = commit_sent (sx_text env (RpCommit c)) c\<rparr>"
| "response_of env (RpAmendment a) =
     WrAmendment \<lparr>xa_outcome = ar_outcome (ad_report a), xa_message = sx_text env (RpAmendment a),
       xa_result = amendment_sent (sx_text env (RpAmendment a)) a\<rparr>"
| "response_of env (RpLifecycle l) =
     WrLifecycle \<lparr>xl_outcome = AoCommittable, xl_message = sx_text env (RpLifecycle l), xl_result = lifecycle_sent l\<rparr>"
| "response_of env (RpReconciliation ao r) =
     WrReconciliation \<lparr>xn_outcome = ao, xn_reconciliation = noted (sx_text env (RpReconciliation ao r)) r\<rparr>"
| "response_of env (RpReservation None) =
     WrReservation \<lparr>xr_outcome = AoInvalidRequest, xr_message = sx_text env (RpReservation None), xr_found = False,
       xr_record = default_record\<rparr>"
| "response_of env (RpReservation (Some r)) =
     WrReservation \<lparr>xr_outcome = AoCommittable, xr_message = rv_state_reason r, xr_found = True, xr_record = r\<rparr>"
| "response_of env (RpReservations None) =
     WrReservationList \<lparr>xq_outcome = AoInvalidRequest, xq_message = sx_text env (RpReservations None), xq_records = [],
       xq_truncated = False\<rparr>"
| "response_of env (RpReservations (Some rs)) =
     WrReservationList \<lparr>xq_outcome = AoCommittable, xq_message = [], xq_records = rs, xq_truncated = False\<rparr>"
| "response_of env (RpRemaining None) =
     WrRemaining \<lparr>xm_outcome = AoInvalidRequest, xm_message = sx_text env (RpRemaining None), xm_resources = []\<rparr>"
| "response_of env (RpRemaining (Some rs)) =
     WrRemaining \<lparr>xm_outcome = AoCommittable, xm_message = [], xm_resources = rs\<rparr>"
| "response_of env (RpReport r) =
     WrReport \<lparr>xp_outcome = ar_outcome r, xp_report = explained (sx_text env (RpReport r)) r\<rparr>"
| "response_of env (RpTimeline v) = WrTimeline \<lparr>xt_outcome = AoCommittable, xt_timeline = v\<rparr>"
| "response_of env (RpLineage v) = WrLineage \<lparr>xg_outcome = AoCommittable, xg_lineage = v\<rparr>"
| "response_of env (RpOvercommit v) =
     WrOvercommit \<lparr>xo_outcome = AoCommittable, xo_report = \<lparr>wo_entries = fst v, wo_emergency_active = snd v\<rparr>\<rparr>"
| "response_of env (RpStats v) =
     WrStats \<lparr>xz_outcome = AoCommittable, xz_stats = v, xz_recovery = sx_recovery env\<rparr>"
| "response_of env (RpHold h) =
     WrHold \<lparr>xh_outcome = AoCommittable, xh_message = sx_text env (RpHold h), xh_hold = present_or default_hold h\<rparr>"

fun response_type :: "wire_response \<Rightarrow> message_type" where
  "response_type (WrHello v) = MtHelloAck"
| "response_type (WrError v) = MtError"
| "response_type r = MtOk"

definition send_response :: "wire_response \<Rightarrow> bytes result" where
  "send_response r = write_frame (message_number (response_type r)) (enc_response r)"

definition delivered :: "server_env \<Rightarrow> reply \<Rightarrow> bytes result" where
  "delivered env r = send_response (response_of env r)"

definition sends :: "server_env \<Rightarrow> reply \<Rightarrow> bool" where
  "sends env r = (case delivered env r of Inl _ \<Rightarrow> False | Inr _ \<Rightarrow> True)"

definition sent :: "server_env \<Rightarrow> reply \<Rightarrow> bytes" where
  "sent env r = (case delivered env r of Inl _ \<Rightarrow> [] | Inr bs \<Rightarrow> bs)"

subsection \<open>One request, one response\<close>

text \<open>
  \<^verbatim>\<open>request\<close>: the client writes a frame and reads one back from what the session sends before it ends. The session
  runs on exactly the bytes the client wrote.
\<close>

definition exchange :: "server_env \<Rightarrow> u16 \<Rightarrow> bytes \<Rightarrow> coordinator \<Rightarrow> frame result \<times> coordinator" where
  "exchange env t payload s =
     (case write_frame t payload of
        Inl e \<Rightarrow> (Inl e, s)
      | Inr bs \<Rightarrow>
          (case serve (sends env) bs s of (rs, s', _) \<Rightarrow>
             (bindE (read_frame kMaxFrameBytes (concat (map (sent env) rs))) (\<lambda>(f, _). Inr f), s')))"

lemma travels_not_shutdown: "t \<in> set (travels_as q) \<Longrightarrow> t \<noteq> MtShutdown"
  by (cases q) auto

lemma dispatch_encoded:
  assumes "t \<in> set (travels_as q)" and "wire_fits q"
  shows "dispatch \<lparr>fr_type = message_number t, fr_payload = enc_wire q\<rparr> s = dispatch_request t q s"
proof -
  have "dec_wire t (enc_wire q) = Inr (q, [])" using assms by (simp add: dec_wire_Inr)
  then have "dispatch_type t (enc_wire q) s = dispatch_request t q s" using assms(1) by (cases t; cases q) auto
  then show ?thesis by (simp add: dispatch_def)
qed

lemma read_one_frame:
  "kFrameHeaderBytes + length payload \<le> kMaxFrameBytes \<Longrightarrow>
   read_frame kMaxFrameBytes (encode_frame t payload @ rest) = Inr (\<lparr>fr_type = t, fr_payload = payload\<rparr>, rest)"
  by (simp add: read_frame_Inr kMaxFrameBytes_def)

lemma read_nothing: "read_frame m [] = Inl ECancelled"
  by (simp add: read_frame_def receive_exact_def kFrameHeaderBytes_def)

lemma message_number_inject: "message_number t = message_number u \<longleftrightarrow> t = u"
  by (metis message_of_number option.inject)

lemma serve_one:
  assumes "t \<in> set (travels_as q)" and "wire_fits q" and "kFrameHeaderBytes + length (enc_wire q) \<le> kMaxFrameBytes"
    and "dispatch_request t q s = (r, s')"
  shows "serve goes_on (encode_frame (message_number t) (enc_wire q)) s = ([r], s', False)"
proof -
  have first: "read_frame kMaxFrameBytes (encode_frame (message_number t) (enc_wire q)) =
      Inr (\<lparr>fr_type = message_number t, fr_payload = enc_wire q\<rparr>, [])"
    using read_one_frame [OF assms(3), of _ "[]"] by simp
  show ?thesis
    using travels_not_shutdown [OF assms(1)] dispatch_encoded [OF assms(1,2)] assms(4)
    by (simp add: serve.simps [of _ "encode_frame (message_number t) (enc_wire q)"] first message_number_inject
        serve.simps [of _ "[]"] read_nothing)
qed

lemma exchange_one:
  assumes "t \<in> set (travels_as q)" and "wire_fits q" and "kFrameHeaderBytes + length (enc_wire q) \<le> kMaxFrameBytes"
    and "dispatch_request t q s = (r, s')"
  shows "exchange env (message_number t) (enc_wire q) s =
    (bindE (read_frame kMaxFrameBytes (sent env r)) (\<lambda>(f, _). Inr f), s')"
  using assms(3) serve_one [OF assms] by (simp add: exchange_def write_frame_def)

lemma delivered_fits:
  assumes "kFrameHeaderBytes + length (enc_response (response_of env r)) \<le> kMaxFrameBytes"
  shows "sent env r = encode_frame (message_number (response_type (response_of env r))) (enc_response (response_of env r))"
  using assms by (simp add: sent_def delivered_def send_response_def write_frame_def)

lemma delivered_oversized:
  assumes "kMaxFrameBytes < length (enc_response (response_of env r))"
  shows "delivered env r = Inl EResourceExhausted"
  using assms by (simp add: delivered_def send_response_def write_frame_def)

subsection \<open>Sizes\<close>

lemma length_wire [simp]:
  "length (w_u8 a) = 1" "length (w_u64 b) = 8" "length (w_i64 c) = 8" "length (w_boolean d) = 1" "length (w_fixed128 e) = 16"
  by (simp_all add: w_u8_def w_u64_def w_i64_def w_boolean_def w_fixed128_def)

lemma length_text [simp]: "length (w_text s) = 4 + length s"
  by (simp add: w_text_def w_bytes_def text_bytes_def)

lemma length_list [simp]: "length (w_list enc xs) = 4 + (\<Sum>x\<leftarrow>xs. length (enc x))"
  by (simp add: w_list_def w_count_def length_concat comp_def)

lemma length_enum [simp]: "length (enc_enum xs v) = 1"
  by (simp add: enc_enum_def)

lemma length_flagged: "1 \<le> length (enc_flagged enc v)"
  by (simp add: enc_flagged_def split: option.splits)

lemmas enum_codes = enc_binding_kind_def enc_guarantee_class_def enc_reservation_state_def enc_applicability_def
  enc_applicability_reason_def enc_admission_outcome_def

lemma length_terms: "111 \<le> length (enc_terms v)"
  using length_flagged [of w_i64 "tm_minimum_amount v"] length_flagged [of w_i64 "tm_maximum_amount v"]
  by (simp add: enc_terms_def enum_codes enc_interval_def enc_opt_bandwidth_def enc_recurrence_def)

lemma length_authority: "92 \<le> length (enc_authority v)"
  by (simp add: enc_authority_def)

lemma length_provenance: "112 \<le> length (enc_provenance v)"
  by (simp add: enc_provenance_def)

text \<open>The shortest encoding of a reservation record has 459 bytes.\<close>

lemma length_record: "459 \<le> length (enc_record v)"
  using length_terms [of "rv_terms v"] length_authority [of "rv_authority v"] length_provenance [of "rv_last_provenance v"]
  by (simp add: enc_record_def enum_codes)

lemma length_records: "459 * length rs \<le> length (w_list enc_record rs)"
proof (induction rs)
  case (Cons r rs)
  with length_record [of r] show ?case by simp
qed simp

subsection \<open>Remote calls\<close>

lemma exchange_returns:
  assumes "t \<in> set (travels_as q)" and "wire_fits q" and "kFrameHeaderBytes + length (enc_wire q) \<le> kMaxFrameBytes"
    and "dispatch_request t q s = (r, s')"
    and "kFrameHeaderBytes + length (enc_response (response_of env r)) \<le> kMaxFrameBytes"
  shows "exchange env (message_number t) (enc_wire q) s =
    (Inr \<lparr>fr_type = message_number (response_type (response_of env r)), fr_payload = enc_response (response_of env r)\<rparr>, s')"
  using read_one_frame [OF assms(5), of _ "[]"]
  by (simp add: exchange_one [OF assms(1-4)] delivered_fits [OF assms(5)])

text \<open>C9: A remote call is the local call. When a request travels under one of its message types and fits a frame, the
  coordinator ends up in the state the handler leaves, and the client reads back a frame of the right type from which
  it decodes exactly the response built from the handler's reply, with nothing left over, provided that response is in
  range and fits a frame.
\<close>

theorem remote_call:
  assumes "t \<in> set (travels_as q)" and "wire_fits q" and "kFrameHeaderBytes + length (enc_wire q) \<le> kMaxFrameBytes"
    and "dispatch_request t q s = (r, s')"
    and "response_fits (response_of env r)"
    and "kFrameHeaderBytes + length (enc_response (response_of env r)) \<le> kMaxFrameBytes"
  shows "\<exists>f. exchange env (message_number t) (enc_wire q) s = (Inr f, s') \<and>
    fr_type f = message_number (response_type (response_of env r)) \<and>
    dec_response (shape_of (response_of env r)) (fr_payload f) = Inr (response_of env r, [])"
  using exchange_returns [OF assms(1-4,6)] assms(5) by (simp add: dec_response_Inr)

definition sample_env :: server_env where
  "sample_env = \<lparr>sx_text = (\<lambda>_. ''ok''),
     sx_recovery = \<lparr>rp_snapshot_loaded = False, rp_torn_tail_truncated = False, rp_truncated_bytes = 0,
       rp_snapshot_sequence = 0, rp_records_replayed = 0, rp_records_skipped = 0, rp_last_sequence = 0,
       rp_recovered_epoch = 0, rp_detail = []\<rparr>,
     sx_store = 7\<rparr>"

theorem remote_call_witness:
  "\<exists>f. exchange sample_env (message_number MtHello)
       (enc_wire (WqHello \<lparr>hq_protocol_version = 1, hq_client = 5, hq_client_name = ''probe''\<rparr>)) (sample_coordinator 10) =
       (Inr f, sample_coordinator 10) \<and>
     fr_type f = message_number MtHelloAck \<and>
     dec_response ShHello (fr_payload f) =
       Inr (response_of sample_env (RpHello (co_epoch (sample_coordinator 10)) (co_boot (sample_coordinator 10))), [])"
proof -
  let ?q = "WqHello \<lparr>hq_protocol_version = 1, hq_client = 5, hq_client_name = ''probe''\<rparr>"
  let ?s = "sample_coordinator 10"
  have "kFrameHeaderBytes + length (enc_wire ?q) \<le> kMaxFrameBytes"
    by (simp add: enc_hello_def kFrameHeaderBytes_def kMaxFrameBytes_def)
  moreover have "kFrameHeaderBytes + length (enc_response (response_of sample_env (RpHello (co_epoch ?s) (co_boot ?s)))) \<le> kMaxFrameBytes"
    by (simp add: enc_hello_response_def kFrameHeaderBytes_def kMaxFrameBytes_def)
  ultimately show ?thesis
    using remote_call [of MtHello ?q ?s "RpHello (co_epoch ?s) (co_boot ?s)" ?s sample_env]
    by (simp add: hello_fits_def client_name_fits_def)
qed

lemma lost_reply:
  assumes "kMaxFrameBytes < length (enc_response (response_of env r))"
    and "t \<in> set (travels_as q)" and "wire_fits q" and "kFrameHeaderBytes + length (enc_wire q) \<le> kMaxFrameBytes"
    and "dispatch_request t q s = (r, s')"
  shows "exchange env (message_number t) (enc_wire q) s = (Inl ECancelled, s')"
  by (simp add: exchange_one [OF assms(2-5)] sent_def delivered_oversized [OF assms(1)] read_nothing)

lemma long_listing:
  assumes "2285 \<le> length rs"
  shows "kMaxFrameBytes < length (w_list enc_record rs)"
  using assms length_records [of rs] by (simp add: kMaxFrameBytes_def)

text \<open>C40: A policy may allow series of up to 4096 members, and a claimant may have any number of reservations, but 2285
  records do not fit a frame: the response to the commit of such a series, or to such a query, cannot be sent. The
  session ends instead, and the client of the commit sees a closed connection although the coordinator has taken the
  series on (it is in the state the commit left).
\<close>

theorem long_listing_unsendable:
  assumes "2285 \<le> length rs" and "cr_members c = rs"
  shows "delivered env (RpCommit c) = Inl EResourceExhausted \<and>
    delivered env (RpReservations (Some rs)) = Inl EResourceExhausted \<and>
    (\<forall>t q s s'. t \<in> set (travels_as q) \<longrightarrow> wire_fits q \<longrightarrow>
       kFrameHeaderBytes + length (enc_wire q) \<le> kMaxFrameBytes \<longrightarrow> dispatch_request t q s = (RpCommit c, s') \<longrightarrow>
       exchange env (message_number t) (enc_wire q) s = (Inl ECancelled, s'))"
proof -
  note long = long_listing [OF assms(1)]
  have commit: "kMaxFrameBytes < length (enc_response (response_of env (RpCommit c)))"
    using long assms(2) by (simp add: enc_commit_response_def enc_commit_def commit_sent_def)
  have "kMaxFrameBytes < length (enc_response (response_of env (RpReservations (Some rs))))"
    using long by (simp add: enc_reservation_list_response_def)
  with commit show ?thesis by (blast intro: delivered_oversized lost_reply)
qed

definition long_result :: commit_result where
  "long_result = \<lparr>cr_record = None, cr_has_series = True, cr_series = None, cr_members = replicate 4096 default_record,
     cr_report = to_report blank_assessment, cr_replayed = False, cr_attempt = 9, cr_sequence = 3\<rparr>"

theorem long_listing_unsendable_witness:
  "delivered sample_env (RpCommit long_result) = Inl EResourceExhausted \<and>
   delivered sample_env (RpReservations (Some (replicate 4096 default_record))) = Inl EResourceExhausted"
  using long_listing_unsendable [of "replicate 4096 default_record" long_result sample_env] by (simp add: long_result_def)

subsection \<open>Several sessions\<close>

text \<open>
  Every session has its own thread and the bytes its peer sends; the coordinator is shared, and each of its operations
  holds the one mutex from beginning to end. A step takes the next frame of some session and answers it; the session
  ends when the answer cannot be sent. A session may also end by itself, and one that has not been accepted yet is one
  whose frames have not been read. The list records the frames in the order they were answered, with their sessions.
\<close>

inductive concurrent :: "server_env \<Rightarrow> bytes list \<Rightarrow> coordinator \<Rightarrow> (nat \<times> frame) list \<Rightarrow> bytes list \<Rightarrow> coordinator \<Rightarrow> bool"
  for env ss0 s0 where
    starts: "concurrent env ss0 s0 [] ss0 s0"
  | answers: "concurrent env ss0 s0 tr ss s \<Longrightarrow> i < length ss \<Longrightarrow>
      read_frame kMaxFrameBytes (ss ! i) = Inr (f, rest) \<Longrightarrow> fr_type f \<noteq> message_number MtShutdown \<Longrightarrow>
      dispatch f s = (r, s') \<Longrightarrow>
      concurrent env ss0 s0 (tr @ [(i, f)]) (ss[i := (if sends env r then rest else [])]) s'"
  | ends: "concurrent env ss0 s0 tr ss s \<Longrightarrow> concurrent env ss0 s0 tr (ss[i := []]) s"

definition answered_in :: "nat \<Rightarrow> (nat \<times> frame) list \<Rightarrow> frame list" where
  "answered_in i tr = map snd (filter (\<lambda>e. fst e = i) tr)"

lemma answered_in_simps [simp]:
  "answered_in i [] = []" "answered_in i (tr @ [(j, f)]) = answered_in i tr @ (if j = i then [f] else [])"
  by (simp_all add: answered_in_def)

lemma frames_of_Nil [simp]: "frames_of [] = []"
  by (simp add: frames_of.simps [of "[]"] read_nothing)

lemma frames_of_step:
  "read_frame kMaxFrameBytes stream = Inr (f, rest) \<Longrightarrow> fr_type f \<noteq> message_number MtShutdown \<Longrightarrow>
   frames_of stream = f # frames_of rest"
  by (simp add: frames_of.simps [of stream])

text \<open>What a session has had answered and what it still holds are together a first part of its frames.\<close>

lemma concurrent_progress:
  "concurrent env ss0 s0 tr ss s \<Longrightarrow>
     length ss = length ss0 \<and> s = fold perform_frame (map snd tr) s0 \<and>
     (\<forall>i < length ss0. prefix (answered_in i tr @ frames_of (ss ! i)) (frames_of (ss0 ! i)))"
proof (induction rule: concurrent.induct)
  case (answers tr ss s i f rest r s')
  then have "s' = perform_frame f s" using dispatch_performs [of f s] by simp
  moreover have "prefix (answered_in j (tr @ [(i, f)]) @ frames_of (ss[i := (if sends env r then rest else [])] ! j))
      (frames_of (ss0 ! j))" if j: "j < length ss0" for j
  proof (cases "j = i")
    case True
    have all: "prefix (answered_in i tr @ frames_of (ss ! i)) (frames_of (ss0 ! i))" using answers.IH j True by simp
    have "frames_of (ss ! i) = f # frames_of rest" using answers.hyps by (intro frames_of_step)
    with all have "prefix (answered_in i tr @ [f] @ frames_of rest) (frames_of (ss0 ! i))" by simp
    moreover from this have "prefix (answered_in i tr @ [f]) (frames_of (ss0 ! i))"
      by (metis append_assoc append_prefixD)
    ultimately show ?thesis using True answers.hyps by simp
  qed (use answers.IH j in simp)
  ultimately show ?case using answers.IH by simp
next
  case (ends tr ss s i)
  have "prefix (answered_in j tr @ frames_of (ss[i := []] ! j)) (frames_of (ss0 ! j))" if j: "j < length ss0" for j
    using ends.IH j by (cases "j = i") (auto dest: append_prefixD)
  then show ?case using ends.IH by simp
qed simp



subsection \<open>The invariant of the server\<close>

text \<open>
  A frame is taken well when it asks for nothing, when its request is orderly and succeeds, or when the refusal leaves
  the part of the state the lifecycle reads as it was.
\<close>

definition taken_well :: "frame \<Rightarrow> coordinator \<Rightarrow> bool" where
  "taken_well f s =
     (case request_of f of
        None \<Rightarrow> True
      | Some q \<Rightarrow>
          (case perform q s of
             (Inl _, s') \<Rightarrow> core s' = core s
           | (Inr _, s') \<Rightarrow> orderly s q))"

fun all_taken_well :: "frame list \<Rightarrow> coordinator \<Rightarrow> bool" where
  "all_taken_well [] s \<longleftrightarrow> True"
| "all_taken_well (f # fs) s \<longleftrightarrow> taken_well f s \<and> all_taken_well fs (perform_frame f s)"

lemma runs_frame:
  assumes "runs orderly s0 s" and "taken_well f s"
  shows "runs orderly s0 (perform_frame f s)"
proof (cases "request_of f")
  case (Some q)
  obtain x s' where p: "perform q s = (x, s')" by (cases "perform q s")
  show ?thesis
  proof (cases x)
    case (Inl e)
    with assms(2) Some p have "core s' = core s" by (simp add: taken_well_def)
    with assms(1) have "runs orderly s0 s'" by (rule runs.idle)
    with Some p show ?thesis by (simp add: perform_frame_def)
  next
    case (Inr u)
    with assms(2) Some p have "orderly s q" "perform q s = (Inr u, s')" by (simp_all add: taken_well_def)
    with assms(1) have "runs orderly s0 s'" by (rule runs.request)
    with Some p show ?thesis by (simp add: perform_frame_def)
  qed
qed (use assms in \<open>simp add: perform_frame_def\<close>)

lemma runs_frames: "runs orderly s0 s \<Longrightarrow> all_taken_well fs s \<Longrightarrow> runs orderly s0 (fold perform_frame fs s)"
  by (induction fs arbitrary: s) (auto intro: runs_frame)

text \<open>C10: The lifecycle invariant holds behind the network: start the server in a state that has it and let any number of
  clients send bytes, whatever they are and however their sessions interleave; as long as every request answered was
  orderly or refused without effect, the coordinator still has the invariant, and the generation and queue rules of
  its audit report nothing.
\<close>

theorem server_invariant:
  assumes "coord_ok s0" and "concurrent env ss0 s0 tr ss s" and "all_taken_well (map snd tr) s0" and "generations_left s"
  shows "coord_ok s \<and> audit_generations s = [] \<and> audit_queue s = []"
proof -
  have "runs orderly s0 s"
    using runs_frames [OF runs.start assms(3)] concurrent_progress [OF assms(2)] by simp
  then have "coord_ok s" using runs_sound assms(1,4) by (auto simp: sound_def)
  then show ?thesis using coord_ok_audit by blast
qed

definition release_request :: wire_request where
  "release_request = WqReservationRef \<lparr>qe_context = claimant_context, qe_id = 1, qe_generation = 1\<rparr>"

definition release_frame :: frame where
  "release_frame = \<lparr>fr_type = message_number MtRelease, fr_payload = enc_wire release_request\<rparr>"

lemma release_fits:
  "wire_fits release_request" "MtRelease \<in> set (travels_as release_request)"
  "kFrameHeaderBytes + length (enc_wire release_request) \<le> kMaxFrameBytes"
  by (simp_all add: release_request_def reservation_ref_fits_def context_fits_def claimant_context_def name_ok_def
      reason_fits_def enc_reservation_ref_def enc_context_def kFrameHeaderBytes_def kMaxFrameBytes_def
      kMaxProvenanceReasonBytes_def fixed_name_from_string_def name_char_ok_def kActorNameCapacity_def)

lemma release_frame_asks: "request_of release_frame = Some (RqRelease claimant_context 1 1)"
proof -
  have "dec_wire MtRelease (enc_wire release_request) = Inr (release_request, [])"
    unfolding dec_wire_Inr using release_fits by simp
  then show ?thesis by (simp add: request_of_def release_frame_def del: dec_wire.simps) (simp add: release_request_def)
qed

lemma release_frame_served:
  assumes "release_locked claimant_context 1 1 booked = (Inr x, s')"
  shows "concurrent env [encode_frame (message_number MtRelease) (enc_wire release_request)] booked [(0, release_frame)]
      [if sends env (RpLifecycle x) then [] else []] s' \<and> all_taken_well [release_frame] booked"
proof
  have read: "read_frame kMaxFrameBytes (encode_frame (message_number MtRelease) (enc_wire release_request)) = Inr (release_frame, [])"
    using read_one_frame [OF release_fits(3), of _ "[]"] by (simp add: release_frame_def)
  have reply: "dispatch release_frame booked = (RpLifecycle x, s')"
    unfolding release_frame_def dispatch_encoded [OF release_fits(2,1)]
    using assms by (simp add: release_request_def dispatch_release_or_revoke_def answer_with_def)
  have "concurrent env [encode_frame (message_number MtRelease) (enc_wire release_request)] booked ([] @ [(0, release_frame)])
      ([encode_frame (message_number MtRelease) (enc_wire release_request)][0 := (if sends env (RpLifecycle x) then [] else [])]) s'"
    by (rule concurrent.answers [OF concurrent.starts _ _ _ reply])
      (simp_all add: read, simp add: release_frame_def message_number_inject)
  then show "concurrent env [encode_frame (message_number MtRelease) (enc_wire release_request)] booked [(0, release_frame)]
      [if sends env (RpLifecycle x) then [] else []] s'" by simp
  have "perform (RqRelease claimant_context 1 1) booked = (Inr (), s')" using assms by (simp add: performed_Inr)
  then show "all_taken_well [release_frame] booked" by (simp add: taken_well_def release_frame_asks)
qed

theorem server_invariant_witness:
  "\<exists>ss s' r'. concurrent sample_env [encode_frame (message_number MtRelease) (enc_wire release_request)] booked
      [(0, release_frame)] ss s' \<and>
    om_find (co_records s') (1, 1) = Some r' \<and> rv_state r' = RsReleased \<and> coord_ok s'"
proof -
  obtain x s' r' where run: "release_locked claimant_context 1 1 booked = (Inr x, s')" and left: "generations_left s'"
    and r': "om_find (co_records s') (1, 1) = Some r'" "rv_state r' = RsReleased" using booked_release by auto
  note served = release_frame_served [OF run, of sample_env]
  have "coord_ok s'" using server_invariant [OF coord_ok_booked conjunct1 [OF served]] served left by simp
  with served r' show ?thesis by blast
qed

end
