(* ===== verification/Brf_Probe.thy ===== *)
theory Brf_Probe
  imports Brf_Exchange
begin

text \<open>
  The client, \<^verbatim>\<open>tools/brf_probe.cpp\<close>: how it reads its command line, the request it builds for every command, the call
  and what it makes of the response. Clock readings are arguments; what it prints is left out.

  A command that is given up is a \<open>probe_stop\<close>: with an error message (exit code 1), by an exception of a number
  conversion nobody catches, or by reading the value of a result that has none, which is undefined.
\<close>

datatype probe_stop = PsFail | PsThrow | PsUndefined

type_synonym 'a probe = "probe_stop + 'a"

definition or_fail :: "'a result \<Rightarrow> 'a probe" where
  "or_fail r = (case r of Inl _ \<Rightarrow> Inl PsFail | Inr x \<Rightarrow> Inr x)"

text \<open>\<^verbatim>\<open>Result::value\<close>, without a test before it.\<close>

definition value_of :: "'a result \<Rightarrow> 'a probe" where
  "value_of r = (case r of Inl _ \<Rightarrow> Inl PsUndefined | Inr x \<Rightarrow> Inr x)"

subsection \<open>Number conversions of the standard library\<close>

definition is_space :: "char \<Rightarrow> bool" where
  "is_space c \<longleftrightarrow> (of_char c :: nat) \<in> set [9, 10, 11, 12, 13, 32]"

text \<open>The sign and the digits \<^verbatim>\<open>strtoll\<close> and \<^verbatim>\<open>strtoull\<close> take from the front of a text.\<close>

fun signed_part :: "string \<Rightarrow> bool \<times> string" where
  "signed_part (c # cs) = (if c = CHR ''-'' then (True, cs) else if c = CHR ''+'' then (False, cs) else (False, c # cs))"
| "signed_part [] = (False, [])"

definition leading_number :: "string \<Rightarrow> (bool \<times> nat) option" where
  "leading_number s =
     (case signed_part (dropWhile is_space s) of (negative, rest) \<Rightarrow>
        let digits = takeWhile (\<lambda>c. char_digit c \<noteq> None) rest
        in if digits = [] then None
           else Some (negative, foldl (\<lambda>v c. v * 10 + (case char_digit c of None \<Rightarrow> 0 | Some d \<Rightarrow> d)) 0 digits))"

definition stoull :: "string \<Rightarrow> u64 probe" where
  "stoull s =
     (case leading_number s of
        None \<Rightarrow> Inl PsThrow
      | Some (negative, n) \<Rightarrow>
          if n \<ge> 2 ^ 64 then Inl PsThrow else Inr (if negative then - of_nat n else of_nat n))"

definition stoll :: "string \<Rightarrow> int probe" where
  "stoll s =
     (case leading_number s of
        None \<Rightarrow> Inl PsThrow
      | Some (negative, n) \<Rightarrow>
          let v = (if negative then - int n else int n) in if int64_ok v then Inr v else Inl PsThrow)"

definition stoi :: "string \<Rightarrow> int probe" where
  "stoi s = bindE (stoll s) (\<lambda>v. if - (2 ^ 31) \<le> v \<and> v < 2 ^ 31 then Inr v else Inl PsThrow)"

subsection \<open>The command line\<close>

record probe_options =
  po_port :: u16
  po_seed :: u64
  po_command :: string
  po_arguments :: "(string \<times> string) list"

definition argument :: "probe_options \<Rightarrow> string \<Rightarrow> string \<Rightarrow> string" where
  "argument o' name fallback = (case find (\<lambda>p. fst p = name) (po_arguments o') of None \<Rightarrow> fallback | Some p \<Rightarrow> snd p)"

definition has_argument :: "probe_options \<Rightarrow> string \<Rightarrow> bool" where
  "has_argument o' name \<longleftrightarrow> list_ex (\<lambda>p. fst p = name) (po_arguments o')"

definition is_option :: "string \<Rightarrow> bool" where
  "is_option token \<longleftrightarrow> length token > 2 \<and> take 2 token = ''--''"

definition add_argument :: "string \<Rightarrow> string \<Rightarrow> probe_options \<Rightarrow> probe_options" where
  "add_argument name v o' = o'\<lparr>po_arguments := po_arguments o' @ [(name, v)]\<rparr>"

text \<open>The loop over the tokens; \<open>None\<close> stands for the help text.\<close>

fun parse_tokens :: "string list \<Rightarrow> probe_options \<Rightarrow> probe_options option probe" where
  "parse_tokens [] o' = Inr (Some o')"
| "parse_tokens [token] o' =
     (if token = ''--help'' then Inr None
      else if is_option token then Inr (Some (add_argument token ''1'' o'))
      else if po_command o' = [] then Inr (Some (o'\<lparr>po_command := token\<rparr>))
      else Inl PsFail)"
| "parse_tokens (token # v # rest) o' =
     (if token = ''--help'' then Inr None
      else if token = ''--port'' then bindE (stoi v) (\<lambda>n. parse_tokens rest (o'\<lparr>po_port := of_int n\<rparr>))
      else if token = ''--seed'' then bindE (stoull v) (\<lambda>n. parse_tokens rest (o'\<lparr>po_seed := n\<rparr>))
      else if is_option token then
        (if take 1 v \<noteq> ''-'' then parse_tokens rest (add_argument token v o')
         else parse_tokens (v # rest) (add_argument token ''1'' o'))
      else if po_command o' = [] then parse_tokens (v # rest) (o'\<lparr>po_command := token\<rparr>)
      else Inl PsFail)"

definition default_probe_options :: probe_options where
  "default_probe_options = \<lparr>po_port = 0, po_seed = 1, po_command = [], po_arguments = []\<rparr>"

definition probe_options_of :: "string list \<Rightarrow> probe_options option probe" where
  "probe_options_of argv =
     bindE (parse_tokens argv default_probe_options) (\<lambda>r.
       case r of
         None \<Rightarrow> Inr None
       | Some o' \<Rightarrow> if po_port o' = 0 \<or> po_command o' = [] then Inl PsFail else Inr (Some o'))"

subsection \<open>Fields\<close>

definition parse_amount :: "string \<Rightarrow> bandwidth probe" where
  "parse_amount text = or_fail (parse_bandwidth text)"

definition parse_zeroable_bandwidth :: "string \<Rightarrow> bandwidth probe" where
  "parse_zeroable_bandwidth text =
     or_fail (bindE (parse_uint64_decimal text) (\<lambda>v.
       if int (unat v) > kMaxBandwidthBps then Inl EInvalidBandwidth else Inr (int (unat v))))"

text \<open>A relative instant counts seconds from the clock; the arithmetic is that of 64 bits.\<close>

definition parse_instant :: "timestamp \<Rightarrow> string \<Rightarrow> timestamp probe" where
  "parse_instant now text =
     (if take 1 text = ''+''
      then bindE (or_fail (parse_uint64_decimal (drop 1 text))) (\<lambda>seconds.
             Inr (wrap_int64 (now + wrap_int64 (sint seconds * kNsPerSecond))))
      else or_fail (parse_timestamp text))"

definition seed_identity :: "u64 \<Rightarrow> identity" where
  "seed_identity seed =
     derive (case from_hex ''5eed5eed5eed5eed5eed5eed5eed5eed'' of Inl _ \<Rightarrow> 0 | Inr i \<Rightarrow> i) seed"

definition hex_or :: "identity \<Rightarrow> string \<Rightarrow> identity probe" where
  "hex_or fallback text = (if text = [] then Inr fallback else value_of (from_hex text))"

definition make_context :: "probe_options \<Rightarrow> counter \<Rightarrow> string \<Rightarrow> string \<Rightarrow> request_context probe" where
  "make_context o' epoch claimant_text attempt_text =
     (let seed_id = seed_identity (po_seed o'); asserted = argument o' ''--epoch'' []
      in bindE (hex_or (derive seed_id 0x434C4149) claimant_text) (\<lambda>claimant.
         bindE (if asserted = [] then Inr epoch else stoull asserted) (\<lambda>asserted_epoch.
         bindE (hex_or (derive seed_id 0x41545445) attempt_text) (\<lambda>attempt.
           Inr \<lparr>cx_actor = ''brf-probe'', cx_publisher = derive seed_id 0x505542,
                cx_publisher_boot = derive seed_id 0x424F4F54, cx_session = derive seed_id 0x53455353,
                cx_attempt = attempt, cx_claimant = claimant, cx_claimant_generation = 1,
                cx_asserted_epoch = asserted_epoch, cx_reason = ''brf-probe''\<rparr>))))"

abbreviation name_of :: "string \<Rightarrow> name probe" where
  "name_of text \<equiv> value_of (fixed_name_from_string kNameCapacity text)"

subsection \<open>Requests\<close>

definition hello_message :: "identity \<Rightarrow> hello_request" where
  "hello_message client = \<lparr>hq_protocol_version = kWireProtocolVersion, hq_client = client, hq_client_name = ''brf-probe''\<rparr>"

text \<open>The two statements of the \<^verbatim>\<open>seed\<close> command: a policy first, then the capacity of one resource.\<close>

definition seed_context :: "probe_options \<Rightarrow> counter \<Rightarrow> request_context probe" where
  "seed_context o' epoch =
     bindE (make_context o' epoch [] []) (\<lambda>cx. Inr (cx\<lparr>cx_actor := ''brf-authority'', cx_claimant := 0\<rparr>))"

definition seed_policy :: "probe_options \<Rightarrow> counter \<Rightarrow> policy_ingest_request probe" where
  "seed_policy o' epoch =
     bindE (parse_amount (argument o' ''--capacity'' ''100000000000'')) (\<lambda>_.
     bindE (parse_zeroable_bandwidth (argument o' ''--headroom'' ''0'')) (\<lambda>_.
     bindE (seed_context o' epoch) (\<lambda>cx.
     bindE (name_of (argument o' ''--policy'' ''fabric-default'')) (\<lambda>name.
     bindE (stoull (argument o' ''--generation'' ''1'')) (\<lambda>generation.
     bindE (stoll (argument o' ''--max-hold-ttl-seconds'' ''5'')) (\<lambda>ttl.
       Inr \<lparr>qo_context = cx,
            qo_record = (strict_default name)\<lparr>pl_generation := generation, pl_allow_recall_protected := True,
              pl_max_hold_ttl := wrap_int64 (ttl * kNsPerSecond), pl_max_holds_per_session := 8,
              pl_max_hold_bandwidth := 100000000000\<rparr>\<rparr>))))))"

definition seed_capacity :: "probe_options \<Rightarrow> counter \<Rightarrow> capacity_ingest_request probe" where
  "seed_capacity o' epoch =
     bindE (parse_amount (argument o' ''--capacity'' ''100000000000'')) (\<lambda>capacity.
     bindE (parse_zeroable_bandwidth (argument o' ''--headroom'' ''0'')) (\<lambda>headroom.
     bindE (seed_context o' epoch) (\<lambda>cx.
     bindE (stoull (argument o' ''--generation'' ''1'')) (\<lambda>generation.
     bindE (name_of (argument o' ''--resource'' ''r1'')) (\<lambda>resource.
     bindE (stoull (argument o' ''--resource-generation'' (argument o' ''--generation'' ''1''))) (\<lambda>resource_generation.
     bindE (if has_argument o' ''--withdraw''
            then bindE (name_of (argument o' ''--withdraw'' [])) (\<lambda>n. Inr [n]) else Inr []) (\<lambda>withdrawals.
       Inr \<lparr>qc_context = cx,
            qc_snapshot = \<lparr>cs_id = derive (seed_identity (po_seed o')) 0x534E4150, cs_generation = generation,
              cs_fabric_epoch = epoch, cs_ingested_at = 0, cs_complete = True,
              cs_resources = [\<lparr>rc_resource = resource, rc_generation = resource_generation,
                rc_reservable_capacity = capacity, rc_protected_headroom = headroom, rc_failure_domain = [],
                rc_failure_domain_generation = 0, rc_maintenance = []\<rparr>]\<rparr>,
            qc_withdrawals = withdrawals\<rparr>)))))))"

definition commit_request ::
  "probe_options \<Rightarrow> counter \<Rightarrow> timestamp \<Rightarrow> timestamp \<Rightarrow> reservation_create_request probe" where
  "commit_request o' epoch now1 now2 =
     bindE (parse_amount (argument o' ''--amount'' ''1000000000'')) (\<lambda>amount.
     bindE (parse_instant now1 (argument o' ''--start'' ''+60'')) (\<lambda>start.
     bindE (parse_instant now2 (argument o' ''--end'' ''+3600'')) (\<lambda>finish.
     bindE (make_context o' epoch (argument o' ''--claimant'' []) (argument o' ''--attempt'' [])) (\<lambda>cx.
     bindE (name_of (argument o' ''--resource'' ''r1'')) (\<lambda>resource.
     bindE (name_of (argument o' ''--policy'' ''fabric-default'')) (\<lambda>policy.
     bindE (if has_argument o' ''--guarantee'' then or_fail (parse_guarantee_class (argument o' ''--guarantee'' []))
            else Inr GcGuaranteed) (\<lambda>guarantee.
     bindE (if has_argument o' ''--id'' then value_of (from_hex (argument o' ''--id'' [])) else Inr 0) (\<lambda>requested_id.
       Inr \<lparr>qn_context = cx,
            qn_terms = default_terms\<lparr>tm_claimant := cx_claimant cx, tm_claimant_generation := cx_claimant_generation cx,
              tm_resources := [resource], tm_interval := \<lparr>iv_start = start, iv_end = finish\<rparr>, tm_amount := amount,
              tm_policy := policy, tm_guarantee := guarantee\<rparr>,
            qn_requested_id = requested_id, qn_dry_run = False, qn_consume_holds = []\<rparr>))))))))"

definition remaining_request :: "probe_options \<Rightarrow> counter \<Rightarrow> timestamp \<Rightarrow> timestamp \<Rightarrow> query_request probe" where
  "remaining_request o' epoch now1 now2 =
     bindE (parse_instant now1 (argument o' ''--start'' ''+0'')) (\<lambda>start.
     bindE (parse_instant now2 (argument o' ''--end'' ''+86400'')) (\<lambda>finish.
     bindE (make_context o' epoch [] []) (\<lambda>cx.
     bindE (name_of (argument o' ''--resource'' ''r1'')) (\<lambda>resource.
       Inr \<lparr>qq_context = cx, qq_resource = resource, qq_window = \<lparr>iv_start = start, iv_end = finish\<rparr>, qq_amount = 0,
            qq_include_terminal = False\<rparr>))))"

definition reconcile_request :: "probe_options \<Rightarrow> counter \<Rightarrow> attempt_request probe" where
  "reconcile_request o' epoch =
     bindE (make_context o' epoch [] []) (\<lambda>cx.
     bindE (if has_argument o' ''--attempt'' then value_of (from_hex (argument o' ''--attempt'' []))
            else Inr (cx_attempt cx)) (\<lambda>attempt.
       Inr \<lparr>qt_context = cx, qt_attempt = attempt\<rparr>))"

definition release_message :: "probe_options \<Rightarrow> counter \<Rightarrow> reservation_ref_request probe" where
  "release_message o' epoch =
     bindE (make_context o' epoch [] []) (\<lambda>cx.
     bindE (value_of (from_hex (argument o' ''--id'' []))) (\<lambda>i.
     bindE (stoull (argument o' ''--generation'' ''1'')) (\<lambda>generation.
       Inr \<lparr>qe_context = cx, qe_id = i, qe_generation = generation\<rparr>)))"

definition hold_message ::
  "probe_options \<Rightarrow> counter \<Rightarrow> timestamp \<Rightarrow> timestamp \<Rightarrow> timestamp \<Rightarrow> hold_acquire_request probe" where
  "hold_message o' epoch now1 now2 now3 =
     bindE (make_context o' epoch [] []) (\<lambda>cx.
     bindE (parse_amount (argument o' ''--amount'' ''1000000000'')) (\<lambda>amount.
     bindE (parse_instant now1 (argument o' ''--start'' ''+60'')) (\<lambda>start.
     bindE (parse_instant now2 (argument o' ''--end'' ''+3600'')) (\<lambda>finish.
     bindE (name_of (argument o' ''--resource'' ''r1'')) (\<lambda>resource.
     bindE (stoll (argument o' ''--ttl-seconds'' ''5'')) (\<lambda>ttl.
       Inr \<lparr>qh_context = cx,
            qh_terms = default_terms\<lparr>tm_claimant := cx_claimant cx, tm_claimant_generation := cx_claimant_generation cx,
              tm_resources := [resource], tm_interval := \<lparr>iv_start = start, iv_end = finish\<rparr>, tm_amount := amount,
              tm_policy := ''fabric-default''\<rparr>,
            qh_expires_at = wrap_int64 (now3 + wrap_int64 (ttl * kNsPerSecond))\<rparr>))))))"

definition fence_message :: "probe_options \<Rightarrow> counter \<Rightarrow> fence_request probe" where
  "fence_message o' epoch =
     bindE (make_context o' epoch [] []) (\<lambda>cx.
     bindE (value_of (from_hex (argument o' ''--boot'' []))) (\<lambda>boot.
     bindE (value_of (from_hex (argument o' ''--session'' []))) (\<lambda>session.
       Inr \<lparr>qf_context = cx\<lparr>cx_actor := ''brf-operator''\<rparr>, qf_claimant = 0, qf_claimant_generation = 0, qf_boot = boot,
            qf_session = session, qf_claimant_wide = has_argument o' ''--claimant-wide''\<rparr>)))"

definition session_release_message :: "probe_options \<Rightarrow> counter \<Rightarrow> lifecycle_reconcile_request probe" where
  "session_release_message o' epoch =
     bindE (make_context o' epoch [] []) (\<lambda>cx. Inr \<lparr>qk_context = cx, qk_fence_dead_holds = True\<rparr>)"

subsection \<open>Calls\<close>

text \<open>
  \<open>call\<close> sends a request and gives up on a lost connection and on an error frame; \<open>call_for\<close> besides decodes the
  response the command expects.
\<close>

definition call :: "server_env \<Rightarrow> message_type \<Rightarrow> bytes \<Rightarrow> coordinator \<Rightarrow> frame probe \<times> coordinator" where
  "call env t payload s =
     (case exchange env (message_number t) payload s of
        (Inl _, s') \<Rightarrow> (Inl PsFail, s')
      | (Inr f, s') \<Rightarrow> (if fr_type f = message_number MtError then Inl PsFail else Inr f, s'))"

definition call_for ::
  "server_env \<Rightarrow> response_shape \<Rightarrow> message_type \<Rightarrow> bytes \<Rightarrow> coordinator \<Rightarrow> wire_response probe \<times> coordinator" where
  "call_for env k t payload s =
     (case call env t payload s of
        (Inl e, s') \<Rightarrow> (Inl e, s')
      | (Inr f, s') \<Rightarrow> (bindE (or_fail (dec_response k (fr_payload f))) (\<lambda>(r, _). Inr r), s'))"

definition with_request :: "'a probe \<Rightarrow> ('a \<Rightarrow> coordinator \<Rightarrow> 'b probe \<times> coordinator) \<Rightarrow> coordinator \<Rightarrow> 'b probe \<times> coordinator" where
  "with_request m f s = (case m of Inl e \<Rightarrow> (Inl e, s) | Inr q \<Rightarrow> f q s)"

definition probe_hello :: "server_env \<Rightarrow> identity \<Rightarrow> coordinator \<Rightarrow> hello_response probe \<times> coordinator" where
  "probe_hello env client s =
     (case exchange env (message_number MtHello) (enc_wire (WqHello (hello_message client))) s of
        (Inl _, s') \<Rightarrow> (Inl PsFail, s')
      | (Inr f, s') \<Rightarrow>
          (if fr_type f \<noteq> message_number MtHelloAck then Inl PsFail
           else bindE (or_fail (dec_hello_response (fr_payload f))) (\<lambda>(v, _). Inr v), s'))"

text \<open>The exit code of \<^verbatim>\<open>commit\<close> tells a commitment from a refusal that is not an error.\<close>

fun commit_exit :: "wire_response \<Rightarrow> nat" where
  "commit_exit (WrCommit v) = (if ar_outcome (wc_report (xc_result v)) = AoCommittable then 0 else 3)"
| "commit_exit _ = 0"

definition probe_commit ::
  "server_env \<Rightarrow> probe_options \<Rightarrow> counter \<Rightarrow> timestamp \<Rightarrow> timestamp \<Rightarrow> coordinator \<Rightarrow> nat probe \<times> coordinator" where
  "probe_commit env o' epoch now1 now2 =
     with_request (commit_request o' epoch now1 now2) (\<lambda>q s.
       case call_for env ShCommit MtCommit (enc_wire (WqCreate q)) s of
         (r, s') \<Rightarrow> (bindE r (\<lambda>v. Inr (if po_command o' = ''commit-then-hang'' then 0 else commit_exit v)), s'))"

definition probe_seed :: "server_env \<Rightarrow> probe_options \<Rightarrow> counter \<Rightarrow> coordinator \<Rightarrow> nat probe \<times> coordinator" where
  "probe_seed env o' epoch =
     with_request (seed_policy o' epoch) (\<lambda>p s.
       case call env MtIngestPolicy (enc_wire (WqIngestPolicy p)) s of
         (Inl e, s1) \<Rightarrow> (Inl e, s1)
       | (Inr _, s1) \<Rightarrow>
           with_request (seed_capacity o' epoch) (\<lambda>c s.
             case call env MtIngestCapacity (enc_wire (WqIngestCapacity c)) s of
               (r, s') \<Rightarrow> (bindE r (\<lambda>_. Inr 0), s')) s1)"

definition finishing :: "'a probe \<times> coordinator \<Rightarrow> nat probe \<times> coordinator" where
  "finishing r = (bindE (fst r) (\<lambda>_. Inr 0), snd r)"

definition probe_command ::
  "server_env \<Rightarrow> probe_options \<Rightarrow> counter \<Rightarrow> timestamp \<Rightarrow> timestamp \<Rightarrow> timestamp \<Rightarrow> coordinator \<Rightarrow> nat probe \<times> coordinator" where
  "probe_command env o' epoch now1 now2 now3 =
     (if po_command o' = ''hello'' then (\<lambda>s. (Inr 0, s))
      else if po_command o' = ''seed'' then probe_seed env o' epoch
      else if po_command o' = ''commit'' \<or> po_command o' = ''commit-then-hang'' then probe_commit env o' epoch now1 now2
      else if po_command o' = ''remaining'' then
        with_request (remaining_request o' epoch now1 now2)
          (\<lambda>q s. finishing (call_for env ShRemaining MtQueryRemaining (enc_wire (WqQuery q)) s))
      else if po_command o' = ''reconcile'' then
        with_request (reconcile_request o' epoch)
          (\<lambda>q s. finishing (call_for env ShReconciliation MtReconcileAttempt (enc_wire (WqAttempt q)) s))
      else if po_command o' = ''release'' then
        with_request (release_message o' epoch)
          (\<lambda>q s. finishing (call_for env ShLifecycle MtRelease (enc_wire (WqReservationRef q)) s))
      else if po_command o' = ''hold'' then
        with_request (hold_message o' epoch now1 now2 now3)
          (\<lambda>q s. finishing (call_for env ShHold MtHoldAcquire (enc_wire (WqHoldAcquire q)) s))
      else if po_command o' = ''fence-session'' then
        with_request (fence_message o' epoch) (\<lambda>q s. finishing (call env MtFence (enc_wire (WqFence q)) s))
      else if po_command o' = ''session-release'' then
        with_request (session_release_message o' epoch)
          (\<lambda>q s. finishing (call env MtSessionRelease (enc_wire (WqLifecycleReconcile q)) s))
      else if po_command o' = ''stats'' then (\<lambda>s. finishing (call_for env ShStats MtStats (w_u8 0) s))
      else if po_command o' = ''pause'' then (\<lambda>s. (Inr 0, s))
      else (\<lambda>s. (Inl PsFail, s)))"

text \<open>\<^verbatim>\<open>main\<close>: the handshake tells the epoch the requests assert.\<close>

definition probe_main ::
  "server_env \<Rightarrow> identity \<Rightarrow> string list \<Rightarrow> timestamp \<Rightarrow> timestamp \<Rightarrow> timestamp \<Rightarrow> coordinator \<Rightarrow> nat probe \<times> coordinator" where
  "probe_main env client argv now1 now2 now3 =
     with_request (probe_options_of argv) (\<lambda>r s.
       case r of
         None \<Rightarrow> (Inr 0, s)
       | Some o' \<Rightarrow>
           (case probe_hello env client s of
              (Inl e, s1) \<Rightarrow> (Inl e, s1)
            | (Inr h, s1) \<Rightarrow> probe_command env o' (hp_epoch h) now1 now2 now3 s1))"

subsection \<open>The client sees what the coordinator did\<close>

lemma response_type_error: "response_type w = MtError \<longleftrightarrow> shape_of w = ShError"
  by (cases w) simp_all

lemma call_for_returns:
  assumes "t \<in> set (travels_as q)" and "wire_fits q" and "kFrameHeaderBytes + length (enc_wire q) \<le> kMaxFrameBytes"
    and "dispatch_request t q s = (r, s')" and "response_fits (response_of env r)"
    and "kFrameHeaderBytes + length (enc_response (response_of env r)) \<le> kMaxFrameBytes"
    and "k \<noteq> ShError" and "shape_of (response_of env r) = ShError \<or> shape_of (response_of env r) = k"
  shows "call_for env k t (enc_wire q) s =
    (if shape_of (response_of env r) = ShError then Inl PsFail else Inr (response_of env r), s')"
proof (cases "shape_of (response_of env r) = ShError")
  case True
  then show ?thesis
    using exchange_returns [OF assms(1-4,6)] by (simp add: call_for_def call_def response_type_error [symmetric])
next
  case False
  with assms(8) have k: "shape_of (response_of env r) = k" by simp
  then have "dec_response k (enc_response (response_of env r)) = Inr (response_of env r, [])"
    using assms(5) by (simp add: dec_response_Inr)
  moreover have "response_type (response_of env r) \<noteq> MtError" using False by (simp add: response_type_error)
  ultimately show ?thesis
    using exchange_returns [OF assms(1-4,6)] False
    by (simp add: call_for_def call_def or_fail_def message_number_inject)
qed

text \<open>The reply to a commit request.\<close>

definition commit_reply :: "reservation_create_request \<Rightarrow> coordinator \<Rightarrow> reply" where
  "commit_reply q s =
     (case fst (create_locked (qn_context q) (qn_terms q) (qn_requested_id q) (qn_dry_run q) (qn_consume_holds q) s) of
        Inl e \<Rightarrow> RpError e AoInvalidRequest
      | Inr c \<Rightarrow> RpCommit c)"

text \<open>C14: The commit command tells the truth: whatever the command line, if it yields a request that fits a frame and the
  coordinator's response does too, the program exits with 0 exactly when the coordinator admitted the reservation,
  with 3 when it refused it with a report and with an error when the request failed, and the coordinator is in the
  state its commit operation left.
\<close>

theorem probe_commit_truthful:
  assumes "commit_request o' epoch now1 now2 = Inr q" and "po_command o' = ''commit''"
    and "create_request_fits q" and "kFrameHeaderBytes + length (enc_create_request q) \<le> kMaxFrameBytes"
    and "response_fits (response_of env (commit_reply q s))"
    and "kFrameHeaderBytes + length (enc_response (response_of env (commit_reply q s))) \<le> kMaxFrameBytes"
  shows "probe_commit env o' epoch now1 now2 s =
    (case create_locked (qn_context q) (qn_terms q) (qn_requested_id q) (qn_dry_run q) (qn_consume_holds q) s of
       (Inl e, s') \<Rightarrow> (Inl PsFail, s')
     | (Inr c, s') \<Rightarrow> (Inr (if ar_outcome (cr_report c) = AoCommittable then 0 else 3), s'))"
proof -
  obtain x s' where run: "create_locked (qn_context q) (qn_terms q) (qn_requested_id q) (qn_dry_run q) (qn_consume_holds q) s = (x, s')"
    by (cases "create_locked (qn_context q) (qn_terms q) (qn_requested_id q) (qn_dry_run q) (qn_consume_holds q) s")
  then have "dispatch_request MtCommit (WqCreate q) s = (commit_reply q s, s')"
    by (simp add: dispatch_create_def answer_with_def commit_reply_def split: sum.splits)
  moreover have "shape_of (response_of env (commit_reply q s)) = ShError \<or> shape_of (response_of env (commit_reply q s)) = ShCommit"
    by (simp add: commit_reply_def split: sum.splits)
  ultimately have "call_for env ShCommit MtCommit (enc_wire (WqCreate q)) s =
      (if shape_of (response_of env (commit_reply q s)) = ShError then Inl PsFail else Inr (response_of env (commit_reply q s)), s')"
    using assms(3-6) by (intro call_for_returns) simp_all
  then show ?thesis
    using run assms(1,2)
    by (cases x) (simp_all add: probe_commit_def with_request_def commit_reply_def commit_sent_def explained_def
        admission_report.defs bindE_def)
qed

definition stale_options :: probe_options where
  "stale_options = \<lparr>po_port = 4000, po_seed = 1, po_command = ''commit'', po_arguments = [(''--epoch'', ''99'')]\<rparr>"

definition stale_context :: request_context where
  "stale_context = \<lparr>cx_actor = ''brf-probe'', cx_publisher = derive (seed_identity 1) 0x505542,
     cx_publisher_boot = derive (seed_identity 1) 0x424F4F54, cx_session = derive (seed_identity 1) 0x53455353,
     cx_attempt = derive (seed_identity 1) 0x41545445, cx_claimant = derive (seed_identity 1) 0x434C4149,
     cx_claimant_generation = 1, cx_asserted_epoch = 99, cx_reason = ''brf-probe''\<rparr>"

definition stale_commit :: reservation_create_request where
  "stale_commit = \<lparr>qn_context = stale_context,
     qn_terms = default_terms\<lparr>tm_claimant := cx_claimant stale_context, tm_claimant_generation := 1,
       tm_resources := [''r1''], tm_interval := \<lparr>iv_start = 60000000000, iv_end = 3600000000000\<rparr>, tm_amount := 1000000000,
       tm_policy := ''fabric-default'', tm_guarantee := GcGuaranteed\<rparr>,
     qn_requested_id = 0, qn_dry_run = False, qn_consume_holds = []\<rparr>"

lemma stale_arguments:
  "argument stale_options ''--epoch'' [] = ''99''" "argument stale_options ''--amount'' ''1000000000'' = ''1000000000''"
  "argument stale_options ''--start'' ''+60'' = ''+60''" "argument stale_options ''--end'' ''+3600'' = ''+3600''"
  "argument stale_options ''--resource'' ''r1'' = ''r1''" "argument stale_options ''--policy'' ''fabric-default'' = ''fabric-default''"
  "argument stale_options ''--claimant'' [] = []" "argument stale_options ''--attempt'' [] = []"
  "\<not> has_argument stale_options ''--guarantee''" "\<not> has_argument stale_options ''--id''"
  "po_seed stale_options = 1"
  by (simp_all add: argument_def has_argument_def stale_options_def)

lemma stale_numbers:
  "stoull ''99'' = Inr 99" "parse_amount ''1000000000'' = Inr 1000000000"
  "parse_instant 0 ''+60'' = Inr 60000000000" "parse_instant 0 ''+3600'' = Inr 3600000000000"
  by (simp_all add: stoull_def leading_number_def is_space_def char_digit_def less_eq_char_def parse_amount_def or_fail_def
      parse_bandwidth_def make_bandwidth_def kScales_def parse_uint64_decimal_def kMaxBandwidthBps_def word_less_nat_alt parse_instant_def kNsPerSecond_def
      wrap_int64_def)

lemma stale_names:
  "fixed_name_from_string kNameCapacity ''r1'' = Inr ''r1''"
  "fixed_name_from_string kNameCapacity ''fabric-default'' = Inr ''fabric-default''"
  "fixed_name_from_string kActorNameCapacity ''brf-probe'' = Inr ''brf-probe''"
  by (simp_all add: fixed_name_from_string_def name_char_ok_def less_eq_char_def kNameCapacity_def kActorNameCapacity_def)

lemma stale_request: "commit_request stale_options 1 0 0 = Inr stale_commit"
  by (simp add: commit_request_def make_context_def stale_arguments stale_numbers stale_names value_of_def hex_or_def stale_commit_def
      stale_context_def Let_def)

lemma stale_fits:
  "create_request_fits stale_commit" "kFrameHeaderBytes + length (enc_create_request stale_commit) \<le> kMaxFrameBytes"
  by (simp_all add: stale_commit_def stale_context_def default_terms_def create_request_fits_def context_fits_def name_ok_def
      stale_names reason_fits_def kMaxProvenanceReasonBytes_def terms_fits_def list_fits_def kMaxCollectionItems_def
      interval_fits_def int64_ok_def opt_bandwidth_fits_def flagged_fits_def kMaxPriority_def labels_fit_def kMaxPolicyLabels_def
      recurrence_fits_def holds_fit_def enc_create_request_def enc_context_def enc_terms_def enum_codes enc_interval_def
      enc_opt_bandwidth_def enc_flagged_def enc_recurrence_def kFrameHeaderBytes_def kMaxFrameBytes_def)

lemma stale_refused:
  "create_locked (qn_context stale_commit) (qn_terms stale_commit) (qn_requested_id stale_commit) (qn_dry_run stale_commit)
     (qn_consume_holds stale_commit) (sample_coordinator 10) = (Inl EStaleEpoch, snd (now_locked (sample_coordinator 10)))"
  by (simp add: create_locked_def andThen_def now_locked_def validate_context_locked_def stale_commit_def stale_context_def
      sample_coordinator_def fresh_coordinator_def)

theorem probe_commit_truthful_witness:
  "probe_commit sample_env stale_options 1 0 0 (sample_coordinator 10) =
     (Inl PsFail, snd (now_locked (sample_coordinator 10)))"
proof -
  have reply: "commit_reply stale_commit (sample_coordinator 10) = RpError EStaleEpoch AoInvalidRequest"
    by (simp add: commit_reply_def stale_refused)
  have "response_fits (response_of sample_env (RpError EStaleEpoch AoInvalidRequest))"
    by (simp add: error_response_fits_def text_fits_def sample_env_def kMaxTextBytes_def)
  moreover have "kFrameHeaderBytes + length (enc_response (response_of sample_env (RpError EStaleEpoch AoInvalidRequest))) \<le> kMaxFrameBytes"
    by (simp add: enc_error_response_def enc_error_code_def enum_codes sample_env_def kFrameHeaderBytes_def kMaxFrameBytes_def)
  moreover have "po_command stale_options = ''commit''" by (simp add: stale_options_def)
  ultimately show ?thesis
    using probe_commit_truthful [OF stale_request _ stale_fits, of sample_env "sample_coordinator 10"]
    by (simp add: reply stale_refused)
qed

end
