(* ===== verification/Brf_Inspect.thy ===== *)
theory Brf_Inspect
  imports Brf_Store
begin

text \<open>
  The inspector, \<^verbatim>\<open>tools/brf_inspect.cpp\<close>: it reads the two files of a store without opening it and prints a bounded
  summary. A line printed is a value of \<open>inspect_line\<close>, without the words around its fields; the two files are those
  of a \<open>disk\<close>, which the inspector never writes.

  The theorem compares its verdict with what opening the store would do.
\<close>

subsection \<open>Arguments\<close>

text \<open>\<open>args\<close> is \<^verbatim>\<open>argv\<close> without the program's name.\<close>

fun argument_value :: "string list \<Rightarrow> string \<Rightarrow> string \<Rightarrow> string" where
  "argument_value (a # b # rest) name fallback = (if a = name then b else argument_value (b # rest) name fallback)"
| "argument_value _ name fallback = fallback"

definition has_flag :: "string list \<Rightarrow> string \<Rightarrow> bool" where
  "has_flag args name \<longleftrightarrow> list_ex (\<lambda>a. a = name) args"

fun record_kind_to_string :: "record_kind \<Rightarrow> string" where
  "record_kind_to_string RkFabricBoot = ''FABRIC_BOOT''"
| "record_kind_to_string RkCapacitySnapshot = ''CAPACITY_SNAPSHOT''"
| "record_kind_to_string RkPathSnapshot = ''PATH_SNAPSHOT''"
| "record_kind_to_string RkPolicyRecord = ''POLICY_RECORD''"
| "record_kind_to_string RkReservationCommit = ''RESERVATION_COMMIT''"
| "record_kind_to_string RkReservationAmend = ''RESERVATION_AMEND''"
| "record_kind_to_string RkReservationSeries = ''RESERVATION_SERIES''"
| "record_kind_to_string RkReservationState = ''RESERVATION_STATE''"
| "record_kind_to_string RkReservationApplicability = ''RESERVATION_APPLICABILITY''"
| "record_kind_to_string RkAttemptOutcome = ''ATTEMPT_OUTCOME''"
| "record_kind_to_string RkOvercommit = ''OVERCOMMIT''"
| "record_kind_to_string RkRetire = ''RETIRE''"
| "record_kind_to_string RkFence = ''FENCE''"
| "record_kind_to_string RkClaimantRegistration = ''CLAIMANT_REGISTRATION''"

subsection \<open>The inspection\<close>

datatype inspect_line =
    LnSnapshotInvalid error_code
  | LnSnapshotOk counter nat
  | LnSnapshotAbsent
  | LnJournalInvalid error_code
  | LnJournalOk nat counter bool nat
  | LnRecordInvalid counter error_code
  | LnRecord counter string
  | LnKind string u64
  | LnReservation reservation_record
  | LnReservationsTruncated nat
  | LnSummary u64 u64 nat

record counts =
  nt_by_kind :: "(string, u64) omap"
  nt_records :: u64
  nt_bytes :: u64

text \<open>The loop over the journal: what it has printed, counted and decoded, and the number of problems.\<close>

record inspection =
  in_lines :: "inspect_line list"
  in_counts :: counts
  in_decoded :: "durable_record list"
  in_problems :: nat

definition count_kind :: "string \<Rightarrow> (string, u64) omap \<Rightarrow> (string, u64) omap" where
  "count_kind k m = om_put k ((case om_find m k of None \<Rightarrow> 0 | Some n \<Rightarrow> n) + 1) m"

definition count_record :: "journal_record \<Rightarrow> counts \<Rightarrow> counts" where
  "count_record r c =
     \<lparr>nt_by_kind = count_kind (record_kind_to_string (jr_kind r)) (nt_by_kind c), nt_records = nt_records c + 1,
      nt_bytes = nt_bytes c + of_nat (length (jr_payload r))\<rparr>"

definition inspect_record :: "bool \<Rightarrow> nat \<Rightarrow> journal_record \<Rightarrow> inspection \<Rightarrow> inspection" where
  "inspect_record print_records limit r st =
     (case decode_record (jr_payload r) (jr_kind r) of
        Inl e \<Rightarrow> st\<lparr>in_lines := in_lines st @ [LnRecordInvalid (jr_sequence r) e], in_problems := in_problems st + 1\<rparr>
      | Inr d \<Rightarrow>
          let decoded = in_decoded st @ [d]
          in st\<lparr>in_counts := count_record r (in_counts st), in_decoded := decoded,
                in_lines := in_lines st @ (if print_records \<and> length decoded \<le> limit
                  then [LnRecord (jr_sequence r) (record_kind_to_string (jr_kind r))] else [])\<rparr>)"

definition reservations_in :: "durable_record list \<Rightarrow> reservation_record list" where
  "reservations_in ds = concat (map (\<lambda>d. case d of
     DrReservationCommit m \<Rightarrow> [mu_record m] | DrReservationAmend m \<Rightarrow> [mu_record m] | _ \<Rightarrow> []) ds)"

definition list_reservations :: "nat \<Rightarrow> durable_record list \<Rightarrow> inspect_line list" where
  "list_reservations limit ds =
     (let rs = reservations_in ds
      in map LnReservation (take limit rs) @ (if length rs > limit then [LnReservationsTruncated limit] else []))"

definition inspect_snapshot :: "disk \<Rightarrow> inspect_line \<times> nat" where
  "inspect_snapshot d =
     (case read_snapshot_file (dk_snapshot d) of
        Inl e \<Rightarrow> if e \<noteq> ENotFound then (LnSnapshotInvalid e, 1) else (LnSnapshotAbsent, 0)
      | Inr (sequence, payload) \<Rightarrow> (LnSnapshotOk sequence (length payload), 0))"

definition last_sequence_of :: "journal_record list \<Rightarrow> counter" where
  "last_sequence_of rs = (if rs = [] then 0 else jr_sequence (List.last rs))"

text \<open>\<^verbatim>\<open>main\<close> once the store is named: the lines it prints and the exit code.\<close>

definition inspect :: "bool \<Rightarrow> bool \<Rightarrow> nat \<Rightarrow> disk \<Rightarrow> inspect_line list \<times> nat" where
  "inspect print_records print_reservations limit d =
     (case inspect_snapshot d of (snapshot_line, problems) \<Rightarrow>
      case read_journal_file (dk_journal d) (4 * 1024 * 1024) of
        Inl e \<Rightarrow> ([snapshot_line, LnJournalInvalid e], 2)
      | Inr (records, torn) \<Rightarrow>
          let st = fold (inspect_record print_records limit) records
                \<lparr>in_lines = [], in_counts = \<lparr>nt_by_kind = [], nt_records = 0, nt_bytes = 0\<rparr>, in_decoded = [],
                 in_problems = problems\<rparr>
          in ([snapshot_line,
               LnJournalOk (length records) (last_sequence_of records) (torn \<noteq> None) (case torn of None \<Rightarrow> 0 | Some n \<Rightarrow> n)] @
              in_lines st @ map (\<lambda>(k, n). LnKind k n) (nt_by_kind (in_counts st)) @
              (if print_reservations then list_reservations limit (in_decoded st) else []) @
              [LnSummary (nt_records (in_counts st)) (nt_bytes (in_counts st)) (in_problems st)],
              if in_problems st = 0 then 0 else 2))"

subsection \<open>What a clean inspection means\<close>

definition decodes :: "journal_record \<Rightarrow> bool" where
  "decodes r = (case decode_record (jr_payload r) (jr_kind r) of Inl _ \<Rightarrow> False | Inr _ \<Rightarrow> True)"

definition journal_decodes :: "disk \<Rightarrow> bool" where
  "journal_decodes d =
     (case read_journal_file (dk_journal d) (so_max_record_payload default_options) of
        Inl _ \<Rightarrow> False | Inr (rs, _) \<Rightarrow> list_all decodes rs)"

lemma inspect_record_problems:
  "in_problems (inspect_record pr limit r st) = in_problems st + (if decodes r then 0 else 1)"
  by (simp add: inspect_record_def decodes_def Let_def split: sum.splits)

lemma inspected_problems:
  "in_problems (fold (inspect_record pr limit) rs st) = in_problems st + length (filter (\<lambda>r. \<not> decodes r) rs)"
  by (induction rs arbitrary: st) (simp_all add: inspect_record_problems)

lemma snapshot_problems:
  "snd (inspect_snapshot d) = 0 \<longleftrightarrow>
     (\<exists>x. not_missing None (bindE (read_snapshot_file (dk_snapshot d)) (\<lambda>x. Inr (Some x))) = Inr x)"
  by (auto simp: inspect_snapshot_def not_missing_def bindE_def split: sum.splits if_splits prod.splits)

text \<open>Opening the store succeeds when both files can be read, a missing one counting as empty.\<close>

lemma store_opens:
  "(\<exists>st report. store_open opts d = Inr (st, report)) \<longleftrightarrow>
     (\<exists>x. not_missing None (bindE (read_snapshot_file (dk_snapshot d)) (\<lambda>x. Inr (Some x))) = Inr x) \<and>
     (\<exists>y. not_missing ([], None) (read_journal_file (dk_journal d) (so_max_record_payload opts)) = Inr y)"
  by (auto simp: store_open_def bindE_def Let_def split: sum.splits prod.splits)

lemma read_frames_not_missing: "read_frames m off l bs \<noteq> Inl ENotFound"
proof (induction "length bs" arbitrary: off l bs rule: less_induct)
  case less
  let ?len = "unat (get_u32 (drop 4 bs))"
  have rec: "read_frames m off' l' (drop ?len bs) \<noteq> Inl ENotFound" if "bs \<noteq> []" "\<not> ?len < kJournalHeaderBytes" for off' l'
    using less [of "drop ?len bs"] that by (simp add: kJournalHeaderBytes_def)
  show ?case
    by (subst read_frames.simps) (simp add: Let_def bindE_def split: sum.split, metis rec)
qed

lemma read_journal_missing: "read_journal_file f m = Inl ENotFound \<longleftrightarrow> f = None"
  using read_frames_not_missing by (auto simp: read_journal_file_def read_all_def bindE_def split: option.splits)

text \<open>C20: The inspector's verdict is the store's. It exits with 0 exactly when there is a journal, the store with its default
  options opens on these files, and every journal record decodes under the kind of its frame; every other inspection
  exits with 2, in particular that of a store without a journal, which opens.
\<close>

theorem inspect_verdict:
  "snd (inspect print_records print_reservations limit d) =
     (if dk_journal d \<noteq> None \<and> (\<exists>st report. store_open default_options d = Inr (st, report)) \<and>
         journal_decodes d
      then 0 else 2)"
proof (cases "read_journal_file (dk_journal d) (4 * 1024 * 1024)")
  case (Inl e)
  then have "\<not> (\<exists>y. not_missing ([], None) (read_journal_file (dk_journal d) (so_max_record_payload default_options)) = Inr y) \<or>
      dk_journal d = None"
    using read_journal_missing [of "dk_journal d" "4 * 1024 * 1024"] by (auto simp: default_options_def not_missing_def)
  with Inl show ?thesis by (auto simp: inspect_def store_opens split: prod.splits)
next
  case (Inr p)
  obtain rs torn where p: "p = (rs, torn)" by (cases p)
  have "dk_journal d \<noteq> None" using Inr read_journal_missing [of "dk_journal d" "4 * 1024 * 1024"] by auto
  moreover have "(\<exists>st report. store_open default_options d = Inr (st, report)) \<longleftrightarrow> snd (inspect_snapshot d) = 0"
    using Inr by (simp add: store_opens snapshot_problems default_options_def not_missing_def)
  moreover have "filter (\<lambda>r. \<not> decodes r) rs = [] \<longleftrightarrow> list_all decodes rs"
    by (simp add: filter_empty_conv list_all_iff)
  ultimately show ?thesis
    using Inr p by (auto simp: inspect_def Let_def inspected_problems journal_decodes_def default_options_def split: prod.splits)
qed

end
