(* ===== verification/Brf_Host.thy ===== *)
theory Brf_Host
  imports Brf_Store
begin

text \<open>
  What the program takes from its host: the guarded system clock and the manual clock (\<^verbatim>\<open>include/brf/clock.hpp\<close>,
  \<^verbatim>\<open>src/clock.cpp\<close>), random identities (\<^verbatim>\<open>src/identity.cpp\<close>) and the identity file of a store
  (\<^verbatim>\<open>src/store.cpp\<close>, \<^verbatim>\<open>src/coordinator_core.cpp\<close>). The readings of the host's clocks and of its entropy source are
  arguments.

  The lemmas show that the reported time never goes back, whatever the host's clock does and however the threads that
  read it interleave, and that a store keeps the identity it was created with.
\<close>

subsection \<open>The system clock\<close>

text \<open>
  A thread in \<^verbatim>\<open>SystemClock::now\<close>: it has read the host's clock (\<open>ReadHost\<close> with the reading, negative ones raised to
  zero), it is in the loop with a value of \<^verbatim>\<open>last_\<close> it has observed, or it has returned. \<open>compare_exchange_weak\<close> may
  fail without a reason; when it fails it reloads the observed value.
\<close>

datatype clock_thread =
    ReadHost (host_reading: int)
  | Guarding (host_reading: int) (observed_last: int)
  | Returned (host_reading: int) (reported: timestamp)

definition host_time :: "int \<Rightarrow> int" where
  "host_time nanos = (if nanos < 0 then 0 else nanos)"

inductive clock_step :: "clock_thread \<Rightarrow> int \<Rightarrow> clock_thread \<Rightarrow> int \<Rightarrow> bool" where
  load: "clock_step (ReadHost current) m (Guarding current m) m"
| skip: "\<not> current > observed \<Longrightarrow>
    clock_step (Guarding current observed) m (Returned current (if observed > current then observed else current)) m"
| exchange: "current > observed \<Longrightarrow> observed = m \<Longrightarrow>
    clock_step (Guarding current observed) m (Returned current (if observed > current then observed else current)) current"
| retry: "current > observed \<Longrightarrow> clock_step (Guarding current observed) m (Guarding current m) m"

inductive_cases clock_stepE: "clock_step t m t' m1"

text \<open>Several threads share \<^verbatim>\<open>last_\<close>; a call begins by reading the host's clock.\<close>

inductive clock_run :: "clock_thread list \<Rightarrow> int \<Rightarrow> clock_thread list \<Rightarrow> int \<Rightarrow> bool" for ts0 m0 where
  rest: "clock_run ts0 m0 ts0 m0"
| thread: "clock_run ts0 m0 ts m \<Longrightarrow> i < length ts \<Longrightarrow> clock_step (ts ! i) m t m1 \<Longrightarrow>
    clock_run ts0 m0 (ts[i := t]) m1"
| called: "clock_run ts0 m0 ts m \<Longrightarrow> clock_run ts0 m0 (ts @ [ReadHost (host_time nanos)]) m"

text \<open>\<^verbatim>\<open>now\<close> when no other thread interferes.\<close>

definition system_now :: "int \<Rightarrow> timestamp \<Rightarrow> timestamp \<times> timestamp" where
  "system_now nanos m =
     (let current = host_time nanos
      in (if m > current then m else current, if current > m then current else m))"

definition manual_set :: "timestamp \<Rightarrow> timestamp \<Rightarrow> timestamp" where
  "manual_set ts now = ts"

definition manual_advance :: "duration \<Rightarrow> timestamp \<Rightarrow> timestamp" where
  "manual_advance d now = wrap_int64 (now + d)"

text \<open>What holds of a thread: what it observed was there, and what it returned is in \<^verbatim>\<open>last_\<close> or below it.\<close>

definition thread_ok :: "int \<Rightarrow> clock_thread \<Rightarrow> bool" where
  "thread_ok m t =
     (case t of
        ReadHost current \<Rightarrow> True
      | Guarding current observed \<Rightarrow> observed \<le> m
      | Returned current ts \<Rightarrow> ts \<le> m \<and> current \<le> ts)"

lemma thread_ok_mono: "thread_ok m t \<Longrightarrow> m \<le> m1 \<Longrightarrow> thread_ok m1 t"
  by (cases t) (auto simp: thread_ok_def)

lemma clock_step_ok: "clock_step t m t' m1 \<Longrightarrow> thread_ok m t \<Longrightarrow> m \<le> m1 \<and> thread_ok m1 t'"
  by (erule clock_stepE) (auto simp: thread_ok_def)

lemma clock_run_ok:
  "clock_run ts0 m0 ts m \<Longrightarrow> list_all (thread_ok m0) ts0 \<Longrightarrow> m0 \<le> m \<and> list_all (thread_ok m) ts"
proof (induction rule: clock_run.induct)
  case (thread ts m i t m1)
  then have "m \<le> m1" "thread_ok m1 t" using clock_step_ok [of "ts ! i" m t m1] by (auto simp: list_all_length)
  with thread show ?case
    by (auto simp: list_all_length nth_list_update intro: thread_ok_mono)
next
  case (called ts m nanos)
  then show ?case by (simp add: thread_ok_def)
qed simp

text \<open>A loaded value is at least what the memory held when the call began.\<close>

definition since :: "int \<Rightarrow> clock_thread \<Rightarrow> bool" where
  "since floor t =
     (case t of ReadHost current \<Rightarrow> True | Guarding current observed \<Rightarrow> floor \<le> observed | Returned current ts \<Rightarrow> floor \<le> ts)"

lemma clock_step_since: "clock_step t m t' m1 \<Longrightarrow> floor \<le> m \<Longrightarrow> since floor t \<Longrightarrow> since floor t'"
  by (erule clock_stepE) (auto simp: since_def)

lemma clock_run_since:
  assumes "clock_run ts0 m0 ts m" and "list_all (thread_ok m0) ts0"
    and "floor \<le> m0" and "k \<le> length ts0" and "\<forall>j. k \<le> j \<and> j < length ts0 \<longrightarrow> since floor (ts0 ! j)"
  shows "length ts0 \<le> length ts \<and> (\<forall>j. k \<le> j \<and> j < length ts \<longrightarrow> since floor (ts ! j))"
  using assms(1)
proof (induction rule: clock_run.induct)
  case (thread ts m i t m1)
  have "floor \<le> m" using clock_run_ok [OF thread.hyps(1) assms(2)] assms(3) by simp
  then have "since floor (ts ! i) \<Longrightarrow> since floor t" by (rule clock_step_since [OF thread.hyps(3)])
  with thread show ?case by (auto simp: nth_list_update)
next
  case (called ts m nanos)
  then show ?case by (auto simp: nth_append since_def less_Suc_eq)
qed (use assms(5) in simp)

text \<open>C21: The clock never runs backwards: a call that returned before another one began reported no later instant, for any
  readings of the host's clock and any interleaving of the threads at their loads and exchanges, spurious failures of
  the exchange included.
\<close>

theorem clock_never_back:
  assumes "clock_run [] m0 ts m" and "i < length ts" and "ts ! i = Returned c now"
    and "clock_run ts m ts' m1" and "length ts \<le> j" and "j < length ts'" and "ts' ! j = Returned c' now'"
  shows "now \<le> now'"
proof -
  have ok: "list_all (thread_ok m) ts" using clock_run_ok [OF assms(1)] by simp
  then have "now \<le> m" using assms(2,3) by (auto simp: list_all_length thread_ok_def)
  moreover have "since m (ts' ! j)" using clock_run_since [OF assms(4) ok order_refl order_refl] assms(5,6) by (metis leD)
  ultimately show ?thesis using assms(7) by (simp add: since_def)
qed

lemma clock_exchanges: "m < c \<Longrightarrow> clock_step (Guarding c m) m (Returned c c) c"
  using clock_step.exchange [of m c m] by simp

lemma clock_skips: "c \<le> m \<Longrightarrow> clock_step (Guarding c m) m (Returned c m) m"
  using clock_step.skip [of m c m] by (cases "m = c") simp_all

lemma clock_call:
  assumes "clock_run ts0 m0 ts m" and "m < c" and "0 \<le> c"
  shows "clock_run ts0 m0 (ts @ [Returned c c]) c"
proof -
  have "clock_run ts0 m0 (ts @ [ReadHost (host_time c)]) m" using assms(1) by (rule clock_run.called)
  then have "clock_run ts0 m0 ((ts @ [ReadHost (host_time c)])[length ts := Guarding c m]) m"
    by (rule clock_run.thread) (use assms(3) in \<open>simp_all add: host_time_def clock_step.load\<close>)
  then have "clock_run ts0 m0 (ts @ [Guarding c m]) m" by simp
  then have "clock_run ts0 m0 ((ts @ [Guarding c m])[length ts := Returned c c]) c"
    by (rule clock_run.thread) (use assms(2) in \<open>simp_all add: clock_exchanges\<close>)
  then show ?thesis by simp
qed

lemma clock_call_back:
  assumes "clock_run ts0 m0 ts m" and "c \<le> m" and "0 \<le> c"
  shows "clock_run ts0 m0 (ts @ [Returned c m]) m"
proof -
  have "clock_run ts0 m0 (ts @ [ReadHost (host_time c)]) m" using assms(1) by (rule clock_run.called)
  then have "clock_run ts0 m0 ((ts @ [ReadHost (host_time c)])[length ts := Guarding c m]) m"
    by (rule clock_run.thread) (use assms(3) in \<open>simp_all add: host_time_def clock_step.load\<close>)
  then have "clock_run ts0 m0 (ts @ [Guarding c m]) m" by simp
  then have "clock_run ts0 m0 ((ts @ [Guarding c m])[length ts := Returned c m]) m"
    by (rule clock_run.thread) (use assms(2) in \<open>simp_all add: clock_skips\<close>)
  then show ?thesis by simp
qed

theorem clock_never_back_witness:
  "clock_run [] 0 [Returned 9 9] 9 \<and> clock_run [Returned 9 9] 9 [Returned 9 9, Returned 4 9] 9 \<and> (9 :: int) \<le> 9"
proof -
  have first: "clock_run [] 0 [Returned 9 9] 9" using clock_call [OF clock_run.rest, of 0 9 "[]"] by simp
  moreover have second: "clock_run [Returned 9 9] 9 [Returned 9 9, Returned 4 9] 9"
    using clock_call_back [OF clock_run.rest, of 4 9 "[Returned 9 9]"] by simp
  ultimately show ?thesis using clock_never_back [OF first _ _ second, of 0 9 9 1 4 9] by simp
qed

lemma system_now_monotone:
  "system_now nanos m = (now, m1) \<Longrightarrow> m \<le> now \<and> m1 = now \<and> 0 \<le> now \<or> m < 0"
  by (auto simp: system_now_def host_time_def Let_def split: if_splits)

subsection \<open>Random identities\<close>

text \<open>The entropy words, the clock's stamp and the process-wide sequence number are arguments.\<close>

definition random_identity :: "u32 list \<Rightarrow> u64 \<Rightarrow> u64 \<Rightarrow> identity" where
  "random_identity device stamp sequence =
     fingerprint128 (map (\<lambda>w. ucast (w AND 255)) (take 16 device) @
       map (\<lambda>i. ucast (drop_bit (8 * i) (stamp XOR (sequence * 0x9E3779B97F4A7C15)) AND 255)) [0..<8])"

subsection \<open>The identity of a store\<close>

definition strip_newlines :: "string \<Rightarrow> string" where
  "strip_newlines text = rev (dropWhile (\<lambda>c. c = CHR 0x0A \<or> c = CHR 0x0D) (rev text))"

text \<open>
  \<^verbatim>\<open>Store::open\<close> creates the file when there is none and checks it otherwise; it returns what the file holds then. \<open>fresh\<close>
  is the text the new identity is derived from. \<^verbatim>\<open>read_store_identity\<close> reads the first line when the coordinator opens.
\<close>

definition open_store_identity :: "string \<Rightarrow> string option \<Rightarrow> string result" where
  "open_store_identity fresh stored =
     (case stored of
        None \<Rightarrow> Inr (to_hex (fingerprint128 (text_bytes fresh)) @ [CHR 0x0A])
      | Some text \<Rightarrow>
          if length text > 128 then Inl EResourceExhausted
          else (case from_hex (strip_newlines text) of Inl _ \<Rightarrow> Inl ECorrupt | Inr _ \<Rightarrow> Inr text))"

definition read_store_identity :: "string option \<Rightarrow> identity result" where
  "read_store_identity stored =
     (case stored of
        None \<Rightarrow> Inl ENotFound
      | Some text \<Rightarrow> from_hex (strip_newlines (takeWhile (\<lambda>c. c \<noteq> CHR 0x0A) text)))"

lemma bytes_of_hex_digits:
  "bytes_of_hex h = Inr bs \<Longrightarrow> even (length h) \<Longrightarrow> c \<in> set h \<Longrightarrow> hex_value c \<noteq> None"
  by (induction h arbitrary: bs rule: bytes_of_hex.induct) (auto simp: bindE_Inr_iff split: option.splits)

lemma from_hex_plain:
  assumes "from_hex h = Inr i" and "c \<in> set h"
  shows "c \<noteq> CHR 0x0A \<and> c \<noteq> CHR 0x0D"
proof -
  obtain bs where "bytes_of_hex h = Inr bs" "length h = 32"
    using assms(1) by (auto simp: from_hex_def bindE_Inr_iff split: if_splits)
  then have "hex_value c \<noteq> None" using assms(2) bytes_of_hex_digits [of h bs c] by simp
  then show ?thesis by (auto simp: hex_value_def less_eq_char_def)
qed

lemma strip_newlines_parts:
  obtains tail where "text = strip_newlines text @ tail" and "\<forall>c \<in> set tail. c = CHR 0x0A \<or> c = CHR 0x0D"
proof
  let ?nl = "\<lambda>c :: char. c = CHR 0x0A \<or> c = CHR 0x0D"
  show "text = strip_newlines text @ rev (takeWhile ?nl (rev text))"
    by (simp add: strip_newlines_def flip: rev_append)
  show "\<forall>c \<in> set (rev (takeWhile ?nl (rev text))). ?nl c" by (auto dest: set_takeWhileD)
qed

lemma strip_newlines_ending:
  assumes "\<forall>c \<in> set h. c \<noteq> CHR 0x0A \<and> c \<noteq> CHR 0x0D" and "\<forall>c \<in> set tail. c = CHR 0x0A \<or> c = CHR 0x0D"
  shows "strip_newlines (h @ tail) = h"
proof -
  let ?nl = "\<lambda>c :: char. c = CHR 0x0A \<or> c = CHR 0x0D"
  have "dropWhile ?nl (rev tail @ rev h) = dropWhile ?nl (rev h)" using assms(2) by (intro dropWhile_append2) simp
  moreover have "dropWhile ?nl (rev h) = rev h"
  proof (cases "rev h")
    case (Cons c cs)
    then have "c \<in> set h" by (metis list.set_intros(1) set_rev)
    with assms(1) Cons show ?thesis by simp
  qed simp
  ultimately show ?thesis by (simp add: strip_newlines_def)
qed

text \<open>
  Whatever file the store accepts, the coordinator reads an identity from it, the store leaves it as it is from then on,
  and a new store keeps the identity it was created with.
\<close>

lemma store_identity_stable:
  assumes "open_store_identity fresh stored = Inr text"
  shows "\<exists>i. read_store_identity (Some text) = Inr i \<and> open_store_identity fresh' (Some text) = Inr text \<and>
    (stored = None \<longrightarrow> i = fingerprint128 (text_bytes fresh))"
proof -
  obtain i where i: "from_hex (strip_newlines text) = Inr i" "length text \<le> 128"
    "stored = None \<longrightarrow> i = fingerprint128 (text_bytes fresh)"
  proof (cases stored)
    case None
    let ?h = "to_hex (fingerprint128 (text_bytes fresh))"
    have created: "text = ?h @ [CHR 0x0A]" using assms None by (simp add: open_store_identity_def)
    have "strip_newlines text = ?h"
      unfolding created using from_hex_plain [OF hex_roundtrip] by (intro strip_newlines_ending) auto
    with created show ?thesis using that [of "fingerprint128 (text_bytes fresh)"] by (simp add: hex_roundtrip length_to_hex)
  next
    case (Some t)
    then show ?thesis using assms that by (auto simp: open_store_identity_def split: if_splits sum.splits)
  qed
  obtain tail where t: "text = strip_newlines text @ tail" "\<forall>c \<in> set tail. c = CHR 0x0A \<or> c = CHR 0x0D"
    by (rule strip_newlines_parts)
  note plain = from_hex_plain [OF i(1)]
  have "takeWhile (\<lambda>c. c \<noteq> CHR 0x0A) text = strip_newlines text @ takeWhile (\<lambda>c. c \<noteq> CHR 0x0A) tail"
    by (subst t(1)) (simp add: plain)
  moreover have "strip_newlines (strip_newlines text @ takeWhile (\<lambda>c. c \<noteq> CHR 0x0A) tail) = strip_newlines text"
    using plain t(2) by (intro strip_newlines_ending) (auto dest: set_takeWhileD)
  ultimately have "read_store_identity (Some text) = Inr i" using i(1) by (simp add: read_store_identity_def)
  then show ?thesis using i by (simp add: open_store_identity_def)
qed

end
