(* ===== verification/Brf_Transport.thy ===== *)
theory Brf_Transport
  imports Brf_Protocol
begin

text \<open>
  The byte loops of \<^verbatim>\<open>src/transport.cpp\<close>. The operating system decides how much one call of \<^verbatim>\<open>send\<close> or
  \<^verbatim>\<open>recv\<close> moves: a list gives the outcomes of the successive calls, and calls beyond the list move all they are
  asked for. The lemmas show that the pieces do not matter: reading is \<open>receive_exact\<close> of \<open>Brf_Protocol\<close>, and what has
  been sent is a first part of the data, all of it when sending succeeds.
\<close>

subsection \<open>Receiving\<close>

text \<open>
  One \<^verbatim>\<open>recv\<close>: an error, or at least one byte if there is any and at most \<open>size\<close>; nothing when the peer has closed.
\<close>

fun receive_some :: "nat option \<Rightarrow> nat \<Rightarrow> bytes reader" where
  "receive_some None n stream = Inl EIo"
| "receive_some (Some k) n stream = Inr (take (min (max 1 k) n) stream, drop (min (max 1 k) n) stream)"

fun receive_loop :: "nat option list \<Rightarrow> nat \<Rightarrow> bytes reader" where
  "receive_loop [] n stream = receive_exact n stream"
| "receive_loop (c # cs) n stream =
     (if n = 0 then Inr ([], stream)
      else bindE (receive_some c n stream) (\<lambda>(chunk, rest).
        if chunk = [] then Inl ECancelled
        else bindE (receive_loop cs (n - length chunk) rest) (\<lambda>(more, rest'). Inr (chunk @ more, rest'))))"

lemma receive_exact_split:
  assumes "0 < m" and "m \<le> n"
  shows "(if take m stream = [] then Inl ECancelled
     else bindE (receive_exact (n - length (take m stream)) (drop m stream)) (\<lambda>(more, rest'). Inr (take m stream @ more, rest'))) =
    receive_exact n stream"
proof (cases "length stream < m")
  case True
  with assms have short: "take m stream = stream" "drop m stream = []" "length stream < n" by simp_all
  show ?thesis unfolding short(1,2) using short(3) by (simp add: receive_exact_def bindE_def)
next
  case False
  then have got: "length (take m stream) = m" "take m stream \<noteq> []" using assms(1) by auto
  have "take m stream @ take (n - m) (drop m stream) = take n stream"
    using assms(2) take_add [of m "n - m" stream] by simp
  then show ?thesis using got False assms(2) by (simp add: receive_exact_def bindE_def less_diff_conv2)
qed

lemma receive_loop_exact: "None \<notin> set cs \<Longrightarrow> receive_loop cs n stream = receive_exact n stream"
proof (induction cs arbitrary: n stream)
  case (Cons c cs)
  then obtain k where c: "c = Some k" by (cases c) auto
  have IH: "receive_loop cs n' rest = receive_exact n' rest" for n' rest using Cons by simp
  show ?case
  proof (cases "n = 0")
    case False
    have bind: "bindE (Inr (x, y)) f = f (x, y)" for x :: bytes and y :: bytes and f :: "bytes \<times> bytes \<Rightarrow> (bytes \<times> bytes) result"
      by (simp add: bindE_def)
    obtain m where m: "min (max 1 k) n = m" "0 < m" "m \<le> n" using False by (cases "min (max 1 k) n") auto
    show ?thesis
      using receive_exact_split [OF m(2,3), of stream] False
      by (simp only: receive_loop.simps receive_some.simps c IH bind m(1) prod.case if_False)
  qed (simp add: receive_exact_def)
qed simp

subsection \<open>Sending\<close>

text \<open>One \<^verbatim>\<open>send\<close> reports how many bytes it took; none or a negative number is a failure.\<close>

fun send_all :: "int list \<Rightarrow> bytes \<Rightarrow> status \<times> bytes" where
  "send_all outcomes [] = (Inr (), [])"
| "send_all [] data = (Inr (), data)"
| "send_all (n # ns) data =
     (if n \<le> 0 then (Inl EIo, [])
      else case send_all ns (drop (nat n) data) of (r, sent) \<Rightarrow> (r, take (nat n) data @ sent))"

lemma send_all_prefix:
  "send_all outcomes data = (r, sent) \<Longrightarrow> take (length sent) data = sent \<and> (r = Inr () \<longrightarrow> sent = data)"
proof (induction outcomes data arbitrary: r sent rule: send_all.induct)
  case (3 n ns b bs)
  show ?case
  proof (cases "n \<le> 0")
    case False
    obtain r' sent' where rec: "send_all ns (drop (nat n) (b # bs)) = (r', sent')"
      by (cases "send_all ns (drop (nat n) (b # bs))")
    have IH: "take (length sent') (drop (nat n) (b # bs)) = sent' \<and> (r' = Inr () \<longrightarrow> sent' = drop (nat n) (b # bs))"
      using "3.IH" [OF False rec] .
    have eq: "r = r'" "sent = take (nat n) (b # bs) @ sent'" using "3.prems" False rec by auto
    have "take (length sent) (b # bs) = sent"
    proof (cases "nat n \<le> length (b # bs)")
      case True
      with IH show ?thesis unfolding eq by (simp only: length_append length_take min_absorb2 take_add)
    next
      case False
      then have "sent' = []" using IH by simp
      with False show ?thesis unfolding eq by simp
    qed
    with IH eq show ?thesis by (metis append_take_drop_id)
  qed (use "3.prems" in auto)
qed auto

end
