(* ===== verification/Spec2Isabelle.thy ===== *)
theory Spec2Isabelle
  imports Brf_Faults Brf_Probe Brf_Inspect Brf_Host Brf_Transport
begin

text \<open>
  Verification of the Bandwidth Reservation Fabric.

  The program is a coordinator that admits reservations of bandwidth on named resources over time intervals. A
  claimant asks for an amount on a set of resources or on a path; the coordinator binds the request to the current
  generations of the authority it was given (capacity, paths, policies), evaluates it against an index of everything
  already committed or held, writes the outcome to a journal, and only then changes its memory. Reservations then
  live by a state machine driven by requests and by time, until they end and are retired. After a crash the
  state is rebuilt from a snapshot and the journal.

  \<^bold>\<open>Parts and theories.\<close>
  \<^item> Values: \<open>Brf_Error\<close> (\<^verbatim>\<open>error.cpp\<close>), \<open>Brf_Identity\<close> (\<^verbatim>\<open>identity.cpp\<close>), \<open>Brf_Bandwidth\<close>
    (\<^verbatim>\<open>bandwidth.cpp\<close>), \<open>Brf_Time\<close> (\<^verbatim>\<open>time.cpp\<close>), \<open>Brf_Hash\<close> (\<^verbatim>\<open>hash.cpp\<close>).
    \<open>Brf_Prelude\<close> has the shared vocabulary: results as sums, operations with state and errors, sorting.
    \<open>Brf_Map\<close> is \<^verbatim>\<open>std::map\<close> and \<^verbatim>\<open>std::multimap\<close> as lists in iteration order, under the locale
    \<open>key_map\<close>.
  \<^item> Authority: \<open>Brf_Authority\<close> (\<^verbatim>\<open>authority.cpp\<close>), \<open>Brf_Policy\<close> (\<^verbatim>\<open>policy.cpp\<close>), \<open>Brf_Capacity\<close>
    (\<^verbatim>\<open>capacity.cpp\<close>), \<open>Brf_Reservation\<close> (\<^verbatim>\<open>reservation.cpp\<close>), \<open>Brf_Outcome\<close> (\<^verbatim>\<open>outcome.cpp\<close>).
    The three authority tables keep the contract of the locale \<open>generation_registry\<close> of \<open>Brf_Registry\<close>:
    what is in force never goes back to an older generation.
  \<^item> The index: \<open>Brf_Segment_Tree\<close> and \<open>Brf_Interval_Index\<close> are the lazy segment tree of \<^verbatim>\<open>index.cpp\<close>,
    \<open>Brf_Index\<close> the capacity index over it. Abstractly the first is a multiset of intervals with amounts, the
    second a map from holder and resource to an entry; both are shown to refine these.
  \<^item> Encoding: \<open>Brf_Wire\<close> (\<^verbatim>\<open>wire.cpp\<close>), \<open>Brf_Codec\<close> and \<open>Brf_Durable\<close> (\<^verbatim>\<open>codec.cpp\<close>). Every
    encoder and decoder is an interpretation of the locale \<open>codec\<close>: decoding undoes encoding and nothing else
    decodes.
  \<^item> The store: \<open>Brf_Store\<close> (\<^verbatim>\<open>store.cpp\<close>): journal, snapshots, recovery, and what crashes and failed writes
    leave behind. The files are byte lists; a write may be cut at any byte.
  \<^item> The coordinator: \<open>Brf_Coordinator\<close> has the state of \<^verbatim>\<open>coordinator_impl.hpp\<close> as one record and the
    bookkeeping of \<^verbatim>\<open>coordinator_core.cpp\<close> and \<^verbatim>\<open>coordinator_records.cpp\<close>; \<open>Brf_Admission\<close> and
    \<open>Brf_Commit\<close> are \<^verbatim>\<open>coordinator_admission.cpp\<close> (evaluation; commit, preemption, series, amendment);
    \<open>Brf_Lifecycle\<close> is \<^verbatim>\<open>coordinator_lifecycle.cpp\<close>, \<^verbatim>\<open>coordinator_overcommit.cpp\<close> and the boot;
    \<open>Brf_Recovery\<close> the snapshot and the replay; \<open>Brf_Ops\<close> \<^verbatim>\<open>coordinator_ops.cpp\<close> and ingestion;
    \<open>Brf_Query\<close> \<^verbatim>\<open>coordinator_query.cpp\<close> with the audit.
  \<^item> The network: \<open>Brf_Protocol\<close> is the requests of \<^verbatim>\<open>protocol.cpp\<close> and the frame reader and writer of
    \<^verbatim>\<open>transport.cpp\<close>, \<open>Brf_Transport\<close> the loops around \<^verbatim>\<open>send\<close> and \<^verbatim>\<open>recv\<close>, \<open>Brf_Responses\<close> the
    responses with the results and reports they carry. \<open>Brf_Server\<close> is the session of
    \<^verbatim>\<open>tools/brf_coordinator.cpp\<close>, whose handlers give a \<open>reply\<close> without texts; \<open>Brf_Exchange\<close> turns replies into
    responses, sends them, and lets several sessions interleave on the shared coordinator.
  \<^item> The tools: \<open>Brf_Probe\<close> is the client \<^verbatim>\<open>tools/brf_probe.cpp\<close>, with its command line and the requests its commands
    build; \<open>Brf_Inspect\<close> is \<^verbatim>\<open>tools/brf_inspect.cpp\<close>.
  \<^item> The host: \<open>Brf_Host\<close> is \<^verbatim>\<open>clock.cpp\<close>, with the threads that share the guard of the system clock as a step
    relation, the random identities and the identity file of a store.

  \<^bold>\<open>How the state is modelled.\<close> An operation of the coordinator maps a state to an error code or a value, and a
  state, so that what an operation did before it failed is kept. Requests run under one mutex in the source and are
  therefore single steps. The clock readings and the outcomes of writes are lists the state carries. A reference to a
  record is the record read from the record map, and writing through it is \<open>put_record\<close>. The entries a
  \<^verbatim>\<open>Suspension\<close> takes out of the index are a list next to the coordinator, put back when its scope ends
  without a commit. Unsigned integers are words and wrap; signed 64-bit values are integers, with the range shown
  where the code relies on it and the wrap-around written out where the code can leave it.

  \<^bold>\<open>What is shown.\<close>
  \<^item> Index: the segment tree answers peaks exactly after any history, and the capacity index refines its map.
  \<^item> Admission: an assessment is committable exactly when every bound resource closes; a resolved binding is
    well-formed; and a commit, with holds, preemption and series, leaves every instant of every bound resource
    within its limit (\<open>Brf_Closure\<close>). The latter assumes limits below the largest bandwidth, at which sums
    saturate, that the member identities derived by hashing do not collide, and that indexed identities are known.
  \<^item> Lifecycle: \<open>Brf_Invariant\<close> states the invariant \<open>coord_ok\<close>, the state machine \<open>legal_step\<close> and the
    relation \<open>life\<close>; \<open>Brf_Lifecycle_Proofs\<close>, \<open>Brf_Requests\<close>, \<open>Brf_Commit_Life\<close> and \<open>Brf_Amend_Life\<close>
    show what each operation does to them; \<open>Brf_Runs\<close> concludes for whole runs of the public interface. The
    locales \<open>step_preorder\<close>, \<open>transition_relation\<close> and \<open>commit_relation\<close> carry these proofs for the
    relations they are interpreted with. Time reconciliation leaves no deadline behind.
  \<^item> Durability: after a crash in the middle of an append exactly the acknowledged records are recovered; corruption of a
    byte is detected; the reader of the journal is total; every durable record and snapshot reads back.
  \<^item> Network: frames, requests and responses read back and nothing else decodes; a remote call is the local call, seen
    from the client; a session performs exactly the requests of its frames, and interleaved sessions perform some one
    sequence of them that keeps each session's order, so that the lifecycle invariant holds behind the network.
  \<^item> Tools and host: the exit code of the probe's commit tells what the coordinator did; the exit code of the inspector
    is 0 exactly when the store would open and every record decodes; the system clock never runs backwards.
  \<^item> Faults: \<open>Brf_Faults\<close> and the theorems of kind error elsewhere show where the code does not do what it means
    to do.

  \<^bold>\<open>Bounds.\<close> The loops of the source keep their bounds: 4096 hops of a lineage walk, 4097 revocations of an
  overcommit resolution, 64 retirements at a time. The decimal, hexadecimal and series loops recurse on their data.
  The frame loop of a session and the journal reader consume their input. Runs assume that no 64-bit
  generation counter is exhausted (\<open>generations_left\<close>); runs contain the requests that succeed and the
  refusals that leave the core alone after their time reconciliation, not requests that fail half-way through a change
  of the index. The load theorems keep every accounted sum below \<open>load_bound\<close>, so that
  the 64-bit arithmetic of the index is exact.

  \<^bold>\<open>Not modelled.\<close> Error messages and explanation texts: the coordinator's operations leave them out, and the
  responses carry them as an argument (\<open>sx_text\<close>), because what they say depends on formatting and nothing is decided by
  them. Opening, accepting and closing sockets, socket options, the creation of directories and the other calls of the
  operating system; the argument parsing of the server, its accept loop, its shutdown and its printed lines; the lines
  the probe prints and the hour a hanging command sleeps; the readings of the host's clocks and random numbers, which
  are inputs; the constant version strings; the benchmark and the examples, which only time and print calls of the
  modelled interface. These are system calls, printing or constants.
\<close>

end
